(* ===== verification/Prelude.thy ===== *)
theory Prelude
  imports Main "HOL-Library.Word" "HOL-Library.Multiset"
begin

text \<open>
  Prelude of the development: the result type and its sequencing, JavaScript's stable
  \<open>Array.prototype.sort\<close> with the interface of a comparator function, and the handful of
  SQL statements the gateway runs against its SQLite tables, modelled on lists of rows in
  rowid order.  The named collections declared here gather the facts that the component
  theories hand to the simplifier.
\<close>

named_theorems table_simps \<open>effect of one SQL statement, one equation per statement\<close>
named_theorems handler_defs \<open>definitions of request handlers, unfolded together\<close>
named_theorems check_iffs \<open>when a field check of a validator succeeds\<close>

section \<open>Results\<close>

text \<open>
  A function of the source that may throw returns \<open>error + 'a\<close>.  \<open>and_then\<close> is the
  sequencing of two statements: the first exception ends the computation.
\<close>

fun and_then :: "'e + 'a \<Rightarrow> ('a \<Rightarrow> 'e + 'b) \<Rightarrow> 'e + 'b" where
  "and_then (Inl e) f = Inl e"
| "and_then (Inr a) f = f a"

lemma and_then_Inr_iff: "and_then r f = Inr b \<longleftrightarrow> (\<exists>a. r = Inr a \<and> f a = Inr b)"
  by (cases r) auto

lemma and_then_Inl_iff:
  "and_then r f = Inl e \<longleftrightarrow> r = Inl e \<or> (\<exists>a. r = Inr a \<and> f a = Inl e)"
  by (cases r) auto

lemma and_then_cong [fundef_cong]:
  "r = r' \<Longrightarrow> (\<And>a. r' = Inr a \<Longrightarrow> f a = g a) \<Longrightarrow> and_then r f = and_then r' g"
  by (cases r') auto

text \<open>Mapping a throwing function over an array: the first exception wins.\<close>

fun map_result :: "('a \<Rightarrow> 'e + 'b) \<Rightarrow> 'a list \<Rightarrow> 'e + 'b list" where
  "map_result f [] = Inr []"
| "map_result f (x # xs) =
     and_then (f x) (\<lambda>y. and_then (map_result f xs) (\<lambda>ys. Inr (y # ys)))"

lemma map_result_cong [fundef_cong]:
  "xs = ys \<Longrightarrow> (\<And>x. x \<in> set ys \<Longrightarrow> f x = g x) \<Longrightarrow> map_result f xs = map_result g ys"
proof (induction ys arbitrary: xs)
  case Nil
  then show ?case by simp
next
  case (Cons y ys)
  from Cons.IH [OF refl] Cons.prems(2) have "map_result f ys = map_result g ys" by simp
  moreover from Cons.prems(2) have "f y = g y" by simp
  ultimately show ?case using Cons.prems(1) by simp
qed

lemma map_result_Inr_iff:
  "map_result f xs = Inr ys \<longleftrightarrow> list_all2 (\<lambda>x y. f x = Inr y) xs ys"
  by (induction xs arbitrary: ys) (auto simp: and_then_Inr_iff list_all2_Cons1)

lemma map_result_length: "map_result f xs = Inr ys \<Longrightarrow> length ys = length xs"
  by (auto simp: map_result_Inr_iff dest: list_all2_lengthD)

lemma map_result_total:
  "(\<And>x. x \<in> set xs \<Longrightarrow> f x = Inr (g x)) \<Longrightarrow> map_result f xs = Inr (map g xs)"
  by (induction xs) auto

section \<open>Stable sorting with a comparator\<close>

text \<open>
  \<open>Array.prototype.sort\<close> is stable (ECMAScript 2019): elements whose comparison is 0 keep
  their order.  Inserting from the right, before the first element that is not smaller,
  gives that order for every comparator that satisfies the laws below.
\<close>

fun js_insert :: "('a \<Rightarrow> 'a \<Rightarrow> int) \<Rightarrow> 'a \<Rightarrow> 'a list \<Rightarrow> 'a list" where
  "js_insert cmp x [] = [x]"
| "js_insert cmp x (y # ys) = (if cmp x y \<le> 0 then x # y # ys else y # js_insert cmp x ys)"

fun js_sort :: "('a \<Rightarrow> 'a \<Rightarrow> int) \<Rightarrow> 'a list \<Rightarrow> 'a list" where
  "js_sort cmp [] = []"
| "js_sort cmp (x # xs) = js_insert cmp x (js_sort cmp xs)"

lemma mset_js_insert [simp]: "mset (js_insert cmp x ys) = add_mset x (mset ys)"
  by (induction ys) auto

lemma mset_js_sort [simp]: "mset (js_sort cmp xs) = mset xs"
  by (induction xs) auto

lemma set_js_sort [simp]: "set (js_sort cmp xs) = set xs"
  by (metis mset_js_sort set_mset_mset)

lemma set_js_insert [simp]: "set (js_insert cmp x ys) = insert x (set ys)"
  by (metis mset_js_insert set_mset_add_mset_insert set_mset_mset)

lemma length_js_sort [simp]: "length (js_sort cmp xs) = length xs"
  by (metis mset_js_sort size_mset)

lemma js_insert_map:
  "js_insert cmp (f x) (map f ys) = map f (js_insert (\<lambda>a b. cmp (f a) (f b)) x ys)"
  by (induction ys) auto

lemma js_sort_map:
  "js_sort cmp (map f xs) = map f (js_sort (\<lambda>a b. cmp (f a) (f b)) xs)"
  by (induction xs) (auto simp: js_insert_map)

lemma list_all2_js_sort:
  assumes "list_all2 P xs ys" and "\<And>x y x' y'. P x y \<Longrightarrow> P x' y' \<Longrightarrow> c x x' = d y y'"
  shows "list_all2 P (js_sort c xs) (js_sort d ys)"
proof -
  have ins: "list_all2 P (js_insert c x xs) (js_insert d y ys)"
    if "P x y" "list_all2 P xs ys" for x y xs ys
    using that(2) by (induction rule: list_all2_induct) (auto simp: that(1) assms(2) [OF that(1)])
  show ?thesis using assms(1) by (induction rule: list_all2_induct) (auto simp: ins)
qed

lemma js_sort_cong:
  assumes "\<And>x y. x \<in> set xs \<Longrightarrow> y \<in> set xs \<Longrightarrow> c x y = d x y"
  shows "js_sort c xs = js_sort d xs"
proof -
  have "list_all2 (\<lambda>x y. x = y \<and> x \<in> set xs) xs xs"
    by (simp add: list_all2_same)
  then have "list_all2 (\<lambda>x y. x = y \<and> x \<in> set xs) (js_sort c xs) (js_sort d xs)"
    by (rule list_all2_js_sort) (auto simp: assms)
  then have "list_all2 (=) (js_sort c xs) (js_sort d xs)" by (rule list_all2_mono) simp
  then show ?thesis by (simp add: list.rel_eq)
qed

locale comparator =
  fixes cmp :: "'a \<Rightarrow> 'a \<Rightarrow> int"
  assumes cmp_flip: "cmp x y \<le> 0 \<longleftrightarrow> 0 \<le> cmp y x"
    and cmp_trans: "cmp x y \<le> 0 \<Longrightarrow> cmp y z \<le> 0 \<Longrightarrow> cmp x z \<le> 0"
begin

lemma cmp_refl: "cmp x x = 0"
  using cmp_flip [of x x] by linarith

lemma cmp_total: "cmp x y \<le> 0 \<or> cmp y x \<le> 0"
  using cmp_flip [of x y] by linarith

lemma cmp_zero_flip: "cmp x y = 0 \<longleftrightarrow> cmp y x = 0"
  using cmp_flip [of x y] cmp_flip [of y x] by linarith

lemma cmp_zero_left:
  assumes "cmp x y = 0"
  shows "cmp x z \<le> 0 \<longleftrightarrow> cmp y z \<le> 0"
  using assms cmp_trans [of x y z] cmp_trans [of y x z] cmp_zero_flip [of x y] by linarith

lemma sorted_insert:
  "sorted_wrt (\<lambda>a b. cmp a b \<le> 0) ys \<Longrightarrow> sorted_wrt (\<lambda>a b. cmp a b \<le> 0) (js_insert cmp x ys)"
proof (induction ys)
  case Nil
  then show ?case by simp
next
  case (Cons y ys)
  show ?case
  proof (cases "cmp x y \<le> 0")
    case True
    with Cons.prems show ?thesis by (auto intro: cmp_trans)
  next
    case False
    then have "cmp y x \<le> 0" using cmp_total by blast
    with Cons False show ?thesis by auto
  qed
qed

lemma sorted_sort: "sorted_wrt (\<lambda>a b. cmp a b \<le> 0) (js_sort cmp xs)"
  by (induction xs) (auto intro: sorted_insert)

lemma insert_front: "(\<And>y. y \<in> set ys \<Longrightarrow> cmp x y \<le> 0) \<Longrightarrow> js_insert cmp x ys = x # ys"
  by (cases ys) auto

lemma sort_of_sorted: "sorted_wrt (\<lambda>a b. cmp a b \<le> 0) xs \<Longrightarrow> js_sort cmp xs = xs"
  by (induction xs) (auto intro: insert_front)

lemma filter_insert:
  assumes "sorted_wrt (\<lambda>a b. cmp a b \<le> 0) ys"
  shows "filter (\<lambda>y. cmp k y = 0) (js_insert cmp x ys) =
    (if cmp k x = 0 then x # filter (\<lambda>y. cmp k y = 0) ys else filter (\<lambda>y. cmp k y = 0) ys)"
  using assms
proof (induction ys)
  case Nil
  then show ?case by simp
next
  case (Cons y ys)
  show ?case
  proof (cases "cmp k x = 0 \<and> \<not> cmp x y \<le> 0")
    case True
    then have "cmp k y \<noteq> 0" using cmp_zero_left [of k x y] by auto
    with True Cons show ?thesis by auto
  next
    case False
    with Cons show ?thesis by auto
  qed
qed

lemma sort_stable: "filter (\<lambda>y. cmp k y = 0) (js_sort cmp xs) = filter (\<lambda>y. cmp k y = 0) xs"
  by (induction xs) (auto simp: filter_insert sorted_sort)

text \<open>
  A sorted list is determined by its elements when no two different elements compare equal:
  the result of a sort does not depend on the order of its input.
\<close>

lemma sorted_unique:
  assumes "sorted_wrt (\<lambda>a b. cmp a b \<le> 0) xs" and "sorted_wrt (\<lambda>a b. cmp a b \<le> 0) ys"
    and "mset xs = mset ys"
    and "\<And>a b. a \<in> set xs \<Longrightarrow> b \<in> set xs \<Longrightarrow> cmp a b = 0 \<Longrightarrow> a = b"
  shows "xs = ys"
  using assms
proof (induction xs arbitrary: ys)
  case Nil
  then show ?case by simp
next
  case (Cons x xs)
  then obtain y ys' where ys: "ys = y # ys'" by (cases ys) auto
  have mem: "set (x # xs) = set (y # ys')"
    using Cons.prems(3) ys by (metis set_mset_mset)
  have "y \<in> set (x # xs)" and "x \<in> set (y # ys')" using mem by auto
  then have "cmp x y \<le> 0" and "cmp y x \<le> 0"
    using Cons.prems(1,2) ys cmp_refl by auto
  then have "cmp x y = 0" using cmp_flip [of y x] by linarith
  moreover have "y \<in> set (x # xs)" using mem by simp
  ultimately have xy: "x = y" using Cons.prems(4) by simp
  have "xs = ys'"
    using Cons.prems xy ys by (intro Cons.IH) auto
  with xy ys show ?case by simp
qed

lemma sort_perm:
  assumes "mset xs = mset ys"
    and "\<And>a b. a \<in> set xs \<Longrightarrow> b \<in> set xs \<Longrightarrow> cmp a b = 0 \<Longrightarrow> a = b"
  shows "js_sort cmp xs = js_sort cmp ys"
  using assms by (intro sorted_unique) (auto simp: sorted_sort)

end

text \<open>Comparing integers by subtraction, as the source does.\<close>

interpretation int_cmp: comparator "\<lambda>a b. a - (b::int)"
  by unfold_locales auto

section \<open>SQL statements on a table\<close>

text \<open>
  A table is the list of its rows in rowid order.  A \<open>PRIMARY KEY\<close> or \<open>UNIQUE\<close> column is
  a projection \<open>key\<close> with \<open>unique_key key t\<close> as invariant.
\<close>

definition unique_key :: "('r \<Rightarrow> 'k) \<Rightarrow> 'r list \<Rightarrow> bool" where
  "unique_key key t \<longleftrightarrow> distinct (map key t)"

definition sql_get :: "('r \<Rightarrow> bool) \<Rightarrow> 'r list \<Rightarrow> 'r option" where
  "sql_get p t = find p t"

definition sql_count :: "('r \<Rightarrow> bool) \<Rightarrow> 'r list \<Rightarrow> nat" where
  "sql_count p t = length (filter p t)"

definition sql_update :: "('r \<Rightarrow> bool) \<Rightarrow> ('r \<Rightarrow> 'r) \<Rightarrow> 'r list \<Rightarrow> 'r list" where
  "sql_update p f t = map (\<lambda>r. if p r then f r else r) t"

definition sql_delete :: "('r \<Rightarrow> bool) \<Rightarrow> 'r list \<Rightarrow> 'r list" where
  "sql_delete p t = filter (\<lambda>r. \<not> p r) t"

definition sql_insert_or_ignore :: "('r \<Rightarrow> 'k) \<Rightarrow> 'r \<Rightarrow> 'r list \<Rightarrow> 'r list" where
  "sql_insert_or_ignore key r t = (if key r \<in> key ` set t then t else t @ [r])"

definition sql_insert_or_replace :: "('r \<Rightarrow> 'k) \<Rightarrow> 'r \<Rightarrow> 'r list \<Rightarrow> 'r list" where
  "sql_insert_or_replace key r t = filter (\<lambda>r'. key r' \<noteq> key r) t @ [r]"

text \<open>\<open>INSERT ... ON CONFLICT(key) DO UPDATE SET ...\<close>: \<open>upd old new\<close> is the merged row.\<close>

definition sql_upsert :: "('r \<Rightarrow> 'k) \<Rightarrow> ('r \<Rightarrow> 'r \<Rightarrow> 'r) \<Rightarrow> 'r \<Rightarrow> 'r list \<Rightarrow> 'r list" where
  "sql_upsert key upd r t =
     (if key r \<in> key ` set t
      then map (\<lambda>r'. if key r' = key r then upd r' r else r') t else t @ [r])"

text \<open>A plain \<open>INSERT\<close> fails on a duplicate key.\<close>

definition sql_insert :: "('r \<Rightarrow> 'k) \<Rightarrow> 'r \<Rightarrow> 'r list \<Rightarrow> 'r list option" where
  "sql_insert key r t = (if key r \<in> key ` set t then None else Some (t @ [r]))"

lemma find_None_all: "find p t = None \<longleftrightarrow> (\<forall>r \<in> set t. \<not> p r)"
  by (induction t) auto

lemma find_SomeD: "find p t = Some r \<Longrightarrow> r \<in> set t \<and> p r"
  by (induction t) (auto split: if_splits)

lemma sql_get_None: "sql_get p t = None \<longleftrightarrow> (\<forall>r \<in> set t. \<not> p r)"
  by (simp add: sql_get_def find_None_all)

lemma sql_get_SomeD: "sql_get p t = Some r \<Longrightarrow> r \<in> set t \<and> p r"
  by (simp add: sql_get_def find_SomeD)

lemma sql_get_unique:
  assumes "unique_key key t" and "r \<in> set t"
  shows "sql_get (\<lambda>r'. key r' = key r) t = Some r"
  using assms
proof (induction t)
  case Nil
  then show ?case by simp
next
  case (Cons a t)
  show ?case
  proof (cases "key a = key r")
    case True
    then have "a = r" using Cons.prems by (auto simp: unique_key_def intro: imageI)
    then show ?thesis by (simp add: sql_get_def)
  next
    case False
    then have "r \<in> set t" and "unique_key key t" using Cons.prems by (auto simp: unique_key_def)
    with Cons.IH False show ?thesis by (simp add: sql_get_def)
  qed
qed

lemma sql_get_iff:
  assumes "unique_key key t"
  shows "sql_get (\<lambda>r. key r = k) t = Some r \<longleftrightarrow> r \<in> set t \<and> key r = k"
  using sql_get_unique [OF assms, of r] sql_get_SomeD [of "\<lambda>r. key r = k" t r] by auto

lemma sql_update_key:
  "(\<And>r. p r \<Longrightarrow> key (f r) = key r) \<Longrightarrow> map key (sql_update p f t) = map key t"
  by (auto simp: sql_update_def)

lemma unique_key_update [intro]:
  "unique_key key t \<Longrightarrow> (\<And>r. p r \<Longrightarrow> key (f r) = key r) \<Longrightarrow> unique_key key (sql_update p f t)"
  by (simp add: unique_key_def sql_update_key)

lemma unique_key_delete [intro]: "unique_key key t \<Longrightarrow> unique_key key (sql_delete p t)"
  by (simp add: unique_key_def sql_delete_def distinct_map_filter)

lemma unique_key_ignore [intro]:
  "unique_key key t \<Longrightarrow> unique_key key (sql_insert_or_ignore key r t)"
  by (auto simp: unique_key_def sql_insert_or_ignore_def)

lemma unique_key_replace [intro]:
  "unique_key key t \<Longrightarrow> unique_key key (sql_insert_or_replace key r t)"
  by (auto simp: unique_key_def sql_insert_or_replace_def distinct_map_filter)

lemma unique_key_upsert [intro]:
  assumes "unique_key key t" and "\<And>r'. key r' = key r \<Longrightarrow> key (upd r' r) = key r"
  shows "unique_key key (sql_upsert key upd r t)"
proof -
  have "map key (map (\<lambda>r'. if key r' = key r then upd r' r else r') t) = map key t"
    using assms(2) by auto
  then show ?thesis
    using assms(1) by (simp add: unique_key_def sql_upsert_def del: map_map)
qed

lemma unique_key_insert [intro]:
  "unique_key key t \<Longrightarrow> sql_insert key r t = Some t' \<Longrightarrow> unique_key key t'"
  by (auto simp: unique_key_def sql_insert_def split: if_splits)

lemma sql_get_update_key:
  assumes "\<And>r. p r \<Longrightarrow> key (f r) = key r"
  shows "sql_get (\<lambda>r. key r = k) (sql_update p f t) =
    map_option (\<lambda>r. if p r then f r else r) (sql_get (\<lambda>r. key r = k) t)"
proof (induction t)
  case Nil
  then show ?case by (simp add: sql_get_def sql_update_def)
next
  case (Cons a t)
  have "key (if p a then f a else a) = key a" using assms by simp
  with Cons show ?case by (simp add: sql_get_def sql_update_def)
qed

lemma sql_get_append:
  "sql_get p (t @ u) = (case sql_get p t of Some r \<Rightarrow> Some r | None \<Rightarrow> sql_get p u)"
  by (induction t) (auto simp: sql_get_def)

lemma sql_get_upsert:
  assumes "\<And>r'. key r' = key r \<Longrightarrow> key (upd r' r) = key r"
  shows "sql_get (\<lambda>r'. key r' = k) (sql_upsert key upd r t) =
    (if k = key r
     then Some (case sql_get (\<lambda>r'. key r' = k) t of None \<Rightarrow> r | Some r' \<Rightarrow> upd r' r)
     else sql_get (\<lambda>r'. key r' = k) t)"
proof (cases "key r \<in> key ` set t")
  case True
  have upd: "sql_upsert key upd r t = sql_update (\<lambda>r'. key r' = key r) (\<lambda>r'. upd r' r) t"
    using True by (simp add: sql_upsert_def sql_update_def)
  have get: "sql_get (\<lambda>r'. key r' = k) (sql_upsert key upd r t) =
      map_option (\<lambda>r'. if key r' = key r then upd r' r else r') (sql_get (\<lambda>r'. key r' = k) t)"
    unfolding upd by (rule sql_get_update_key) (simp add: assms)
  show ?thesis
  proof (cases "k = key r")
    case True
    moreover obtain r' where "sql_get (\<lambda>r'. key r' = key r) t = Some r'"
      using \<open>key r \<in> key ` set t\<close> by (cases "sql_get (\<lambda>r'. key r' = key r) t") (auto simp: sql_get_None)
    ultimately show ?thesis using get sql_get_SomeD [of _ t r'] by fastforce
  next
    case False
    then show ?thesis
      using get sql_get_SomeD [of "\<lambda>r'. key r' = k" t] by (cases "sql_get (\<lambda>r'. key r' = k) t") auto
  qed
next
  case False
  then have "\<forall>r' \<in> set t. key r' \<noteq> key r" by (metis imageI)
  then have none: "sql_get (\<lambda>r'. key r' = key r) t = None" by (simp add: sql_get_None)
  have app: "sql_upsert key upd r t = t @ [r]" using False by (simp add: sql_upsert_def)
  have one: "sql_get (\<lambda>r'. key r' = k) [r] = (if k = key r then Some r else None)"
    by (auto simp: sql_get_def)
  show ?thesis
    unfolding app sql_get_append one using none by (auto split: option.splits)
qed

lemma sql_count_update_le:
  "(\<And>r. p r \<Longrightarrow> q (f r) \<Longrightarrow> q r) \<Longrightarrow> sql_count q (sql_update p f t) \<le> sql_count q t"
  by (induction t) (auto simp: sql_count_def sql_update_def)

lemma sql_count_delete_le: "sql_count q (sql_delete p t) \<le> sql_count q t"
  by (induction t) (auto simp: sql_count_def sql_delete_def)

lemma sql_count_replace_le:
  "sql_count q (sql_insert_or_replace key r t) \<le> sql_count q t + (if q r then 1 else 0)"
proof -
  have "length (filter q (filter (\<lambda>r'. key r' \<noteq> key r) t)) \<le> length (filter q t)"
    by (induction t) auto
  then show ?thesis by (simp add: sql_count_def sql_insert_or_replace_def)
qed

lemma set_sql_update: "set (sql_update p f t) = (\<lambda>r. if p r then f r else r) ` set t"
  by (simp add: sql_update_def)

lemma set_sql_delete: "set (sql_delete p t) = {r \<in> set t. \<not> p r}"
  by (simp add: sql_delete_def)

end
