(* ===== verification/JsStrings.thy ===== *)
theory JsStrings
  imports Prelude
begin

text \<open>
  Strings and bytes as the JavaScript runtime has them: a string is a sequence of UTF-16 code
  units, a \<open>Uint8Array\<close> or \<open>Buffer\<close> a sequence of octets.  The theory holds the runtime
  functions the gateway calls on them (\<open>TextEncoder\<close>, hexadecimal \<open>Buffer\<close> conversions,
  \<open>startsWith\<close>, \<open>slice\<close>, \<open>toLowerCase\<close>) and the character classes of its regular expressions.
\<close>

type_synonym u8 = "8 word"
type_synonym u16 = "16 word"
type_synonym bytes = "u8 list"
type_synonym jsstring = "u16 list"

section \<open>Literals\<close>

definition js :: "string \<Rightarrow> jsstring" where
  "js s = map (\<lambda>c. of_nat (of_char c)) s"

lemma js_Nil [simp]: "js [] = []"
  by (simp add: js_def)

lemma js_Cons [simp]: "js (c # s) = of_nat (of_char c) # js s"
  by (simp add: js_def)

lemma js_append: "js (s @ t) = js s @ js t"
  by (simp add: js_def)

lemma length_js [simp]: "length (js s) = length s"
  by (simp add: js_def)

lemma of_char_less_256: "(of_char c :: nat) < 256"
  by simp

lemma u16_of_char_inj: "(of_nat (of_char c) :: u16) = of_nat (of_char d) \<longleftrightarrow> c = d"
proof
  assume eq: "(of_nat (of_char c) :: u16) = of_nat (of_char d)"
  have c: "unat (of_nat (of_char c) :: u16) = of_char c"
    using less_trans [OF of_char_less_256 [of c], of 65536] by (simp add: unat_of_nat)
  have d: "unat (of_nat (of_char d) :: u16) = of_char d"
    using less_trans [OF of_char_less_256 [of d], of 65536] by (simp add: unat_of_nat)
  from eq c d have "(of_char c :: nat) = of_char d" by metis
  then show "c = d" by simp
qed simp

lemma js_eq_iff: "js s = js t \<longleftrightarrow> s = t"
  by (induction s arbitrary: t) (case_tac t; simp add: u16_of_char_inj)+

declare js_Cons [simp del]

section \<open>Regular-expression classes\<close>

definition is_digit_u16 :: "u16 \<Rightarrow> bool" where
  "is_digit_u16 c \<longleftrightarrow> 0x30 \<le> c \<and> c \<le> 0x39"

definition is_lower_hex :: "u16 \<Rightarrow> bool" where
  "is_lower_hex c \<longleftrightarrow> is_digit_u16 c \<or> 0x61 \<le> c \<and> c \<le> 0x66"

definition is_any_hex :: "u16 \<Rightarrow> bool" where
  "is_any_hex c \<longleftrightarrow> is_lower_hex c \<or> 0x41 \<le> c \<and> c \<le> 0x46"

definition is_lower_letter :: "u16 \<Rightarrow> bool" where
  "is_lower_letter c \<longleftrightarrow> 0x61 \<le> c \<and> c \<le> 0x7A"

definition is_upper_letter :: "u16 \<Rightarrow> bool" where
  "is_upper_letter c \<longleftrightarrow> 0x41 \<le> c \<and> c \<le> 0x5A"

text \<open>The class \<open>\s\<close> of ECMAScript: white space and line terminators.\<close>

definition is_js_space :: "u16 \<Rightarrow> bool" where
  "is_js_space c \<longleftrightarrow>
     0x09 \<le> c \<and> c \<le> 0x0D \<or> c = 0x20 \<or> c = 0xA0 \<or> c = 0x1680 \<or> 0x2000 \<le> c \<and> c \<le> 0x200A
     \<or> c = 0x2028 \<or> c = 0x2029 \<or> c = 0x202F \<or> c = 0x205F \<or> c = 0x3000 \<or> c = 0xFEFF"

definition re_lower_hex :: "nat \<Rightarrow> jsstring \<Rightarrow> bool" where
  "re_lower_hex n s \<longleftrightarrow> length s = n \<and> list_all is_lower_hex s"

definition re_any_hex :: "nat \<Rightarrow> jsstring \<Rightarrow> bool" where
  "re_any_hex n s \<longleftrightarrow> length s = n \<and> list_all is_any_hex s"

lemmas char_class_defs =
  is_digit_u16_def is_lower_hex_def is_any_hex_def is_lower_letter_def is_upper_letter_def
  is_js_space_def

lemma re_lower_hex_any: "re_lower_hex n s \<Longrightarrow> re_any_hex n s"
  by (auto simp: re_lower_hex_def re_any_hex_def is_any_hex_def list_all_iff)

section \<open>String functions\<close>

fun starts_with :: "jsstring \<Rightarrow> jsstring \<Rightarrow> bool" where
  "starts_with s [] = True"
| "starts_with [] (p # ps) = False"
| "starts_with (c # s) (p # ps) = (c = p \<and> starts_with s ps)"

definition ends_with :: "jsstring \<Rightarrow> jsstring \<Rightarrow> bool" where
  "ends_with s p = starts_with (rev s) (rev p)"

text \<open>
  \<open>toLowerCase\<close> on the ASCII range.  The gateway only applies it to hexadecimal text and to
  lookup keys of hexadecimal columns; no code unit outside ASCII lower-cases to a hexadecimal
  digit, so leaving the others alone changes no result of a hexadecimal test or lookup.
\<close>

definition lower_u16 :: "u16 \<Rightarrow> u16" where
  "lower_u16 c = (if is_upper_letter c then c + 0x20 else c)"

definition to_lower :: "jsstring \<Rightarrow> jsstring" where
  "to_lower s = map lower_u16 s"

lemma starts_with_append [simp]: "starts_with (p @ s) p"
  by (induction p) auto

lemma starts_with_iff: "starts_with s p \<longleftrightarrow> (\<exists>t. s = p @ t)"
  by (induction s p rule: starts_with.induct) auto

lemma starts_with_hd: "starts_with s p \<Longrightarrow> p \<noteq> [] \<Longrightarrow> s \<noteq> [] \<and> hd s = hd p"
  by (cases s; cases p) auto

lemma starts_with_replicate: "c \<noteq> hd p \<Longrightarrow> p \<noteq> [] \<Longrightarrow> \<not> starts_with (replicate n c) p"
  using starts_with_hd [of "replicate n c" p] by auto

lemma re_lower_hex_replicate: "is_lower_hex c \<Longrightarrow> re_lower_hex n (replicate n c)"
  by (simp add: re_lower_hex_def list_all_iff)

lemma length_to_lower [simp]: "length (to_lower s) = length s"
  by (simp add: to_lower_def)

lemma lower_u16_id: "is_lower_hex c \<Longrightarrow> lower_u16 c = c"
  unfolding lower_u16_def is_lower_hex_def is_digit_u16_def is_upper_letter_def
  by (auto simp: word_le_nat_alt)

lemma lower_u16_hex: "is_any_hex c \<Longrightarrow> is_lower_hex (lower_u16 c)"
proof -
  assume c: "is_any_hex c"
  show ?thesis
  proof (cases "is_lower_hex c")
    case True
    then show ?thesis by (simp add: lower_u16_id)
  next
    case False
    with c have r: "0x41 \<le> unat c" "unat c \<le> 0x46"
      by (auto simp: is_any_hex_def word_le_nat_alt)
    then have "unat (c + 0x20) = unat c + 0x20"
      by (simp add: unat_word_ariths)
    with r False show ?thesis
      by (auto simp: lower_u16_def is_lower_hex_def is_digit_u16_def is_upper_letter_def
          word_le_nat_alt)
  qed
qed

lemma lower_u16_idem [simp]: "lower_u16 (lower_u16 c) = lower_u16 c"
proof (cases "is_upper_letter c")
  case True
  then have r: "0x41 \<le> unat c" "unat c \<le> 0x5A"
    by (auto simp: is_upper_letter_def word_le_nat_alt)
  then have "unat (c + 0x20) = unat c + 0x20"
    by (simp add: unat_word_ariths)
  with r True show ?thesis
    by (auto simp: lower_u16_def is_upper_letter_def word_le_nat_alt)
qed (simp add: lower_u16_def)

lemma to_lower_idem [simp]: "to_lower (to_lower s) = to_lower s"
  by (simp add: to_lower_def comp_def)

lemma to_lower_hex_id: "re_lower_hex n s \<Longrightarrow> to_lower s = s"
  by (auto simp: re_lower_hex_def to_lower_def list_all_iff lower_u16_id intro: map_idI)

lemma to_lower_hex: "re_any_hex n s \<Longrightarrow> re_lower_hex n (to_lower s)"
  by (auto simp: re_any_hex_def re_lower_hex_def to_lower_def list_all_iff lower_u16_hex)

section \<open>UTF-8\<close>

text \<open>
  \<open>TextEncoder.encode\<close>: surrogate pairs are combined and a lone surrogate becomes U+FFFD.
\<close>

definition is_high_surrogate :: "u16 \<Rightarrow> bool" where
  "is_high_surrogate c \<longleftrightarrow> 0xD800 \<le> c \<and> c \<le> 0xDBFF"

definition is_low_surrogate :: "u16 \<Rightarrow> bool" where
  "is_low_surrogate c \<longleftrightarrow> 0xDC00 \<le> c \<and> c \<le> 0xDFFF"

fun code_points :: "jsstring \<Rightarrow> nat list" where
  "code_points [] = []"
| "code_points [c] =
     [if is_high_surrogate c \<or> is_low_surrogate c then 0xFFFD else unat c]"
| "code_points (c # d # s) =
     (if is_high_surrogate c \<and> is_low_surrogate d
      then (0x10000 + (unat c - 0xD800) * 0x400 + (unat d - 0xDC00)) # code_points s
      else (if is_high_surrogate c \<or> is_low_surrogate c then 0xFFFD else unat c)
           # code_points (d # s))"

definition utf8_char :: "nat \<Rightarrow> bytes" where
  "utf8_char n =
     (if n < 0x80 then [of_nat n]
      else if n < 0x800 then [of_nat (0xC0 + n div 0x40), of_nat (0x80 + n mod 0x40)]
      else if n < 0x10000 then
        [of_nat (0xE0 + n div 0x1000), of_nat (0x80 + n div 0x40 mod 0x40),
         of_nat (0x80 + n mod 0x40)]
      else [of_nat (0xF0 + n div 0x40000), of_nat (0x80 + n div 0x1000 mod 0x40),
            of_nat (0x80 + n div 0x40 mod 0x40), of_nat (0x80 + n mod 0x40)])"

definition utf8_encode :: "jsstring \<Rightarrow> bytes" where
  "utf8_encode s = concat (map utf8_char (code_points s))"

text \<open>A string without lone surrogates, the ones UTF-8 represents faithfully.\<close>

fun well_formed :: "jsstring \<Rightarrow> bool" where
  "well_formed [] = True"
| "well_formed [c] = (\<not> is_high_surrogate c \<and> \<not> is_low_surrogate c)"
| "well_formed (c # d # s) =
     (if is_high_surrogate c then is_low_surrogate d \<and> well_formed s
      else \<not> is_low_surrogate c \<and> well_formed (d # s))"

text \<open>The leading byte gives the length of a character, so the encoding is uniquely readable.\<close>

fun utf8_decode_char :: "bytes \<Rightarrow> (nat \<times> bytes) option" where
  "utf8_decode_char [] = None"
| "utf8_decode_char (b # bs) =
     (if b < 0x80 then Some (unat b, bs)
      else if b < 0xE0 then
        (case bs of b1 # r \<Rightarrow> Some ((unat b - 0xC0) * 0x40 + (unat b1 - 0x80), r) | _ \<Rightarrow> None)
      else if b < 0xF0 then
        (case bs of b1 # b2 # r \<Rightarrow>
           Some ((unat b - 0xE0) * 0x1000 + (unat b1 - 0x80) * 0x40 + (unat b2 - 0x80), r)
         | _ \<Rightarrow> None)
      else
        (case bs of b1 # b2 # b3 # r \<Rightarrow>
           Some ((unat b - 0xF0) * 0x40000 + (unat b1 - 0x80) * 0x1000
                 + (unat b2 - 0x80) * 0x40 + (unat b3 - 0x80), r)
         | _ \<Rightarrow> None))"

lemma unat_byte: "n < 256 \<Longrightarrow> unat (of_nat n :: u8) = n"
  by (simp add: unat_of_nat)

lemma unat_unit: "n < 0x10000 \<Longrightarrow> unat (of_nat n :: u16) = n"
  by (simp add: unat_of_nat)

lemma div_mod_join3: "(n::nat) div 0x1000 * 0x1000 + n div 0x40 mod 0x40 * 0x40 + n mod 0x40 = n"
proof -
  have "n div 0x1000 = n div 0x40 div 0x40" by (simp flip: div_mult2_eq)
  then show ?thesis
    using div_mult_mod_eq [of "n div 0x40" "0x40"] div_mult_mod_eq [of n "0x40"] by linarith
qed

lemma div_mod_join4:
  "(n::nat) div 0x40000 * 0x40000 + n div 0x1000 mod 0x40 * 0x1000 + n div 0x40 mod 0x40 * 0x40
   + n mod 0x40 = n"
proof -
  have "n div 0x40000 = n div 0x1000 div 0x40" by (simp flip: div_mult2_eq)
  then show ?thesis
    using div_mult_mod_eq [of "n div 0x1000" "0x40"] div_mod_join3 [of n] by linarith
qed

lemma utf8_char_decode:
  assumes "n < 0x110000"
  shows "utf8_decode_char (utf8_char n @ rest) = Some (n, rest)"
proof -
  consider "n < 0x80" | "0x80 \<le> n" "n < 0x800" | "0x800 \<le> n" "n < 0x10000" | "0x10000 \<le> n"
    by linarith
  then show ?thesis
  proof cases
    case 1
    then show ?thesis by (simp add: utf8_char_def word_less_nat_alt unat_byte)
  next
    case 2
    then have "n div 0x40 < 0x20" by simp
    with 2 show ?thesis
      by (simp add: utf8_char_def word_less_nat_alt unat_byte del: of_nat_add of_nat_numeral)
  next
    case 3
    then have "n div 0x1000 < 0x10" by simp
    with 3 show ?thesis
      using div_mod_join3 [of n]
      by (simp add: utf8_char_def word_less_nat_alt unat_byte del: of_nat_add of_nat_numeral)
  next
    case 4
    with assms have "n div 0x40000 < 0x8" by simp
    with 4 show ?thesis
      using div_mod_join4 [of n]
      by (simp add: utf8_char_def word_less_nat_alt unat_byte del: of_nat_add of_nat_numeral)
  qed
qed

lemma utf8_char_nonempty: "utf8_char n \<noteq> []"
  by (simp add: utf8_char_def)

lemma utf8_chars_inj:
  assumes "concat (map utf8_char xs) = concat (map utf8_char ys)"
    and "\<forall>n \<in> set xs. n < 0x110000" and "\<forall>n \<in> set ys. n < 0x110000"
  shows "xs = ys"
  using assms
proof (induction xs arbitrary: ys)
  case Nil
  then show ?case by (cases ys) (auto simp: utf8_char_nonempty)
next
  case (Cons x xs)
  then obtain y ys' where ys: "ys = y # ys'"
    by (cases ys) (auto simp: utf8_char_nonempty)
  have eq: "utf8_char x @ concat (map utf8_char xs) = utf8_char y @ concat (map utf8_char ys')"
    using Cons.prems(1) ys by simp
  have "x < 0x110000" and "y < 0x110000" using Cons.prems(2,3) ys by auto
  then have "Some (x, concat (map utf8_char xs)) = Some (y, concat (map utf8_char ys'))"
    using utf8_char_decode eq by metis
  with Cons.IH [of ys'] Cons.prems(2,3) ys show ?case by simp
qed

lemma unat_u16_less: "unat (c :: u16) < 0x10000"
  using unsigned_less [of c] by simp

lemma code_points_bound: "\<forall>n \<in> set (code_points s). n < 0x110000"
proof (induction s rule: code_points.induct)
  case 1
  then show ?case by simp
next
  case (2 c)
  then show ?case using unat_u16_less [of c] by simp
next
  case (3 c d s)
  have "unat c - 0xD800 < 0x400" if "is_high_surrogate c"
    using that by (auto simp: is_high_surrogate_def word_le_nat_alt)
  moreover have "unat d - 0xDC00 < 0x400" if "is_low_surrogate d"
    using that by (auto simp: is_low_surrogate_def word_le_nat_alt)
  ultimately show ?case using 3 unat_u16_less [of c] by auto
qed

lemma utf8_encode_code_points:
  "utf8_encode s = utf8_encode t \<longleftrightarrow> code_points s = code_points t"
  using utf8_chars_inj [OF _ code_points_bound code_points_bound]
  by (auto simp: utf8_encode_def)

lemma surrogate_pair_bound:
  assumes "is_high_surrogate c" and "is_low_surrogate d"
  shows "0x10000 \<le> (0x10000 + (unat c - 0xD800) * 0x400 + (unat d - 0xDC00))"
  by simp

lemma surrogate_pair_inj:
  assumes "is_high_surrogate c" "is_low_surrogate d" "is_high_surrogate c'" "is_low_surrogate d'"
    and "(unat c - 0xD800) * 0x400 + (unat d - 0xDC00)
         = (unat c' - 0xD800) * 0x400 + (unat d' - 0xDC00)"
  shows "c = c' \<and> d = d'"
proof -
  have b: "0xD800 \<le> unat c" "0xDC00 \<le> unat d" "unat d \<le> 0xDFFF"
    "0xD800 \<le> unat c'" "0xDC00 \<le> unat d'" "unat d' \<le> 0xDFFF"
    using assms(1-4) by (auto simp: is_high_surrogate_def is_low_surrogate_def word_le_nat_alt)
  have lo: "unat d - 0xDC00 < 0x400" "unat d' - 0xDC00 < 0x400" using b by linarith+
  have "unat c - 0xD800 = unat c' - 0xD800"
    using arg_cong [OF assms(5), of "\<lambda>n. n div 0x400"] lo by simp
  moreover from this have "unat d - 0xDC00 = unat d' - 0xDC00" using assms(5) by linarith
  ultimately have "unat c = unat c' \<and> unat d = unat d'" using b by linarith
  then show ?thesis by (simp add: word_unat_eq_iff)
qed

lemma code_points_eq_Nil [simp]: "code_points s = [] \<longleftrightarrow> s = []" "[] = code_points s \<longleftrightarrow> s = []"
  by (induction s rule: code_points.induct) auto

lemma code_points_inj:
  "well_formed s \<Longrightarrow> well_formed t \<Longrightarrow> code_points s = code_points t \<Longrightarrow> s = t"
proof (induction s arbitrary: t rule: code_points.induct)
  case 1
  then show ?case by (cases t rule: code_points.cases) (auto split: if_splits)
next
  case (2 c)
  then show ?case
    using unat_u16_less [of c]
    by (cases t rule: code_points.cases) (auto simp: word_unat_eq_iff split: if_splits elim: code_points.elims)
next
  case (3 c d s)
  note IH = "3.IH" and prems = "3.prems"
  show ?case
  proof (cases t rule: code_points.cases)
    case 1
    with prems show ?thesis by (auto split: if_splits)
  next
    case (2 c')
    with prems show ?thesis
      using unat_u16_less [of c'] by (auto split: if_splits elim: code_points.elims)
  next
    case (3 c' d' t')
    show ?thesis
    proof (cases "is_high_surrogate c")
      case high: True
      then have hp: "is_low_surrogate d" "well_formed s" using prems(1) by auto
      then have "is_high_surrogate c'"
        using prems 3 high unat_u16_less [of c'] by (auto split: if_splits)
      then have hp': "is_high_surrogate c'" "is_low_surrogate d'" "well_formed t'"
        using prems(2) 3 by auto
      with prems(3) 3 high hp have
        "(unat c - 0xD800) * 0x400 + (unat d - 0xDC00)
          = (unat c' - 0xD800) * 0x400 + (unat d' - 0xDC00)"
        and "code_points s = code_points t'" by auto
      with surrogate_pair_inj [OF high hp(1) hp'(1,2)] IH(1) high hp hp' 3 show ?thesis by auto
    next
      case low: False
      then have lp: "\<not> is_low_surrogate c" "well_formed (d # s)" using prems(1) by auto
      have "\<not> is_high_surrogate c'"
        using prems 3 low lp unat_u16_less [of c] by (auto split: if_splits)
      then have "\<not> is_low_surrogate c'" "well_formed (d' # t')" using prems(2) 3 by auto
      with \<open>\<not> is_high_surrogate c'\<close> prems(3) 3 low lp have
        "unat c = unat c'" and "code_points (d # s) = code_points (d' # t')" by auto
      with IH(2) [of "d' # t'"] low lp \<open>well_formed (d' # t')\<close> 3 show ?thesis
        by (auto simp: word_unat_eq_iff)
    qed
  qed
qed

lemma utf8_encode_inj:
  "well_formed s \<Longrightarrow> well_formed t \<Longrightarrow> utf8_encode s = utf8_encode t \<Longrightarrow> s = t"
  by (simp add: utf8_encode_code_points code_points_inj)

lemma well_formed_ascii: "list_all (\<lambda>c. c < 0x80) s \<Longrightarrow> well_formed s"
  by (induction s rule: well_formed.induct)
    (auto simp: is_high_surrogate_def is_low_surrogate_def word_less_nat_alt word_le_nat_alt)

lemma utf8_encode_ascii:
  "list_all (\<lambda>c. c < 0x80) s \<Longrightarrow> utf8_encode s = map (\<lambda>c. of_nat (unat c)) s"
  by (induction s rule: code_points.induct)
    (auto simp: utf8_encode_def utf8_char_def is_high_surrogate_def is_low_surrogate_def
      word_less_nat_alt word_le_nat_alt)

lemma length_code_points: "length (code_points s) \<le> length s"
  by (induction s rule: code_points.induct) auto

lemma length_utf8_encode: "length (utf8_encode s) \<le> 4 * length s"
proof -
  have "length (concat (map utf8_char ns)) \<le> 4 * length ns" for ns
    by (induction ns) (auto simp: utf8_char_def)
  then show ?thesis
    using length_code_points [of s] by (metis utf8_encode_def le_trans mult_le_mono2)
qed

section \<open>Hexadecimal buffers\<close>

definition hex_digit :: "nat \<Rightarrow> u16" where
  "hex_digit n = (if n < 10 then of_nat (0x30 + n) else of_nat (0x57 + n))"

definition hex_value :: "u16 \<Rightarrow> nat option" where
  "hex_value c =
     (if is_digit_u16 c then Some (unat c - 0x30)
      else if 0x61 \<le> c \<and> c \<le> 0x66 then Some (unat c - 0x57)
      else if 0x41 \<le> c \<and> c \<le> 0x46 then Some (unat c - 0x37) else None)"

text \<open>\<open>digest("hex")\<close> and \<open>Buffer.toString("hex")\<close>.\<close>

definition bytes_to_hex :: "bytes \<Rightarrow> jsstring" where
  "bytes_to_hex bs = concat (map (\<lambda>b. [hex_digit (unat b div 16), hex_digit (unat b mod 16)]) bs)"

text \<open>\<open>Buffer.from(s, "hex")\<close>: pairs of digits, stopping at the first that is not one.\<close>

fun hex_to_bytes :: "jsstring \<Rightarrow> bytes" where
  "hex_to_bytes (c # d # s) =
     (case (hex_value c, hex_value d) of
        (Some h, Some l) \<Rightarrow> of_nat (16 * h + l) # hex_to_bytes s
      | _ \<Rightarrow> [])"
| "hex_to_bytes _ = []"

lemma hex_digit_value: "n < 16 \<Longrightarrow> hex_value (hex_digit n) = Some n"
  by (auto simp: hex_digit_def hex_value_def is_digit_u16_def word_le_nat_alt unat_unit
      simp del: of_nat_add)

lemma hex_digit_lower: "n < 16 \<Longrightarrow> is_lower_hex (hex_digit n)"
  by (auto simp: hex_digit_def is_lower_hex_def is_digit_u16_def word_le_nat_alt unat_unit
      simp del: of_nat_add)

lemma hex_value_digit: "is_lower_hex c \<Longrightarrow> \<exists>n < 16. c = hex_digit n \<and> hex_value c = Some n"
proof -
  assume c: "is_lower_hex c"
  then consider "0x30 \<le> unat c" "unat c \<le> 0x39" | "0x61 \<le> unat c" "unat c \<le> 0x66"
    by (auto simp: is_lower_hex_def is_digit_u16_def word_le_nat_alt)
  then show ?thesis
  proof cases
    case 1
    then have "unat c - 0x30 < 10" and "0x30 + (unat c - 0x30) = unat c" by linarith+
    then have "c = hex_digit (unat c - 0x30)"
      by (simp add: hex_digit_def del: of_nat_add)
    with 1 show ?thesis
      by (intro exI [of _ "unat c - 0x30"]) (simp add: hex_value_def is_digit_u16_def word_le_nat_alt)
  next
    case 2
    then have "\<not> unat c - 0x57 < 10" and "0x57 + (unat c - 0x57) = unat c" by linarith+
    then have "c = hex_digit (unat c - 0x57)"
      by (simp add: hex_digit_def del: of_nat_add)
    with 2 show ?thesis
      by (intro exI [of _ "unat c - 0x57"]) (simp add: hex_value_def is_digit_u16_def word_le_nat_alt)
  qed
qed

lemma unat_u8_less: "unat (b :: u8) < 256"
  using unsigned_less [of b] by simp

lemma hex_to_bytes_to_hex [simp]: "hex_to_bytes (bytes_to_hex bs) = bs"
proof (induction bs)
  case Nil
  then show ?case by (simp add: bytes_to_hex_def)
next
  case (Cons b bs)
  have "unat b div 16 < 16" using unat_u8_less [of b] by simp
  then have "hex_value (hex_digit (unat b div 16)) = Some (unat b div 16)"
    by (rule hex_digit_value)
  moreover have "hex_value (hex_digit (unat b mod 16)) = Some (unat b mod 16)"
    by (rule hex_digit_value) simp
  moreover have "(of_nat (16 * (unat b div 16) + unat b mod 16) :: u8) = b"
    by (simp del: of_nat_add of_nat_mult)
  ultimately show ?case using Cons.IH by (simp add: bytes_to_hex_def)
qed

lemma length_bytes_to_hex [simp]: "length (bytes_to_hex bs) = 2 * length bs"
  by (induction bs) (auto simp: bytes_to_hex_def)

lemma bytes_to_hex_lower: "re_lower_hex (2 * length bs) (bytes_to_hex bs)"
proof -
  have "unat (b :: u8) div 16 < 16" for b using unat_u8_less [of b] by simp
  then show ?thesis
    by (auto simp: re_lower_hex_def list_all_iff bytes_to_hex_def intro: hex_digit_lower)
      (simp add: bytes_to_hex_def [symmetric])
qed

lemma bytes_to_hex_inj: "bytes_to_hex bs = bytes_to_hex cs \<longleftrightarrow> bs = cs"
  by (metis hex_to_bytes_to_hex)

lemma hex_bytes_round:
  "list_all is_lower_hex s \<Longrightarrow> even (length s) \<Longrightarrow> bytes_to_hex (hex_to_bytes s) = s"
proof (induction s rule: hex_to_bytes.induct)
  case (1 c d s)
  from "1.prems" obtain h l where h: "h < 16" "c = hex_digit h" "hex_value c = Some h"
    and l: "l < 16" "d = hex_digit l" "hex_value d = Some l"
    using hex_value_digit [of c] hex_value_digit [of d] by auto
  have "unat (of_nat (16 * h + l) :: u8) = 16 * h + l"
    using h(1) l(1) by (intro unat_byte) simp
  with 1 h l show ?case by (simp add: bytes_to_hex_def del: of_nat_add of_nat_mult)
qed (auto simp: bytes_to_hex_def)

lemma length_hex_to_bytes:
  "list_all is_lower_hex s \<Longrightarrow> even (length s) \<Longrightarrow> length (hex_to_bytes s) = length s div 2"
  by (metis hex_bytes_round length_bytes_to_hex nonzero_mult_div_cancel_left zero_neq_numeral)

text \<open>The definitions the simplifier computes with, for concrete strings.\<close>

lemmas js_eval =
  js_def utf8_encode_def utf8_char_def is_high_surrogate_def is_low_surrogate_def char_class_defs

end
