(* ===== verification/JsNumber.thy ===== *)
theory JsNumber
  imports Complex_Main JsStrings
begin

text \<open>
  JavaScript numbers: IEEE-754 binary64 values, given by their 64 bits.  The arithmetic the
  gateway's validators use (\<open>+ - * /\<close>, comparisons, \<open>Number.isInteger\<close>, \<open>Number.isFinite\<close>)
  is defined on the bits by exact integer computation followed by one rounding to nearest,
  ties to even, so every definition here evaluates.  \<open>f64_val\<close> is the rational a finite
  number stands for; the lemmas bound what one rounding can do to it.
\<close>

datatype f64 = F64 (f64_bits: "64 word")

datatype numclass = NaN | Inf bool | Fin bool nat int

section \<open>Decoding and encoding\<close>

definition f64_sign :: "f64 \<Rightarrow> bool" where
  "f64_sign x \<longleftrightarrow> 2 ^ 63 \<le> unat (f64_bits x)"

definition f64_expo :: "f64 \<Rightarrow> nat" where
  "f64_expo x = unat (f64_bits x) div 2 ^ 52 mod 2 ^ 11"

definition f64_frac :: "f64 \<Rightarrow> nat" where
  "f64_frac x = unat (f64_bits x) mod 2 ^ 52"

definition f64_class :: "f64 \<Rightarrow> numclass" where
  "f64_class x =
     (if f64_expo x = 2047 then (if f64_frac x = 0 then Inf (f64_sign x) else NaN)
      else if f64_expo x = 0 then Fin (f64_sign x) (f64_frac x) (- 1074)
      else Fin (f64_sign x) (2 ^ 52 + f64_frac x) (int (f64_expo x) - 1075))"

definition signed_mant :: "bool \<Rightarrow> nat \<Rightarrow> int" where
  "signed_mant s m = (if s then - int m else int m)"

definition f64_finite :: "f64 \<Rightarrow> bool" where
  "f64_finite x \<longleftrightarrow> f64_expo x \<noteq> 2047"

definition f64_val :: "f64 \<Rightarrow> rat" where
  "f64_val x = (case f64_class x of Fin s m e \<Rightarrow> of_int (signed_mant s m) * 2 powi e | _ \<Rightarrow> 0)"

definition f64_nan :: f64 where "f64_nan = F64 0x7FF8000000000000"

definition f64_inf :: "bool \<Rightarrow> f64" where
  "f64_inf s = F64 (if s then 0xFFF0000000000000 else 0x7FF0000000000000)"

definition f64_zero :: "bool \<Rightarrow> f64" where
  "f64_zero s = F64 (if s then 0x8000000000000000 else 0)"

text \<open>
  \<open>f64_pack s m e\<close> is the number with significand \<open>m\<close> and exponent \<open>e\<close>: adding the
  significand to the shifted exponent carries a significand of \<open>2 ^ 53\<close> into the exponent.
\<close>

definition f64_pack :: "bool \<Rightarrow> nat \<Rightarrow> int \<Rightarrow> f64" where
  "f64_pack s m e =
     (let b = nat (e + 1074) * 2 ^ 52 + m
      in if 2047 * 2 ^ 52 \<le> b then f64_inf s
         else F64 (of_nat (b + (if s then 2 ^ 63 else 0))))"

section \<open>Rounding\<close>

fun bit_len :: "nat \<Rightarrow> nat" where
  "bit_len n = (if n = 0 then 0 else Suc (bit_len (n div 2)))"

declare bit_len.simps [simp del]

definition log2_ratio :: "nat \<Rightarrow> nat \<Rightarrow> int" where
  "log2_ratio p q =
     (let d = int (bit_len p) - int (bit_len q)
      in if q * 2 ^ nat d \<le> p * 2 ^ nat (- d) then d else d - 1)"

definition round_half_even :: "nat \<Rightarrow> nat \<Rightarrow> nat" where
  "round_half_even a b =
     (let q = a div b; r = a mod b
      in if 2 * r < b then q else if b < 2 * r then Suc q else if even q then q else Suc q)"

text \<open>The double nearest to \<open>(p / q) * 2 ^ k\<close> with the given sign.\<close>

definition f64_round :: "bool \<Rightarrow> nat \<Rightarrow> nat \<Rightarrow> int \<Rightarrow> f64" where
  "f64_round s p q k =
     (if p = 0 then f64_zero s
      else let e = max (- 1074) (log2_ratio p q + k - 52)
           in f64_pack s (round_half_even (p * 2 ^ nat (k - e)) (q * 2 ^ nat (e - k))) e)"

definition f64_of_int :: "int \<Rightarrow> f64" where
  "f64_of_int i = f64_round (i < 0) (nat \<bar>i\<bar>) 1 0"

section \<open>Arithmetic\<close>

definition f64_add :: "f64 \<Rightarrow> f64 \<Rightarrow> f64" where
  "f64_add x y =
     (case (f64_class x, f64_class y) of
        (NaN, _) \<Rightarrow> f64_nan
      | (_, NaN) \<Rightarrow> f64_nan
      | (Inf s, Inf t) \<Rightarrow> if s = t then f64_inf s else f64_nan
      | (Inf s, _) \<Rightarrow> f64_inf s
      | (_, Inf t) \<Rightarrow> f64_inf t
      | (Fin s m e, Fin t n f) \<Rightarrow>
          let g = min e f;
              v = signed_mant s m * 2 ^ nat (e - g) + signed_mant t n * 2 ^ nat (f - g)
          in if v = 0 then f64_zero (s \<and> t) else f64_round (v < 0) (nat \<bar>v\<bar>) 1 g)"

definition f64_sub :: "f64 \<Rightarrow> f64 \<Rightarrow> f64" where
  "f64_sub x y =
     (case (f64_class x, f64_class y) of
        (NaN, _) \<Rightarrow> f64_nan
      | (_, NaN) \<Rightarrow> f64_nan
      | (Inf s, Inf t) \<Rightarrow> if s \<noteq> t then f64_inf s else f64_nan
      | (Inf s, _) \<Rightarrow> f64_inf s
      | (_, Inf t) \<Rightarrow> f64_inf (\<not> t)
      | (Fin s m e, Fin t n f) \<Rightarrow>
          let g = min e f;
              v = signed_mant s m * 2 ^ nat (e - g) - signed_mant t n * 2 ^ nat (f - g)
          in if v = 0 then f64_zero (s \<and> \<not> t) else f64_round (v < 0) (nat \<bar>v\<bar>) 1 g)"

definition f64_mul :: "f64 \<Rightarrow> f64 \<Rightarrow> f64" where
  "f64_mul x y =
     (case (f64_class x, f64_class y) of
        (NaN, _) \<Rightarrow> f64_nan
      | (_, NaN) \<Rightarrow> f64_nan
      | (Inf s, Inf t) \<Rightarrow> f64_inf (s \<noteq> t)
      | (Inf s, Fin t n f) \<Rightarrow> if n = 0 then f64_nan else f64_inf (s \<noteq> t)
      | (Fin s m e, Inf t) \<Rightarrow> if m = 0 then f64_nan else f64_inf (s \<noteq> t)
      | (Fin s m e, Fin t n f) \<Rightarrow> f64_round (s \<noteq> t) (m * n) 1 (e + f))"

definition f64_div :: "f64 \<Rightarrow> f64 \<Rightarrow> f64" where
  "f64_div x y =
     (case (f64_class x, f64_class y) of
        (NaN, _) \<Rightarrow> f64_nan
      | (_, NaN) \<Rightarrow> f64_nan
      | (Inf s, Inf t) \<Rightarrow> f64_nan
      | (Inf s, Fin t n f) \<Rightarrow> f64_inf (s \<noteq> t)
      | (Fin s m e, Inf t) \<Rightarrow> f64_zero (s \<noteq> t)
      | (Fin s m e, Fin t n f) \<Rightarrow>
          if n = 0 then (if m = 0 then f64_nan else f64_inf (s \<noteq> t))
          else f64_round (s \<noteq> t) m n (e - f))"

fun num_less :: "numclass \<Rightarrow> numclass \<Rightarrow> bool" where
  "num_less NaN _ = False"
| "num_less _ NaN = False"
| "num_less (Inf s) (Inf t) = (s \<and> \<not> t)"
| "num_less (Inf s) (Fin _ _ _) = s"
| "num_less (Fin _ _ _) (Inf t) = (\<not> t)"
| "num_less (Fin s m e) (Fin t n f) =
     (signed_mant s m * 2 ^ nat (e - min e f) < signed_mant t n * 2 ^ nat (f - min e f))"

text \<open>\<open>x < y\<close>, \<open>x <= y\<close> and \<open>x === y\<close>; every comparison with NaN is false.\<close>

definition f64_lt :: "f64 \<Rightarrow> f64 \<Rightarrow> bool" where
  "f64_lt x y \<longleftrightarrow> num_less (f64_class x) (f64_class y)"

definition f64_le :: "f64 \<Rightarrow> f64 \<Rightarrow> bool" where
  "f64_le x y \<longleftrightarrow>
     f64_class x \<noteq> NaN \<and> f64_class y \<noteq> NaN \<and> \<not> num_less (f64_class y) (f64_class x)"

definition f64_eq :: "f64 \<Rightarrow> f64 \<Rightarrow> bool" where
  "f64_eq x y \<longleftrightarrow> f64_le x y \<and> f64_le y x"

text \<open>The mathematical integer of an integer-valued double; \<open>None\<close> for every other number.\<close>

definition f64_to_int :: "f64 \<Rightarrow> int option" where
  "f64_to_int x =
     (case f64_class x of
        Fin s m e \<Rightarrow>
          if m = 0 then Some 0
          else if 0 \<le> e then Some (signed_mant s (m * 2 ^ nat e))
          else if 2 ^ nat (- e) dvd m then Some (signed_mant s (m div 2 ^ nat (- e))) else None
      | _ \<Rightarrow> None)"

definition f64_is_integer :: "f64 \<Rightarrow> bool" where
  "f64_is_integer x \<longleftrightarrow> f64_to_int x \<noteq> None"

text \<open>\<open>DataView.setFloat64\<close>, big endian.\<close>

definition f64_bytes :: "f64 \<Rightarrow> bytes" where
  "f64_bytes x = map (\<lambda>i. ucast (drop_bit (8 * i) (f64_bits x))) [7, 6, 5, 4, 3, 2, 1, 0]"

section \<open>The value of a number\<close>

lemma signed_mant_simps [simp]: "signed_mant False m = int m" "signed_mant True m = - int m"
  by (auto simp: signed_mant_def)

lemma f64_val_Fin: "f64_class x = Fin s m e \<Longrightarrow> f64_val x = of_int (signed_mant s m) * 2 powi e"
  by (simp add: f64_val_def)

lemma f64_finite_class: "f64_finite x \<longleftrightarrow> (\<exists>s m e. f64_class x = Fin s m e)"
  by (auto simp: f64_finite_def f64_class_def)

lemma f64_finiteE:
  assumes "f64_finite x"
  obtains s m e where "f64_class x = Fin s m e" "f64_val x = of_int (signed_mant s m) * 2 powi e"
  using assms by (auto simp: f64_finite_class f64_val_def)

lemma powi_scale: "g \<le> e \<Longrightarrow> (2::rat) powi e = 2 ^ nat (e - g) * 2 powi g"
proof -
  assume "g \<le> e"
  then have "e = int (nat (e - g)) + g" by simp
  then show ?thesis by (metis power_int_add power_int_of_nat zero_neq_numeral)
qed

lemma powi_neg: "e < 0 \<Longrightarrow> (2::rat) powi e = inverse (2 ^ nat (- e))"
  by (simp add: power_int_def power_one_over inverse_eq_divide)

lemma num_less_val:
  assumes "f64_class x = Fin s m e" and "f64_class y = Fin t n f"
  shows "num_less (f64_class x) (f64_class y) \<longleftrightarrow> f64_val x < f64_val y"
proof -
  let ?g = "min e f"
  have x: "f64_val x = of_int (signed_mant s m * 2 ^ nat (e - ?g)) * 2 powi ?g"
    using powi_scale [of ?g e] assms(1) by (simp add: f64_val_Fin)
  have y: "f64_val y = of_int (signed_mant t n * 2 ^ nat (f - ?g)) * 2 powi ?g"
    using powi_scale [of ?g f] assms(2) by (simp add: f64_val_Fin)
  have "(0::rat) < 2 powi ?g" by simp
  then show ?thesis
    unfolding x y assms num_less.simps mult_less_cancel_right_pos [OF \<open>0 < 2 powi ?g\<close>]
    by (simp only: of_int_less_iff)
qed

lemma f64_lt_val: "f64_finite x \<Longrightarrow> f64_finite y \<Longrightarrow> f64_lt x y \<longleftrightarrow> f64_val x < f64_val y"
  unfolding f64_lt_def f64_finite_class using num_less_val by blast

lemma f64_le_val: "f64_finite x \<Longrightarrow> f64_finite y \<Longrightarrow> f64_le x y \<longleftrightarrow> f64_val x \<le> f64_val y"
  unfolding f64_le_def f64_finite_class
  using num_less_val [of y _ _ _ x] by (metis linorder_not_less numclass.distinct(3))

lemma f64_eq_val: "f64_finite x \<Longrightarrow> f64_finite y \<Longrightarrow> f64_eq x y \<longleftrightarrow> f64_val x = f64_val y"
  by (auto simp: f64_eq_def f64_le_val)

lemma f64_to_int_SomeD:
  assumes "f64_to_int x = Some i"
  shows "f64_finite x" and "f64_val x = of_int i"
proof -
  from assms obtain s m e where c: "f64_class x = Fin s m e"
    by (auto simp: f64_to_int_def split: numclass.splits)
  then show "f64_finite x" by (auto simp: f64_finite_class)
  consider "m = 0" "i = 0" | "m \<noteq> 0" "0 \<le> e" "i = signed_mant s (m * 2 ^ nat e)"
    | "m \<noteq> 0" "e < 0" "2 ^ nat (- e) dvd m" "i = signed_mant s (m div 2 ^ nat (- e))"
    using assms c by (auto simp: f64_to_int_def split: if_splits)
  then show "f64_val x = of_int i"
  proof cases
    case 1
    with c show ?thesis by (simp add: f64_val_def signed_mant_def)
  next
    case 2
    then have "(2::rat) powi e = 2 ^ nat e" by (simp add: power_int_def)
    with 2 c show ?thesis by (simp add: f64_val_def signed_mant_def)
  next
    case 3
    then obtain d where d: "m = 2 ^ nat (- e) * d" by auto
    have "(2::rat) powi e = inverse (2 ^ nat (- e))" using 3 by (simp add: powi_neg)
    with 3 d c show ?thesis by (simp add: f64_val_def signed_mant_def field_simps)
  qed
qed

lemma f64_val_to_int:
  assumes "f64_finite x" and "f64_val x = of_int i"
  shows "f64_to_int x = Some i"
proof -
  from assms(1) obtain s m e where c: "f64_class x = Fin s m e"
    and v: "f64_val x = of_int (signed_mant s m) * 2 powi e" by (rule f64_finiteE)
  show ?thesis
  proof (cases "m = 0 \<or> 0 \<le> e")
    case True
    with c have "f64_to_int x \<noteq> None" by (auto simp: f64_to_int_def)
    then obtain j where "f64_to_int x = Some j" by auto
    moreover from this f64_to_int_SomeD(2) assms(2) have "(of_int j :: rat) = of_int i" by simp
    ultimately show ?thesis by simp
  next
    case False
    then have "(2::rat) powi e = inverse (2 ^ nat (- e))" by (simp add: powi_neg)
    with v assms(2) have "(of_int (signed_mant s m) :: rat) = of_int i * 2 ^ nat (- e)"
      by (simp add: field_simps)
    then have "(of_int (signed_mant s m) :: rat) = of_int (i * 2 ^ nat (- e))" by simp
    then have "signed_mant s m = i * 2 ^ nat (- e)" by (simp only: of_int_eq_iff)
    define P where "P = (2::nat) ^ nat (- e)"
    then have P: "0 < P" "int P = 2 ^ nat (- e)" by simp_all
    with \<open>signed_mant s m = i * 2 ^ nat (- e)\<close> have sm: "signed_mant s m = i * int P" by simp
    have "m = nat \<bar>i\<bar> * P \<and> signed_mant s (nat \<bar>i\<bar>) = i"
    proof (cases s)
      case True
      with sm have im: "int m = (- i) * int P" by (simp add: signed_mant_def)
      then have "0 \<le> - i" using P(1) False by (metis mult_neg_pos not_le of_nat_0_le_iff of_nat_0_less_iff)
      with im True show ?thesis by (simp add: signed_mant_def flip: of_nat_eq_iff [where ?'a = int])
    next
      case ns: False
      with sm have im: "int m = i * int P" by (simp add: signed_mant_def)
      then have "0 \<le> i" using P(1) False by (metis mult_neg_pos not_le of_nat_0_le_iff of_nat_0_less_iff)
      with im ns show ?thesis by (simp add: signed_mant_def flip: of_nat_eq_iff [where ?'a = int])
    qed
    moreover from this have "P dvd m" "m div P = nat \<bar>i\<bar>" using P(1) by auto
    ultimately show ?thesis using c False by (simp add: f64_to_int_def P_def)
  qed
qed

section \<open>Correct rounding\<close>

lemma bit_len_bounds: "0 < n \<Longrightarrow> 2 ^ (bit_len n - 1) \<le> n \<and> n < 2 ^ bit_len n \<and> 0 < bit_len n"
proof (induction n rule: bit_len.induct)
  case (1 n)
  show ?case
  proof (cases "n = 1")
    case True
    have "bit_len 1 = 1" by (simp add: bit_len.simps)
    with True show ?thesis by simp
  next
    case False
    with "1.prems" have pos: "0 < n div 2" by simp
    with "1.IH" "1.prems" have ih: "2 ^ (bit_len (n div 2) - 1) \<le> n div 2"
      "n div 2 < 2 ^ bit_len (n div 2)" "0 < bit_len (n div 2)" by auto
    have len: "bit_len n = Suc (bit_len (n div 2))"
      using "1.prems" by (subst bit_len.simps) simp
    have "(2::nat) ^ (bit_len n - 1) = 2 * 2 ^ (bit_len (n div 2) - 1)"
      using len ih(3) by (cases "bit_len (n div 2)") auto
    moreover have "2 * (n div 2) \<le> n" "n < 2 * (n div 2 + 1)" by presburger+
    ultimately have "2 ^ (bit_len n - 1) \<le> n" using ih by linarith
    moreover have "n < 2 ^ bit_len n" using \<open>n < 2 * (n div 2 + 1)\<close> ih(2) len by simp
    ultimately show ?thesis using len by simp
  qed
qed

lemma log2_ratio_bounds:
  assumes "0 < p" and "0 < q"
  shows "(2::rat) powi log2_ratio p q \<le> of_nat p / of_nat q"
    and "of_nat p / of_nat q < (2::rat) powi (log2_ratio p q + 1)"
proof -
  define bp bq where "bp = bit_len p" and "bq = bit_len q"
  define d where "d = int bp - int bq"
  have p: "2 ^ (bp - 1) \<le> p" "p < 2 ^ bp" "0 < bp"
    using bit_len_bounds [OF assms(1)] by (auto simp: bp_def)
  have q: "2 ^ (bq - 1) \<le> q" "q < 2 ^ bq" "0 < bq"
    using bit_len_bounds [OF assms(2)] by (auto simp: bq_def)
  have pr: "(2::rat) powi (int bp - 1) \<le> of_nat p" "of_nat p < (2::rat) powi int bp"
    using p of_nat_mono [OF p(1), where ?'a = rat] of_nat_less_iff [of p "2 ^ bp", where ?'a = rat]
    by (auto simp: power_int_def nat_diff_distrib)
  have qr: "(2::rat) powi (int bq - 1) \<le> of_nat q" "of_nat q < (2::rat) powi int bq"
    using q of_nat_mono [OF q(1), where ?'a = rat] of_nat_less_iff [of q "2 ^ bq", where ?'a = rat]
    by (auto simp: power_int_def nat_diff_distrib)
  have q0: "(0::rat) < of_nat q" using assms(2) by simp
  have up: "of_nat p / of_nat q < (2::rat) powi (d + 1)"
  proof -
    have "(2::rat) powi int bp = 2 powi (d + 1) * 2 powi (int bq - 1)"
      unfolding d_def by (simp flip: power_int_add)
    also have "\<dots> \<le> 2 powi (d + 1) * of_nat q" using qr(1) by (simp add: mult_left_mono)
    finally have "of_nat p < (2::rat) powi (d + 1) * of_nat q" using pr(2) by linarith
    then show ?thesis using q0 by (simp add: pos_divide_less_eq)
  qed
  have lo: "(2::rat) powi (d - 1) \<le> of_nat p / of_nat q"
  proof -
    have "(2::rat) powi (d - 1) * of_nat q \<le> 2 powi (d - 1) * 2 powi int bq"
      using qr(2) by (simp add: mult_left_mono)
    also have "\<dots> = (2::rat) powi (d - 1 + int bq)" by (rule power_int_add [symmetric]) simp
    also have "d - 1 + int bq = int bp - 1" by (simp add: d_def)
    finally show ?thesis using pr(1) q0 by (simp add: pos_le_divide_eq)
  qed
  have cond: "q * 2 ^ nat d \<le> p * 2 ^ nat (- d) \<longleftrightarrow> (2::rat) powi d \<le> of_nat p / of_nat q"
  proof -
    have "q * 2 ^ nat d \<le> p * 2 ^ nat (- d)
        \<longleftrightarrow> (of_nat q :: rat) * 2 ^ nat d \<le> of_nat p * 2 ^ nat (- d)"
      using of_nat_le_iff [where ?'a = rat, of "q * 2 ^ nat d" "p * 2 ^ nat (- d)"] by simp
    also have "\<dots> \<longleftrightarrow> (2::rat) powi d \<le> of_nat p / of_nat q"
    proof (cases "0 \<le> d")
      case True
      then show ?thesis using q0 by (simp add: power_int_def pos_le_divide_eq mult.commute)
    next
      case False
      then show ?thesis using q0 by (simp add: powi_neg field_simps)
    qed
    finally show ?thesis .
  qed
  show "(2::rat) powi log2_ratio p q \<le> of_nat p / of_nat q"
    using cond lo by (auto simp: log2_ratio_def Let_def d_def bp_def bq_def)
  show "of_nat p / of_nat q < (2::rat) powi (log2_ratio p q + 1)"
    using cond up by (auto simp: log2_ratio_def Let_def d_def bp_def bq_def)
qed

lemma round_half_even_bounds:
  assumes "0 < b"
  shows "2 * b * round_half_even a b \<le> 2 * a + b" and "2 * a \<le> 2 * b * round_half_even a b + b"
proof -
  define q r where "q = a div b" and "r = a mod b"
  have a: "a = b * q + r" and r: "r < b" using assms by (auto simp: q_def r_def)
  have "round_half_even a b = q \<and> 2 * r \<le> b \<or> round_half_even a b = Suc q \<and> b \<le> 2 * r"
    by (auto simp: round_half_even_def Let_def q_def r_def)
  then show "2 * b * round_half_even a b \<le> 2 * a + b" "2 * a \<le> 2 * b * round_half_even a b + b"
    using a r by (auto simp: algebra_simps)
qed

lemma div_mod_eqI: "(b::nat) = c * K + r \<Longrightarrow> r < K \<Longrightarrow> b div K = c \<and> b mod K = r"
  by auto

lemma f64_pack_value:
  assumes "e = - 1074 \<and> m < 2 ^ 52 \<or> - 1074 \<le> e \<and> 2 ^ 52 \<le> m \<and> m \<le> 2 ^ 53"
    and "nat (e + 1074) * 2 ^ 52 + m < 2047 * 2 ^ 52"
  shows "f64_finite (f64_pack s m e)"
    and "f64_val (f64_pack s m e) = of_int (signed_mant s m) * 2 powi e"
proof -
  define E where "E = nat (e + 1074)"
  define b where "b = E * 2 ^ 52 + m"
  have b: "b < 2047 * 2 ^ 52" using assms(2) by (simp add: b_def E_def)
  define w where "w = f64_bits (f64_pack s m e)"
  have bits: "unat w = b + (if s then 2 ^ 63 else 0)"
  proof -
    have "f64_pack s m e = F64 (of_nat (b + (if s then 2 ^ 63 else 0)))"
      using b unfolding f64_pack_def Let_def E_def [symmetric] b_def [symmetric] by simp
    moreover have "b + (if s then 2 ^ 63 else 0) < 2 ^ 64" using b by simp
    ultimately show ?thesis by (simp add: w_def unat_of_nat del: of_nat_add)
  qed
  have sg: "f64_sign (f64_pack s m e) = s"
    using bits b by (auto simp: f64_sign_def w_def [symmetric])
  have ex: "f64_expo (f64_pack s m e) = b div 2 ^ 52"
    using bits b by (auto simp: f64_expo_def w_def [symmetric] div_add1_eq [of b])
  have fr: "f64_frac (f64_pack s m e) = b mod 2 ^ 52"
    using bits by (auto simp: f64_frac_def w_def [symmetric] mod_add_right_eq [symmetric])
  have "b div 2 ^ 52 \<noteq> 2047" using b by auto
  then show fin: "f64_finite (f64_pack s m e)" by (simp add: f64_finite_def ex)
  consider "e = - 1074" "m < 2 ^ 52" | "- 1074 \<le> e" "2 ^ 52 \<le> m" "m < 2 ^ 53"
    | "- 1074 \<le> e" "m = 2 ^ 53" using assms(1) by linarith
  then show "f64_val (f64_pack s m e) = of_int (signed_mant s m) * 2 powi e"
  proof cases
    case 1
    then have "b = m" by (simp add: b_def E_def)
    with 1 ex fr have "f64_expo (f64_pack s m e) = 0" "f64_frac (f64_pack s m e) = m" by auto
    then have "f64_class (f64_pack s m e) = Fin s m (- 1074)" by (simp add: f64_class_def sg)
    with 1 show ?thesis by (simp add: f64_val_Fin)
  next
    case 2
    then have bb: "b = Suc E * 2 ^ 52 + (m - 2 ^ 52)" and "m - 2 ^ 52 < 2 ^ 52" by (auto simp: b_def)
    then have "b div 2 ^ 52 = Suc E" and "b mod 2 ^ 52 = m - 2 ^ 52"
      using div_mod_eqI [OF bb] by blast+
    with 2 fin have "f64_class (f64_pack s m e) = Fin s m (int (Suc E) - 1075)"
      by (simp add: f64_class_def ex fr sg f64_finite_def)
    moreover have "int (Suc E) - 1075 = e" using 2 by (simp add: E_def)
    ultimately show ?thesis by (simp only: f64_val_Fin)
  next
    case 3
    then have bb: "b = (E + 2) * 2 ^ 52" by (simp add: b_def)
    then have "b div 2 ^ 52 = E + 2" and "b mod 2 ^ 52 = 0" by auto
    with fin have "f64_class (f64_pack s m e) = Fin s (2 ^ 52) (int (E + 2) - 1075)"
      by (simp add: f64_class_def ex fr sg f64_finite_def)
    moreover have "int (E + 2) - 1075 = e + 1" using 3 by (simp add: E_def)
    ultimately have "f64_val (f64_pack s m e) = of_int (signed_mant s (2 ^ 52)) * 2 powi (e + 1)"
      by (simp only: f64_val_Fin)
    also have "(2::rat) powi (e + 1) = 2 * 2 powi e" by (simp add: power_int_add)
    finally show ?thesis using 3 by (simp add: signed_mant_def)
  qed
qed


text \<open>
  One rounding of a value in the normal range is finite and off by at most a factor
  \<open>1 + 2 ^ -53\<close>; the sign is the sign asked for.
\<close>

lemma f64_round_error:
  assumes "0 < p" and "0 < q" and x: "x = of_nat p / of_nat q * (2::rat) powi k"
    and lo: "2 powi (- 1022) \<le> x" and hi: "x < 2 powi 1023"
  obtains r where "f64_finite (f64_round s p q k)" and "\<bar>r - x\<bar> \<le> x / 2 ^ 53"
    and "f64_val (f64_round s p q k) = (if s then - r else r)"
proof -
  define L where "L = log2_ratio p q"
  define e where "e = L + k - 52"
  define a b where "a = p * 2 ^ nat (k - e)" and "b = q * 2 ^ nat (e - k)"
  define m where "m = round_half_even a b"
  have pk: "(0::rat) < 2 powi k" and pe: "(0::rat) < 2 powi e" by simp_all
  have "2 powi L * (2::rat) powi k \<le> x" "x < 2 powi (L + 1) * (2::rat) powi k"
    unfolding x L_def using mult_right_mono [OF log2_ratio_bounds(1) [OF assms(1,2)] less_imp_le [OF pk]]
      mult_strict_right_mono [OF log2_ratio_bounds(2) [OF assms(1,2)] pk] .
  then have xb: "(2::rat) powi (L + k) \<le> x" "x < (2::rat) powi (L + k + 1)"
    by (simp_all add: power_int_add)
  have Llo: "- 1022 \<le> L + k"
  proof (rule ccontr)
    assume "\<not> - 1022 \<le> L + k"
    then have "(2::rat) powi (L + k + 1) \<le> 2 powi (- 1022)" by (intro power_int_increasing) auto
    with xb(2) lo show False by linarith
  qed
  have Lhi: "L + k \<le> 1022"
  proof (rule ccontr)
    assume "\<not> L + k \<le> 1022"
    then have "(2::rat) powi 1023 \<le> 2 powi (L + k)" by (intro power_int_increasing) auto
    with xb(1) hi show False by linarith
  qed
  have b0: "0 < b" using assms(2) by (simp add: b_def)
  define y where "y = x / 2 powi e"
  have ab: "(of_nat a :: rat) / of_nat b = y"
  proof (cases "e \<le> k")
    case True
    then have "(2::rat) powi k = 2 ^ nat (k - e) * 2 powi e" by (rule powi_scale)
    with True pe show ?thesis by (simp add: y_def x a_def b_def)
  next
    case False
    then have "(2::rat) powi e = 2 ^ nat (e - k) * 2 powi k" by (intro powi_scale) simp
    with False pk show ?thesis by (simp add: y_def x a_def b_def field_simps)
  qed
  have "(2::rat) powi (L + k) = 2 ^ 52 * 2 powi e" "(2::rat) powi (L + k + 1) = 2 ^ 53 * 2 powi e"
    using powi_scale [of e "L + k"] powi_scale [of e "L + k + 1"] by (simp_all add: e_def)
  with xb have yb: "2 ^ 52 \<le> y" "y < 2 ^ 53"
    using pe by (simp_all add: y_def pos_le_divide_eq pos_divide_less_eq)
  have r1: "2 * b * m \<le> 2 * a + b" and r2: "2 * a \<le> 2 * b * m + b"
    using round_half_even_bounds [OF b0, of a] by (auto simp: m_def)
  have bq: "(0::rat) < of_nat b" using b0 by simp
  have aq: "(of_nat a :: rat) = y * of_nat b" using ab bq by (simp add: field_simps)
  have "(2::rat) * of_nat b * of_nat m \<le> 2 * of_nat a + of_nat b"
    using r1 by (metis (mono_tags, lifting) of_nat_add of_nat_le_iff of_nat_mult of_nat_numeral)
  then have "of_nat b * (2 * (of_nat m :: rat)) \<le> of_nat b * (2 * y + 1)"
    by (simp add: aq algebra_simps)
  then have m1: "(of_nat m :: rat) \<le> y + 1 / 2" using bq by simp
  have "(2::rat) * of_nat a \<le> 2 * of_nat b * of_nat m + of_nat b"
    using r2 by (metis (mono_tags, lifting) of_nat_add of_nat_le_iff of_nat_mult of_nat_numeral)
  then have "of_nat b * (2 * y) \<le> of_nat b * (2 * (of_nat m :: rat) + 1)"
    by (simp add: aq algebra_simps)
  then have m2: "y \<le> (of_nat m :: rat) + 1 / 2" using bq by simp
  have mlo: "2 ^ 52 \<le> m"
  proof -
    have "(2::rat) ^ 52 < of_nat m + 1" using m2 yb by linarith
    then have "(of_nat (2 ^ 52) :: rat) < of_nat (m + 1)" by simp
    then show ?thesis by (simp only: of_nat_less_iff)
  qed
  have mhi: "m \<le> 2 ^ 53"
  proof -
    have "(of_nat m :: rat) < 2 ^ 53 + 1" using m1 yb by linarith
    then have "(of_nat m :: rat) < of_nat (2 ^ 53 + 1)" by simp
    then show ?thesis by (simp only: of_nat_less_iff)
  qed
  have rnd: "f64_round s p q k = f64_pack s m e"
  proof -
    have "max (- 1074) (log2_ratio p q + k - 52) = e" using Llo by (simp add: e_def L_def)
    then show ?thesis using assms(1) by (simp add: f64_round_def Let_def m_def a_def b_def)
  qed
  have e0: "- 1074 \<le> e" "nat (e + 1074) \<le> 2044" using Llo Lhi by (auto simp: e_def)
  have "nat (e + 1074) * 2 ^ 52 \<le> 2044 * 2 ^ 52" using e0(2) by (rule mult_right_mono) simp
  moreover have "(2044::nat) * 2 ^ 52 + 2 ^ 53 < 2047 * 2 ^ 52" by simp
  ultimately have small: "nat (e + 1074) * 2 ^ 52 + m < 2047 * 2 ^ 52" using mhi by linarith
  have shape: "e = - 1074 \<and> m < 2 ^ 52 \<or> - 1074 \<le> e \<and> 2 ^ 52 \<le> m \<and> m \<le> 2 ^ 53"
    using mlo mhi e0 by blast
  define r where "r = of_nat m * (2::rat) powi e"
  have "r - x = (of_nat m - y) * 2 powi e" using pe by (simp add: r_def y_def field_simps)
  moreover have "\<bar>of_nat m - y\<bar> \<le> 1 / 2" using m1 m2 by linarith
  ultimately have "\<bar>r - x\<bar> \<le> 1 / 2 * 2 powi e" using pe by (simp add: abs_mult)
  moreover have "2 ^ 52 * 2 powi e \<le> x" using yb(1) pe by (simp add: y_def pos_le_divide_eq)
  ultimately have "\<bar>r - x\<bar> \<le> x / 2 ^ 53" by simp
  then show thesis
    using that [of r] f64_pack_value [OF shape small, of s]
    by (simp add: rnd r_def signed_mant_def)
qed

lemma f64_round_int_exact:
  assumes "0 < p" and "p \<le> 2 ^ 53"
  shows "f64_finite (f64_round s p 1 0)" and "f64_val (f64_round s p 1 0) = of_int (signed_mant s p)"
proof -
  define L where "L = log2_ratio p 1"
  define m where "m = round_half_even (p * 2 ^ nat (52 - L)) (2 ^ nat (L - 52))"
  have Lb: "(2::rat) powi L \<le> of_nat p" "(of_nat p :: rat) < 2 powi (L + 1)"
    using log2_ratio_bounds [of p 1] assms(1) by (simp_all add: L_def)
  have "(1::rat) \<le> of_nat p" using assms(1) by simp
  have Llo: "0 \<le> L"
  proof (rule ccontr)
    assume "\<not> 0 \<le> L"
    then have "(2::rat) powi (L + 1) \<le> 2 powi 0" by (intro power_int_increasing) auto
    with Lb(2) \<open>1 \<le> of_nat p\<close> show False by simp
  qed
  have "(of_nat p :: rat) \<le> of_nat (2 ^ 53)" using assms(2) by (simp only: of_nat_le_iff)
  have Lhi: "L \<le> 53"
  proof (rule ccontr)
    assume "\<not> L \<le> 53"
    then have "(2::rat) powi 54 \<le> 2 powi L" by (intro power_int_increasing) auto
    with Lb(1) \<open>(of_nat p :: rat) \<le> of_nat (2 ^ 53)\<close> show False by simp
  qed
  have m: "of_nat m * (2::rat) powi (L - 52) = of_nat p \<and> 2 ^ 52 \<le> m \<and> m \<le> 2 ^ 53"
  proof (cases "L = 53")
    case True
    then have "(2::rat) ^ 53 \<le> of_nat p" using Lb(1) by simp
    then have "(of_nat (2 ^ 53) :: rat) \<le> of_nat p" by simp
    then have "p = 2 ^ 53" using assms(2) by (simp only: of_nat_le_iff le_antisym)
    with True show ?thesis by (simp add: m_def round_half_even_def)
  next
    case False
    then have L52: "L \<le> 52" using Lhi by simp
    then have mp: "m = p * 2 ^ nat (52 - L)" by (simp add: m_def round_half_even_def)
    have pl: "2 ^ nat L \<le> p" "p < 2 ^ nat (L + 1)"
    proof -
      have "(of_nat (2 ^ nat L) :: rat) \<le> of_nat p" "(of_nat p :: rat) < of_nat (2 ^ nat (L + 1))"
        using Lb Llo by (simp_all add: power_int_def)
      then show "2 ^ nat L \<le> p" "p < 2 ^ nat (L + 1)" by (simp_all only: of_nat_le_iff of_nat_less_iff)
    qed
    have "nat L + nat (52 - L) = 52" "nat (L + 1) + nat (52 - L) = 53" using Llo L52 by auto
    then have pw: "(2::nat) ^ 52 = 2 ^ nat L * 2 ^ nat (52 - L)"
      "(2::nat) ^ 53 = 2 ^ nat (L + 1) * 2 ^ nat (52 - L)"
      by (simp_all only: power_add [symmetric])
    have "2 ^ 52 \<le> m" "m \<le> 2 ^ 53"
      unfolding mp pw using pl by (auto intro!: mult_right_mono simp: less_imp_le)
    moreover have "(2::rat) ^ nat (52 - L) * 2 powi (L - 52) = 1"
      using powi_scale [of "L - 52" 0] L52 by simp
    ultimately show ?thesis by (simp add: mp mult.assoc)
  qed
  have e: "max (- 1074) (log2_ratio p 1 + 0 - 52) = L - 52" using Llo by (simp add: L_def)
  have rnd: "f64_round s p 1 0 = f64_pack s m (L - 52)"
    using assms(1) unfolding f64_round_def Let_def e by (simp add: m_def)
  have "nat (L - 52 + 1074) \<le> 1075" using Lhi by simp
  then have "nat (L - 52 + 1074) * 2 ^ 52 \<le> 1075 * 2 ^ 52" by (rule mult_right_mono) simp
  moreover have "(1075::nat) * 2 ^ 52 + 2 ^ 53 < 2047 * 2 ^ 52" by simp
  ultimately have "nat (L - 52 + 1074) * 2 ^ 52 + m < 2047 * 2 ^ 52" using m by linarith
  then have "f64_finite (f64_pack s m (L - 52))"
    "f64_val (f64_pack s m (L - 52)) = of_int (signed_mant s m) * 2 powi (L - 52)"
    using f64_pack_value [of "L - 52" m s] m Llo by auto
  then show "f64_finite (f64_round s p 1 0)" and "f64_val (f64_round s p 1 0) = of_int (signed_mant s p)"
    unfolding rnd using m by (auto simp: signed_mant_def)
qed

lemma f64_zero_val [simp]: "f64_finite (f64_zero s)" "f64_val (f64_zero s) = 0"
  by (auto simp: f64_zero_def f64_finite_def f64_val_def f64_class_def f64_expo_def f64_frac_def
      signed_mant_def)

text \<open>Every integer up to \<open>2 ^ 53\<close> in magnitude is a double.\<close>

lemma f64_of_int_exact:
  assumes "\<bar>i\<bar> \<le> 2 ^ 53"
  shows "f64_to_int (f64_of_int i) = Some i"
proof (cases "i = 0")
  case True
  then show ?thesis by (auto intro!: f64_val_to_int simp: f64_of_int_def f64_round_def)
next
  case False
  then have "0 < nat \<bar>i\<bar>" "nat \<bar>i\<bar> \<le> 2 ^ 53" using assms by auto
  from f64_round_int_exact [OF this, of "i < 0"] show ?thesis
    by (intro f64_val_to_int) (auto simp: f64_of_int_def signed_mant_def)
qed


section \<open>Rounding error of one operation\<close>

definition normal_range :: "rat \<Rightarrow> bool" where
  "normal_range x \<longleftrightarrow> 2 powi (- 1022) \<le> x \<and> x < 2 powi 1023"

definition f64_close :: "f64 \<Rightarrow> rat \<Rightarrow> bool" where
  "f64_close x r \<longleftrightarrow> f64_finite x \<and> \<bar>f64_val x - r\<bar> \<le> r / 2 ^ 53"

lemma f64_round_close:
  assumes "0 < p" and "0 < q" and "normal_range (of_nat p / of_nat q * 2 powi k)"
  shows "f64_close (f64_round False p q k) (of_nat p / of_nat q * 2 powi k)"
  using f64_round_error [OF assms(1,2) refl, of k False] assms(3)
  by (auto simp: f64_close_def normal_range_def)

lemma f64_posE:
  assumes "f64_finite x" and "0 < f64_val x"
  obtains m e where "f64_class x = Fin False m e" "0 < m" "f64_val x = of_nat m * 2 powi e"
proof -
  from assms(1) obtain s m e where c: "f64_class x = Fin s m e"
    and v: "f64_val x = of_int (signed_mant s m) * 2 powi e" by (rule f64_finiteE)
  have "(0::rat) < 2 powi e" by simp
  with v assms(2) have "(0::rat) < of_int (signed_mant s m)" by (simp add: zero_less_mult_iff)
  then have "0 < signed_mant s m" by (simp only: of_int_0_less_iff)
  then have "\<not> s" "0 < m" by (auto simp: signed_mant_def split: if_splits)
  with c v that show thesis by simp
qed

lemma f64_mul_close:
  assumes "f64_finite x" "f64_finite y" "0 < f64_val x" "0 < f64_val y"
    and "normal_range (f64_val x * f64_val y)"
  shows "f64_close (f64_mul x y) (f64_val x * f64_val y)"
proof -
  obtain m e where x: "f64_class x = Fin False m e" "0 < m" "f64_val x = of_nat m * 2 powi e"
    using assms(1,3) by (rule f64_posE)
  obtain n f where y: "f64_class y = Fin False n f" "0 < n" "f64_val y = of_nat n * 2 powi f"
    using assms(2,4) by (rule f64_posE)
  have v: "f64_val x * f64_val y = of_nat (m * n) / of_nat 1 * 2 powi (e + f)"
    by (simp add: x y power_int_add)
  show ?thesis
    using f64_round_close [of "m * n" 1 "e + f"] assms(5) x y unfolding v by (simp add: f64_mul_def)
qed

lemma f64_div_close:
  assumes "f64_finite x" "f64_finite y" "0 < f64_val x" "0 < f64_val y"
    and "normal_range (f64_val x / f64_val y)"
  shows "f64_close (f64_div x y) (f64_val x / f64_val y)"
proof -
  obtain m e where x: "f64_class x = Fin False m e" "0 < m" "f64_val x = of_nat m * 2 powi e"
    using assms(1,3) by (rule f64_posE)
  obtain n f where y: "f64_class y = Fin False n f" "0 < n" "f64_val y = of_nat n * 2 powi f"
    using assms(2,4) by (rule f64_posE)
  have v: "f64_val x / f64_val y = of_nat m / of_nat n * 2 powi (e - f)"
    by (simp add: x y power_int_diff)
  show ?thesis
    using f64_round_close [of m n "e - f"] assms(5) x y unfolding v by (simp add: f64_div_def)
qed

lemma align_value:
  "of_int (signed_mant s m * 2 ^ nat (e - min e f)) * (2::rat) powi min e f
    = of_int (signed_mant s m) * 2 powi e"
  "of_int (signed_mant t n * 2 ^ nat (f - min e f)) * (2::rat) powi min e f
    = of_int (signed_mant t n) * 2 powi f"
  using powi_scale [of "min e f" e] powi_scale [of "min e f" f] by simp_all

lemma f64_sum_close:
  assumes r: "r = of_int v * (2::rat) powi g" and "normal_range r"
  shows "v \<noteq> 0" and "\<not> v < 0" and "f64_close (f64_round (v < 0) (nat \<bar>v\<bar>) 1 g) r"
proof -
  have "(0::rat) < 2 powi (- 1022)" by simp
  then have "0 < r" using assms(2) by (simp add: normal_range_def)
  moreover have "(0::rat) < 2 powi g" by simp
  ultimately have "(0::rat) < of_int v" unfolding r by (simp add: zero_less_mult_iff)
  then have v: "0 < v" by (simp only: of_int_0_less_iff)
  then show "v \<noteq> 0" "\<not> v < 0" by auto
  have "r = of_nat (nat \<bar>v\<bar>) / of_nat 1 * 2 powi g" using v by (simp add: r)
  then show "f64_close (f64_round (v < 0) (nat \<bar>v\<bar>) 1 g) r"
    using f64_round_close [of "nat \<bar>v\<bar>" 1 g] v assms(2) by simp
qed

lemma f64_sub_close:
  assumes "f64_finite x" "f64_finite y" and "normal_range (f64_val x - f64_val y)"
  shows "f64_close (f64_sub x y) (f64_val x - f64_val y)"
proof -
  obtain s m e where x: "f64_class x = Fin s m e" "f64_val x = of_int (signed_mant s m) * 2 powi e"
    using assms(1) by (rule f64_finiteE)
  obtain t n f where y: "f64_class y = Fin t n f" "f64_val y = of_int (signed_mant t n) * 2 powi f"
    using assms(2) by (rule f64_finiteE)
  define v where "v = signed_mant s m * 2 ^ nat (e - min e f) - signed_mant t n * 2 ^ nat (f - min e f)"
  have r: "f64_val x - f64_val y = of_int v * 2 powi min e f"
    unfolding x(2) y(2) v_def align_value(1) [of s m e f, symmetric]
      align_value(2) [of t n f e, symmetric] by (simp add: algebra_simps)
  have "f64_sub x y = (if v = 0 then f64_zero (s \<and> \<not> t) else f64_round (v < 0) (nat \<bar>v\<bar>) 1 (min e f))"
    by (simp add: f64_sub_def x(1) y(1) Let_def v_def)
  with f64_sum_close [OF r assms(3)] show ?thesis by simp
qed

lemma f64_add_close:
  assumes "f64_finite x" "f64_finite y" and "normal_range (f64_val x + f64_val y)"
  shows "f64_close (f64_add x y) (f64_val x + f64_val y)"
proof -
  obtain s m e where x: "f64_class x = Fin s m e" "f64_val x = of_int (signed_mant s m) * 2 powi e"
    using assms(1) by (rule f64_finiteE)
  obtain t n f where y: "f64_class y = Fin t n f" "f64_val y = of_int (signed_mant t n) * 2 powi f"
    using assms(2) by (rule f64_finiteE)
  define v where "v = signed_mant s m * 2 ^ nat (e - min e f) + signed_mant t n * 2 ^ nat (f - min e f)"
  have r: "f64_val x + f64_val y = of_int v * 2 powi min e f"
    unfolding x(2) y(2) v_def align_value(1) [of s m e f, symmetric]
      align_value(2) [of t n f e, symmetric] by (simp add: algebra_simps)
  have "f64_add x y = (if v = 0 then f64_zero (s \<and> t) else f64_round (v < 0) (nat \<bar>v\<bar>) 1 (min e f))"
    by (simp add: f64_add_def x(1) y(1) Let_def v_def)
  with f64_sum_close [OF r assms(3)] show ?thesis by simp
qed

text \<open>A value from zero upwards, and below \<open>2 ^ 53 + 1\<close>, is inside the normal range.\<close>

lemma normal_rangeI:
  assumes "1 / 2 ^ 100 \<le> x" and "x \<le> 2 ^ 200"
  shows "normal_range x"
proof -
  have "(2::rat) powi (- 1022) \<le> 2 powi (- 100)" by (rule power_int_increasing) auto
  moreover have "(2::rat) powi (- 100) = 1 / 2 ^ 100"
    by (simp add: power_int_def inverse_eq_divide power_one_over del: power_numeral)
  moreover have "(2::rat) powi 200 < 2 powi 1023" by (rule power_int_strict_increasing) auto
  ultimately show ?thesis using assms by (simp add: normal_range_def)
qed

lemma f64_closeD:
  assumes "f64_close x r" and "0 \<le> r"
  shows "f64_finite x" and "f64_val x \<le> r * (1 + 1 / 2 ^ 53)" and "r * (1 - 1 / 2 ^ 53) \<le> f64_val x"
proof -
  show "f64_finite x" using assms by (simp add: f64_close_def)
  have d: "\<bar>f64_val x - r\<bar> \<le> r / 2 ^ 53" using assms by (simp add: f64_close_def)
  have up: "r * (1 + 1 / 2 ^ 53) = r + r / 2 ^ 53" and dn: "r * (1 - 1 / 2 ^ 53) = r - r / 2 ^ 53"
    by (simp_all only: distrib_left right_diff_distrib mult_1_right times_divide_eq_right)
  show "f64_val x \<le> r * (1 + 1 / 2 ^ 53)" unfolding up using abs_le_D1 [OF d] by linarith
  show "r * (1 - 1 / 2 ^ 53) \<le> f64_val x" unfolding dn using abs_le_D2 [OF d] by linarith
qed

lemma f64_bytes_nth:
  assumes "i < 8"
  shows "f64_bytes x ! (7 - i) = ucast (drop_bit (8 * i) (f64_bits x))"
proof -
  have list: "[7, 6, 5, 4, 3, 2, 1, 0] = rev [0..<8::nat]" by code_simp
  have nth: "rev [0..<8::nat] ! (7 - i) = i"
    using assms by (subst rev_nth) (auto simp del: upt_rec_numeral)
  have "7 - i < length (rev [0..<8::nat])" by (simp del: upt_rec_numeral)
  then show ?thesis by (simp only: f64_bytes_def list nth_map nth)
qed

lemma f64_bytes_inj: "f64_bytes x = f64_bytes y \<longleftrightarrow> x = y"
proof
  assume eq: "f64_bytes x = f64_bytes y"
  have "bit (f64_bits x) n = bit (f64_bits y) n" if n: "n < 64" for n
  proof -
    define i j where "i = n div 8" and "j = n mod 8"
    have ij: "n = 8 * i + j" "j < 8" "i < 8" using n by (auto simp: i_def j_def)
    from \<open>i < 8\<close> have "(ucast (drop_bit (8 * i) (f64_bits x)) :: u8) = ucast (drop_bit (8 * i) (f64_bits y))"
      using f64_bytes_nth [of i x] f64_bytes_nth [of i y] eq by metis
    then have "bit (ucast (drop_bit (8 * i) (f64_bits x)) :: u8) j
        = bit (ucast (drop_bit (8 * i) (f64_bits y)) :: u8) j" by simp
    with ij show ?thesis by (simp add: bit_simps)
  qed
  then have "f64_bits x = f64_bits y" by (intro bit_word_eqI) simp
  then show "x = y" by (simp add: f64.expand)
qed simp

lemma length_f64_bytes [simp]: "length (f64_bytes x) = 8"
  by (simp add: f64_bytes_def)

section \<open>Exact sums of integers\<close>

lemma bit_len_double: "0 < n \<Longrightarrow> bit_len (n * 2 ^ j) = bit_len n + j"
proof (induction j)
  case 0
  then show ?case by simp
next
  case (Suc j)
  then have "bit_len (n * 2 ^ Suc j) = Suc (bit_len (n * 2 ^ j))"
    by (subst bit_len.simps) simp
  with Suc show ?case by simp
qed

lemma log2_ratio_one: "0 < p \<Longrightarrow> log2_ratio p 1 = int (bit_len p) - 1"
proof -
  assume "0 < p"
  then have "2 ^ (bit_len p - 1) \<le> p" and "0 < bit_len p" using bit_len_bounds by auto
  moreover from this have "nat (int (bit_len p) - 1) = bit_len p - 1" "nat (1 - int (bit_len p)) = 0"
    by auto
  moreover have "bit_len (Suc 0) = 1" using bit_len.simps [of 1] bit_len.simps [of 0] by simp
  ultimately show ?thesis by (simp add: log2_ratio_def Let_def)
qed

lemma round_half_even_scale: "0 < c \<Longrightarrow> round_half_even (a * c) (b * c) = round_half_even a b"
  by (simp add: round_half_even_def Let_def mod_mult_mult2 flip: mult.assoc)

text \<open>Only the value of \<open>p * 2 ^ k\<close> matters, not how it is split.\<close>

lemma f64_round_shift:
  assumes "0 < p"
  shows "f64_round s (p * 2 ^ j) 1 k = f64_round s p 1 (k + int j)"
proof -
  define e where "e = max (- 1074) (log2_ratio p 1 + (k + int j) - 52)"
  have e': "max (- 1074) (log2_ratio (p * 2 ^ j) 1 + k - 52) = e"
    using assms log2_ratio_one [of "p * 2 ^ j"] log2_ratio_one [of p] bit_len_double [of p j]
    by (simp add: e_def)
  have "round_half_even (p * 2 ^ j * 2 ^ nat (k - e)) (1 * 2 ^ nat (e - k))
      = round_half_even (p * 2 ^ nat (k + int j - e)) (1 * 2 ^ nat (e - (k + int j)))"
  proof -
    consider "e \<le> k" | "k < e" "e \<le> k + int j" | "k + int j < e" by linarith
    then show ?thesis
    proof cases
      case 1
      then have "nat (k + int j - e) = j + nat (k - e)" by simp
      with 1 show ?thesis by (simp add: power_add mult.assoc)
    next
      case 2
      then have "j = nat (k + int j - e) + nat (e - k)" by simp
      then have "p * 2 ^ j = p * 2 ^ nat (k + int j - e) * 2 ^ nat (e - k)"
        by (metis mult.assoc power_add)
      then have "round_half_even (p * 2 ^ j) (1 * 2 ^ nat (e - k))
          = round_half_even (p * 2 ^ nat (k + int j - e)) 1"
        using round_half_even_scale [of "2 ^ nat (e - k)" "p * 2 ^ nat (k + int j - e)" 1]
        by (simp only:) simp
      with 2 show ?thesis by simp
    next
      case 3
      then have "nat (e - k) = nat (e - (k + int j)) + j" by simp
      then have "(2::nat) ^ nat (e - k) = 2 ^ nat (e - (k + int j)) * 2 ^ j" by (simp add: power_add)
      with 3 show ?thesis
        using round_half_even_scale [of "2 ^ j" p "2 ^ nat (e - (k + int j))"] by simp
    qed
  qed
  then show ?thesis
    using assms unfolding f64_round_def e' e_def [symmetric] by (simp add: Let_def e_def [symmetric] e')
qed

lemma f64_round_int_scaled:
  assumes "of_int v * (2::rat) powi g = of_int i" and "i \<noteq> 0" and "\<bar>i\<bar> \<le> 2 ^ 53"
  shows "v \<noteq> 0" and "f64_to_int (f64_round (v < 0) (nat \<bar>v\<bar>) 1 g) = Some i"
proof -
  show v0: "v \<noteq> 0" using assms(1,2) by auto
  have "(0::rat) < 2 powi g" by simp
  then have "(of_int v :: rat) < 0 \<longleftrightarrow> (of_int i :: rat) < 0"
    unfolding assms(1) [symmetric] mult_less_0_iff by (meson less_asym)
  then have sign: "v < 0 \<longleftrightarrow> i < 0" by simp
  have "f64_round (v < 0) (nat \<bar>v\<bar>) 1 g = f64_round (i < 0) (nat \<bar>i\<bar>) 1 0"
  proof (cases "0 \<le> g")
    case True
    then have "(of_int (v * 2 ^ nat g) :: rat) = of_int i" using assms(1) by (simp add: power_int_def)
    then have "v * 2 ^ nat g = i" by (simp only: of_int_eq_iff)
    then have "nat \<bar>i\<bar> = nat \<bar>v\<bar> * 2 ^ nat g"
      by (metis abs_mult abs_numeral abs_of_nonneg nat_mult_distrib nat_power_eq abs_ge_zero
          nat_numeral power_abs zero_le_numeral)
    then show ?thesis
      using f64_round_shift [of "nat \<bar>v\<bar>" "i < 0" "nat g" 0] v0 True by (simp add: sign)
  next
    case False
    then have "(2::rat) powi g * 2 ^ nat (- g) = 1" by (simp add: powi_neg)
    then have "(of_int v :: rat) = of_int (i * 2 ^ nat (- g))"
      using arg_cong [OF assms(1), of "\<lambda>x. x * 2 ^ nat (- g)"] by (simp add: mult.assoc)
    then have "v = i * 2 ^ nat (- g)" by (simp only: of_int_eq_iff)
    then have "nat \<bar>v\<bar> = nat \<bar>i\<bar> * 2 ^ nat (- g)"
      by (metis abs_mult abs_numeral abs_of_nonneg nat_mult_distrib nat_power_eq abs_ge_zero
          nat_numeral power_abs zero_le_numeral)
    then show ?thesis
      using f64_round_shift [of "nat \<bar>i\<bar>" "i < 0" "nat (- g)" g] assms(2) False by (simp add: sign)
  qed
  moreover have "f64_to_int (f64_round (i < 0) (nat \<bar>i\<bar>) 1 0) = Some i"
    using f64_of_int_exact [OF assms(3)] by (simp add: f64_of_int_def)
  ultimately show "f64_to_int (f64_round (v < 0) (nat \<bar>v\<bar>) 1 g) = Some i" by simp
qed

lemma f64_zero_int: "f64_to_int (f64_zero s) = Some 0"
  by (rule f64_val_to_int) simp_all

lemma f64_sub_exact:
  assumes "f64_to_int x = Some a" and "f64_to_int y = Some b" and "\<bar>a - b\<bar> \<le> 2 ^ 53"
  shows "f64_to_int (f64_sub x y) = Some (a - b)"
proof -
  note xa = f64_to_int_SomeD [OF assms(1)] and yb = f64_to_int_SomeD [OF assms(2)]
  obtain s m e where x: "f64_class x = Fin s m e" "f64_val x = of_int (signed_mant s m) * 2 powi e"
    using xa(1) by (rule f64_finiteE)
  obtain t n f where y: "f64_class y = Fin t n f" "f64_val y = of_int (signed_mant t n) * 2 powi f"
    using yb(1) by (rule f64_finiteE)
  define v where "v = signed_mant s m * 2 ^ nat (e - min e f) - signed_mant t n * 2 ^ nat (f - min e f)"
  have r: "of_int v * 2 powi min e f = (of_int (a - b) :: rat)"
    using xa(2) yb(2) unfolding x(2) y(2) v_def align_value(1) [of s m e f, symmetric]
      align_value(2) [of t n f e, symmetric] by (simp add: algebra_simps)
  have sub: "f64_sub x y = (if v = 0 then f64_zero (s \<and> \<not> t) else f64_round (v < 0) (nat \<bar>v\<bar>) 1 (min e f))"
    by (simp add: f64_sub_def x(1) y(1) Let_def v_def)
  show ?thesis
  proof (cases "a - b = 0")
    case True
    then have "v = 0" using r by simp
    with True sub show ?thesis by (simp add: f64_zero_int)
  next
    case False
    from f64_round_int_scaled [OF r False assms(3)] sub show ?thesis by simp
  qed
qed

lemma f64_add_exact:
  assumes "f64_to_int x = Some a" and "f64_to_int y = Some b" and "\<bar>a + b\<bar> \<le> 2 ^ 53"
  shows "f64_to_int (f64_add x y) = Some (a + b)"
proof -
  note xa = f64_to_int_SomeD [OF assms(1)] and yb = f64_to_int_SomeD [OF assms(2)]
  obtain s m e where x: "f64_class x = Fin s m e" "f64_val x = of_int (signed_mant s m) * 2 powi e"
    using xa(1) by (rule f64_finiteE)
  obtain t n f where y: "f64_class y = Fin t n f" "f64_val y = of_int (signed_mant t n) * 2 powi f"
    using yb(1) by (rule f64_finiteE)
  define v where "v = signed_mant s m * 2 ^ nat (e - min e f) + signed_mant t n * 2 ^ nat (f - min e f)"
  have r: "of_int v * 2 powi min e f = (of_int (a + b) :: rat)"
    using xa(2) yb(2) unfolding x(2) y(2) v_def align_value(1) [of s m e f, symmetric]
      align_value(2) [of t n f e, symmetric] by (simp add: algebra_simps)
  have add: "f64_add x y = (if v = 0 then f64_zero (s \<and> t) else f64_round (v < 0) (nat \<bar>v\<bar>) 1 (min e f))"
    by (simp add: f64_add_def x(1) y(1) Let_def v_def)
  show ?thesis
  proof (cases "a + b = 0")
    case True
    then have "v = 0" using r by simp
    with True add show ?thesis by (simp add: f64_zero_int)
  next
    case False
    from f64_round_int_scaled [OF r False assms(3)] add show ?thesis by simp
  qed
qed

section \<open>Evaluation\<close>

lemma bit_len_eval:
  "bit_len 0 = 0" "bit_len 1 = 1" "bit_len (Suc 0) = 1"
  "bit_len (numeral (num.Bit0 n)) = Suc (bit_len (numeral n))"
  "bit_len (numeral (num.Bit1 n)) = Suc (bit_len (numeral n))"
  using bit_len.simps [of 0] bit_len.simps [of 1] bit_len.simps [of "numeral (num.Bit0 n)"]
    bit_len.simps [of "numeral (num.Bit1 n)"] by simp_all

text \<open>The definitions the simplifier computes with, for concrete numbers.\<close>

lemmas f64_eval =
  f64_sign_def f64_expo_def f64_frac_def f64_class_def f64_finite_def f64_nan_def f64_inf_def
  f64_zero_def f64_pack_def bit_len_eval log2_ratio_def round_half_even_def f64_round_def
  f64_of_int_def f64_add_def f64_sub_def f64_mul_def f64_div_def f64_lt_def f64_le_def f64_eq_def
  f64_to_int_def f64_is_integer_def f64_bytes_def Let_def

end
