(* ===== verification/JsValue.thy ===== *)
theory JsValue
  imports JsNumber
begin

text \<open>
  Parsed JSON as the handlers receive it, the property tests the validators are written with,
  and the result type of the validators: an error code with the field it names.
\<close>

section \<open>JSON values\<close>

text \<open>
  \<open>JObj\<close> lists the properties in \<open>Object.keys\<close> order; \<open>JSON.parse\<close> leaves one entry per
  key.  A property that is absent is \<open>None\<close> of \<open>get_prop\<close>.
\<close>

datatype json =
    JNull
  | JBool bool
  | JNum f64
  | JStr jsstring
  | JArr "json list"
  | JObj "(jsstring \<times> json) list"

definition get_prop :: "jsstring \<Rightarrow> (jsstring \<times> json) list \<Rightarrow> json option" where
  "get_prop k ps = map_of ps k"

text \<open>\<open>isPlainObject\<close>: neither null nor an array, and \<open>typeof x === "object"\<close>.\<close>

fun is_plain_object :: "json \<Rightarrow> bool" where
  "is_plain_object (JObj ps) = True"
| "is_plain_object _ = False"

fun as_object :: "json \<Rightarrow> (jsstring \<times> json) list option" where
  "as_object (JObj ps) = Some ps"
| "as_object _ = None"

fun as_string :: "json \<Rightarrow> jsstring option" where
  "as_string (JStr s) = Some s"
| "as_string _ = None"

fun as_number :: "json \<Rightarrow> f64 option" where
  "as_number (JNum x) = Some x"
| "as_number _ = None"

lemma as_object_Some [simp]: "as_object j = Some ps \<longleftrightarrow> j = JObj ps"
  by (cases j) auto

lemma as_string_Some [simp]: "as_string j = Some s \<longleftrightarrow> j = JStr s"
  by (cases j) auto

lemma as_number_Some [simp]: "as_number j = Some x \<longleftrightarrow> j = JNum x"
  by (cases j) auto

section \<open>Integer-valued numbers\<close>

definition js_safe_int :: int where "js_safe_int = 9007199254740991"

text \<open>The integer an integer-valued number stands for.\<close>

definition f64_int :: "f64 \<Rightarrow> int" where
  "f64_int x = (case f64_to_int x of Some i \<Rightarrow> i | None \<Rightarrow> 0)"

lemma f64_int_Some [simp]: "f64_to_int x = Some i \<Longrightarrow> f64_int x = i"
  by (simp add: f64_int_def)

lemma f64_is_integer_int: "f64_is_integer x \<Longrightarrow> f64_to_int x = Some (f64_int x)"
  by (auto simp: f64_is_integer_def)

text \<open>A numeric literal of the source, and comparisons that both sides read as integers.\<close>

definition num :: "int \<Rightarrow> f64" where "num i = f64_of_int i"

lemma num_to_int: "\<bar>i\<bar> \<le> 2 ^ 53 \<Longrightarrow> f64_to_int (num i) = Some i"
  by (simp add: num_def f64_of_int_exact)

lemma num_finite: "\<bar>i\<bar> \<le> 2 ^ 53 \<Longrightarrow> f64_finite (num i) \<and> f64_val (num i) = of_int i"
  using f64_to_int_SomeD [OF num_to_int] by simp

lemma f64_lt_ints:
  "f64_to_int x = Some a \<Longrightarrow> f64_to_int y = Some b \<Longrightarrow> f64_lt x y \<longleftrightarrow> a < b"
  using f64_to_int_SomeD by (simp add: f64_lt_val)

lemma f64_le_ints:
  "f64_to_int x = Some a \<Longrightarrow> f64_to_int y = Some b \<Longrightarrow> f64_le x y \<longleftrightarrow> a \<le> b"
  using f64_to_int_SomeD by (simp add: f64_le_val)

lemma f64_eq_ints:
  "f64_to_int x = Some a \<Longrightarrow> f64_to_int y = Some b \<Longrightarrow> f64_eq x y \<longleftrightarrow> a = b"
  using f64_to_int_SomeD by (simp add: f64_eq_val)

lemma f64_int_val: "f64_is_integer x \<Longrightarrow> f64_finite x \<and> f64_val x = of_int (f64_int x)"
  using f64_to_int_SomeD [OF f64_is_integer_int] by simp

lemma f64_int_cases:
  assumes "f64_is_integer x"
  obtains a where "f64_to_int x = Some a" "f64_int x = a"
  using f64_is_integer_int [OF assms] by (rule that) (rule refl)

end
