(* ===== verification/CanonicalCbor.thy ===== *)
theory CanonicalCbor
  imports JsValue
begin

text \<open>
  The canonical CBOR encoder of \<open>schemas/compute_metering_v2.ts\<close> (RFC 8949 section 4.2.1):
  the encoder as written, a reader for the byte strings it produces, and the facts the
  signature pre-images rest on.  Encoding is injective up to \<open>cbor_norm\<close>, prefix free, and
  independent of the insertion order of map keys.
\<close>

unbundle bit_operations_syntax

section \<open>The encoder\<close>

text \<open>The throw sites of the encoder and of the evidence canonicaliser built on it.\<close>

datatype type_error =
    EncodeUintOutOfRange
  | EncodeUintUnsafe
  | EncodeIntNotInteger
  | EncodeFloatNotFinite
  | PayloadNull
  | PayloadBoolean
  | PayloadNotFinite
  | PayloadBadBase64
  | EntryUnknownType
  | EntryBadNonce
  | EntryBadPayload
  | HexToU8aThrows

datatype cbor =
    CInt f64
  | CFloat f64
  | CText jsstring
  | CBytes bytes
  | CArray "cbor list"
  | CMap "(jsstring \<times> cbor) list"

text \<open>The big-endian octets of \<open>n\<close>, from octet \<open>k - 1\<close> down to octet 0.\<close>

definition be_bytes :: "nat \<Rightarrow> int \<Rightarrow> bytes" where
  "be_bytes k n = map (\<lambda>i. of_int (drop_bit (8 * i) n)) (rev [0..<k])"

definition head_byte :: "nat \<Rightarrow> int \<Rightarrow> u8" where
  "head_byte major n = push_bit 5 (of_nat major) OR of_int n"

definition encodeUint :: "nat \<Rightarrow> int \<Rightarrow> type_error + bytes" where
  "encodeUint major n =
     (if n < 0 then Inl EncodeUintOutOfRange
      else if n \<le> 23 then Inr [head_byte major n]
      else if n \<le> 0xff then Inr (head_byte major 24 # be_bytes 1 n)
      else if n \<le> 0xffff then Inr (head_byte major 25 # be_bytes 2 n)
      else if n \<le> 0xffffffff then Inr (head_byte major 26 # be_bytes 4 n)
      else if js_safe_int < n then Inl EncodeUintUnsafe
      else Inr (head_byte major 27 # be_bytes 8 n))"

text \<open>
  \<open>-1 - n\<close> is computed exactly: below \<open>-(2 ^ 53)\<close> the rounded difference of the source and
  the exact one are both above \<open>js_safe_int\<close>, and both throw.
\<close>

definition encodeInt :: "f64 \<Rightarrow> type_error + bytes" where
  "encodeInt x =
     (case f64_to_int x of
        None \<Rightarrow> Inl EncodeIntNotInteger
      | Some n \<Rightarrow> if 0 \<le> n then encodeUint 0 n else encodeUint 1 (- 1 - n))"

definition encodeFloat64 :: "f64 \<Rightarrow> type_error + bytes" where
  "encodeFloat64 x =
     (if f64_finite x then Inr (head_byte 7 27 # f64_bytes x) else Inl EncodeFloatNotFinite)"

definition encodeBytes :: "bytes \<Rightarrow> type_error + bytes" where
  "encodeBytes b = and_then (encodeUint 2 (int (length b))) (\<lambda>h. Inr (h @ b))"

definition encodeText :: "jsstring \<Rightarrow> type_error + bytes" where
  "encodeText s =
     (let bytes = utf8_encode s
      in and_then (encodeUint 3 (int (length bytes))) (\<lambda>h. Inr (h @ bytes)))"

text \<open>The first differing octet decides; of a string and its prefix the prefix is smaller.\<close>

fun cmpBytes :: "bytes \<Rightarrow> bytes \<Rightarrow> int" where
  "cmpBytes (x # xs) (y # ys) = (if x \<noteq> y then uint x - uint y else cmpBytes xs ys)"
| "cmpBytes xs ys = int (length xs) - int (length ys)"

fun encodeCbor :: "cbor \<Rightarrow> type_error + bytes" where
  "encodeCbor (CInt x) = encodeInt x"
| "encodeCbor (CFloat x) = encodeFloat64 x"
| "encodeCbor (CText s) = encodeText s"
| "encodeCbor (CBytes b) = encodeBytes b"
| "encodeCbor (CArray vs) =
     and_then (encodeUint 4 (int (length vs))) (\<lambda>head.
     and_then (map_result encodeCbor vs) (\<lambda>parts.
     Inr (head @ concat parts)))"
| "encodeCbor (CMap kvs) =
     and_then (map_result (\<lambda>kv.
         and_then (encodeText (fst kv)) (\<lambda>keyBytes.
         and_then (encodeCbor (snd kv)) (\<lambda>valueBytes.
         Inr (keyBytes, valueBytes)))) kvs) (\<lambda>encoded.
     let sorted = js_sort (\<lambda>a b. cmpBytes (fst a) (fst b)) encoded
     in and_then (encodeUint 5 (int (length sorted))) (\<lambda>head.
        Inr (head @ concat (map (\<lambda>kv. fst kv @ snd kv) sorted))))"

section \<open>Byte order\<close>

lemma cmpBytes_flip: "cmpBytes ys xs = - cmpBytes xs ys"
  by (induction xs ys rule: cmpBytes.induct) auto

lemma cmpBytes_zero: "cmpBytes xs ys = 0 \<longleftrightarrow> xs = ys"
  by (induction xs ys rule: cmpBytes.induct) (auto simp: word_uint_eq_iff)

lemma cmpBytes_Cons_le:
  "cmpBytes (x # xs) (y # ys) \<le> 0 \<longleftrightarrow> x < y \<or> x = y \<and> cmpBytes xs ys \<le> 0"
  by (auto simp: word_less_def word_uint_eq_iff)

lemma cmpBytes_trans: "cmpBytes xs ys \<le> 0 \<Longrightarrow> cmpBytes ys zs \<le> 0 \<Longrightarrow> cmpBytes xs zs \<le> 0"
proof (induction xs arbitrary: ys zs)
  case Nil
  then show ?case by simp
next
  case (Cons x xs)
  from Cons.prems(1) obtain y ys' where ys: "ys = y # ys'" by (cases ys) auto
  with Cons.prems(2) obtain z zs' where zs: "zs = z # zs'" by (cases zs) auto
  show ?case
    using Cons.prems Cons.IH [of ys' zs'] less_trans [of x y z]
    unfolding ys zs cmpBytes_Cons_le by auto
qed

interpretation bytes_order: comparator cmpBytes
proof
  show "cmpBytes x y \<le> 0 \<longleftrightarrow> 0 \<le> cmpBytes y x" for x y
    by (simp add: cmpBytes_flip [of x y])
qed (rule cmpBytes_trans)

text \<open>Comparing entries by their encoded key.\<close>

interpretation entry_order: comparator "\<lambda>a b. cmpBytes (fst a) (fst (b :: bytes \<times> bytes))"
  by unfold_locales (rule bytes_order.cmp_flip, rule cmpBytes_trans)

section \<open>Heads\<close>

lemma head_byte_value:
  assumes "major < 8" and "0 \<le> n" and "n < 32"
  shows "unat (head_byte major n) = 32 * major + nat n"
proof -
  have bits: "bit (of_int n :: u8) i \<longleftrightarrow> bit n i \<and> i < 8" for i by (auto simp: bit_simps)
  have n: "take_bit 5 n = n" using assms by (simp add: take_bit_int_eq_self)
  have "push_bit 5 (of_nat major) AND (of_int n :: u8) = 0"
  proof (rule bit_word_eqI)
    fix i
    have "bit n i \<Longrightarrow> i < 5" by (subst (asm) n [symmetric]) (auto simp: bit_simps)
    then show "bit (push_bit 5 (of_nat major) AND (of_int n :: u8)) i \<longleftrightarrow> bit (0 :: u8) i"
      by (auto simp: bit_simps bits)
  qed
  then have "head_byte major n = push_bit 5 (of_nat major) + of_int n"
    unfolding head_byte_def by (simp add: disjunctive_add_eq_or)
  also have "\<dots> = of_nat (32 * major + nat n)"
    using assms by (simp add: push_bit_eq_mult)
  finally have "head_byte major n = of_nat (32 * major + nat n)" .
  moreover have "32 * major + nat n < 256" using assms by linarith
  ultimately show ?thesis by (simp add: unat_byte del: of_nat_add of_nat_mult)
qed

fun be_val :: "bytes \<Rightarrow> int" where
  "be_val bs = foldl (\<lambda>a b. a * 256 + uint b) 0 bs"

lemma length_be_bytes [simp]: "length (be_bytes k n) = k"
  by (simp add: be_bytes_def)

lemma be_bytes_Suc: "be_bytes (Suc k) n = of_int (drop_bit (8 * k) n) # be_bytes k n"
  by (simp add: be_bytes_def)

lemma foldl_be_bytes:
  "foldl (\<lambda>a b. a * 256 + uint b) a (be_bytes k n) = a * 256 ^ k + n mod 256 ^ k"
proof (induction k arbitrary: a)
  case 0
  then show ?case by (simp add: be_bytes_def)
next
  case (Suc k)
  have "uint (of_int (drop_bit (8 * k) n) :: u8) = n div 256 ^ k mod 256"
    by (simp add: drop_bit_eq_div take_bit_eq_mod power_mult uint_word_of_int_eq)
  moreover have "n mod (256 ^ k * 256) = 256 ^ k * (n div 256 ^ k mod 256) + n mod 256 ^ k"
    by (simp add: zmod_zmult2_eq)
  moreover have "(a * 256 + c) * m + d = a * (m * 256) + (m * c + d)" for c d m :: int
    by (simp add: algebra_simps)
  ultimately show ?case
    by (simp only: be_bytes_Suc foldl_Cons Suc.IH power_Suc2)
qed

lemma be_val_be_bytes: "0 \<le> n \<Longrightarrow> n < 256 ^ k \<Longrightarrow> be_val (be_bytes k n) = n"
  by (simp add: foldl_be_bytes)

text \<open>The reader of a head: major type, argument, and the octets that follow.\<close>

definition dec_head :: "bytes \<Rightarrow> (nat \<times> int \<times> bytes) option" where
  "dec_head bs =
     (case bs of
        [] \<Rightarrow> None
      | b # r \<Rightarrow>
          let m = unat b div 32; i = unat b mod 32; k = (2::nat) ^ (i - 24)
          in if i < 24 then Some (m, int i, r)
             else if 28 \<le> i \<or> length r < k then None
             else Some (m, be_val (take k r), drop k r))"

lemma dec_head_long:
  assumes "major < 8" and "i < 4" and "length bs = 2 ^ i"
  shows "dec_head (head_byte major (24 + int i) # bs @ rest) = Some (major, be_val bs, rest)"
proof -
  have "unat (head_byte major (24 + int i)) = 32 * major + (24 + i)"
    using head_byte_value [of major "24 + int i"] assms by (simp add: nat_add_distrib)
  then show ?thesis using assms by (simp add: dec_head_def Let_def)
qed

lemma encodeUint_head:
  assumes "encodeUint major n = Inr h" and "major < 8"
  shows "dec_head (h @ rest) = Some (major, n, rest)" and "h \<noteq> []"
proof -
  consider "0 \<le> n" "n \<le> 23" "h = [head_byte major n]"
    | "23 < n" "n < 256 ^ 1" "h = head_byte major (24 + int 0) # be_bytes 1 n"
    | "23 < n" "n < 256 ^ 2" "h = head_byte major (24 + int 1) # be_bytes 2 n"
    | "23 < n" "n < 256 ^ 4" "h = head_byte major (24 + int 2) # be_bytes 4 n"
    | "23 < n" "n < 256 ^ 8" "h = head_byte major (24 + int 3) # be_bytes 8 n"
    using assms(1) by (auto simp: encodeUint_def js_safe_int_def split: if_splits)
  then show "dec_head (h @ rest) = Some (major, n, rest)"
  proof cases
    case 1
    then have "unat (head_byte major n) = 32 * major + nat n"
      using head_byte_value [of major n] assms(2) by simp
    with 1 show ?thesis by (simp add: dec_head_def Let_def)
  next
    case 2
    then show ?thesis
      using dec_head_long [OF assms(2), of 0 "be_bytes 1 n"] be_val_be_bytes [of n 1] by simp
  next
    case 3
    then show ?thesis
      using dec_head_long [OF assms(2), of 1 "be_bytes 2 n"] be_val_be_bytes [of n 2] by simp
  next
    case 4
    then show ?thesis
      using dec_head_long [OF assms(2), of 2 "be_bytes 4 n"] be_val_be_bytes [of n 4] by simp
  next
    case 5
    then show ?thesis
      using dec_head_long [OF assms(2), of 3 "be_bytes 8 n"] be_val_be_bytes [of n 8] by simp
  qed
  show "h \<noteq> []" using assms(1) by (auto simp: encodeUint_def split: if_splits)
qed


section \<open>Reading an encoding back\<close>

text \<open>
  The data an encoding stands for: integers exactly, text as its UTF-8 octets, map entries in
  the order of their encoded keys.
\<close>

datatype cnorm =
    NInt int
  | NFloat f64
  | NText bytes
  | NBytes bytes
  | NArray "cnorm list"
  | NMap "(bytes \<times> cnorm) list"

definition text_key :: "bytes \<Rightarrow> bytes" where
  "text_key b = (case encodeUint 3 (int (length b)) of Inr h \<Rightarrow> h @ b | Inl _ \<Rightarrow> [])"

fun cbor_norm :: "cbor \<Rightarrow> cnorm" where
  "cbor_norm (CInt x) = NInt (f64_int x)"
| "cbor_norm (CFloat x) = NFloat x"
| "cbor_norm (CText s) = NText (utf8_encode s)"
| "cbor_norm (CBytes b) = NBytes b"
| "cbor_norm (CArray vs) = NArray (map cbor_norm vs)"
| "cbor_norm (CMap kvs) =
     NMap (js_sort (\<lambda>a b. cmpBytes (text_key (fst a)) (text_key (fst b)))
             (map (\<lambda>kv. (utf8_encode (fst kv), cbor_norm (snd kv))) kvs))"

text \<open>A reader with fuel for the nesting depth; it takes one item off the front.\<close>

function dec :: "nat \<Rightarrow> bytes \<Rightarrow> (cnorm \<times> bytes) option"
  and dec_items :: "nat \<Rightarrow> nat \<Rightarrow> bytes \<Rightarrow> (cnorm list \<times> bytes) option"
  and dec_pairs :: "nat \<Rightarrow> nat \<Rightarrow> bytes \<Rightarrow> ((bytes \<times> cnorm) list \<times> bytes) option" where
  "dec 0 bs = None"
| "dec (Suc f) bs =
     (case dec_head bs of
        None \<Rightarrow> None
      | Some (m, n, r) \<Rightarrow>
          if m = 0 then Some (NInt n, r)
          else if m = 1 then Some (NInt (- 1 - n), r)
          else if m = 2 then
            if length r < nat n then None else Some (NBytes (take (nat n) r), drop (nat n) r)
          else if m = 3 then
            if length r < nat n then None else Some (NText (take (nat n) r), drop (nat n) r)
          else if m = 4 then
            (case dec_items f (nat n) r of None \<Rightarrow> None | Some (vs, r') \<Rightarrow> Some (NArray vs, r'))
          else if m = 5 then
            (case dec_pairs f (nat n) r of None \<Rightarrow> None | Some (kvs, r') \<Rightarrow> Some (NMap kvs, r'))
          else if hd bs = 0xFB then Some (NFloat (F64 (of_int n)), r) else None)"
| "dec_items f 0 bs = Some ([], bs)"
| "dec_items f (Suc n) bs =
     (case dec f bs of
        None \<Rightarrow> None
      | Some (v, r) \<Rightarrow>
          (case dec_items f n r of None \<Rightarrow> None | Some (vs, r') \<Rightarrow> Some (v # vs, r')))"
| "dec_pairs f 0 bs = Some ([], bs)"
| "dec_pairs f (Suc n) bs =
     (case dec f bs of
        Some (NText k, r) \<Rightarrow>
          (case dec f r of
             None \<Rightarrow> None
           | Some (v, r') \<Rightarrow>
               (case dec_pairs f n r' of
                  None \<Rightarrow> None | Some (kvs, r'') \<Rightarrow> Some ((k, v) # kvs, r'')))
      | _ \<Rightarrow> None)"
  by pat_completeness auto
termination
  by (relation "measures [case_sum fst (case_sum fst fst),
      case_sum (\<lambda>_. 0) (case_sum (\<lambda>x. Suc (fst (snd x))) (\<lambda>x. Suc (fst (snd x))))]") auto

definition decodeCbor :: "bytes \<Rightarrow> cnorm option" where
  "decodeCbor bs = (case dec (length bs) bs of Some (v, []) \<Rightarrow> Some v | _ \<Rightarrow> None)"


lemma encodeInt_dec:
  assumes "encodeInt x = Inr bs"
  shows "dec (Suc f) (bs @ rest) = Some (NInt (f64_int x), rest)" and "bs \<noteq> []"
proof -
  obtain n where n: "f64_to_int x = Some n"
    using assms by (auto simp: encodeInt_def split: option.splits)
  show "dec (Suc f) (bs @ rest) = Some (NInt (f64_int x), rest)"
    using assms n encodeUint_head(1) [of 0 n bs rest] encodeUint_head(1) [of 1 "- 1 - n" bs rest]
    by (auto simp: encodeInt_def split: if_splits)
  show "bs \<noteq> []"
    using assms n encodeUint_head(2) [of 0 n bs] encodeUint_head(2) [of 1 "- 1 - n" bs]
    by (auto simp: encodeInt_def split: if_splits)
qed

lemma f64_bytes_be: "f64_bytes x = be_bytes 8 (uint (f64_bits x))"
proof -
  have list: "rev [0..<8::nat] = [7, 6, 5, 4, 3, 2, 1, 0]" by code_simp
  have "(ucast (drop_bit k w) :: u8) = of_int (drop_bit k (uint w))" for k and w :: "64 word"
    by (rule bit_word_eqI) (auto simp: bit_simps)
  then show ?thesis by (simp only: be_bytes_def f64_bytes_def list)
qed

lemma encodeFloat64_dec:
  assumes "encodeFloat64 x = Inr bs"
  shows "dec (Suc f) (bs @ rest) = Some (NFloat x, rest)" and "bs \<noteq> []"
proof -
  have bs: "bs = head_byte 7 (24 + int 3) # f64_bytes x"
    using assms by (auto simp: encodeFloat64_def split: if_splits)
  have "be_val (f64_bytes x) = uint (f64_bits x)"
    unfolding f64_bytes_be using unsigned_less [of "f64_bits x"] by (intro be_val_be_bytes) auto
  then have "dec_head (bs @ rest) = Some (7, uint (f64_bits x), rest)"
    using dec_head_long [of 7 3 "f64_bytes x" rest] by (simp add: bs)
  moreover have "head_byte 7 (24 + int 3) = 0xFB"
    using head_byte_value [of 7 27] by (simp add: word_unat_eq_iff)
  ultimately show "dec (Suc f) (bs @ rest) = Some (NFloat x, rest)"
    by (simp add: bs)
  show "bs \<noteq> []" by (simp add: bs)
qed

lemma encodeBytes_dec:
  assumes "encodeBytes b = Inr bs"
  shows "dec (Suc f) (bs @ rest) = Some (NBytes b, rest)" and "bs \<noteq> []"
proof -
  obtain h where h: "encodeUint 2 (int (length b)) = Inr h" "bs = h @ b"
    using assms by (auto simp: encodeBytes_def and_then_Inr_iff)
  with encodeUint_head(1) [OF h(1), of "b @ rest"]
  show "dec (Suc f) (bs @ rest) = Some (NBytes b, rest)" by simp
  show "bs \<noteq> []" using encodeUint_head(2) [OF h(1)] h(2) by simp
qed

lemma encodeText_key: "encodeText s = Inr bs \<Longrightarrow> bs = text_key (utf8_encode s)"
  by (auto simp: encodeText_def text_key_def Let_def and_then_Inr_iff)

lemma encodeText_dec:
  assumes "encodeText s = Inr bs"
  shows "dec (Suc f) (bs @ rest) = Some (NText (utf8_encode s), rest)" and "bs \<noteq> []"
proof -
  obtain h where h: "encodeUint 3 (int (length (utf8_encode s))) = Inr h" "bs = h @ utf8_encode s"
    using assms by (auto simp: encodeText_def Let_def and_then_Inr_iff)
  with encodeUint_head(1) [OF h(1), of "utf8_encode s @ rest"]
  show "dec (Suc f) (bs @ rest) = Some (NText (utf8_encode s), rest)" by simp
  show "bs \<noteq> []" using encodeUint_head(2) [OF h(1)] h(2) by simp
qed

text \<open>
  \<open>reads v bs\<close>: with fuel for its length, the reader takes \<open>bs\<close> off any input as the item
  \<open>v\<close>.  Lists of items and of entries inherit it from their members.
\<close>

definition reads :: "cnorm \<Rightarrow> bytes \<Rightarrow> bool" where
  "reads v bs \<longleftrightarrow>
     bs \<noteq> [] \<and> (\<forall>f rest. length bs \<le> f \<longrightarrow> dec f (bs @ rest) = Some (v, rest))"

lemma readsI:
  assumes "\<And>f rest. length bs \<le> Suc f \<Longrightarrow> dec (Suc f) (bs @ rest) = Some (v, rest)"
    and "bs \<noteq> []"
  shows "reads v bs"
  unfolding reads_def
proof (intro conjI allI impI)
  fix f rest
  assume len: "length bs \<le> f"
  with assms(2) obtain g where "f = Suc g" by (cases f) auto
  with len show "dec f (bs @ rest) = Some (v, rest)" using assms(1) by simp
qed (rule assms(2))

lemma readsD: "reads v bs \<Longrightarrow> length bs \<le> f \<Longrightarrow> dec f (bs @ rest) = Some (v, rest)"
  by (simp add: reads_def)

lemma dec_items_reads:
  assumes "list_all2 reads vs parts" and "length (concat parts) \<le> f"
  shows "dec_items f (length vs) (concat parts @ rest) = Some (vs, rest)"
  using assms by (induction rule: list_all2_induct) (auto simp: readsD)

lemma dec_pairs_reads:
  assumes "list_all2 (\<lambda>kv e. reads (NText (fst kv)) (fst e) \<and> reads (snd kv) (snd e)) kvs es"
    and "length (concat (map (\<lambda>e. fst e @ snd e) es)) \<le> f"
  shows "dec_pairs f (length kvs) (concat (map (\<lambda>e. fst e @ snd e) es) @ rest) = Some (kvs, rest)"
  using assms by (induction rule: list_all2_induct) (auto simp: readsD)


text \<open>The encoded entries of a map, and the entries its reader returns, in the same order.\<close>

definition cbor_pair :: "jsstring \<times> cbor \<Rightarrow> type_error + bytes \<times> bytes" where
  "cbor_pair kv =
     and_then (encodeText (fst kv)) (\<lambda>keyBytes.
     and_then (encodeCbor (snd kv)) (\<lambda>valueBytes. Inr (keyBytes, valueBytes)))"

lemma encodeCbor_CMap:
  "encodeCbor (CMap kvs) =
     and_then (map_result cbor_pair kvs) (\<lambda>encoded.
     and_then (encodeUint 5 (int (length encoded))) (\<lambda>head.
     Inr (head @ concat (map (\<lambda>kv. fst kv @ snd kv)
       (js_sort (\<lambda>a b. cmpBytes (fst a) (fst b)) encoded)))))"
  by (simp add: cbor_pair_def [abs_def] Let_def)

lemma pairs_sorted:
  assumes "list_all2 (\<lambda>kv e. fst e = text_key (utf8_encode (fst kv)) \<and> R kv e) kvs es"
  shows "list_all2 (\<lambda>kv e. \<exists>p. kv = (utf8_encode (fst p), cbor_norm (snd p)) \<and> R p e)
    (js_sort (\<lambda>a b. cmpBytes (text_key (fst a)) (text_key (fst b)))
       (map (\<lambda>kv. (utf8_encode (fst kv), cbor_norm (snd kv))) kvs))
    (js_sort (\<lambda>a b. cmpBytes (fst a) (fst b)) es)"
proof -
  let ?P = "\<lambda>kv e. fst e = text_key (fst kv)
      \<and> (\<exists>p. kv = (utf8_encode (fst p), cbor_norm (snd p)) \<and> R p e)"
  have "list_all2 ?P (map (\<lambda>kv. (utf8_encode (fst kv), cbor_norm (snd kv))) kvs) es"
    unfolding list.rel_map using assms by (rule list_all2_mono) (intro conjI exI, auto)
  then have "list_all2 ?P (js_sort (\<lambda>a b. cmpBytes (text_key (fst a)) (text_key (fst b)))
       (map (\<lambda>kv. (utf8_encode (fst kv), cbor_norm (snd kv))) kvs))
    (js_sort (\<lambda>a b. cmpBytes (fst a) (fst b)) es)"
    by (rule list_all2_js_sort) auto
  then show ?thesis by (rule list_all2_mono) auto
qed

lemma cbor_pairD:
  assumes "cbor_pair kv = Inr e"
  shows "fst e = text_key (utf8_encode (fst kv))" and "encodeText (fst kv) = Inr (fst e)"
    and "encodeCbor (snd kv) = Inr (snd e)"
  using assms encodeText_key by (auto simp: cbor_pair_def and_then_Inr_iff)

lemma encodeCbor_reads: "encodeCbor v = Inr bs \<Longrightarrow> reads (cbor_norm v) bs"
proof (induction v arbitrary: bs)
  case (CInt x)
  then have x: "encodeInt x = Inr bs" by simp
  show ?case by (rule readsI) (simp_all add: encodeInt_dec [OF x] del: dec.simps)
next
  case (CFloat x)
  then have x: "encodeFloat64 x = Inr bs" by simp
  show ?case by (rule readsI) (simp_all add: encodeFloat64_dec [OF x] del: dec.simps)
next
  case (CText x)
  then have x: "encodeText x = Inr bs" by simp
  show ?case by (rule readsI) (simp_all add: encodeText_dec [OF x] del: dec.simps)
next
  case (CBytes x)
  then have x: "encodeBytes x = Inr bs" by simp
  show ?case by (rule readsI) (simp_all add: encodeBytes_dec [OF x] del: dec.simps)
next
  case (CArray vs)
  then obtain h parts where h: "encodeUint 4 (int (length vs)) = Inr h" and bs: "bs = h @ concat parts"
    and parts: "list_all2 (\<lambda>v p. encodeCbor v = Inr p) vs parts"
    by (auto simp: and_then_Inr_iff map_result_Inr_iff)
  have "list_all2 reads (map cbor_norm vs) parts"
    unfolding list.rel_map using parts
    by (rule list.rel_mono_strong) (simp add: CArray.IH)
  note items = dec_items_reads [OF this]
  have "h \<noteq> []" using encodeUint_head(2) [OF h] by simp
  then show ?case
    using items encodeUint_head(1) [OF h] by (intro readsI) (cases h, auto simp: bs)
next
  case (CMap kvs)
  let ?sorted = "js_sort (\<lambda>a b. cmpBytes (fst a) (fst b))"
  from CMap.prems obtain h es where h: "encodeUint 5 (int (length es)) = Inr h"
    and bs: "bs = h @ concat (map (\<lambda>kv. fst kv @ snd kv) (?sorted es))"
    and es: "list_all2 (\<lambda>kv e. cbor_pair kv = Inr e) kvs es"
    by (auto simp: encodeCbor_CMap and_then_Inr_iff map_result_Inr_iff simp del: encodeCbor.simps)
  let ?R = "\<lambda>kv e. reads (NText (utf8_encode (fst kv))) (fst e) \<and> reads (cbor_norm (snd kv)) (snd e)"
  have "list_all2 (\<lambda>kv e. fst e = text_key (utf8_encode (fst kv)) \<and> ?R kv e) kvs es"
  proof (rule list.rel_mono_strong [OF es])
    fix kv e
    assume kv: "kv \<in> set kvs" and e: "cbor_pair kv = Inr e"
    note eD = cbor_pairD [OF e]
    have "reads (NText (utf8_encode (fst kv))) (fst e)"
      by (rule readsI) (simp_all add: encodeText_dec [OF eD(2)] del: dec.simps)
    moreover have "reads (cbor_norm (snd kv)) (snd e)"
      using CMap.IH [OF kv _ eD(3)] by (cases kv) (simp add: prod_set_simps)
    ultimately show "fst e = text_key (utf8_encode (fst kv)) \<and> ?R kv e" using eD(1) by simp
  qed
  note sorted = pairs_sorted [OF this]
  define ps where "ps = js_sort (\<lambda>a b. cmpBytes (text_key (fst a)) (text_key (fst b)))
      (map (\<lambda>kv. (utf8_encode (fst kv), cbor_norm (snd kv))) kvs)"
  have ps: "cbor_norm (CMap kvs) = NMap ps" by (simp add: ps_def)
  have all: "list_all2 (\<lambda>kv e. reads (NText (fst kv)) (fst e) \<and> reads (snd kv) (snd e)) ps (?sorted es)"
    unfolding ps_def using sorted by (rule list_all2_mono) auto
  note pairs = dec_pairs_reads [OF all]
  have len: "length ps = length es" using list_all2_lengthD [OF all] by simp
  have "h \<noteq> []" using encodeUint_head(2) [OF h] by simp
  then show ?case
    using pairs encodeUint_head(1) [OF h] unfolding ps len by (intro readsI) (cases h, auto simp: bs)
qed


section \<open>What an encoding determines\<close>

lemma encodeCbor_nonempty: "encodeCbor v = Inr bs \<Longrightarrow> bs \<noteq> []"
  using encodeCbor_reads by (auto simp: reads_def)

lemma encodeCbor_prefix_free:
  assumes "encodeCbor v = Inr a" and "encodeCbor w = Inr b" and "a @ r = b @ s"
  shows "cbor_norm v = cbor_norm w" and "r = s"
proof -
  let ?f = "length a + length b"
  have "dec ?f (a @ r) = Some (cbor_norm v, r)"
    using readsD [OF encodeCbor_reads [OF assms(1)]] by simp
  moreover have "dec ?f (b @ s) = Some (cbor_norm w, s)"
    using readsD [OF encodeCbor_reads [OF assms(2)]] by simp
  ultimately show "cbor_norm v = cbor_norm w" and "r = s" using assms(3) by auto
qed

lemma encodeCbor_inj:
  assumes "encodeCbor v = Inr a" and "encodeCbor w = Inr a"
  shows "cbor_norm v = cbor_norm w"
  using encodeCbor_prefix_free(1) [OF assms, of "[]" "[]"] by simp

lemma encodeCbor_decode: "encodeCbor v = Inr bs \<Longrightarrow> decodeCbor bs = Some (cbor_norm v)"
  using readsD [OF encodeCbor_reads, of v bs "length bs" "[]"] by (simp add: decodeCbor_def)

text \<open>Sorting by encoded key forgets the insertion order.\<close>

lemma text_key_inj:
  assumes "encodeUint 3 (int (length a)) = Inr h" and "encodeUint 3 (int (length b)) = Inr g"
    and "text_key a = text_key b"
  shows "a = b"
proof -
  have "h @ a = g @ b" using assms by (simp add: text_key_def)
  then have "Some (3, int (length a), a) = Some (3::nat, int (length b), b)"
    using encodeUint_head(1) [OF assms(1), of a] encodeUint_head(1) [OF assms(2), of b] by simp
  then show ?thesis by simp
qed

lemma map_result_perm:
  assumes "mset xs = mset ys" and "map_result f xs = Inr es"
  obtains es' where "map_result f ys = Inr es'" and "mset es' = mset es"
proof -
  define g where "g x = (case f x of Inr y \<Rightarrow> y | Inl _ \<Rightarrow> undefined)" for x
  have "list_all2 (\<lambda>x y. f x = Inr y) xs es" using assms(2) by (simp add: map_result_Inr_iff)
  then have xs: "(\<forall>x \<in> set xs. f x = Inr (g x)) \<and> es = map g xs"
    by (induction rule: list_all2_induct) (auto simp: g_def)
  moreover have "set ys = set xs" using assms(1) by (metis set_mset_mset)
  ultimately have "map_result f ys = Inr (map g ys)" by (intro map_result_total) auto
  moreover have "mset (map g ys) = mset es" using xs assms(1) by simp
  ultimately show ?thesis by (rule that)
qed

lemma encodeCbor_key_order:
  assumes perm: "mset kvs = mset kvs'"
    and keys: "distinct (map (\<lambda>kv. utf8_encode (fst kv)) kvs)"
    and enc: "encodeCbor (CMap kvs) = Inr bs"
  shows "encodeCbor (CMap kvs') = Inr bs"
proof -
  from enc obtain es h where es: "map_result cbor_pair kvs = Inr es"
    and h: "encodeUint 5 (int (length es)) = Inr h"
    and bs: "bs = h @ concat (map (\<lambda>kv. fst kv @ snd kv) (js_sort (\<lambda>a b. cmpBytes (fst a) (fst b)) es))"
    by (auto simp: encodeCbor_CMap and_then_Inr_iff simp del: encodeCbor.simps)
  from map_result_perm [OF perm es] obtain es' where es': "map_result cbor_pair kvs' = Inr es'"
    and mset: "mset es' = mset es" .
  have all: "list_all2 (\<lambda>kv e. cbor_pair kv = Inr e) kvs es"
    using es by (simp add: map_result_Inr_iff)
  have inj: "a = b" if a: "a \<in> set es" and b: "b \<in> set es" and c: "cmpBytes (fst a) (fst b) = 0" for a b
  proof -
    have len: "length kvs = length es" using list_all2_lengthD [OF all] .
    obtain i j where i: "i < length es" "es ! i = a" and j: "j < length es" "es ! j = b"
      using a b by (auto simp: in_set_conv_nth)
    have ia: "cbor_pair (kvs ! i) = Inr a" and jb: "cbor_pair (kvs ! j) = Inr b"
      using list_all2_nthD2 [OF all, of i] list_all2_nthD2 [OF all, of j] i j by auto
    obtain g g' where "encodeUint 3 (int (length (utf8_encode (fst (kvs ! i))))) = Inr g"
      and "encodeUint 3 (int (length (utf8_encode (fst (kvs ! j))))) = Inr g'"
      using cbor_pairD(2) [OF ia] cbor_pairD(2) [OF jb]
      by (auto simp: encodeText_def Let_def and_then_Inr_iff)
    moreover have "text_key (utf8_encode (fst (kvs ! i))) = text_key (utf8_encode (fst (kvs ! j)))"
      using cbor_pairD(1) [OF ia] cbor_pairD(1) [OF jb] c by (simp add: cmpBytes_zero)
    ultimately have "utf8_encode (fst (kvs ! i)) = utf8_encode (fst (kvs ! j))"
      by (rule text_key_inj)
    then have "i = j" using nth_eq_iff_index_eq [OF keys, of i j] i(1) j(1) len by simp
    with i j show "a = b" by simp
  qed
  have "js_sort (\<lambda>a b. cmpBytes (fst a) (fst b)) es = js_sort (\<lambda>a b. cmpBytes (fst a) (fst b)) es'"
    using mset inj by (intro entry_order.sort_perm) auto
  moreover have "length es' = length es" using mset by (metis size_mset)
  ultimately show ?thesis
    using es' h by (simp add: encodeCbor_CMap bs del: encodeCbor.simps)
qed

section \<open>The encoding is a function of the data\<close>

definition enc_head :: "nat \<Rightarrow> int \<Rightarrow> bytes" where
  "enc_head m n = (case encodeUint m n of Inr h \<Rightarrow> h | Inl _ \<Rightarrow> [])"

fun enc_norm :: "cnorm \<Rightarrow> bytes" where
  "enc_norm (NInt n) = (if 0 \<le> n then enc_head 0 n else enc_head 1 (- 1 - n))"
| "enc_norm (NFloat x) = head_byte 7 27 # f64_bytes x"
| "enc_norm (NText b) = text_key b"
| "enc_norm (NBytes b) = enc_head 2 (int (length b)) @ b"
| "enc_norm (NArray vs) = enc_head 4 (int (length vs)) @ concat (map enc_norm vs)"
| "enc_norm (NMap kvs) =
     enc_head 5 (int (length kvs)) @ concat (map (\<lambda>kv. text_key (fst kv) @ enc_norm (snd kv)) kvs)"

lemma enc_head_Inr: "encodeUint m n = Inr h \<Longrightarrow> enc_head m n = h"
  by (simp add: enc_head_def)

lemma encodeCbor_enc_norm: "encodeCbor v = Inr bs \<Longrightarrow> bs = enc_norm (cbor_norm v)"
proof (induction v arbitrary: bs)
  case (CInt x)
  then show ?case by (auto simp: encodeInt_def enc_head_def split: option.splits if_splits)
next
  case (CFloat x)
  then show ?case by (auto simp: encodeFloat64_def split: if_splits)
next
  case (CText x)
  then show ?case by (simp add: encodeText_key)
next
  case (CBytes x)
  then show ?case by (auto simp: encodeBytes_def and_then_Inr_iff enc_head_def)
next
  case (CArray vs)
  then obtain h parts where h: "encodeUint 4 (int (length vs)) = Inr h" and bs: "bs = h @ concat parts"
    and parts: "list_all2 (\<lambda>v p. encodeCbor v = Inr p) vs parts"
    by (auto simp: and_then_Inr_iff map_result_Inr_iff)
  have "list_all2 (\<lambda>v p. enc_norm (cbor_norm v) = p) vs parts"
    using parts by (rule list.rel_mono_strong) (metis CArray.IH)
  then have "map (\<lambda>v. enc_norm (cbor_norm v)) vs = parts"
    by (induction rule: list_all2_induct) auto
  then show ?case by (simp add: bs enc_head_Inr [OF h] comp_def)
next
  case (CMap kvs)
  let ?sorted = "js_sort (\<lambda>a b. cmpBytes (fst a) (fst b))"
  let ?R = "\<lambda>kv e. fst e = text_key (utf8_encode (fst kv)) \<and> snd e = enc_norm (cbor_norm (snd kv))"
  from CMap.prems obtain h es where h: "encodeUint 5 (int (length es)) = Inr h"
    and bs: "bs = h @ concat (map (\<lambda>kv. fst kv @ snd kv) (?sorted es))"
    and es: "list_all2 (\<lambda>kv e. cbor_pair kv = Inr e) kvs es"
    by (auto simp: encodeCbor_CMap and_then_Inr_iff map_result_Inr_iff simp del: encodeCbor.simps)
  have "list_all2 (\<lambda>kv e. fst e = text_key (utf8_encode (fst kv)) \<and> ?R kv e) kvs es"
  proof (rule list.rel_mono_strong [OF es])
    fix kv e
    assume kv: "kv \<in> set kvs" and e: "cbor_pair kv = Inr e"
    have "snd e = enc_norm (cbor_norm (snd kv))"
      using CMap.IH [OF kv _ cbor_pairD(3) [OF e]] by (cases kv) (simp add: prod_set_simps)
    then show "fst e = text_key (utf8_encode (fst kv)) \<and> ?R kv e" using cbor_pairD(1) [OF e] by simp
  qed
  note sorted = pairs_sorted [OF this]
  define ps where "ps = js_sort (\<lambda>a b. cmpBytes (text_key (fst a)) (text_key (fst b)))
      (map (\<lambda>kv. (utf8_encode (fst kv), cbor_norm (snd kv))) kvs)"
  have ps: "cbor_norm (CMap kvs) = NMap ps" by (simp add: ps_def)
  have all: "list_all2 (\<lambda>kv e. text_key (fst kv) @ enc_norm (snd kv) = fst e @ snd e) ps (?sorted es)"
    unfolding ps_def using sorted by (rule list_all2_mono) auto
  have "map (\<lambda>kv. text_key (fst kv) @ enc_norm (snd kv)) ps = map (\<lambda>e. fst e @ snd e) (?sorted es)"
    using all by (induction rule: list_all2_induct) auto
  moreover have "length ps = length es" using list_all2_lengthD [OF all] by simp
  ultimately show ?case unfolding ps by (simp add: bs enc_head_Inr [OF h])
qed

section \<open>When the encoder throws\<close>

text \<open>
  The values the encoder accepts: integers of at most 53 bits, finite floats, and lengths
  that fit a safe integer.
\<close>

definition encodable_int :: "f64 \<Rightarrow> bool" where
  "encodable_int x \<longleftrightarrow>
     (\<exists>n. f64_to_int x = Some n \<and> - js_safe_int - 1 \<le> n \<and> n \<le> js_safe_int)"

fun encodable :: "cbor \<Rightarrow> bool" where
  "encodable (CInt x) = encodable_int x"
| "encodable (CFloat x) = f64_finite x"
| "encodable (CText s) = (int (length (utf8_encode s)) \<le> js_safe_int)"
| "encodable (CBytes b) = (int (length b) \<le> js_safe_int)"
| "encodable (CArray vs) = (int (length vs) \<le> js_safe_int \<and> list_all encodable vs)"
| "encodable (CMap kvs) =
     (int (length kvs) \<le> js_safe_int
      \<and> list_all (\<lambda>kv. int (length (utf8_encode (fst kv))) \<le> js_safe_int \<and> encodable (snd kv)) kvs)"

lemma encodeUint_ok: "(\<exists>h. encodeUint m n = Inr h) \<longleftrightarrow> 0 \<le> n \<and> n \<le> js_safe_int"
  by (auto simp: encodeUint_def js_safe_int_def)

lemma encodeUint_okI: "0 \<le> n \<Longrightarrow> n \<le> js_safe_int \<Longrightarrow> \<exists>h. encodeUint m n = Inr h"
  by (simp add: encodeUint_ok)

lemma encodeInt_ok: "(\<exists>h. encodeInt x = Inr h) \<longleftrightarrow> encodable_int x"
  by (auto simp: encodeInt_def encodable_int_def encodeUint_ok split: option.splits)

lemma encodeText_ok:
  "(\<exists>h. encodeText s = Inr h) \<longleftrightarrow> int (length (utf8_encode s)) \<le> js_safe_int"
  using encodeUint_ok [of 3 "int (length (utf8_encode s))"]
  by (auto simp: encodeText_def Let_def and_then_Inr_iff)

lemma encodeBytes_ok: "(\<exists>h. encodeBytes b = Inr h) \<longleftrightarrow> int (length b) \<le> js_safe_int"
  using encodeUint_ok [of 2 "int (length b)"] by (auto simp: encodeBytes_def and_then_Inr_iff)

lemma map_result_ok: "(\<exists>ys. map_result f xs = Inr ys) \<longleftrightarrow> (\<forall>x \<in> set xs. \<exists>y. f x = Inr y)"
  by (induction xs) (auto simp: and_then_Inr_iff)

lemma encodeCbor_ok: "(\<exists>bs. encodeCbor v = Inr bs) \<longleftrightarrow> encodable v"
proof (induction v)
  case (CInt x)
  then show ?case by (simp add: encodeInt_ok)
next
  case (CFloat x)
  then show ?case by (simp add: encodeFloat64_def)
next
  case (CText x)
  then show ?case by (simp add: encodeText_ok)
next
  case (CBytes x)
  then show ?case by (simp add: encodeBytes_ok)
next
  case (CArray vs)
  have "(\<exists>ps. map_result encodeCbor vs = Inr ps) \<longleftrightarrow> list_all encodable vs"
    using CArray.IH by (simp add: map_result_ok list_all_iff)
  moreover have "(\<exists>h. encodeUint 4 (int (length vs)) = Inr h) \<longleftrightarrow> int (length vs) \<le> js_safe_int"
    by (simp add: encodeUint_ok)
  ultimately show ?case by (auto simp: and_then_Inr_iff)
next
  case (CMap kvs)
  have pair: "(\<exists>e. cbor_pair kv = Inr e)
      \<longleftrightarrow> int (length (utf8_encode (fst kv))) \<le> js_safe_int \<and> encodable (snd kv)"
    if "kv \<in> set kvs" for kv
    using CMap.IH [OF that, of "snd kv"] encodeText_ok [of "fst kv"]
    by (cases kv) (auto simp: cbor_pair_def and_then_Inr_iff prod_set_simps)
  have "(\<exists>es. map_result cbor_pair kvs = Inr es) \<longleftrightarrow>
      list_all (\<lambda>kv. int (length (utf8_encode (fst kv))) \<le> js_safe_int \<and> encodable (snd kv)) kvs"
    using pair by (simp add: map_result_ok list_all_iff)
  moreover have "(\<exists>bs. encodeCbor (CMap kvs) = Inr bs) \<longleftrightarrow>
      (\<exists>es. map_result cbor_pair kvs = Inr es) \<and> int (length kvs) \<le> js_safe_int"
    using map_result_length [of cbor_pair kvs] encodeUint_ok [of 5 "int (length kvs)"]
    by (auto simp: encodeCbor_CMap and_then_Inr_iff simp del: encodeCbor.simps)
  ultimately show ?case by auto
qed

lemmas cbor_eval =
  be_bytes_def head_byte_def encodeUint_def encodeInt_def encodeFloat64_def encodeBytes_def
  encodeText_def js_safe_int_def

section \<open>Properties\<close>

definition cbor_sample :: cbor where
  "cbor_sample =
     CMap [(js ''bb'', CInt (F64 0x4000000000000000)),
           (js ''a'', CArray [CText (js ''x''), CFloat (F64 0x3FF8000000000000)])]"

lemma cbor_sample_bytes:
  "encodeCbor cbor_sample =
     Inr [0xA2, 0x61, 0x61, 0x82, 0x61, 0x78, 0xFB, 0x3F, 0xF8, 0, 0, 0, 0, 0, 0,
          0x62, 0x62, 0x62, 2]"
  by (simp add: cbor_sample_def f64_eval js_eval cbor_eval)

text \<open>C37: Whatever \<open>encodeCbor\<close> returns can be read back: the reader, with the length of the
  encoding as fuel, returns the encoded integers, floats, octets and map entries.\<close>

theorem cbor_roundtrip:
  assumes "encodeCbor v = Inr bs"
  shows "decodeCbor bs = Some (cbor_norm v)"
  using assms by (rule encodeCbor_decode)

theorem cbor_roundtrip_witness:
  "decodeCbor [0xA2, 0x61, 0x61, 0x82, 0x61, 0x78, 0xFB, 0x3F, 0xF8, 0, 0, 0, 0, 0, 0,
     0x62, 0x62, 0x62, 2] = Some (cbor_norm cbor_sample)"
  by (rule cbor_roundtrip [OF cbor_sample_bytes])

text \<open>Encodings are prefix free: when two encodings followed by any octets are the same
  octet string, they encode the same data and the same octets follow.  In particular the
  encoder is injective, so a signature over an encoding covers exactly one value.\<close>

theorem cbor_prefix_free:
  assumes "encodeCbor v = Inr a" and "encodeCbor w = Inr b" and "a @ r = b @ s"
  shows "cbor_norm v = cbor_norm w \<and> a = b \<and> r = s"
  using encodeCbor_prefix_free [OF assms] assms(3) by simp

theorem cbor_prefix_free_witness:
  "cbor_norm cbor_sample = cbor_norm cbor_sample \<and> [7 :: u8] = [7]"
  using cbor_prefix_free [OF cbor_sample_bytes cbor_sample_bytes, of "[7]" "[7]"] by simp

text \<open>C38: The encoding is canonical: of two values the encoder accepts, the octets are equal
  exactly when the data are equal, where the order of map entries, the way an integer is
  written as a number, and lone surrogates in text do not count as data.\<close>

theorem cbor_canonical:
  assumes "encodable v" and "encodable w"
  shows "encodeCbor v = encodeCbor w \<longleftrightarrow> cbor_norm v = cbor_norm w"
  using assms encodeCbor_ok [of v] encodeCbor_ok [of w] encodeCbor_enc_norm encodeCbor_inj by metis

text \<open>Zero and minus zero are one integer.\<close>

theorem cbor_canonical_witness:
  "encodable (CInt (F64 0)) \<and> encodable (CInt (F64 0x8000000000000000))
   \<and> encodeCbor (CInt (F64 0)) = encodeCbor (CInt (F64 0x8000000000000000))"
proof -
  have "encodable (CInt (F64 0))" "encodable (CInt (F64 0x8000000000000000))"
    by (simp_all add: encodable_int_def f64_eval js_safe_int_def)
  moreover have "cbor_norm (CInt (F64 0)) = cbor_norm (CInt (F64 0x8000000000000000))"
    by (simp add: f64_int_def f64_eval)
  ultimately show ?thesis using cbor_canonical by blast
qed

text \<open>The insertion order of the entries of a map does not change its encoding.\<close>

theorem cbor_key_order:
  assumes "mset kvs = mset kvs'" and "distinct (map (\<lambda>kv. utf8_encode (fst kv)) kvs)"
    and "encodeCbor (CMap kvs) = Inr bs"
  shows "encodeCbor (CMap kvs') = Inr bs"
  using assms by (rule encodeCbor_key_order)

theorem cbor_key_order_witness:
  "encodeCbor (CMap [(js ''a'', CArray [CText (js ''x''), CFloat (F64 0x3FF8000000000000)]),
                     (js ''bb'', CInt (F64 0x4000000000000000))])
   = Inr [0xA2, 0x61, 0x61, 0x82, 0x61, 0x78, 0xFB, 0x3F, 0xF8, 0, 0, 0, 0, 0, 0,
          0x62, 0x62, 0x62, 2]"
  by (rule cbor_key_order [OF _ _ cbor_sample_bytes [unfolded cbor_sample_def]])
    (simp_all add: js_eval)

text \<open>\<open>encodeCbor\<close> throws exactly on a value with an integer that is not integral or
  outside 53 bits, a float that is not finite, or a length beyond a safe integer.\<close>

theorem cbor_throws:
  "(\<exists>e. encodeCbor v = Inl e) \<longleftrightarrow> \<not> encodable v"
  using encodeCbor_ok [of v] by (cases "encodeCbor v") auto

end
