(* ===== verification/Sha256.thy ===== *)
theory Sha256
  imports JsStrings
begin

text \<open>
  SHA-256 (FIPS 180-4), the digest behind \<open>createHash("sha256")\<close> of the runtime.  It is
  defined on octet lists and evaluates, so the digests the gateway publishes can be computed
  inside the logic.  Nothing is assumed about collisions: theorems about equal digests end in
  either equal inputs or an explicit collision.
\<close>

unbundle bit_operations_syntax

type_synonym u32 = "32 word"

definition sha_k :: "u32 list" where
  "sha_k =
   [1116352408, 1899447441, 3049323471, 3921009573, 961987163, 1508970993, 2453635748, 2870763221,
    3624381080, 310598401, 607225278, 1426881987, 1925078388, 2162078206, 2614888103, 3248222580,
    3835390401, 4022224774, 264347078, 604807628, 770255983, 1249150122, 1555081692, 1996064986,
    2554220882, 2821834349, 2952996808, 3210313671, 3336571891, 3584528711, 113926993, 338241895,
    666307205, 773529912, 1294757372, 1396182291, 1695183700, 1986661051, 2177026350, 2456956037,
    2730485921, 2820302411, 3259730800, 3345764771, 3516065817, 3600352804, 4094571909, 275423344,
    430227734, 506948616, 659060556, 883997877, 958139571, 1322822218, 1537002063, 1747873779,
    1955562222, 2024104815, 2227730452, 2361852424, 2428436474, 2756734187, 3204031479, 3329325298]"

definition sha_h0 :: "u32 list" where
  "sha_h0 =
   [1779033703, 3144134277, 1013904242, 2773480762, 1359893119, 2600822924, 528734635, 1541459225]"

definition rotr :: "nat \<Rightarrow> u32 \<Rightarrow> u32" where
  "rotr n x = drop_bit n x OR push_bit (32 - n) x"

definition sha_s0 :: "u32 \<Rightarrow> u32" where
  "sha_s0 x = rotr 7 x XOR rotr 18 x XOR drop_bit 3 x"

definition sha_s1 :: "u32 \<Rightarrow> u32" where
  "sha_s1 x = rotr 17 x XOR rotr 19 x XOR drop_bit 10 x"

definition sha_S0 :: "u32 \<Rightarrow> u32" where
  "sha_S0 x = rotr 2 x XOR rotr 13 x XOR rotr 22 x"

definition sha_S1 :: "u32 \<Rightarrow> u32" where
  "sha_S1 x = rotr 6 x XOR rotr 11 x XOR rotr 25 x"

text \<open>Padding: the bit 1, zeros up to 56 modulo 64 octets, and the bit length in 64 bits.\<close>

definition sha_pad :: "bytes \<Rightarrow> bytes" where
  "sha_pad m =
     m @ [0x80] @ replicate ((119 - length m mod 64) mod 64) 0
       @ map (\<lambda>i. ucast (drop_bit (8 * i) (of_nat (8 * length m) :: 64 word))) [7, 6, 5, 4, 3, 2, 1, 0]"

fun be_words :: "bytes \<Rightarrow> u32 list" where
  "be_words (a # b # c # d # r) =
     (push_bit 24 (ucast a) OR push_bit 16 (ucast b) OR push_bit 8 (ucast c) OR ucast d)
     # be_words r"
| "be_words _ = []"

definition word_bytes :: "u32 \<Rightarrow> bytes" where
  "word_bytes w = [ucast (drop_bit 24 w), ucast (drop_bit 16 w), ucast (drop_bit 8 w), ucast w]"

text \<open>
  The message schedule as a sliding window of sixteen words: each round uses the oldest word
  and appends the next one.
\<close>

fun sha_round :: "u32 \<Rightarrow> u32 \<Rightarrow> u32 list \<Rightarrow> u32 list" where
  "sha_round k w [a, b, c, d, e, f, g, h] =
     (let t1 = h + sha_S1 e + ((e AND f) XOR (NOT e AND g)) + k + w;
          t2 = sha_S0 a + ((a AND b) XOR (a AND c) XOR (b AND c))
      in [t1 + t2, a, b, c, d + t1, e, f, g])"
| "sha_round k w st = st"

fun sha_rounds :: "u32 list \<Rightarrow> u32 list \<Rightarrow> u32 list \<Rightarrow> u32 list" where
  "sha_rounds [] win st = st"
| "sha_rounds (k # ks) win st =
     sha_rounds ks
       (tl win @ [sha_s1 (win ! 14) + win ! 9 + sha_s0 (win ! 1) + win ! 0])
       (sha_round k (win ! 0) st)"

definition sha_block :: "u32 list \<Rightarrow> u32 list \<Rightarrow> u32 list" where
  "sha_block st blk = map2 (+) st (sha_rounds sha_k blk st)"

fun sha_blocks :: "nat \<Rightarrow> u32 list \<Rightarrow> u32 list \<Rightarrow> u32 list" where
  "sha_blocks 0 st ws = st"
| "sha_blocks (Suc n) st ws = sha_blocks n (sha_block st (take 16 ws)) (drop 16 ws)"

definition sha256 :: "bytes \<Rightarrow> bytes" where
  "sha256 m =
     (let ws = be_words (sha_pad m)
      in concat (map word_bytes (sha_blocks (length ws div 16) sha_h0 ws)))"

text \<open>\<open>createHash("sha256").update(m).digest("hex")\<close>\<close>

definition sha256_hex :: "bytes \<Rightarrow> jsstring" where
  "sha256_hex m = bytes_to_hex (sha256 m)"

section \<open>The digest has 32 octets\<close>

lemma length_sha_round [simp]: "length (sha_round k w st) = length st"
  by (induction k w st rule: sha_round.induct) (auto simp: Let_def)

lemma length_sha_rounds [simp]: "length (sha_rounds ks win st) = length st"
  by (induction ks win st rule: sha_rounds.induct) auto

lemma length_sha_block [simp]: "length (sha_block st blk) = length st"
  by (simp add: sha_block_def)

lemma length_sha_blocks [simp]: "length (sha_blocks n st ws) = length st"
  by (induction n st ws rule: sha_blocks.induct) auto

lemma length_sha256 [simp]: "length (sha256 m) = 32"
proof -
  have "length (concat (map word_bytes ws)) = 4 * length ws" for ws
    by (induction ws) (auto simp: word_bytes_def)
  then show ?thesis by (simp add: sha256_def Let_def sha_h0_def)
qed

lemma sha256_hex_shape: "re_lower_hex 64 (sha256_hex m)"
  using bytes_to_hex_lower [of "sha256 m"] by (simp add: sha256_hex_def)

lemma length_sha256_hex [simp]: "length (sha256_hex m) = 64"
  by (simp add: sha256_hex_def)

lemma sha256_hex_eq: "sha256_hex a = sha256_hex b \<longleftrightarrow> sha256 a = sha256 b"
  by (simp add: sha256_hex_def bytes_to_hex_inj)

text \<open>Two different inputs with one digest.\<close>

definition sha_collision :: "bytes \<Rightarrow> bytes \<Rightarrow> bool" where
  "sha_collision a b \<longleftrightarrow> a \<noteq> b \<and> sha256 a = sha256 b"

lemma sha256_eqD: "sha256 a = sha256 b \<Longrightarrow> a = b \<or> sha_collision a b"
  by (auto simp: sha_collision_def)

end
