(* ===== verification/Polkadot.thy ===== *)
theory Polkadot
  imports JsValue
begin

text \<open>
  The functions of \<open>@polkadot/util\<close> and \<open>@polkadot/util-crypto\<close> the gateway calls.  They are
  not part of the repository: a record of functions passed to every definition that uses one,
  where \<open>None\<close> stands for an exception.  The predicates below state what the packages
  document and the gateway relies on; each is a hypothesis of the theorems that need it.
\<close>

record polkadot =
  hexToU8a :: "jsstring \<Rightarrow> bytes option"
  u8aToHex :: "bytes \<Rightarrow> jsstring"
  signatureVerify :: "bytes \<Rightarrow> bytes \<Rightarrow> jsstring \<Rightarrow> bool option"
  encodeAddress :: "bytes \<Rightarrow> int \<Rightarrow> jsstring option"
  decodeAddress :: "jsstring \<Rightarrow> bytes option"
  checkAddress :: "jsstring \<Rightarrow> int \<Rightarrow> bool option"

text \<open>\<open>hexToU8a\<close> returns the octets of a \<open>0x\<close>-prefixed hexadecimal string.\<close>

definition hexToU8a_documented :: "polkadot \<Rightarrow> bool" where
  "hexToU8a_documented P \<longleftrightarrow>
     (\<forall>s. list_all is_lower_hex s \<and> even (length s)
        \<longrightarrow> hexToU8a P (js ''0x'' @ s) = Some (hex_to_bytes s))"

lemma hexToU8a_hex:
  "hexToU8a_documented P \<Longrightarrow> re_lower_hex n s \<Longrightarrow> even n
   \<Longrightarrow> hexToU8a P (js ''0x'' @ s) = Some (hex_to_bytes s)"
  by (auto simp: hexToU8a_documented_def re_lower_hex_def)

text \<open>\<open>encodeAddress\<close> and \<open>decodeAddress\<close> are inverse on 32-octet account ids.\<close>

definition ss58_documented :: "polkadot \<Rightarrow> bool" where
  "ss58_documented P \<longleftrightarrow>
     (\<forall>b p s. length b = 32 \<longrightarrow> encodeAddress P b p = Some s \<longrightarrow> decodeAddress P s = Some b)
     \<and> (\<forall>b p. length b = 32 \<longrightarrow> encodeAddress P b p \<noteq> None)"

text \<open>
  A concrete instance: hexadecimal as documented, addresses written in hexadecimal, and a
  signature scheme where a signature repeats the key it verifies under.
\<close>

definition polkadot_sample :: polkadot where
  "polkadot_sample =
     \<lparr> hexToU8a = (\<lambda>s. Some (hex_to_bytes (drop 2 s))),
       u8aToHex = (\<lambda>b. js ''0x'' @ bytes_to_hex b),
       signatureVerify = (\<lambda>m s a. Some (bytes_to_hex s = drop 2 a @ drop 2 a)),
       encodeAddress = (\<lambda>b p. Some (bytes_to_hex b)),
       decodeAddress = (\<lambda>s. Some (hex_to_bytes s)),
       checkAddress = (\<lambda>s p. Some True) \<rparr>"

lemma polkadot_sample_hex: "hexToU8a_documented polkadot_sample"
  by (simp add: hexToU8a_documented_def polkadot_sample_def)

lemma polkadot_sample_ss58: "ss58_documented polkadot_sample"
  by (simp add: ss58_documented_def polkadot_sample_def)

end
