(* ===== verification/EvidencePayload.thy ===== *)
theory EvidencePayload
  imports CanonicalCbor Sha256 Polkadot
begin

text \<open>
  Attestation evidence in \<open>schemas/compute_metering_v2.ts\<close>: the evidence types and their
  order, the nonce that binds an entry to a content hash, the conversion of an opaque JSON
  payload to canonical CBOR, and the hash of an evidence array.
\<close>

section \<open>Evidence types\<close>

definition EVIDENCE_TYPES :: "jsstring list" where
  "EVIDENCE_TYPES =
     [js ''amd_sev_snp'', js ''intel_tdx'', js ''arm_trustzone'', js ''reproducible_build'',
      js ''zkvm_execution'']"

definition EVIDENCE_TYPE_DISCRIMINANT :: "jsstring \<Rightarrow> int option" where
  "EVIDENCE_TYPE_DISCRIMINANT t =
     map_of [(js ''amd_sev_snp'', 0), (js ''intel_tdx'', 1), (js ''arm_trustzone'', 2),
             (js ''reproducible_build'', 3), (js ''zkvm_execution'', 4)] t"

record evidence_entry =
  ev_type :: jsstring
  ev_nonce :: json
  ev_payload :: json

definition evidenceVendorTagBytes :: "jsstring \<Rightarrow> bytes" where
  "evidenceVendorTagBytes t = utf8_encode t"

datatype nonce_error = ContentHashFormat | NonceHexToU8aThrows

definition deriveEvidenceNonce ::
  "polkadot \<Rightarrow> jsstring \<Rightarrow> jsstring \<Rightarrow> nonce_error + jsstring" where
  "deriveEvidenceNonce P contentHashHex evidenceType =
     (let cleaned = (if starts_with contentHashHex (js ''0x'') then drop 2 contentHashHex
                     else contentHashHex)
      in if \<not> re_lower_hex 64 cleaned then Inl ContentHashFormat
         else case hexToU8a P (js ''0x'' @ cleaned) of
                None \<Rightarrow> Inl NonceHexToU8aThrows
              | Some h \<Rightarrow> Inr (sha256_hex (h @ evidenceVendorTagBytes evidenceType)))"

section \<open>Base64\<close>

definition sextet :: "u16 \<Rightarrow> nat option" where
  "sextet c =
     (if is_upper_letter c then Some (unat c - 0x41)
      else if is_lower_letter c then Some (unat c - 0x61 + 26)
      else if is_digit_u16 c then Some (unat c - 0x30 + 52)
      else if c = 0x2B then Some 62 else if c = 0x2F then Some 63 else None)"

text \<open>The expression \<open>/^[A-Za-z0-9+/]*={0,2}$/\<close>.\<close>

definition BASE64_REGEX :: "jsstring \<Rightarrow> bool" where
  "BASE64_REGEX s \<longleftrightarrow>
     (let pad = dropWhile (\<lambda>c. sextet c \<noteq> None) s
      in length pad \<le> 2 \<and> list_all (\<lambda>c. c = 0x3D) pad)"

text \<open>
  \<open>Buffer.from(s, "base64")\<close> on such a string: padding is ignored, a final group of two or
  three digits gives one or two octets, a single left-over digit gives none.
\<close>

fun from_sextets :: "nat list \<Rightarrow> bytes" where
  "from_sextets (a # b # c # d # r) =
     of_nat (4 * a + b div 16) # of_nat (16 * (b mod 16) + c div 4) # of_nat (64 * (c mod 4) + d)
     # from_sextets r"
| "from_sextets [a, b, c] = [of_nat (4 * a + b div 16), of_nat (16 * (b mod 16) + c div 4)]"
| "from_sextets [a, b] = [of_nat (4 * a + b div 16)]"
| "from_sextets _ = []"

definition decodeBase64Strict :: "jsstring \<Rightarrow> type_error + bytes" where
  "decodeBase64Strict s =
     (if BASE64_REGEX s then Inr (from_sextets (List.map_filter sextet s))
      else Inl PayloadBadBase64)"

section \<open>Payloads\<close>

fun payloadJsonToCborValue :: "jsstring option \<Rightarrow> json \<Rightarrow> type_error + cbor" where
  "payloadJsonToCborValue keyContext JNull = Inl PayloadNull"
| "payloadJsonToCborValue keyContext (JBool b) = Inl PayloadBoolean"
| "payloadJsonToCborValue keyContext (JNum x) =
     (if \<not> f64_finite x then Inl PayloadNotFinite
      else if f64_is_integer x then Inr (CInt x) else Inr (CFloat x))"
| "payloadJsonToCborValue keyContext (JStr s) =
     (case keyContext of
        Some k \<Rightarrow>
          if ends_with k (js ''_b64'') then and_then (decodeBase64Strict s) (\<lambda>b. Inr (CBytes b))
          else Inr (CText s)
      | None \<Rightarrow> Inr (CText s))"
| "payloadJsonToCborValue keyContext (JArr vs) =
     and_then (map_result (payloadJsonToCborValue None) vs) (\<lambda>xs. Inr (CArray xs))"
| "payloadJsonToCborValue keyContext (JObj ps) =
     and_then (map_result (\<lambda>kv. and_then (payloadJsonToCborValue (Some (fst kv)) (snd kv))
                                  (\<lambda>v. Inr (fst kv, v))) ps)
       (\<lambda>pairs. Inr (CMap pairs))"

definition evidenceEntryToCborValue :: "polkadot \<Rightarrow> evidence_entry \<Rightarrow> type_error + cbor" where
  "evidenceEntryToCborValue P entry =
     (if ev_type entry \<notin> set EVIDENCE_TYPES then Inl EntryUnknownType
      else case as_string (ev_nonce entry) of
        None \<Rightarrow> Inl EntryBadNonce
      | Some nonce \<Rightarrow>
          if \<not> re_lower_hex 64 nonce then Inl EntryBadNonce
          else if \<not> is_plain_object (ev_payload entry) then Inl EntryBadPayload
          else case hexToU8a P (js ''0x'' @ nonce) of
                 None \<Rightarrow> Inl HexToU8aThrows
               | Some nonceBytes \<Rightarrow>
                   and_then (payloadJsonToCborValue None (ev_payload entry)) (\<lambda>payload.
                   Inr (CMap [(js ''evidence_type'', CText (ev_type entry)),
                              (js ''nonce'', CBytes nonceBytes),
                              (js ''payload'', payload)])))"

text \<open>
  The comparator of the sort.  For an unknown type the difference is NaN, which a sort treats
  as 0; such an array is refused by \<open>evidenceEntryToCborValue\<close> wherever the entry ends up.
\<close>

definition cmp_evidence :: "evidence_entry \<Rightarrow> evidence_entry \<Rightarrow> int" where
  "cmp_evidence a b =
     (case (EVIDENCE_TYPE_DISCRIMINANT (ev_type a), EVIDENCE_TYPE_DISCRIMINANT (ev_type b)) of
        (Some x, Some y) \<Rightarrow> x - y | _ \<Rightarrow> 0)"

definition sortEvidenceByDiscriminant :: "evidence_entry list \<Rightarrow> evidence_entry list" where
  "sortEvidenceByDiscriminant entries = js_sort cmp_evidence entries"

definition evidenceArrayToCborValue :: "polkadot \<Rightarrow> evidence_entry list \<Rightarrow> type_error + cbor" where
  "evidenceArrayToCborValue P entries =
     and_then (map_result (evidenceEntryToCborValue P) (sortEvidenceByDiscriminant entries))
       (\<lambda>vs. Inr (CArray vs))"

definition attestationEvidenceHash :: "polkadot \<Rightarrow> evidence_entry list \<Rightarrow> type_error + jsstring" where
  "attestationEvidenceHash P entries =
     and_then (evidenceArrayToCborValue P entries) (\<lambda>v.
     and_then (encodeCbor v) (\<lambda>cborBytes. Inr (sha256_hex cborBytes)))"

section \<open>Order\<close>

text \<open>On known types the comparator is a difference of discriminants.\<close>

definition discriminant :: "evidence_entry \<Rightarrow> int" where
  "discriminant e = (case EVIDENCE_TYPE_DISCRIMINANT (ev_type e) of Some x \<Rightarrow> x | None \<Rightarrow> - 1)"

interpretation evidence_order: comparator "\<lambda>a b. discriminant a - discriminant b"
  by unfold_locales auto

lemma known_discriminant:
  "ev_type e \<in> set EVIDENCE_TYPES \<Longrightarrow> EVIDENCE_TYPE_DISCRIMINANT (ev_type e) = Some (discriminant e)"
  by (auto simp: EVIDENCE_TYPES_def EVIDENCE_TYPE_DISCRIMINANT_def discriminant_def)

lemma discriminant_inj:
  assumes "ev_type a \<in> set EVIDENCE_TYPES" and "ev_type b \<in> set EVIDENCE_TYPES"
    and "discriminant a = discriminant b"
  shows "ev_type a = ev_type b"
  using assms by (auto simp: EVIDENCE_TYPES_def EVIDENCE_TYPE_DISCRIMINANT_def discriminant_def js_eq_iff)

definition known_types :: "evidence_entry list \<Rightarrow> bool" where
  "known_types es \<longleftrightarrow> list_all (\<lambda>e. ev_type e \<in> set EVIDENCE_TYPES) es"

lemma known_sort:
  "known_types es \<Longrightarrow>
   sortEvidenceByDiscriminant es = js_sort (\<lambda>a b. discriminant a - discriminant b) es"
  unfolding sortEvidenceByDiscriminant_def known_types_def
  by (rule js_sort_cong) (simp add: cmp_evidence_def known_discriminant list_all_iff)

lemma sort_evidence_perm:
  assumes "known_types es" and "mset es = mset es'" and "distinct (map ev_type es)"
  shows "sortEvidenceByDiscriminant es = sortEvidenceByDiscriminant es'"
proof -
  have "known_types es'"
    using assms(1,2) by (metis known_types_def list_all_iff set_mset_mset)
  moreover have "js_sort (\<lambda>a b. discriminant a - discriminant b) es
      = js_sort (\<lambda>a b. discriminant a - discriminant b) es'"
  proof (rule evidence_order.sort_perm [OF assms(2)])
    fix a b
    assume ab: "a \<in> set es" "b \<in> set es" and "discriminant a - discriminant b = 0"
    then have "ev_type a = ev_type b"
      using assms(1) by (intro discriminant_inj) (auto simp: known_types_def list_all_iff)
    with ab assms(3) show "a = b" by (auto simp: distinct_map inj_on_def)
  qed
  ultimately show ?thesis using assms(1) by (simp add: known_sort)
qed

lemma entry_known: "evidenceEntryToCborValue P e = Inr v \<Longrightarrow> ev_type e \<in> set EVIDENCE_TYPES"
  by (simp add: evidenceEntryToCborValue_def split: if_splits)

lemma evidence_array_known: "evidenceArrayToCborValue P es = Inr v \<Longrightarrow> known_types es"
  unfolding known_types_def list_all_iff
proof (intro ballI)
  fix e
  assume v: "evidenceArrayToCborValue P es = Inr v" and e: "e \<in> set es"
  then have "e \<in> set (sortEvidenceByDiscriminant es)" by (simp add: sortEvidenceByDiscriminant_def)
  moreover have "\<exists>vs. map_result (evidenceEntryToCborValue P) (sortEvidenceByDiscriminant es) = Inr vs"
    using v by (auto simp: evidenceArrayToCborValue_def and_then_Inr_iff)
  ultimately show "ev_type e \<in> set EVIDENCE_TYPES"
    using entry_known unfolding map_result_ok by blast
qed

section \<open>What an entry's encoding determines\<close>

lemma known_ascii: "t \<in> set EVIDENCE_TYPES \<Longrightarrow> list_all (\<lambda>c. c < 0x80) t"
  by (auto simp: EVIDENCE_TYPES_def js_def)

lemma known_utf8_inj:
  "s \<in> set EVIDENCE_TYPES \<Longrightarrow> t \<in> set EVIDENCE_TYPES \<Longrightarrow> utf8_encode s = utf8_encode t \<Longrightarrow> s = t"
  by (intro utf8_encode_inj well_formed_ascii known_ascii)

lemma hex64_bytes_inj:
  assumes "re_lower_hex n s" and "re_lower_hex n t" and "even n" and "hex_to_bytes s = hex_to_bytes t"
  shows "s = t"
  using assms hex_bytes_round by (metis re_lower_hex_def)

text \<open>The three keys in the order of their encodings: the shortest key comes first.\<close>

lemma entry_norm:
  "cbor_norm (CMap [(js ''evidence_type'', a), (js ''nonce'', b), (js ''payload'', c)])
   = NMap [(utf8_encode (js ''nonce''), cbor_norm b), (utf8_encode (js ''payload''), cbor_norm c),
           (utf8_encode (js ''evidence_type''), cbor_norm a)]"
  by (simp add: js_eval text_key_def encodeUint_def head_byte_def)

lemma entry_norm_inj:
  assumes hex: "hexToU8a_documented P"
    and a: "evidenceEntryToCborValue P a = Inr v" and b: "evidenceEntryToCborValue P b = Inr w"
    and eq: "cbor_norm v = cbor_norm w"
  shows "ev_type a = ev_type b" and "ev_nonce a = ev_nonce b"
    and "\<exists>p q. payloadJsonToCborValue None (ev_payload a) = Inr p
           \<and> payloadJsonToCborValue None (ev_payload b) = Inr q \<and> cbor_norm p = cbor_norm q"
proof -
  have shape: "\<exists>n p. ev_type e \<in> set EVIDENCE_TYPES \<and> ev_nonce e = JStr n \<and> re_lower_hex 64 n
      \<and> payloadJsonToCborValue None (ev_payload e) = Inr p
      \<and> cbor_norm u = NMap [(utf8_encode (js ''nonce''), NBytes (hex_to_bytes n)),
          (utf8_encode (js ''payload''), cbor_norm p),
          (utf8_encode (js ''evidence_type''), NText (utf8_encode (ev_type e)))]"
    if "evidenceEntryToCborValue P e = Inr u" for e u
    using that hexToU8a_hex [OF hex, of 64]
    by (auto simp: evidenceEntryToCborValue_def and_then_Inr_iff entry_norm
        simp del: cbor_norm.simps(6) split: if_splits option.splits)
  from shape [OF a] shape [OF b] eq show "ev_type a = ev_type b" and "ev_nonce a = ev_nonce b"
    and "\<exists>p q. payloadJsonToCborValue None (ev_payload a) = Inr p
           \<and> payloadJsonToCborValue None (ev_payload b) = Inr q \<and> cbor_norm p = cbor_norm q"
    by (auto dest: known_utf8_inj hex64_bytes_inj)
qed

text \<open>Two entries that stand for the same evidence.\<close>

definition same_evidence :: "evidence_entry \<Rightarrow> evidence_entry \<Rightarrow> bool" where
  "same_evidence a b \<longleftrightarrow>
     ev_type a = ev_type b \<and> ev_nonce a = ev_nonce b
     \<and> map_sum id cbor_norm (payloadJsonToCborValue None (ev_payload a))
       = map_sum id cbor_norm (payloadJsonToCborValue None (ev_payload b))"

lemma entry_norm_same:
  "hexToU8a_documented P \<Longrightarrow> evidenceEntryToCborValue P a = Inr v \<Longrightarrow>
   evidenceEntryToCborValue P b = Inr w \<Longrightarrow> cbor_norm v = cbor_norm w \<Longrightarrow> same_evidence a b"
  using entry_norm_inj [of P a v b w] by (auto simp: same_evidence_def)

lemma evidence_array_norm:
  assumes hex: "hexToU8a_documented P"
    and a: "evidenceArrayToCborValue P es = Inr v" and b: "evidenceArrayToCborValue P fs = Inr w"
    and eq: "cbor_norm v = cbor_norm w"
  shows "list_all2 same_evidence (sortEvidenceByDiscriminant es) (sortEvidenceByDiscriminant fs)"
proof -
  obtain vs ws where vs: "list_all2 (\<lambda>x y. evidenceEntryToCborValue P x = Inr y) (sortEvidenceByDiscriminant es) vs"
    and ws: "list_all2 (\<lambda>x y. evidenceEntryToCborValue P x = Inr y) (sortEvidenceByDiscriminant fs) ws"
    and vw: "map cbor_norm vs = map cbor_norm ws"
    using a b eq by (auto simp: evidenceArrayToCborValue_def and_then_Inr_iff map_result_Inr_iff)
  have len: "length vs = length ws" using vw map_eq_imp_length_eq by blast
  show ?thesis
  proof (rule list_all2_all_nthI)
    show "length (sortEvidenceByDiscriminant es) = length (sortEvidenceByDiscriminant fs)"
      using list_all2_lengthD [OF vs] list_all2_lengthD [OF ws] len by simp
    fix i
    assume i: "i < length (sortEvidenceByDiscriminant es)"
    then have iv: "i < length vs" "i < length ws" using list_all2_lengthD [OF vs] len by auto
    with vw have "cbor_norm (vs ! i) = cbor_norm (ws ! i)" by (metis nth_map)
    then show "same_evidence (sortEvidenceByDiscriminant es ! i) (sortEvidenceByDiscriminant fs ! i)"
      using entry_norm_same [OF hex list_all2_nthD2 [OF vs iv(1)] list_all2_nthD2 [OF ws iv(2)]] by simp
  qed
qed

section \<open>Properties\<close>

definition strip_0x :: "jsstring \<Rightarrow> jsstring" where
  "strip_0x h = (if starts_with h (js ''0x'') then drop 2 h else h)"

lemma deriveEvidenceNonce_Inr:
  assumes "hexToU8a_documented P" and "deriveEvidenceNonce P h t = Inr n"
  shows "re_lower_hex 64 (strip_0x h)"
    and "n = sha256_hex (hex_to_bytes (strip_0x h) @ utf8_encode t)"
  using assms(2) hexToU8a_hex [OF assms(1), of 64 "strip_0x h"]
  by (auto simp: deriveEvidenceNonce_def strip_0x_def [symmetric] evidenceVendorTagBytes_def Let_def
      split: if_splits option.splits)

lemma length_hex64: "re_lower_hex 64 s \<Longrightarrow> length (hex_to_bytes s) = 32"
  using length_hex_to_bytes [of s] by (simp add: re_lower_hex_def)

text \<open>A nonce binds an entry to one content hash and one evidence type: when the nonces of
  two known types are equal, the content hashes (up to a \<open>0x\<close> prefix) and the types are equal,
  or the two hashed strings are a SHA-256 collision.\<close>

theorem nonce_binds:
  assumes "hexToU8a_documented P"
    and "deriveEvidenceNonce P h t = Inr n" and "deriveEvidenceNonce P h' t' = Inr n"
    and "t \<in> set EVIDENCE_TYPES" and "t' \<in> set EVIDENCE_TYPES"
  shows "strip_0x h = strip_0x h' \<and> t = t'
    \<or> sha_collision (hex_to_bytes (strip_0x h) @ utf8_encode t)
        (hex_to_bytes (strip_0x h') @ utf8_encode t')"
proof -
  note a = deriveEvidenceNonce_Inr [OF assms(1,2)] and b = deriveEvidenceNonce_Inr [OF assms(1,3)]
  have "sha256 (hex_to_bytes (strip_0x h) @ utf8_encode t)
      = sha256 (hex_to_bytes (strip_0x h') @ utf8_encode t')"
    using a(2) b(2) by (simp flip: sha256_hex_eq)
  then consider "hex_to_bytes (strip_0x h) @ utf8_encode t = hex_to_bytes (strip_0x h') @ utf8_encode t'"
    | "sha_collision (hex_to_bytes (strip_0x h) @ utf8_encode t)
         (hex_to_bytes (strip_0x h') @ utf8_encode t')"
    by (auto dest: sha256_eqD)
  then show ?thesis
  proof cases
    case 1
    then have "hex_to_bytes (strip_0x h) = hex_to_bytes (strip_0x h')" "utf8_encode t = utf8_encode t'"
      using length_hex64 [OF a(1)] length_hex64 [OF b(1)] by auto
    then show ?thesis
      using hex64_bytes_inj [OF a(1) b(1)] known_utf8_inj [OF assms(4,5)] by simp
  qed simp
qed

definition nonce_sample :: jsstring where "nonce_sample = replicate 64 0x61"

theorem nonce_binds_witness:
  "\<exists>n. deriveEvidenceNonce polkadot_sample nonce_sample (js ''intel_tdx'') = Inr n
     \<and> deriveEvidenceNonce polkadot_sample (js ''0x'' @ nonce_sample) (js ''intel_tdx'') = Inr n
     \<and> (strip_0x nonce_sample = strip_0x (js ''0x'' @ nonce_sample) \<and> js ''intel_tdx'' = js ''intel_tdx''
        \<or> sha_collision (hex_to_bytes (strip_0x nonce_sample) @ utf8_encode (js ''intel_tdx''))
            (hex_to_bytes (strip_0x (js ''0x'' @ nonce_sample)) @ utf8_encode (js ''intel_tdx'')))"
proof -
  have shape: "re_lower_hex 64 nonce_sample"
    unfolding nonce_sample_def by (rule re_lower_hex_replicate) (simp add: char_class_defs)
  have head: "\<not> starts_with nonce_sample (js ''0x'')"
    unfolding nonce_sample_def by (rule starts_with_replicate) (simp_all add: js_def)
  obtain n where n: "deriveEvidenceNonce polkadot_sample nonce_sample (js ''intel_tdx'') = Inr n"
    using shape head hexToU8a_hex [OF polkadot_sample_hex shape]
    by (simp add: deriveEvidenceNonce_def)
  have n': "deriveEvidenceNonce polkadot_sample (js ''0x'' @ nonce_sample) (js ''intel_tdx'') = Inr n"
    using n head by (simp add: deriveEvidenceNonce_def)
  have known: "js ''intel_tdx'' \<in> set EVIDENCE_TYPES" by (simp add: EVIDENCE_TYPES_def)
  show ?thesis using n n' nonce_binds [OF polkadot_sample_hex n n' known known] by blast
qed

text \<open>The hash of an evidence array does not depend on the order of submission as long as
  no two entries have the same type; the array is sorted by discriminant, stably.\<close>

theorem evidence_hash_order:
  assumes "attestationEvidenceHash P es = Inr h"
    and "mset es = mset es'" and "distinct (map ev_type es)"
  shows "attestationEvidenceHash P es' = Inr h
    \<and> sorted_wrt (\<lambda>a b. discriminant a \<le> discriminant b) (sortEvidenceByDiscriminant es)
    \<and> (\<forall>t. filter (\<lambda>e. discriminant e = t) (sortEvidenceByDiscriminant es)
            = filter (\<lambda>e. discriminant e = t) es)"
proof -
  obtain v where "evidenceArrayToCborValue P es = Inr v"
    using assms(1) by (auto simp: attestationEvidenceHash_def and_then_Inr_iff)
  then have known: "known_types es" by (rule evidence_array_known)
  note sort = known_sort [OF known]
  have same: "sortEvidenceByDiscriminant es = sortEvidenceByDiscriminant es'"
    by (rule sort_evidence_perm [OF known assms(2,3)])
  then have "attestationEvidenceHash P es' = Inr h"
    using assms(1) by (simp add: attestationEvidenceHash_def evidenceArrayToCborValue_def)
  moreover have "sorted_wrt (\<lambda>a b. discriminant a \<le> discriminant b) (sortEvidenceByDiscriminant es)"
    unfolding sort using evidence_order.sorted_sort by simp
  moreover have "filter (\<lambda>e. discriminant e = t) (sortEvidenceByDiscriminant es)
      = filter (\<lambda>e. discriminant e = t) es" for t
  proof (cases "\<exists>k \<in> set es. discriminant k = t")
    case True
    then obtain k where "discriminant k = t" by blast
    then have "(\<lambda>e. discriminant e = t) = (\<lambda>e. discriminant k - discriminant e = 0)" by auto
    then show ?thesis using evidence_order.sort_stable [of k es] by (simp add: sort)
  next
    case False
    then show ?thesis by (auto simp: sort filter_empty_conv)
  qed
  ultimately show ?thesis by blast
qed

definition evidence_sample :: "evidence_entry list" where
  "evidence_sample =
     [\<lparr>ev_type = js ''intel_tdx'', ev_nonce = JStr (replicate 64 0x61), ev_payload = JObj []\<rparr>,
      \<lparr>ev_type = js ''amd_sev_snp'', ev_nonce = JStr (replicate 64 0x62), ev_payload = JObj []\<rparr>]"

lemma evidence_sample_hash: "\<exists>h. attestationEvidenceHash polkadot_sample evidence_sample = Inr h"
proof -
  have known: "js ''intel_tdx'' \<in> set EVIDENCE_TYPES" "js ''amd_sev_snp'' \<in> set EVIDENCE_TYPES"
    by (simp_all add: EVIDENCE_TYPES_def)
  have hex: "re_lower_hex 64 (replicate 64 0x61)" "re_lower_hex 64 (replicate 64 0x62)"
    by (rule re_lower_hex_replicate, simp add: char_class_defs)+
  note bytes = hexToU8a_hex [OF polkadot_sample_hex hex(1)] hexToU8a_hex [OF polkadot_sample_hex hex(2)]
  let ?v = "\<lambda>t n. CMap [(js ''evidence_type'', CText t), (js ''nonce'', CBytes (hex_to_bytes n)),
      (js ''payload'', CMap [])]"
  let ?arr = "CArray [?v (js ''amd_sev_snp'') (replicate 64 0x62), ?v (js ''intel_tdx'') (replicate 64 0x61)]"
  have "sortEvidenceByDiscriminant evidence_sample
      = [evidence_sample ! 1, evidence_sample ! 0]"
    by (simp add: sortEvidenceByDiscriminant_def evidence_sample_def cmp_evidence_def
        EVIDENCE_TYPE_DISCRIMINANT_def js_eq_iff)
  then have arr: "evidenceArrayToCborValue polkadot_sample evidence_sample = Inr ?arr"
    using known hex bytes
    by (simp add: evidenceArrayToCborValue_def evidence_sample_def evidenceEntryToCborValue_def
       )
  have "encodable ?arr"
    using length_hex64 [OF hex(1)] length_hex64 [OF hex(2)]
    by (simp add: js_safe_int_def js_eval)
  then obtain bs where "encodeCbor ?arr = Inr bs" using encodeCbor_ok by blast
  with arr show ?thesis by (simp add: attestationEvidenceHash_def)
qed

theorem evidence_hash_order_witness:
  "\<exists>h. attestationEvidenceHash polkadot_sample (rev evidence_sample) = Inr h
     \<and> sorted_wrt (\<lambda>a b. discriminant a \<le> discriminant b) (sortEvidenceByDiscriminant evidence_sample)"
proof -
  obtain h where h: "attestationEvidenceHash polkadot_sample evidence_sample = Inr h"
    using evidence_sample_hash by blast
  have "distinct (map ev_type evidence_sample)"
    by (simp add: evidence_sample_def js_eq_iff)
  from evidence_hash_order [OF h mset_rev [symmetric] this] show ?thesis by blast
qed

definition evidence_bytes :: "polkadot \<Rightarrow> evidence_entry list \<Rightarrow> type_error + bytes" where
  "evidence_bytes P es = and_then (evidenceArrayToCborValue P es) encodeCbor"

text \<open>Equal evidence hashes mean the same evidence, or a SHA-256 collision: type, nonce and
  canonical payload agree entry by entry in sorted order.\<close>

theorem evidence_hash_binds:
  assumes "hexToU8a_documented P"
    and "attestationEvidenceHash P es = Inr h" and "attestationEvidenceHash P fs = Inr h"
  shows "\<exists>a b. evidence_bytes P es = Inr a \<and> evidence_bytes P fs = Inr b
    \<and> (list_all2 same_evidence (sortEvidenceByDiscriminant es) (sortEvidenceByDiscriminant fs)
        \<or> sha_collision a b)"
proof -
  obtain v w a b where v: "evidenceArrayToCborValue P es = Inr v" and w: "evidenceArrayToCborValue P fs = Inr w"
    and a: "encodeCbor v = Inr a" and b: "encodeCbor w = Inr b" and ab: "sha256_hex a = sha256_hex b"
    using assms(2,3) by (auto simp: attestationEvidenceHash_def and_then_Inr_iff)
  have bytes: "evidence_bytes P es = Inr a" "evidence_bytes P fs = Inr b"
    using v w a b by (simp_all add: evidence_bytes_def)
  from ab consider "a = b" | "sha_collision a b" by (auto simp: sha256_hex_eq dest: sha256_eqD)
  then show ?thesis
  proof cases
    case 1
    then have "encodeCbor w = Inr a" using b by simp
    then have "cbor_norm v = cbor_norm w" by (rule encodeCbor_inj [OF a])
    then show ?thesis using evidence_array_norm [OF assms(1) v w] bytes by blast
  qed (use bytes in blast)
qed

theorem evidence_hash_binds_witness:
  "\<exists>a b. evidence_bytes polkadot_sample evidence_sample = Inr a
    \<and> evidence_bytes polkadot_sample (rev evidence_sample) = Inr b
    \<and> (list_all2 same_evidence (sortEvidenceByDiscriminant evidence_sample)
          (sortEvidenceByDiscriminant (rev evidence_sample)) \<or> sha_collision a b)"
proof -
  obtain h where h: "attestationEvidenceHash polkadot_sample evidence_sample = Inr h"
    using evidence_sample_hash by blast
  have dist: "distinct (map ev_type evidence_sample)" by (simp add: evidence_sample_def js_eq_iff)
  have "known_types evidence_sample"
    by (simp add: known_types_def evidence_sample_def EVIDENCE_TYPES_def)
  from sort_evidence_perm [OF this mset_rev [symmetric] dist]
  have "attestationEvidenceHash polkadot_sample (rev evidence_sample) = Inr h"
    using h by (simp add: attestationEvidenceHash_def evidenceArrayToCborValue_def)
  from evidence_hash_binds [OF polkadot_sample_hex h this] show ?thesis .
qed

end
