(* ===== verification/MeteringV2.thy ===== *)
theory MeteringV2
  imports EvidencePayload
begin

text \<open>
  The \<open>compute_metering_v2\<close> record of \<open>schemas/compute_metering_v2.ts\<close>: its pre-images and its
  validator, stage by stage in the order of the checks.  Numbers are doubles as JavaScript has
  them; the theorems read them as integers and rationals.
\<close>

section \<open>Constants and types\<close>

definition SCHEMA_VERSION :: jsstring where "SCHEMA_VERSION = js ''compute_metering_v2''"

definition SCHEMA_VERSION_V2_1 :: jsstring where "SCHEMA_VERSION_V2_1 = js ''compute_metering_v2.1''"

definition SCHEMA_HASH_HEX :: jsstring where
  "SCHEMA_HASH_HEX = sha256_hex (utf8_encode SCHEMA_VERSION)"

definition SCHEMA_HASH_V2_1_HEX :: jsstring where
  "SCHEMA_HASH_V2_1_HEX = sha256_hex (utf8_encode SCHEMA_VERSION_V2_1)"

definition FLEET_OP_TAG :: jsstring where "FLEET_OP_TAG = js ''fleet_op_attestation_v1''"

text \<open>The expressions \<open>/^[a-z0-9-]{4,64}$/\<close> and \<open>/^[^\s,]{1,128}$/\<close>.\<close>

definition ID_REGEX :: "jsstring \<Rightarrow> bool" where
  "ID_REGEX s \<longleftrightarrow> 4 \<le> length s \<and> length s \<le> 64
     \<and> list_all (\<lambda>c. is_lower_letter c \<or> is_digit_u16 c \<or> c = 0x2D) s"

definition WORKER_ID_REGEX :: "jsstring \<Rightarrow> bool" where
  "WORKER_ID_REGEX s \<longleftrightarrow> 1 \<le> length s \<and> length s \<le> 128
     \<and> list_all (\<lambda>c. \<not> is_js_space c \<and> c \<noteq> 0x2C) s"

definition MAX_PERIOD_MS :: f64 where "MAX_PERIOD_MS = num 86400000"

definition FUTURE_SKEW_MS :: f64 where "FUTURE_SKEW_MS = num 60000"

text \<open>The double written \<open>1.05\<close>.\<close>

definition JITTER_FACTOR :: f64 where "JITTER_FACTOR = F64 0x3FF0CCCCCCCCCCCD"

definition JS_SAFE_INT :: f64 where "JS_SAFE_INT = num js_safe_int"

definition GPU_TYPES :: "jsstring list" where
  "GPU_TYPES =
     [js ''none'', js ''nvidia-h100'', js ''nvidia-h200'', js ''nvidia-b100'', js ''nvidia-a100'',
      js ''amd-mi300'', js ''custom'']"

record metrics_v2 =
  cpu_seconds :: f64
  ram_gb_hours :: f64
  disk_gb_hours :: f64
  net_bytes_in :: f64
  net_bytes_out :: f64
  gpu_seconds :: f64

record hardware_spec_v2 =
  cpu_cores :: f64
  ram_gb :: f64
  gpu_type :: jsstring
  gpu_count :: f64
  fleet_operator_pubkey :: jsstring
  fleet_operator_signature :: jsstring
  issued_ms :: f64

record observer_v2 =
  observer_pubkey :: jsstring
  observer_signature :: jsstring

text \<open>The constant \<open>schema_version\<close> of a validated record is left out.\<close>

record metering_v2 =
  v2_worker_id :: jsstring
  v2_tenant_id :: jsstring
  v2_period_start_ms :: f64
  v2_period_end_ms :: f64
  v2_metrics :: metrics_v2
  v2_hardware_spec :: hardware_spec_v2
  v2_worker_pubkey :: jsstring
  v2_worker_signature :: jsstring
  v2_observer :: "observer_v2 option"

datatype validate_code =
    INVALID_JSON | MISSING_FIELD | WRONG_TYPE | WRONG_SCHEMA_VERSION | ID_FORMAT
  | PERIOD_INVALID | NEGATIVE_VALUE | BOUND_EXCEEDED | INT_OVERFLOW | HEX_FORMAT
  | GPU_TYPE_INVALID | GPU_COUNT_MISMATCH | HARDWARE_BOUND | FLEET_OP_SIGNATURE_INVALID
  | WORKER_SIGNATURE_INVALID | OBSERVER_SIGNATURE_INVALID | MONOTONIC_VIOLATION

text \<open>A refusal (the message is left out), or an exception that escapes the validator.\<close>

datatype validate_err = Refuse validate_code "jsstring option" | Raised type_error

record validate_ok =
  ok_record :: metering_v2
  ok_content_hash :: jsstring
  ok_schema_hash :: jsstring
  ok_worker_pre_image :: bytes
  ok_fleet_op_pre_image :: bytes

section \<open>Pre-images\<close>

definition hexBytes :: "polkadot \<Rightarrow> jsstring \<Rightarrow> type_error + bytes" where
  "hexBytes P s = (case hexToU8a P (js ''0x'' @ s) of None \<Rightarrow> Inl HexToU8aThrows | Some b \<Rightarrow> Inr b)"

definition metricsToCbor :: "metrics_v2 \<Rightarrow> cbor" where
  "metricsToCbor m =
     CMap [(js ''cpu_seconds'', CFloat (cpu_seconds m)),
           (js ''disk_gb_hours'', CFloat (disk_gb_hours m)),
           (js ''gpu_seconds'', CFloat (gpu_seconds m)),
           (js ''net_bytes_in'', CInt (net_bytes_in m)),
           (js ''net_bytes_out'', CInt (net_bytes_out m)),
           (js ''ram_gb_hours'', CFloat (ram_gb_hours m))]"

definition hardwareSpecNoSigToCbor :: "polkadot \<Rightarrow> hardware_spec_v2 \<Rightarrow> type_error + cbor" where
  "hardwareSpecNoSigToCbor P spec =
     and_then (hexBytes P (fleet_operator_pubkey spec)) (\<lambda>pk.
     Inr (CMap [(js ''cpu_cores'', CInt (cpu_cores spec)),
                (js ''fleet_operator_pubkey'', CBytes pk),
                (js ''gpu_count'', CInt (gpu_count spec)),
                (js ''gpu_type'', CText (gpu_type spec)),
                (js ''issued_ms'', CInt (issued_ms spec)),
                (js ''ram_gb'', CInt (ram_gb spec))]))"

definition hardwareSpecFullToCbor :: "polkadot \<Rightarrow> hardware_spec_v2 \<Rightarrow> type_error + cbor" where
  "hardwareSpecFullToCbor P spec =
     and_then (hexBytes P (fleet_operator_pubkey spec)) (\<lambda>pk.
     and_then (hexBytes P (fleet_operator_signature spec)) (\<lambda>sg.
     Inr (CMap [(js ''cpu_cores'', CInt (cpu_cores spec)),
                (js ''fleet_operator_pubkey'', CBytes pk),
                (js ''fleet_operator_signature'', CBytes sg),
                (js ''gpu_count'', CInt (gpu_count spec)),
                (js ''gpu_type'', CText (gpu_type spec)),
                (js ''issued_ms'', CInt (issued_ms spec)),
                (js ''ram_gb'', CInt (ram_gb spec))])))"

definition canonicalCborForFleetOpSig ::
  "polkadot \<Rightarrow> jsstring \<Rightarrow> hardware_spec_v2 \<Rightarrow> type_error + bytes" where
  "canonicalCborForFleetOpSig P workerId hardwareSpec =
     and_then (hardwareSpecNoSigToCbor P hardwareSpec) (\<lambda>hw.
     encodeCbor (CArray [CText FLEET_OP_TAG, CText workerId, hw, CInt (issued_ms hardwareSpec)]))"

definition canonicalCborForWorkerSig ::
  "polkadot \<Rightarrow> metering_v2 \<Rightarrow> evidence_entry list option \<Rightarrow> type_error + bytes" where
  "canonicalCborForWorkerSig P rec evidence =
     (let hasEvidence = (case evidence of None \<Rightarrow> False | Some es \<Rightarrow> 0 < length es)
      in and_then (hardwareSpecFullToCbor P (v2_hardware_spec rec)) (\<lambda>hw.
         and_then (hexBytes P (v2_worker_pubkey rec)) (\<lambda>pk.
         let baseElements =
              [CText (if hasEvidence then SCHEMA_VERSION_V2_1 else SCHEMA_VERSION),
               CText (v2_worker_id rec), CText (v2_tenant_id rec),
               CInt (v2_period_start_ms rec), CInt (v2_period_end_ms rec),
               metricsToCbor (v2_metrics rec), hw, CBytes pk]
         in and_then (if hasEvidence
                      then and_then (evidenceArrayToCborValue P (the evidence)) (\<lambda>ev.
                             Inr (baseElements @ [ev]))
                      else Inr baseElements) (\<lambda>elements.
            encodeCbor (CArray elements)))))"

definition canonicalContentHash ::
  "polkadot \<Rightarrow> metering_v2 \<Rightarrow> evidence_entry list option \<Rightarrow> type_error + jsstring" where
  "canonicalContentHash P rec evidence =
     and_then (canonicalCborForWorkerSig P rec evidence) (\<lambda>b. Inr (sha256_hex b))"

section \<open>Checks on fields\<close>

definition refuse :: "validate_code \<Rightarrow> jsstring \<Rightarrow> validate_err + 'a" where
  "refuse code field = Inl (Refuse code (Some field))"

definition guard :: "bool \<Rightarrow> validate_code \<Rightarrow> jsstring \<Rightarrow> validate_err + unit" where
  "guard ok code field = (if ok then Inr () else refuse code field)"

definition require :: "(jsstring \<times> json) list \<Rightarrow> jsstring \<Rightarrow> jsstring \<Rightarrow> validate_err + json" where
  "require raw k field = (case get_prop k raw of None \<Rightarrow> refuse MISSING_FIELD field | Some v \<Rightarrow> Inr v)"

definition want_string :: "jsstring \<Rightarrow> json \<Rightarrow> validate_err + jsstring" where
  "want_string field v = (case as_string v of None \<Rightarrow> refuse WRONG_TYPE field | Some s \<Rightarrow> Inr s)"

definition want_integer :: "jsstring \<Rightarrow> json \<Rightarrow> validate_err + f64" where
  "want_integer field v =
     (case as_number v of
        None \<Rightarrow> refuse WRONG_TYPE field
      | Some x \<Rightarrow> if f64_is_integer x then Inr x else refuse WRONG_TYPE field)"

definition want_object :: "jsstring \<Rightarrow> json \<Rightarrow> validate_err + (jsstring \<times> json) list" where
  "want_object field v = (case as_object v of None \<Rightarrow> refuse WRONG_TYPE field | Some ps \<Rightarrow> Inr ps)"

text \<open>A required string of \<open>n\<close> lower-case hexadecimal digits.\<close>

definition hex_field ::
  "(jsstring \<times> json) list \<Rightarrow> jsstring \<Rightarrow> nat \<Rightarrow> jsstring \<Rightarrow> validate_err + jsstring" where
  "hex_field raw k n field =
     and_then (require raw k field) (\<lambda>v.
     and_then (want_string field v) (\<lambda>s.
     and_then (guard (re_lower_hex n s) HEX_FORMAT field) (\<lambda>_. Inr s)))"

definition validate_metric ::
  "(jsstring \<times> json) list \<Rightarrow> jsstring \<times> bool \<Rightarrow> validate_err + f64" where
  "validate_metric raw spec =
     (let key = fst spec; is_int = snd spec; field = js ''metrics.'' @ key
      in and_then (require raw key field) (\<lambda>v.
         case as_number v of
           None \<Rightarrow> refuse WRONG_TYPE field
         | Some x \<Rightarrow>
             and_then (guard (f64_finite x) WRONG_TYPE field) (\<lambda>_.
             and_then (guard (is_int \<longrightarrow> f64_is_integer x) WRONG_TYPE field) (\<lambda>_.
             and_then (guard (\<not> f64_lt x (num 0)) NEGATIVE_VALUE field) (\<lambda>_.
             and_then (guard (\<not> (is_int \<and> f64_lt JS_SAFE_INT x)) INT_OVERFLOW field) (\<lambda>_.
             Inr x))))))"

definition METRIC_FIELDS :: "(jsstring \<times> bool) list" where
  "METRIC_FIELDS =
     [(js ''cpu_seconds'', False), (js ''ram_gb_hours'', False), (js ''disk_gb_hours'', False),
      (js ''net_bytes_in'', True), (js ''net_bytes_out'', True), (js ''gpu_seconds'', False)]"

definition validateMetrics :: "json \<Rightarrow> validate_err + metrics_v2" where
  "validateMetrics raw =
     and_then (want_object (js ''metrics'') raw) (\<lambda>ps.
     and_then (map_result (validate_metric ps) METRIC_FIELDS) (\<lambda>vs.
     Inr \<lparr>cpu_seconds = vs ! 0, ram_gb_hours = vs ! 1, disk_gb_hours = vs ! 2,
          net_bytes_in = vs ! 3, net_bytes_out = vs ! 4, gpu_seconds = vs ! 5\<rparr>))"

text \<open>A required integer of \<open>hardware_spec\<close> between two bounds.\<close>

definition bounded_field ::
  "(jsstring \<times> json) list \<Rightarrow> jsstring \<Rightarrow> int \<Rightarrow> int \<Rightarrow> jsstring \<Rightarrow> validate_err + f64" where
  "bounded_field raw k lo hi field =
     and_then (require raw k field) (\<lambda>v.
     and_then (want_integer field v) (\<lambda>x.
     and_then (guard (\<not> f64_lt x (num lo) \<and> \<not> f64_lt (num hi) x) HARDWARE_BOUND field) (\<lambda>_. Inr x)))"

definition validateHardwareSpec :: "json \<Rightarrow> validate_err + hardware_spec_v2" where
  "validateHardwareSpec raw =
     and_then (want_object (js ''hardware_spec'') raw) (\<lambda>ps.
     and_then (bounded_field ps (js ''cpu_cores'') 1 1024 (js ''hardware_spec.cpu_cores'')) (\<lambda>cores.
     and_then (bounded_field ps (js ''ram_gb'') 1 16384 (js ''hardware_spec.ram_gb'')) (\<lambda>ram.
     and_then (require ps (js ''gpu_type'') (js ''hardware_spec.gpu_type'')) (\<lambda>gt.
     and_then (want_string (js ''hardware_spec.gpu_type'') gt) (\<lambda>gtype.
     and_then (guard (gtype \<in> set GPU_TYPES) GPU_TYPE_INVALID (js ''hardware_spec.gpu_type'')) (\<lambda>_.
     and_then (bounded_field ps (js ''gpu_count'') 0 16 (js ''hardware_spec.gpu_count'')) (\<lambda>gcount.
     and_then (hex_field ps (js ''fleet_operator_pubkey'') 64
                 (js ''hardware_spec.fleet_operator_pubkey'')) (\<lambda>pk.
     and_then (hex_field ps (js ''fleet_operator_signature'') 128
                 (js ''hardware_spec.fleet_operator_signature'')) (\<lambda>sg.
     and_then (require ps (js ''issued_ms'') (js ''hardware_spec.issued_ms'')) (\<lambda>im.
     and_then (want_integer (js ''hardware_spec.issued_ms'') im) (\<lambda>issued.
     and_then (guard (\<not> f64_le issued (num 0)) PERIOD_INVALID (js ''hardware_spec.issued_ms'')) (\<lambda>_.
     Inr \<lparr>cpu_cores = cores, ram_gb = ram, gpu_type = gtype, gpu_count = gcount,
          fleet_operator_pubkey = pk, fleet_operator_signature = sg, issued_ms = issued\<rparr>))))))))))))"

definition validateObserver :: "json \<Rightarrow> validate_err + observer_v2" where
  "validateObserver raw =
     (let pkf = js ''observer.observer_pubkey''; sgf = js ''observer.observer_signature''
      in and_then (want_object (js ''observer'') raw) (\<lambda>ps.
         and_then (require ps (js ''observer_pubkey'') pkf) (\<lambda>pk.
         and_then (require ps (js ''observer_signature'') sgf) (\<lambda>sg.
         and_then (want_string pkf pk) (\<lambda>pk.
         and_then (want_string sgf sg) (\<lambda>sg.
         and_then (guard (re_lower_hex 64 pk) HEX_FORMAT pkf) (\<lambda>_.
         and_then (guard (re_lower_hex 128 sg) HEX_FORMAT sgf) (\<lambda>_.
         Inr \<lparr>observer_pubkey = pk, observer_signature = sg\<rparr>))))))))"

definition verifySr25519 :: "polkadot \<Rightarrow> bytes \<Rightarrow> jsstring \<Rightarrow> jsstring \<Rightarrow> bool" where
  "verifySr25519 P message signatureHex pubkeyHex =
     (case hexToU8a P (js ''0x'' @ signatureHex) of
        None \<Rightarrow> False
      | Some sg \<Rightarrow>
          (case hexToU8a P (js ''0x'' @ pubkeyHex) of
             None \<Rightarrow> False
           | Some pk \<Rightarrow>
               (case signatureVerify P message sg (u8aToHex P pk) of
                  None \<Rightarrow> False | Some valid \<Rightarrow> valid)))"

section \<open>The validator\<close>

text \<open>Lines 1105 to 1151: version and identifiers.\<close>

definition check_schema_version :: "(jsstring \<times> json) list \<Rightarrow> validate_err + unit" where
  "check_schema_version r =
     and_then (require r (js ''schema_version'') (js ''schema_version'')) (\<lambda>v.
     and_then (want_string (js ''schema_version'') v) (\<lambda>s.
     guard (s = SCHEMA_VERSION) WRONG_SCHEMA_VERSION (js ''schema_version'')))"

definition check_id ::
  "(jsstring \<Rightarrow> bool) \<Rightarrow> jsstring \<Rightarrow> (jsstring \<times> json) list \<Rightarrow> validate_err + jsstring" where
  "check_id regex k r =
     and_then (require r k k) (\<lambda>v.
     and_then (want_string k v) (\<lambda>s.
     and_then (guard (regex s) ID_FORMAT k) (\<lambda>_. Inr s)))"

text \<open>Lines 1152 to 1197: the reporting period, the clock and the last accepted period.\<close>

definition check_period_at ::
  "jsstring \<Rightarrow> jsstring \<Rightarrow> f64 \<Rightarrow> f64 \<Rightarrow> (jsstring \<times> json) list \<Rightarrow> validate_err + f64 \<times> f64" where
  "check_period_at sf ef nowMs lastPeriodStartMs r =
     and_then (require r sf sf) (\<lambda>sv.
     and_then (want_integer sf sv) (\<lambda>periodStartMs.
     and_then (guard (\<not> f64_le periodStartMs (num 0)) PERIOD_INVALID sf) (\<lambda>_.
     and_then (require r ef ef) (\<lambda>ev.
     and_then (want_integer ef ev) (\<lambda>periodEndMs.
     and_then (guard (\<not> f64_le periodEndMs periodStartMs) PERIOD_INVALID ef) (\<lambda>_.
     and_then (guard (\<not> f64_lt MAX_PERIOD_MS (f64_sub periodEndMs periodStartMs))
                 PERIOD_INVALID ef) (\<lambda>_.
     and_then (guard (\<not> f64_lt (f64_add nowMs FUTURE_SKEW_MS) periodEndMs) PERIOD_INVALID ef) (\<lambda>_.
     and_then (guard (\<not> f64_lt periodStartMs lastPeriodStartMs) MONOTONIC_VIOLATION sf) (\<lambda>_.
     Inr (periodStartMs, periodEndMs))))))))))"

definition check_period ::
  "f64 \<Rightarrow> f64 \<Rightarrow> (jsstring \<times> json) list \<Rightarrow> validate_err + f64 \<times> f64" where
  "check_period = check_period_at (js ''period_start_ms'') (js ''period_end_ms'')"

text \<open>Lines 1238 to 1244: an observer that is absent or null is no observer.\<close>

definition check_observer :: "(jsstring \<times> json) list \<Rightarrow> validate_err + observer_v2 option" where
  "check_observer r =
     (case get_prop (js ''observer'') r of
        None \<Rightarrow> Inr None
      | Some JNull \<Rightarrow> Inr None
      | Some v \<Rightarrow> and_then (validateObserver v) (\<lambda>ob. Inr (Some ob)))"

text \<open>Lines 1252 to 1279: the hardware caps.\<close>

definition cpuCap :: "hardware_spec_v2 \<Rightarrow> f64 \<Rightarrow> f64 \<Rightarrow> f64" where
  "cpuCap hw start_ms end_ms =
     f64_mul (f64_mul (cpu_cores hw) (f64_div (f64_sub end_ms start_ms) (num 1000))) JITTER_FACTOR"

definition ramCap :: "hardware_spec_v2 \<Rightarrow> f64 \<Rightarrow> f64 \<Rightarrow> f64" where
  "ramCap hw start_ms end_ms =
     f64_mul (f64_mul (ram_gb hw) (f64_div (f64_sub end_ms start_ms) (num 3600000))) JITTER_FACTOR"

definition check_bounds ::
  "hardware_spec_v2 \<Rightarrow> metrics_v2 \<Rightarrow> f64 \<Rightarrow> f64 \<Rightarrow> validate_err + unit" where
  "check_bounds hw m start_ms end_ms =
     and_then (guard (\<not> f64_lt (cpuCap hw start_ms end_ms) (cpu_seconds m))
                 BOUND_EXCEEDED (js ''metrics.cpu_seconds'')) (\<lambda>_.
     and_then (guard (\<not> f64_lt (ramCap hw start_ms end_ms) (ram_gb_hours m))
                 BOUND_EXCEEDED (js ''metrics.ram_gb_hours'')) (\<lambda>_.
     guard (\<not> ((gpu_type hw = js ''none'' \<or> f64_eq (gpu_count hw) (num 0))
               \<and> \<not> f64_eq (gpu_seconds m) (num 0)))
       GPU_COUNT_MISMATCH (js ''metrics.gpu_seconds'')))"

text \<open>Lines 1320 to 1357: fleet operator, worker, observer, in this order.\<close>

definition check_signatures ::
  "polkadot \<Rightarrow> bytes \<Rightarrow> bytes \<Rightarrow> metering_v2 \<Rightarrow> validate_err + unit" where
  "check_signatures P fleetOpPreImage workerPreImage rec =
     (let hw = v2_hardware_spec rec
      in and_then (guard (verifySr25519 P fleetOpPreImage (fleet_operator_signature hw)
                            (fleet_operator_pubkey hw))
                     FLEET_OP_SIGNATURE_INVALID (js ''hardware_spec.fleet_operator_signature'')) (\<lambda>_.
         and_then (guard (verifySr25519 P workerPreImage (v2_worker_signature rec) (v2_worker_pubkey rec))
                     WORKER_SIGNATURE_INVALID (js ''worker_signature'')) (\<lambda>_.
         case v2_observer rec of
           None \<Rightarrow> Inr ()
         | Some ob \<Rightarrow>
             guard (verifySr25519 P workerPreImage (observer_signature ob) (observer_pubkey ob))
               OBSERVER_SIGNATURE_INVALID (js ''observer.observer_signature''))))"

definition lift_raise :: "type_error + 'a \<Rightarrow> validate_err + 'a" where
  "lift_raise r = (case r of Inl e \<Rightarrow> Inl (Raised e) | Inr a \<Rightarrow> Inr a)"

text \<open>The typed record, from the fields in the order they are checked.\<close>

definition parse_v2 ::
  "f64 \<Rightarrow> f64 \<Rightarrow> json \<Rightarrow> validate_err + metering_v2" where
  "parse_v2 nowMs lastPeriodStartMs raw =
     (case as_object raw of
        None \<Rightarrow> Inl (Refuse WRONG_TYPE None)
      | Some r \<Rightarrow>
          and_then (check_schema_version r) (\<lambda>_.
          and_then (check_id WORKER_ID_REGEX (js ''worker_id'') r) (\<lambda>workerId.
          and_then (check_id ID_REGEX (js ''tenant_id'') r) (\<lambda>tenantId.
          and_then (check_period nowMs lastPeriodStartMs r) (\<lambda>period.
          and_then (require r (js ''metrics'') (js ''metrics'')) (\<lambda>mraw.
          and_then (validateMetrics mraw) (\<lambda>m.
          and_then (require r (js ''hardware_spec'') (js ''hardware_spec'')) (\<lambda>hraw.
          and_then (validateHardwareSpec hraw) (\<lambda>hw.
          and_then (hex_field r (js ''worker_pubkey'') 64 (js ''worker_pubkey'')) (\<lambda>pk.
          and_then (hex_field r (js ''worker_signature'') 128 (js ''worker_signature'')) (\<lambda>sg.
          and_then (check_observer r) (\<lambda>ob.
          and_then (check_bounds hw m (fst period) (snd period)) (\<lambda>_.
          Inr \<lparr>v2_worker_id = workerId, v2_tenant_id = tenantId, v2_period_start_ms = fst period,
               v2_period_end_ms = snd period, v2_metrics = m, v2_hardware_spec = hw,
               v2_worker_pubkey = pk, v2_worker_signature = sg, v2_observer = ob\<rparr>)))))))))))))"

text \<open>
  \<open>opts.last_period_start_ms ?? 0\<close> and \<open>opts.verify_signatures ?? true\<close> are resolved by the
  caller; \<open>nowMs\<close> is \<open>opts.now_ms ?? Date.now()\<close>.
\<close>

definition validateComputeMeteringV2 ::
  "polkadot \<Rightarrow> f64 \<Rightarrow> f64 \<Rightarrow> bool \<Rightarrow> json \<Rightarrow> validate_err + validate_ok" where
  "validateComputeMeteringV2 P nowMs lastPeriodStartMs verifySigs raw =
     and_then (parse_v2 nowMs lastPeriodStartMs raw) (\<lambda>rec.
     and_then (lift_raise (canonicalCborForFleetOpSig P (v2_worker_id rec) (v2_hardware_spec rec)))
       (\<lambda>fleetOpPreImage.
     and_then (lift_raise (canonicalCborForWorkerSig P rec None)) (\<lambda>workerPreImage.
     and_then (if verifySigs then check_signatures P fleetOpPreImage workerPreImage rec else Inr ())
       (\<lambda>_.
     Inr \<lparr>ok_record = rec, ok_content_hash = sha256_hex workerPreImage,
          ok_schema_hash = SCHEMA_HASH_HEX, ok_worker_pre_image = workerPreImage,
          ok_fleet_op_pre_image = fleetOpPreImage\<rparr>))))"

datatype ss58_error = NotHex64 | EncodeAddressThrows

definition workerPubkeyToSs58 :: "polkadot \<Rightarrow> jsstring \<Rightarrow> int \<Rightarrow> ss58_error + jsstring" where
  "workerPubkeyToSs58 P workerPubkey prefix =
     (if \<not> re_lower_hex 64 workerPubkey then Inl NotHex64
      else case hexToU8a P (js ''0x'' @ workerPubkey) of
             None \<Rightarrow> Inl EncodeAddressThrows
           | Some b \<Rightarrow> (case encodeAddress P b prefix of
                          None \<Rightarrow> Inl EncodeAddressThrows | Some s \<Rightarrow> Inr s))"

section \<open>When the checks succeed\<close>

lemma guard_Inr [check_iffs]: "guard ok c f = Inr u \<longleftrightarrow> ok"
  by (simp add: guard_def refuse_def)

lemma require_Inr [check_iffs]: "require raw k f = Inr v \<longleftrightarrow> get_prop k raw = Some v"
  by (auto simp: require_def refuse_def split: option.splits)

lemma want_string_Inr [check_iffs]: "want_string f v = Inr s \<longleftrightarrow> v = JStr s"
  by (cases v) (auto simp: want_string_def refuse_def)

lemma want_integer_Inr [check_iffs]: "want_integer f v = Inr x \<longleftrightarrow> v = JNum x \<and> f64_is_integer x"
  by (cases v) (auto simp: want_integer_def refuse_def)

lemma want_object_Inr [check_iffs]: "want_object f v = Inr ps \<longleftrightarrow> v = JObj ps"
  by (cases v) (auto simp: want_object_def refuse_def)

lemma hex_field_Inr [check_iffs]:
  "hex_field raw k n f = Inr s \<longleftrightarrow> get_prop k raw = Some (JStr s) \<and> re_lower_hex n s"
  by (auto simp: hex_field_def and_then_Inr_iff check_iffs)

lemma bounded_field_Inr [check_iffs]:
  "bounded_field raw k lo hi f = Inr x \<longleftrightarrow>
     get_prop k raw = Some (JNum x) \<and> f64_is_integer x \<and> \<not> f64_lt x (num lo) \<and> \<not> f64_lt (num hi) x"
  by (auto simp: bounded_field_def and_then_Inr_iff check_iffs)

lemma check_schema_version_Inr [check_iffs]:
  "check_schema_version r = Inr u \<longleftrightarrow> get_prop (js ''schema_version'') r = Some (JStr SCHEMA_VERSION)"
  by (auto simp: check_schema_version_def and_then_Inr_iff check_iffs)

lemma check_id_Inr [check_iffs]:
  "check_id regex k r = Inr s \<longleftrightarrow> get_prop k r = Some (JStr s) \<and> regex s"
  by (auto simp: check_id_def and_then_Inr_iff check_iffs)

text \<open>What a metric of the given kind must satisfy.\<close>

definition metric_ok :: "bool \<Rightarrow> f64 \<Rightarrow> bool" where
  "metric_ok is_int x \<longleftrightarrow> f64_finite x \<and> \<not> f64_lt x (num 0)
     \<and> (is_int \<longrightarrow> f64_is_integer x \<and> \<not> f64_lt JS_SAFE_INT x)"

lemma validate_metric_Inr [check_iffs]:
  "validate_metric raw (key, is_int) = Inr x \<longleftrightarrow>
     get_prop key raw = Some (JNum x) \<and> metric_ok is_int x"
  by (auto simp: validate_metric_def metric_ok_def and_then_Inr_iff check_iffs refuse_def Let_def
      split: option.splits)

definition metrics_ok :: "metrics_v2 \<Rightarrow> bool" where
  "metrics_ok m \<longleftrightarrow>
     metric_ok False (cpu_seconds m) \<and> metric_ok False (ram_gb_hours m)
     \<and> metric_ok False (disk_gb_hours m) \<and> metric_ok True (net_bytes_in m)
     \<and> metric_ok True (net_bytes_out m) \<and> metric_ok False (gpu_seconds m)"

definition metrics_props :: "metrics_v2 \<Rightarrow> (jsstring \<times> json) list \<Rightarrow> bool" where
  "metrics_props m ps \<longleftrightarrow>
     get_prop (js ''cpu_seconds'') ps = Some (JNum (cpu_seconds m))
     \<and> get_prop (js ''ram_gb_hours'') ps = Some (JNum (ram_gb_hours m))
     \<and> get_prop (js ''disk_gb_hours'') ps = Some (JNum (disk_gb_hours m))
     \<and> get_prop (js ''net_bytes_in'') ps = Some (JNum (net_bytes_in m))
     \<and> get_prop (js ''net_bytes_out'') ps = Some (JNum (net_bytes_out m))
     \<and> get_prop (js ''gpu_seconds'') ps = Some (JNum (gpu_seconds m))"

lemma validateMetrics_Inr [check_iffs]:
  "validateMetrics raw = Inr m \<longleftrightarrow> (\<exists>ps. raw = JObj ps \<and> metrics_props m ps) \<and> metrics_ok m"
proof -
  have fields: "map_result (validate_metric ps) METRIC_FIELDS = Inr vs \<longleftrightarrow>
      (\<exists>m. metrics_props m ps \<and> metrics_ok m
         \<and> vs = [cpu_seconds m, ram_gb_hours m, disk_gb_hours m, net_bytes_in m, net_bytes_out m, gpu_seconds m])"
    (is "?l \<longleftrightarrow> ?r") for ps vs
  proof
    assume ?l
    then obtain a b c d e f where vs: "vs = [a, b, c, d, e, f]"
      and all: "metrics_props \<lparr>cpu_seconds = a, ram_gb_hours = b, disk_gb_hours = c, net_bytes_in = d,
             net_bytes_out = e, gpu_seconds = f\<rparr> ps"
        "metrics_ok \<lparr>cpu_seconds = a, ram_gb_hours = b, disk_gb_hours = c, net_bytes_in = d,
             net_bytes_out = e, gpu_seconds = f\<rparr>"
      by (auto simp: METRIC_FIELDS_def and_then_Inr_iff check_iffs metrics_props_def metrics_ok_def)
    then show ?r
      by (intro exI [of _ "\<lparr>cpu_seconds = a, ram_gb_hours = b, disk_gb_hours = c, net_bytes_in = d,
             net_bytes_out = e, gpu_seconds = f\<rparr>"]) simp
  next
    assume ?r
    then show ?l
      by (auto simp: METRIC_FIELDS_def check_iffs metrics_props_def metrics_ok_def and_then_Inr_iff)
  qed
  have eta: "\<lparr>cpu_seconds = cpu_seconds m, ram_gb_hours = ram_gb_hours m,
      disk_gb_hours = disk_gb_hours m, net_bytes_in = net_bytes_in m,
      net_bytes_out = net_bytes_out m, gpu_seconds = gpu_seconds m\<rparr> = m" for m by simp
  have "validateMetrics raw = Inr m \<longleftrightarrow>
      (\<exists>ps m'. raw = JObj ps \<and> metrics_props m' ps \<and> metrics_ok m' \<and> m' = m)"
    (is "?l \<longleftrightarrow> ?r")
  proof
    assume ?l
    then show ?r by (auto simp: validateMetrics_def and_then_Inr_iff check_iffs fields eta)
  next
    assume ?r
    then obtain ps where ps: "raw = JObj ps" "metrics_props m ps" "metrics_ok m" by blast
    then have "map_result (validate_metric ps) METRIC_FIELDS
        = Inr [cpu_seconds m, ram_gb_hours m, disk_gb_hours m, net_bytes_in m, net_bytes_out m, gpu_seconds m]"
      unfolding fields by blast
    then show ?l by (simp add: validateMetrics_def want_object_def ps(1))
  qed
  then show ?thesis by blast
qed

definition int_between :: "f64 \<Rightarrow> int \<Rightarrow> int \<Rightarrow> bool" where
  "int_between x lo hi \<longleftrightarrow> f64_is_integer x \<and> \<not> f64_lt x (num lo) \<and> \<not> f64_lt (num hi) x"

definition hardware_ok :: "hardware_spec_v2 \<Rightarrow> bool" where
  "hardware_ok hw \<longleftrightarrow>
     int_between (cpu_cores hw) 1 1024 \<and> int_between (ram_gb hw) 1 16384
     \<and> gpu_type hw \<in> set GPU_TYPES \<and> int_between (gpu_count hw) 0 16
     \<and> re_lower_hex 64 (fleet_operator_pubkey hw) \<and> re_lower_hex 128 (fleet_operator_signature hw)
     \<and> f64_is_integer (issued_ms hw) \<and> \<not> f64_le (issued_ms hw) (num 0)"

definition hardware_props :: "hardware_spec_v2 \<Rightarrow> (jsstring \<times> json) list \<Rightarrow> bool" where
  "hardware_props hw ps \<longleftrightarrow>
     get_prop (js ''cpu_cores'') ps = Some (JNum (cpu_cores hw))
     \<and> get_prop (js ''ram_gb'') ps = Some (JNum (ram_gb hw))
     \<and> get_prop (js ''gpu_type'') ps = Some (JStr (gpu_type hw))
     \<and> get_prop (js ''gpu_count'') ps = Some (JNum (gpu_count hw))
     \<and> get_prop (js ''fleet_operator_pubkey'') ps = Some (JStr (fleet_operator_pubkey hw))
     \<and> get_prop (js ''fleet_operator_signature'') ps = Some (JStr (fleet_operator_signature hw))
     \<and> get_prop (js ''issued_ms'') ps = Some (JNum (issued_ms hw))"

lemma validateHardwareSpec_Inr [check_iffs]:
  "validateHardwareSpec raw = Inr hw \<longleftrightarrow> (\<exists>ps. raw = JObj ps \<and> hardware_props hw ps) \<and> hardware_ok hw"
  by (cases hw)
    (auto simp: validateHardwareSpec_def and_then_Inr_iff check_iffs hardware_ok_def hardware_props_def
      int_between_def)

definition observer_ok :: "observer_v2 \<Rightarrow> bool" where
  "observer_ok ob \<longleftrightarrow> re_lower_hex 64 (observer_pubkey ob) \<and> re_lower_hex 128 (observer_signature ob)"

lemma validateObserver_Inr [check_iffs]:
  "validateObserver raw = Inr ob \<longleftrightarrow>
     (\<exists>ps. raw = JObj ps \<and> get_prop (js ''observer_pubkey'') ps = Some (JStr (observer_pubkey ob))
        \<and> get_prop (js ''observer_signature'') ps = Some (JStr (observer_signature ob)))
     \<and> observer_ok ob"
  by (cases ob) (auto simp: validateObserver_def and_then_Inr_iff check_iffs observer_ok_def Let_def)

section \<open>The checks as integers and rationals\<close>

lemma int_between_iff:
  assumes "\<bar>lo\<bar> \<le> 2 ^ 53" and "\<bar>hi\<bar> \<le> 2 ^ 53"
  shows "int_between x lo hi \<longleftrightarrow> (\<exists>i. f64_to_int x = Some i \<and> lo \<le> i \<and> i \<le> hi)"
proof (cases "f64_to_int x")
  case None
  then show ?thesis by (simp add: int_between_def f64_is_integer_def)
next
  case (Some i)
  then show ?thesis
    using f64_lt_ints [OF Some num_to_int [OF assms(1)]] f64_lt_ints [OF num_to_int [OF assms(2)] Some]
    by (auto simp: int_between_def f64_is_integer_def)
qed

lemma metric_ok_iff:
  "metric_ok is_int x \<longleftrightarrow> f64_finite x \<and> 0 \<le> f64_val x
     \<and> (is_int \<longrightarrow> (\<exists>i. f64_to_int x = Some i \<and> i \<le> js_safe_int))"
proof (cases "f64_finite x")
  case True
  have safe: "f64_finite JS_SAFE_INT" "f64_val JS_SAFE_INT = of_int js_safe_int"
    using num_finite [of js_safe_int] by (simp_all add: JS_SAFE_INT_def js_safe_int_def)
  have "f64_val x = of_int i" if "f64_to_int x = Some i" for i using f64_to_int_SomeD that by simp
  then show ?thesis
    using True safe num_finite [of 0]
    by (auto simp: metric_ok_def f64_lt_val f64_is_integer_def not_less)
qed (simp add: metric_ok_def)

text \<open>A period as the checks of lines 1152 to 1197 accept it.\<close>

definition period_ok :: "int \<Rightarrow> int \<Rightarrow> f64 \<Rightarrow> f64 \<Rightarrow> bool" where
  "period_ok now last_start s e \<longleftrightarrow>
     (\<exists>a b. f64_to_int s = Some a \<and> f64_to_int e = Some b \<and> 0 < a \<and> a < b
        \<and> b - a \<le> 86400000 \<and> b \<le> now + 60000 \<and> last_start \<le> a)"

lemma check_period_at_Inr:
  assumes now: "f64_to_int nowMs = Some now" "0 \<le> now" "now \<le> 2 ^ 52"
    and last: "f64_to_int lastMs = Some last_start"
  shows "check_period_at sf ef nowMs lastMs r = Inr (s, e) \<longleftrightarrow>
    get_prop sf r = Some (JNum s) \<and> get_prop ef r = Some (JNum e)
    \<and> period_ok now last_start s e"
proof (cases "f64_is_integer s \<and> f64_is_integer e")
  case True
  then obtain a b where a: "f64_to_int s = Some a" and b: "f64_to_int e = Some b"
    by (auto elim: f64_int_cases)
  have now': "f64_to_int (f64_add nowMs FUTURE_SKEW_MS) = Some (now + 60000)"
    unfolding FUTURE_SKEW_MS_def using now num_to_int [of 60000] by (intro f64_add_exact) auto
  have future: "f64_lt (f64_add nowMs FUTURE_SKEW_MS) e \<longleftrightarrow> now + 60000 < b"
    by (rule f64_lt_ints [OF now' b])
  have start: "f64_le s (num 0) \<longleftrightarrow> a \<le> 0"
    by (rule f64_le_ints [OF a num_to_int]) simp
  have order: "f64_le e s \<longleftrightarrow> b \<le> a" by (rule f64_le_ints [OF b a])
  have mono: "f64_lt s lastMs \<longleftrightarrow> a < last_start" by (rule f64_lt_ints [OF a last])
  have span: "f64_lt MAX_PERIOD_MS (f64_sub e s) \<longleftrightarrow> 86400000 < b - a"
    if "0 < a" "a < b" "b \<le> now + 60000"
  proof (rule f64_lt_ints)
    show "f64_to_int MAX_PERIOD_MS = Some 86400000"
      unfolding MAX_PERIOD_MS_def by (rule num_to_int) simp
    show "f64_to_int (f64_sub e s) = Some (b - a)"
      using that now(3) by (intro f64_sub_exact [OF b a]) auto
  qed
  show ?thesis
    using True a b future start order mono span
    by (auto simp: check_period_at_def and_then_Inr_iff check_iffs period_ok_def)
next
  case False
  then show ?thesis
    by (auto simp: check_period_at_def and_then_Inr_iff check_iffs period_ok_def f64_is_integer_def)
qed

lemma check_period_Inr [check_iffs]:
  assumes "f64_to_int nowMs = Some now" "0 \<le> now" "now \<le> 2 ^ 52" "f64_to_int lastMs = Some last_start"
  shows "check_period nowMs lastMs r = Inr (s, e) \<longleftrightarrow>
    get_prop (js ''period_start_ms'') r = Some (JNum s) \<and> get_prop (js ''period_end_ms'') r = Some (JNum e)
    \<and> period_ok now last_start s e"
  unfolding check_period_def by (rule check_period_at_Inr [OF assms])

section \<open>The hardware caps\<close>

lemma jitter_val: "f64_finite JITTER_FACTOR" "f64_val JITTER_FACTOR = 4728779608739021 / 2 ^ 52"
proof -
  have "f64_class JITTER_FACTOR = Fin False 4728779608739021 (- 52)"
    by (simp add: JITTER_FACTOR_def f64_eval)
  note c = this
  show "f64_finite JITTER_FACTOR" unfolding f64_finite_class using c by blast
  have "f64_val JITTER_FACTOR = of_int (signed_mant False 4728779608739021) * 2 powi (- 52)"
    by (rule f64_val_Fin [OF c])
  also have "(2::rat) powi (- 52) = inverse (2 ^ 52)" by (simp add: powi_neg)
  finally show "f64_val JITTER_FACTOR = 4728779608739021 / 2 ^ 52"
    by (simp only: signed_mant_simps of_int_of_nat_eq of_nat_numeral divide_inverse)
qed

definition cap_of :: "f64 \<Rightarrow> f64 \<Rightarrow> int \<Rightarrow> f64" where
  "cap_of cap width k = f64_mul (f64_mul cap (f64_div width (num k))) JITTER_FACTOR"

text \<open>One rounding in the quotient and one in each product: under \<open>2 ^ (- 50)\<close> in all.\<close>

lemma cap_of_close:
  assumes c: "f64_to_int cap = Some c" "1 \<le> c" "c \<le> 16384"
    and d: "f64_to_int width = Some d" "1 \<le> d" "d \<le> 86400000"
    and k: "1000 \<le> k" "k \<le> 3600000"
  defines "X \<equiv> of_int c * (of_int d / of_int k) * (21 / 20) :: rat"
  shows "f64_finite (cap_of cap width k)"
    and "f64_val (cap_of cap width k) \<le> X * (1 + 1 / 2 ^ 50)"
    and "X * (1 - 1 / 2 ^ 50) \<le> f64_val (cap_of cap width k)"
proof -
  define y :: rat where "y = of_int d / of_int k"
  define C :: rat where "C = of_int c"
  let ?A = "1 + 1 / 2 ^ 53 :: rat" and ?B = "1 - 1 / 2 ^ 53 :: rat"
  let ?J = "4728779608739021 / 2 ^ 52 :: rat"
  have "(of_int 1 :: rat) \<le> of_int c" "(of_int c :: rat) \<le> of_int 16384"
    using c by (simp_all only: of_int_le_iff)
  then have cr: "(1::rat) \<le> of_int c" "of_int c \<le> (16384 :: rat)" by simp_all
  have C: "1 \<le> C" "C \<le> 16384" using cr by (simp_all add: C_def)
  have "(of_int 1 :: rat) \<le> of_int d" "(of_int d :: rat) \<le> of_int 86400000"
    "(of_int 1000 :: rat) \<le> of_int k" "(of_int k :: rat) \<le> of_int 3600000"
    using d k by (simp_all only: of_int_le_iff)
  then have dk: "(1::rat) \<le> of_int d" "of_int d \<le> (86400000 :: rat)"
    "(1000 :: rat) \<le> of_int k" "of_int k \<le> (3600000 :: rat)" by simp_all
  have y: "1 / 3600000 \<le> y" "y \<le> 86400"
    using dk frac_le [of "of_int d" 1 "of_int k" "3600000 :: rat"]
      frac_le [of 86400000 "of_int d" "1000 :: rat" "of_int k"] by (simp_all add: y_def)
  note cf = f64_to_int_SomeD [OF c(1)] and df = f64_to_int_SomeD [OF d(1)]
  have kf: "f64_finite (num k)" "f64_val (num k) = of_int k" using num_finite [of k] k by auto
  define q where "q = f64_div width (num k)"
  define p where "p = f64_mul cap q"
  have pos: "0 < f64_val cap" "0 < f64_val width" "0 < f64_val (num k)"
    using cr dk cf df kf by auto
  have "f64_close q (f64_val width / f64_val (num k))"
    unfolding q_def using df kf pos y
    by (intro f64_div_close normal_rangeI) (auto simp: y_def)
  then have q: "f64_close q y" using df kf by (simp add: y_def)
  have y0: "0 \<le> y" using y by linarith
  note qD = f64_closeD [OF q y0]
  have q_lo: "1 / 2 ^ 23 \<le> f64_val q" using qD(3) y by simp
  have q_hi: "f64_val q \<le> 2 ^ 17" using qD(2) y by simp
  have Cq: "1 / 2 ^ 23 \<le> C * f64_val q" "C * f64_val q \<le> 2 ^ 14 * 2 ^ 17"
    using mult_mono [of 1 C "1 / 2 ^ 23" "f64_val q"] mult_mono [of C "2 ^ 14" "f64_val q" "2 ^ 17"]
      C q_lo q_hi by auto
  have "f64_close p (f64_val cap * f64_val q)"
    unfolding p_def using cf qD pos q_lo Cq
    by (intro f64_mul_close normal_rangeI) (auto simp: C_def intro: order_trans)
  then have p: "f64_close p (C * f64_val q)" using cf by (simp add: C_def)
  have Cq0: "0 \<le> C * f64_val q" by (rule order_trans [OF _ Cq(1)]) simp
  note pD = f64_closeD [OF p Cq0]
  have p_lo: "1 / 2 ^ 24 \<le> f64_val p" using pD(3) Cq by simp
  have p_hi: "f64_val p \<le> 2 ^ 33" using pD(2) Cq by simp
  have p0: "0 < f64_val p" by (rule less_le_trans [OF _ p_lo]) simp
  have J0: "0 < f64_val JITTER_FACTOR" unfolding jitter_val(2) by simp
  have "normal_range (f64_val p * f64_val JITTER_FACTOR)"
    unfolding jitter_val(2) by (rule normal_rangeI) (use p_lo p_hi in simp_all)
  from f64_mul_close [OF pD(1) jitter_val(1) p0 J0 this]
  have r: "f64_close (cap_of cap width k) (f64_val p * ?J)"
    by (simp only: cap_of_def p_def q_def jitter_val(2))
  have pJ0: "0 \<le> f64_val p * ?J" using p_lo by simp
  note rD = f64_closeD [OF r pJ0]
  show "f64_finite (cap_of cap width k)" by (rule rD(1))
  have C0: "0 \<le> C" using C by simp
  have up: "C * f64_val q \<le> C * (y * ?A)" and dn: "C * (y * ?B) \<le> C * f64_val q"
    using mult_left_mono [OF qD(2) C0] mult_left_mono [OF qD(3) C0] by simp_all
  have X: "X = C * y * (21 / 20)" by (simp add: X_def C_def y_def)
  have Cy: "0 \<le> C * y" using C0 y0 by simp
  have "f64_val (cap_of cap width k) \<le> (C * y) * (?A * ?A * ?A * ?J)"
    using rD(2) pD(2) up by simp
  also have "\<dots> \<le> (C * y) * ((21 / 20) * (1 + 1 / 2 ^ 50))"
    by (rule mult_left_mono [OF _ Cy]) simp
  finally show "f64_val (cap_of cap width k) \<le> X * (1 + 1 / 2 ^ 50)" by (simp add: X)
  have "X * (1 - 1 / 2 ^ 50) = (C * y) * ((21 / 20) * (1 - 1 / 2 ^ 50))" by (simp add: X)
  also have "\<dots> \<le> (C * y) * (?B * ?B * ?B * ?J)"
    by (rule mult_left_mono [OF _ Cy]) simp
  also have "\<dots> \<le> f64_val (cap_of cap width k)"
    using rD(3) pD(3) dn by simp
  finally show "X * (1 - 1 / 2 ^ 50) \<le> f64_val (cap_of cap width k)" .
qed

section \<open>What parsing accepts\<close>

definition v2_rules :: "int \<Rightarrow> int \<Rightarrow> metering_v2 \<Rightarrow> bool" where
  "v2_rules now last_start rec \<longleftrightarrow>
     WORKER_ID_REGEX (v2_worker_id rec) \<and> ID_REGEX (v2_tenant_id rec)
     \<and> period_ok now last_start (v2_period_start_ms rec) (v2_period_end_ms rec)
     \<and> metrics_ok (v2_metrics rec) \<and> hardware_ok (v2_hardware_spec rec)
     \<and> re_lower_hex 64 (v2_worker_pubkey rec) \<and> re_lower_hex 128 (v2_worker_signature rec)
     \<and> (\<forall>ob. v2_observer rec = Some ob \<longrightarrow> observer_ok ob)
     \<and> check_bounds (v2_hardware_spec rec) (v2_metrics rec) (v2_period_start_ms rec)
         (v2_period_end_ms rec) = Inr ()"

text \<open>The properties of the submitted object from which a record is read.\<close>

definition v2_wire :: "(jsstring \<times> json) list \<Rightarrow> metering_v2 \<Rightarrow> bool" where
  "v2_wire r rec \<longleftrightarrow>
     get_prop (js ''schema_version'') r = Some (JStr SCHEMA_VERSION)
     \<and> get_prop (js ''worker_id'') r = Some (JStr (v2_worker_id rec))
     \<and> get_prop (js ''tenant_id'') r = Some (JStr (v2_tenant_id rec))
     \<and> get_prop (js ''period_start_ms'') r = Some (JNum (v2_period_start_ms rec))
     \<and> get_prop (js ''period_end_ms'') r = Some (JNum (v2_period_end_ms rec))
     \<and> (\<exists>ps. get_prop (js ''metrics'') r = Some (JObj ps) \<and> metrics_props (v2_metrics rec) ps)
     \<and> (\<exists>ps. get_prop (js ''hardware_spec'') r = Some (JObj ps)
             \<and> hardware_props (v2_hardware_spec rec) ps)
     \<and> get_prop (js ''worker_pubkey'') r = Some (JStr (v2_worker_pubkey rec))
     \<and> get_prop (js ''worker_signature'') r = Some (JStr (v2_worker_signature rec))
     \<and> (case v2_observer rec of
           None \<Rightarrow> get_prop (js ''observer'') r = None \<or> get_prop (js ''observer'') r = Some JNull
         | Some ob \<Rightarrow> (\<exists>ps. get_prop (js ''observer'') r = Some (JObj ps)
             \<and> get_prop (js ''observer_pubkey'') ps = Some (JStr (observer_pubkey ob))
             \<and> get_prop (js ''observer_signature'') ps = Some (JStr (observer_signature ob))))"

lemma check_observer_Inr [check_iffs]:
  "check_observer r = Inr ob \<longleftrightarrow>
     (case ob of
        None \<Rightarrow> get_prop (js ''observer'') r = None \<or> get_prop (js ''observer'') r = Some JNull
      | Some b \<Rightarrow> (\<exists>ps. get_prop (js ''observer'') r = Some (JObj ps)
          \<and> get_prop (js ''observer_pubkey'') ps = Some (JStr (observer_pubkey b))
          \<and> get_prop (js ''observer_signature'') ps = Some (JStr (observer_signature b)))
          \<and> observer_ok b)"
  by (auto simp: check_observer_def and_then_Inr_iff check_iffs split: option.splits json.splits)

lemma parse_v2_Inr:
  assumes "f64_to_int nowMs = Some now" "0 \<le> now" "now \<le> 2 ^ 52" "f64_to_int lastMs = Some last_start"
  shows "parse_v2 nowMs lastMs raw = Inr rec \<longleftrightarrow>
    (\<exists>r. raw = JObj r \<and> v2_wire r rec) \<and> v2_rules now last_start rec"
proof (cases raw)
  case (JObj r)
  note period = check_period_Inr [OF assms, of r]
  have "check_bounds hw m s e = Inr u \<longleftrightarrow> check_bounds hw m s e = Inr ()" for hw m s e u by simp
  then show ?thesis
    unfolding parse_v2_def v2_wire_def v2_rules_def JObj
    by (cases rec) (auto simp: and_then_Inr_iff check_iffs period split: option.splits)
qed (simp_all add: parse_v2_def)

text \<open>A record written as JSON.\<close>

definition json_of_metrics :: "metrics_v2 \<Rightarrow> json" where
  "json_of_metrics m =
     JObj [(js ''cpu_seconds'', JNum (cpu_seconds m)), (js ''ram_gb_hours'', JNum (ram_gb_hours m)),
           (js ''disk_gb_hours'', JNum (disk_gb_hours m)), (js ''net_bytes_in'', JNum (net_bytes_in m)),
           (js ''net_bytes_out'', JNum (net_bytes_out m)), (js ''gpu_seconds'', JNum (gpu_seconds m))]"

definition json_of_hardware :: "hardware_spec_v2 \<Rightarrow> json" where
  "json_of_hardware hw =
     JObj [(js ''cpu_cores'', JNum (cpu_cores hw)), (js ''ram_gb'', JNum (ram_gb hw)),
           (js ''gpu_type'', JStr (gpu_type hw)), (js ''gpu_count'', JNum (gpu_count hw)),
           (js ''fleet_operator_pubkey'', JStr (fleet_operator_pubkey hw)),
           (js ''fleet_operator_signature'', JStr (fleet_operator_signature hw)),
           (js ''issued_ms'', JNum (issued_ms hw))]"

definition json_of_v2 :: "metering_v2 \<Rightarrow> json" where
  "json_of_v2 rec =
     JObj ([(js ''schema_version'', JStr SCHEMA_VERSION), (js ''worker_id'', JStr (v2_worker_id rec)),
            (js ''tenant_id'', JStr (v2_tenant_id rec)),
            (js ''period_start_ms'', JNum (v2_period_start_ms rec)),
            (js ''period_end_ms'', JNum (v2_period_end_ms rec)),
            (js ''metrics'', json_of_metrics (v2_metrics rec)),
            (js ''hardware_spec'', json_of_hardware (v2_hardware_spec rec)),
            (js ''worker_pubkey'', JStr (v2_worker_pubkey rec)),
            (js ''worker_signature'', JStr (v2_worker_signature rec))]
           @ (case v2_observer rec of
                None \<Rightarrow> []
              | Some ob \<Rightarrow> [(js ''observer'',
                  JObj [(js ''observer_pubkey'', JStr (observer_pubkey ob)),
                        (js ''observer_signature'', JStr (observer_signature ob))])]))"

lemma json_of_v2_wire: "\<exists>r. json_of_v2 rec = JObj r \<and> v2_wire r rec"
  by (cases "v2_observer rec")
    (auto simp: json_of_v2_def v2_wire_def json_of_metrics_def json_of_hardware_def metrics_props_def
      hardware_props_def get_prop_def js_eq_iff)

section \<open>What a pre-image determines\<close>

lemmas norm_eval = js_eval text_key_def encodeUint_def head_byte_def

lemma metrics_norm:
  "cbor_norm (metricsToCbor m) =
     NMap [(utf8_encode (js ''cpu_seconds''), NFloat (cpu_seconds m)),
           (utf8_encode (js ''gpu_seconds''), NFloat (gpu_seconds m)),
           (utf8_encode (js ''net_bytes_in''), NInt (f64_int (net_bytes_in m))),
           (utf8_encode (js ''ram_gb_hours''), NFloat (ram_gb_hours m)),
           (utf8_encode (js ''disk_gb_hours''), NFloat (disk_gb_hours m)),
           (utf8_encode (js ''net_bytes_out''), NInt (f64_int (net_bytes_out m)))]"
  by (simp add: metricsToCbor_def norm_eval)

lemma hardware_full_norm:
  "cbor_norm (CMap [(js ''cpu_cores'', a), (js ''fleet_operator_pubkey'', b),
      (js ''fleet_operator_signature'', c), (js ''gpu_count'', d), (js ''gpu_type'', e),
      (js ''issued_ms'', f), (js ''ram_gb'', g)]) =
   NMap [(utf8_encode (js ''ram_gb''), cbor_norm g), (utf8_encode (js ''gpu_type''), cbor_norm e),
         (utf8_encode (js ''cpu_cores''), cbor_norm a), (utf8_encode (js ''gpu_count''), cbor_norm d),
         (utf8_encode (js ''issued_ms''), cbor_norm f),
         (utf8_encode (js ''fleet_operator_pubkey''), cbor_norm b),
         (utf8_encode (js ''fleet_operator_signature''), cbor_norm c)]"
  by (simp add: norm_eval)

lemma hardware_nosig_norm:
  "cbor_norm (CMap [(js ''cpu_cores'', a), (js ''fleet_operator_pubkey'', b),
      (js ''gpu_count'', d), (js ''gpu_type'', e), (js ''issued_ms'', f), (js ''ram_gb'', g)]) =
   NMap [(utf8_encode (js ''ram_gb''), cbor_norm g), (utf8_encode (js ''gpu_type''), cbor_norm e),
         (utf8_encode (js ''cpu_cores''), cbor_norm a), (utf8_encode (js ''gpu_count''), cbor_norm d),
         (utf8_encode (js ''issued_ms''), cbor_norm f),
         (utf8_encode (js ''fleet_operator_pubkey''), cbor_norm b)]"
  by (simp add: norm_eval)

text \<open>Two records that carry the same data, up to lone surrogates in the text fields.\<close>

definition same_metrics :: "metrics_v2 \<Rightarrow> metrics_v2 \<Rightarrow> bool" where
  "same_metrics m m' \<longleftrightarrow>
     cpu_seconds m = cpu_seconds m' \<and> ram_gb_hours m = ram_gb_hours m'
     \<and> disk_gb_hours m = disk_gb_hours m' \<and> gpu_seconds m = gpu_seconds m'
     \<and> f64_int (net_bytes_in m) = f64_int (net_bytes_in m')
     \<and> f64_int (net_bytes_out m) = f64_int (net_bytes_out m')"

definition same_spec :: "hardware_spec_v2 \<Rightarrow> hardware_spec_v2 \<Rightarrow> bool" where
  "same_spec hw hw' \<longleftrightarrow>
     f64_int (cpu_cores hw) = f64_int (cpu_cores hw') \<and> f64_int (ram_gb hw) = f64_int (ram_gb hw')
     \<and> f64_int (gpu_count hw) = f64_int (gpu_count hw') \<and> f64_int (issued_ms hw) = f64_int (issued_ms hw')
     \<and> utf8_encode (gpu_type hw) = utf8_encode (gpu_type hw')
     \<and> fleet_operator_pubkey hw = fleet_operator_pubkey hw'"

definition same_v2 :: "metering_v2 \<Rightarrow> metering_v2 \<Rightarrow> bool" where
  "same_v2 r r' \<longleftrightarrow>
     utf8_encode (v2_worker_id r) = utf8_encode (v2_worker_id r')
     \<and> utf8_encode (v2_tenant_id r) = utf8_encode (v2_tenant_id r')
     \<and> f64_int (v2_period_start_ms r) = f64_int (v2_period_start_ms r')
     \<and> f64_int (v2_period_end_ms r) = f64_int (v2_period_end_ms r')
     \<and> same_metrics (v2_metrics r) (v2_metrics r')
     \<and> same_spec (v2_hardware_spec r) (v2_hardware_spec r')
     \<and> fleet_operator_signature (v2_hardware_spec r) = fleet_operator_signature (v2_hardware_spec r')
     \<and> v2_worker_pubkey r = v2_worker_pubkey r'"

text \<open>The hexadecimal fields have the lengths the validator demands.\<close>

definition hex_shaped :: "metering_v2 \<Rightarrow> bool" where
  "hex_shaped r \<longleftrightarrow>
     re_lower_hex 64 (fleet_operator_pubkey (v2_hardware_spec r))
     \<and> re_lower_hex 128 (fleet_operator_signature (v2_hardware_spec r))
     \<and> re_lower_hex 64 (v2_worker_pubkey r)"

definition ev_of :: "evidence_entry list option \<Rightarrow> evidence_entry list" where
  "ev_of ev = (case ev of None \<Rightarrow> [] | Some es \<Rightarrow> es)"

lemma hexBytes_ok: "hexToU8a_documented P \<Longrightarrow> re_lower_hex n s \<Longrightarrow> even n \<Longrightarrow> hexBytes P s = Inr (hex_to_bytes s)"
  by (simp add: hexBytes_def hexToU8a_hex)

definition spec_norm :: "hardware_spec_v2 \<Rightarrow> cnorm" where
  "spec_norm hw =
     NMap [(utf8_encode (js ''ram_gb''), NInt (f64_int (ram_gb hw))),
           (utf8_encode (js ''gpu_type''), NText (utf8_encode (gpu_type hw))),
           (utf8_encode (js ''cpu_cores''), NInt (f64_int (cpu_cores hw))),
           (utf8_encode (js ''gpu_count''), NInt (f64_int (gpu_count hw))),
           (utf8_encode (js ''issued_ms''), NInt (f64_int (issued_ms hw))),
           (utf8_encode (js ''fleet_operator_pubkey''), NBytes (hex_to_bytes (fleet_operator_pubkey hw))),
           (utf8_encode (js ''fleet_operator_signature''),
              NBytes (hex_to_bytes (fleet_operator_signature hw)))]"

lemma worker_pre_image_norm:
  assumes hex: "hexToU8a_documented P" and shaped: "hex_shaped rec"
    and enc: "canonicalCborForWorkerSig P rec ev = Inr bs"
  obtains v evs where "encodeCbor v = Inr bs"
    and "cbor_norm v = NArray ([NText (utf8_encode (if ev_of ev \<noteq> [] then SCHEMA_VERSION_V2_1 else SCHEMA_VERSION)),
        NText (utf8_encode (v2_worker_id rec)), NText (utf8_encode (v2_tenant_id rec)),
        NInt (f64_int (v2_period_start_ms rec)), NInt (f64_int (v2_period_end_ms rec)),
        cbor_norm (metricsToCbor (v2_metrics rec)), spec_norm (v2_hardware_spec rec),
        NBytes (hex_to_bytes (v2_worker_pubkey rec))] @ evs)"
    and "ev_of ev = [] \<and> evs = [] \<or>
      ev_of ev \<noteq> [] \<and> (\<exists>e. evidenceArrayToCborValue P (ev_of ev) = Inr e \<and> evs = [cbor_norm e])"
proof -
  note bytes = hexBytes_ok [OF hex]
  have hw: "hardwareSpecFullToCbor P (v2_hardware_spec rec) = Inr h \<Longrightarrow> cbor_norm h = spec_norm (v2_hardware_spec rec)" for h
    using shaped bytes
    by (auto simp: hardwareSpecFullToCbor_def and_then_Inr_iff hex_shaped_def hardware_full_norm spec_norm_def
        simp del: cbor_norm.simps(6))
  show thesis
  proof (cases "ev_of ev = []")
    case True
    then have none: "(case ev of None \<Rightarrow> False | Some es \<Rightarrow> 0 < length es) = False"
      by (auto simp: ev_of_def split: option.splits)
    from enc obtain h where h: "hardwareSpecFullToCbor P (v2_hardware_spec rec) = Inr h"
      and e: "encodeCbor (CArray [CText SCHEMA_VERSION, CText (v2_worker_id rec), CText (v2_tenant_id rec),
         CInt (v2_period_start_ms rec), CInt (v2_period_end_ms rec), metricsToCbor (v2_metrics rec), h,
         CBytes (hex_to_bytes (v2_worker_pubkey rec))]) = Inr bs"
      using shaped bytes unfolding canonicalCborForWorkerSig_def none
      by (auto simp: and_then_Inr_iff Let_def hex_shaped_def simp del: encodeCbor.simps)
    show thesis
      by (rule that [OF e, of "[]"]) (use True hw [OF h] in simp_all)
  next
    case False
    then obtain es where ev: "ev = Some es" "es \<noteq> []" by (auto simp: ev_of_def split: option.splits)
    from enc obtain h e where h: "hardwareSpecFullToCbor P (v2_hardware_spec rec) = Inr h"
      and arr: "evidenceArrayToCborValue P es = Inr e"
      and e: "encodeCbor (CArray [CText SCHEMA_VERSION_V2_1, CText (v2_worker_id rec), CText (v2_tenant_id rec),
         CInt (v2_period_start_ms rec), CInt (v2_period_end_ms rec), metricsToCbor (v2_metrics rec), h,
         CBytes (hex_to_bytes (v2_worker_pubkey rec)), e]) = Inr bs"
      using shaped bytes ev unfolding canonicalCborForWorkerSig_def
      by (auto simp: and_then_Inr_iff Let_def hex_shaped_def simp del: encodeCbor.simps)
    show thesis
      by (rule that [OF e, of "[cbor_norm e]"]) (use False hw [OF h] arr ev in \<open>simp_all add: ev_of_def\<close>)
  qed
qed

text \<open>The body and the evidence a worker pre-image binds.\<close>

lemma same_metrics_norm:
  "cbor_norm (metricsToCbor m) = cbor_norm (metricsToCbor m') \<longleftrightarrow> same_metrics m m'"
  by (auto simp: metrics_norm same_metrics_def)

lemma spec_norm_eq:
  assumes "spec_norm hw = spec_norm hw'"
    and "re_lower_hex 64 (fleet_operator_pubkey hw)" "re_lower_hex 128 (fleet_operator_signature hw)"
    and "re_lower_hex 64 (fleet_operator_pubkey hw')" "re_lower_hex 128 (fleet_operator_signature hw')"
  shows "same_spec hw hw' \<and> fleet_operator_signature hw = fleet_operator_signature hw'"
  using assms hex64_bytes_inj [of 64] hex64_bytes_inj [of 128]
  by (auto simp: spec_norm_def same_spec_def)

lemma schema_versions_differ:
  "utf8_encode SCHEMA_VERSION_V2_1 \<noteq> utf8_encode SCHEMA_VERSION"
  "utf8_encode FLEET_OP_TAG \<noteq> utf8_encode SCHEMA_VERSION"
  "utf8_encode FLEET_OP_TAG \<noteq> utf8_encode SCHEMA_VERSION_V2_1"
  by (simp_all add: SCHEMA_VERSION_def SCHEMA_VERSION_V2_1_def FLEET_OP_TAG_def js_eval)

lemma worker_pre_image_binds:
  assumes hex: "hexToU8a_documented P" and "hex_shaped r" "hex_shaped r'"
    and "canonicalCborForWorkerSig P r ev = Inr bs" "canonicalCborForWorkerSig P r' ev' = Inr bs"
  shows "same_v2 r r'"
    and "list_all2 same_evidence (sortEvidenceByDiscriminant (ev_of ev)) (sortEvidenceByDiscriminant (ev_of ev'))"
proof -
  obtain v evs where v: "encodeCbor v = Inr bs"
    and vn: "cbor_norm v = NArray ([NText (utf8_encode (if ev_of ev \<noteq> [] then SCHEMA_VERSION_V2_1 else SCHEMA_VERSION)),
        NText (utf8_encode (v2_worker_id r)), NText (utf8_encode (v2_tenant_id r)),
        NInt (f64_int (v2_period_start_ms r)), NInt (f64_int (v2_period_end_ms r)),
        cbor_norm (metricsToCbor (v2_metrics r)), spec_norm (v2_hardware_spec r),
        NBytes (hex_to_bytes (v2_worker_pubkey r))] @ evs)"
    and ve: "ev_of ev = [] \<and> evs = [] \<or>
      ev_of ev \<noteq> [] \<and> (\<exists>e. evidenceArrayToCborValue P (ev_of ev) = Inr e \<and> evs = [cbor_norm e])"
    by (rule worker_pre_image_norm [OF hex assms(2,4)])
  obtain w fvs where w: "encodeCbor w = Inr bs"
    and wn: "cbor_norm w = NArray ([NText (utf8_encode (if ev_of ev' \<noteq> [] then SCHEMA_VERSION_V2_1 else SCHEMA_VERSION)),
        NText (utf8_encode (v2_worker_id r')), NText (utf8_encode (v2_tenant_id r')),
        NInt (f64_int (v2_period_start_ms r')), NInt (f64_int (v2_period_end_ms r')),
        cbor_norm (metricsToCbor (v2_metrics r')), spec_norm (v2_hardware_spec r'),
        NBytes (hex_to_bytes (v2_worker_pubkey r'))] @ fvs)"
    and we: "ev_of ev' = [] \<and> fvs = [] \<or>
      ev_of ev' \<noteq> [] \<and> (\<exists>e. evidenceArrayToCborValue P (ev_of ev') = Inr e \<and> fvs = [cbor_norm e])"
    by (rule worker_pre_image_norm [OF hex assms(3,5)])
  have eq: "cbor_norm v = cbor_norm w" using v w by (rule encodeCbor_inj)
  note parts = eq [unfolded vn wn cnorm.inject list.inject append_Cons append_Nil]
  have spec: "same_spec (v2_hardware_spec r) (v2_hardware_spec r')
      \<and> fleet_operator_signature (v2_hardware_spec r) = fleet_operator_signature (v2_hardware_spec r')"
    using parts assms(2,3) by (intro spec_norm_eq) (auto simp: hex_shaped_def)
  have pk: "v2_worker_pubkey r = v2_worker_pubkey r'"
    using parts assms(2,3) hex64_bytes_inj [of 64] by (auto simp: hex_shaped_def)
  show "same_v2 r r'"
    using parts spec pk by (simp add: same_v2_def same_metrics_norm)
  have "ev_of ev = [] \<longleftrightarrow> ev_of ev' = []"
    using parts schema_versions_differ(1) by (auto split: if_splits)
  then show "list_all2 same_evidence (sortEvidenceByDiscriminant (ev_of ev)) (sortEvidenceByDiscriminant (ev_of ev'))"
    using ve we parts evidence_array_norm [OF hex, of "ev_of ev" _ "ev_of ev'"]
    by (auto simp: sortEvidenceByDiscriminant_def)
qed

lemma fleet_pre_image_head:
  assumes "canonicalCborForFleetOpSig P w hw = Inr bs"
  obtains v x y z where "encodeCbor v = Inr bs" and "cbor_norm v = NArray [NText (utf8_encode FLEET_OP_TAG), x, y, z]"
  using assms unfolding canonicalCborForFleetOpSig_def
  by (auto simp: and_then_Inr_iff simp del: encodeCbor.simps)

lemma worker_pre_image_head:
  assumes "canonicalCborForWorkerSig P rec ev = Inr bs"
  obtains v t xs where "encodeCbor v = Inr bs" and "cbor_norm v = NArray (NText (utf8_encode t) # xs)"
    and "t = SCHEMA_VERSION \<or> t = SCHEMA_VERSION_V2_1"
  using assms unfolding canonicalCborForWorkerSig_def
  by (auto simp: and_then_Inr_iff Let_def simp del: encodeCbor.simps split: if_splits)

lemma pre_images_differ:
  assumes "canonicalCborForFleetOpSig P w hw = Inr a" and "canonicalCborForWorkerSig P rec ev = Inr b"
  shows "a @ r \<noteq> b @ s"
proof
  assume eq: "a @ r = b @ s"
  obtain v x y z where v: "encodeCbor v = Inr a"
    and vn: "cbor_norm v = NArray [NText (utf8_encode FLEET_OP_TAG), x, y, z]"
    using assms(1) by (rule fleet_pre_image_head)
  obtain u t xs where u: "encodeCbor u = Inr b" and un: "cbor_norm u = NArray (NText (utf8_encode t) # xs)"
    and t: "t = SCHEMA_VERSION \<or> t = SCHEMA_VERSION_V2_1"
    using assms(2) by (rule worker_pre_image_head)
  have "cbor_norm v = cbor_norm u" by (rule encodeCbor_prefix_free(1) [OF v u eq])
  then show False using vn un t schema_versions_differ by auto
qed

section \<open>When the validator raises\<close>

definition no_raise :: "validate_err + 'a \<Rightarrow> bool" where
  "no_raise r \<longleftrightarrow> (\<forall>e. r \<noteq> Inl (Raised e))"

named_theorems no_raises \<open>checks that never raise\<close>

lemma no_raise_Inr [no_raises]: "no_raise (Inr a)"
  by (simp add: no_raise_def)

lemma no_raise_refuse [no_raises]: "no_raise (refuse c f)"
  by (simp add: no_raise_def refuse_def)

lemma no_raise_then [no_raises]:
  "no_raise r \<Longrightarrow> (\<And>a. no_raise (f a)) \<Longrightarrow> no_raise (and_then r f)"
  by (auto simp: no_raise_def and_then_Inl_iff)

lemma no_raise_map [no_raises]: "(\<And>x. no_raise (f x)) \<Longrightarrow> no_raise (map_result f xs)"
proof (induction xs)
  case (Cons x xs)
  then show ?case by (auto intro!: no_raises)
qed (simp add: no_raise_def)

lemma no_raise_checks [no_raises]:
  "no_raise (guard ok c f)" "no_raise (require r k f)" "no_raise (want_string f v)"
  "no_raise (want_integer f v)" "no_raise (want_object f v)"
  unfolding guard_def require_def want_string_def want_integer_def want_object_def
  by (auto simp: no_raise_def refuse_def split: option.splits)

lemma no_raise_fields [no_raises]:
  "no_raise (hex_field r k n f)" "no_raise (bounded_field r k lo hi f)" "no_raise (validate_metric r s)"
  "no_raise (check_id re k r)" "no_raise (check_schema_version r)" "no_raise (check_period_at sf ef t l r)"
  "no_raise (check_period t l r)"
  "no_raise (check_bounds hw m t l)"
  unfolding hex_field_def bounded_field_def validate_metric_def check_id_def check_schema_version_def
    check_period_def check_period_at_def check_bounds_def Let_def
  by (auto intro!: no_raises split: option.splits)

lemma no_raise_objects [no_raises]:
  "no_raise (validateMetrics v)" "no_raise (validateHardwareSpec v)" "no_raise (validateObserver v)"
  unfolding validateMetrics_def validateHardwareSpec_def validateObserver_def Let_def
  by (intro no_raises)+

lemma no_raise_observer [no_raises]: "no_raise (check_observer r)"
  unfolding check_observer_def by (auto intro!: no_raises split: option.splits json.splits)

lemma no_raise_parse: "no_raise (parse_v2 n l raw)"
proof (cases raw)
  case (JObj r)
  then show ?thesis unfolding parse_v2_def by (simp only: as_object.simps option.case) (intro no_raises)
qed (simp_all add: parse_v2_def no_raise_def)

lemma no_raise_signatures: "no_raise (check_signatures P a b rec)"
  unfolding check_signatures_def Let_def by (auto intro!: no_raises split: option.splits)

text \<open>Encoding the fields of a record that follows the rules.\<close>

lemma encode_small_int:
  assumes "f64_to_int x = Some i" and "\<bar>i\<bar> \<le> js_safe_int"
  shows "encodable_int x"
  using assms by (auto simp: encodable_int_def)

lemma encode_large_int:
  assumes "f64_to_int x = Some i" and "js_safe_int < i"
  shows "encodeInt x = Inl EncodeUintUnsafe"
  using assms by (auto simp: encodeInt_def encodeUint_def js_safe_int_def)

lemma rules_ints:
  assumes "v2_rules now last_start rec" and "now \<le> 2 ^ 52"
  shows "encodable_int (v2_period_start_ms rec)" "encodable_int (v2_period_end_ms rec)"
    "encodable_int (cpu_cores (v2_hardware_spec rec))" "encodable_int (ram_gb (v2_hardware_spec rec))"
    "encodable_int (gpu_count (v2_hardware_spec rec))"
    "encodable (metricsToCbor (v2_metrics rec))"
proof -
  obtain a b where ab: "f64_to_int (v2_period_start_ms rec) = Some a" "f64_to_int (v2_period_end_ms rec) = Some b"
    "0 < a" "a < b" "b \<le> now + 60000"
    using assms(1) by (auto simp: v2_rules_def period_ok_def)
  with assms(2) have "\<bar>a\<bar> \<le> js_safe_int" "\<bar>b\<bar> \<le> js_safe_int" by (auto simp: js_safe_int_def)
  then show "encodable_int (v2_period_start_ms rec)" "encodable_int (v2_period_end_ms rec)"
    using ab by (auto intro: encode_small_int)
  obtain c d e where "f64_to_int (cpu_cores (v2_hardware_spec rec)) = Some c" "1 \<le> c" "c \<le> 1024"
    "f64_to_int (ram_gb (v2_hardware_spec rec)) = Some d" "1 \<le> d" "d \<le> 16384"
    "f64_to_int (gpu_count (v2_hardware_spec rec)) = Some e" "0 \<le> e" "e \<le> 16"
    using assms(1) by (auto simp: v2_rules_def hardware_ok_def int_between_iff)
  then show "encodable_int (cpu_cores (v2_hardware_spec rec))" "encodable_int (ram_gb (v2_hardware_spec rec))"
    "encodable_int (gpu_count (v2_hardware_spec rec))"
    by (auto intro!: encode_small_int simp: js_safe_int_def)
  have m: "metrics_ok (v2_metrics rec)" using assms(1) by (simp add: v2_rules_def)
  have nonneg: "0 \<le> i" if "f64_to_int x = Some i" "0 \<le> f64_val x" for x i
    using f64_to_int_SomeD(2) [OF that(1)] that(2) by simp
  show "encodable (metricsToCbor (v2_metrics rec))"
    using m nonneg unfolding metrics_ok_def metric_ok_iff
    by (auto simp: metricsToCbor_def js_safe_int_def norm_eval intro!: encode_small_int)
qed

lemma gpu_type_short: "t \<in> set GPU_TYPES \<Longrightarrow> length t \<le> 11"
  by (auto simp: GPU_TYPES_def)

lemma rules_texts:
  assumes "v2_rules now last_start rec"
  shows "encodable (CText (v2_worker_id rec))" "encodable (CText (v2_tenant_id rec))"
    "encodable (CText (gpu_type (v2_hardware_spec rec)))"
proof -
  have "length (v2_worker_id rec) \<le> 128" "length (v2_tenant_id rec) \<le> 64"
    using assms by (simp_all add: v2_rules_def WORKER_ID_REGEX_def ID_REGEX_def)
  moreover have "length (gpu_type (v2_hardware_spec rec)) \<le> 11"
    using assms by (intro gpu_type_short) (simp add: v2_rules_def hardware_ok_def)
  ultimately show "encodable (CText (v2_worker_id rec))" "encodable (CText (v2_tenant_id rec))"
    "encodable (CText (gpu_type (v2_hardware_spec rec)))"
    using length_utf8_encode [of "v2_worker_id rec"] length_utf8_encode [of "v2_tenant_id rec"]
      length_utf8_encode [of "gpu_type (v2_hardware_spec rec)"]
    by (auto simp: js_safe_int_def)
qed

lemma length_hex_bytes: "re_lower_hex n s \<Longrightarrow> even n \<Longrightarrow> length (hex_to_bytes s) = n div 2"
  using length_hex_to_bytes [of s] by (simp add: re_lower_hex_def)

lemma tag_encodable:
  "encodable (CText FLEET_OP_TAG)" "encodable (CText SCHEMA_VERSION)" "encodable (CText SCHEMA_VERSION_V2_1)"
  using length_utf8_encode [of FLEET_OP_TAG] length_utf8_encode [of SCHEMA_VERSION]
    length_utf8_encode [of SCHEMA_VERSION_V2_1]
  by (auto simp: FLEET_OP_TAG_def SCHEMA_VERSION_def SCHEMA_VERSION_V2_1_def js_safe_int_def)

lemma spec_keys_short:
  "length (utf8_encode (js ''cpu_cores'')) \<le> 30" "length (utf8_encode (js ''fleet_operator_pubkey'')) \<le> 30"
  "length (utf8_encode (js ''fleet_operator_signature'')) \<le> 30" "length (utf8_encode (js ''gpu_count'')) \<le> 30"
  "length (utf8_encode (js ''gpu_type'')) \<le> 30" "length (utf8_encode (js ''issued_ms'')) \<le> 30"
  "length (utf8_encode (js ''ram_gb'')) \<le> 30"
  by (simp_all add: js_eval)

lemma short_safe: "length b \<le> 30 \<Longrightarrow> int (length b) \<le> js_safe_int"
  by (simp add: js_safe_int_def)

lemma rules_hex:
  assumes "v2_rules now last_start rec"
  shows "hex_shaped rec"
  using assms by (simp add: v2_rules_def hardware_ok_def hex_shaped_def)

lemma rules_spec_encodable:
  assumes doc: "hexToU8a_documented P" and rules: "v2_rules now last_start rec" and now: "now \<le> 2 ^ 52"
    and issued: "encodable_int (issued_ms (v2_hardware_spec rec))"
  shows "\<exists>v. hardwareSpecNoSigToCbor P (v2_hardware_spec rec) = Inr v \<and> encodable v"
    and "\<exists>v. hardwareSpecFullToCbor P (v2_hardware_spec rec) = Inr v \<and> encodable v"
proof -
  note hex = rules_hex [OF rules, unfolded hex_shaped_def]
  note bytes = hexBytes_ok [OF doc, of 64 "fleet_operator_pubkey (v2_hardware_spec rec)"]
    hexBytes_ok [OF doc, of 128 "fleet_operator_signature (v2_hardware_spec rec)"]
  have len: "int (length (hex_to_bytes (fleet_operator_pubkey (v2_hardware_spec rec)))) \<le> js_safe_int"
    "int (length (hex_to_bytes (fleet_operator_signature (v2_hardware_spec rec)))) \<le> js_safe_int"
    using length_hex_bytes [of 64 "fleet_operator_pubkey (v2_hardware_spec rec)"]
      length_hex_bytes [of 128 "fleet_operator_signature (v2_hardware_spec rec)"] hex
    by (simp_all add: js_safe_int_def)
  note keys = spec_keys_short [THEN short_safe]
  have few: "int 6 \<le> js_safe_int" "int 7 \<le> js_safe_int" by (simp_all add: js_safe_int_def)
  show "\<exists>v. hardwareSpecNoSigToCbor P (v2_hardware_spec rec) = Inr v \<and> encodable v"
    and "\<exists>v. hardwareSpecFullToCbor P (v2_hardware_spec rec) = Inr v \<and> encodable v"
    using hex bytes len keys few issued rules_ints [OF rules now] rules_texts [OF rules]
    by (simp_all add: hardwareSpecNoSigToCbor_def hardwareSpecFullToCbor_def)
qed

lemma pre_images_encode:
  assumes doc: "hexToU8a_documented P" and rules: "v2_rules now last_start rec" and now: "now \<le> 2 ^ 52"
    and issued: "f64_to_int (issued_ms (v2_hardware_spec rec)) = Some i" "i \<le> js_safe_int"
  shows "\<exists>a. canonicalCborForFleetOpSig P (v2_worker_id rec) (v2_hardware_spec rec) = Inr a"
    and "\<exists>b. canonicalCborForWorkerSig P rec None = Inr b"
proof -
  have "0 < i"
    using rules f64_le_ints [OF issued(1) num_to_int [of 0]]
    by (simp add: v2_rules_def hardware_ok_def)
  then have im: "encodable_int (issued_ms (v2_hardware_spec rec))"
    using issued by (intro encode_small_int) auto
  note specs = rules_spec_encodable [OF doc rules now im]
  note ints = rules_ints [OF rules now] and texts = rules_texts [OF rules]
  note hex = rules_hex [OF rules, unfolded hex_shaped_def]
  have pk: "hexBytes P (v2_worker_pubkey rec) = Inr (hex_to_bytes (v2_worker_pubkey rec))"
    "int (length (hex_to_bytes (v2_worker_pubkey rec))) \<le> js_safe_int"
    using hexBytes_ok [OF doc, of 64] length_hex_bytes [of 64] hex by (auto simp: js_safe_int_def)
  have few: "int 4 \<le> js_safe_int" "int 8 \<le> js_safe_int" by (simp_all add: js_safe_int_def)
  obtain v where v: "hardwareSpecNoSigToCbor P (v2_hardware_spec rec) = Inr v" "encodable v"
    using specs(1) by blast
  have "encodable (CArray [CText FLEET_OP_TAG, CText (v2_worker_id rec), v, CInt (issued_ms (v2_hardware_spec rec))])"
    using v few texts tag_encodable im by simp
  then show "\<exists>a. canonicalCborForFleetOpSig P (v2_worker_id rec) (v2_hardware_spec rec) = Inr a"
    unfolding canonicalCborForFleetOpSig_def v and_then.simps using encodeCbor_ok by blast
  obtain w where w: "hardwareSpecFullToCbor P (v2_hardware_spec rec) = Inr w" "encodable w"
    using specs(2) by blast
  have "encodable (CArray [CText SCHEMA_VERSION, CText (v2_worker_id rec), CText (v2_tenant_id rec),
      CInt (v2_period_start_ms rec), CInt (v2_period_end_ms rec), metricsToCbor (v2_metrics rec), w,
      CBytes (hex_to_bytes (v2_worker_pubkey rec))])"
    using w few texts tag_encodable ints pk by simp
  then show "\<exists>b. canonicalCborForWorkerSig P rec None = Inr b"
    using encodeCbor_ok by (simp add: canonicalCborForWorkerSig_def w pk Let_def del: encodeCbor.simps encodable.simps)
qed

lemma encodeCbor_Inr: "encodable v \<Longrightarrow> \<exists>bs. encodeCbor v = Inr bs"
  using encodeCbor_ok by blast

lemma fleet_pre_image_raises:
  assumes doc: "hexToU8a_documented P" and rules: "v2_rules now last_start rec" and now: "now \<le> 2 ^ 52"
    and issued: "f64_to_int (issued_ms (v2_hardware_spec rec)) = Some i" "js_safe_int < i"
  shows "canonicalCborForFleetOpSig P (v2_worker_id rec) (v2_hardware_spec rec) = Inl EncodeUintUnsafe"
proof -
  let ?hw = "v2_hardware_spec rec"
  note hex = rules_hex [OF rules, unfolded hex_shaped_def]
  have pk: "hexBytes P (fleet_operator_pubkey ?hw) = Inr (hex_to_bytes (fleet_operator_pubkey ?hw))"
    using hexBytes_ok [OF doc, of 64] hex by auto
  have len: "encodable (CBytes (hex_to_bytes (fleet_operator_pubkey ?hw)))"
    using length_hex_bytes [of 64 "fleet_operator_pubkey ?hw"] hex by (simp add: js_safe_int_def)
  have texts: "\<exists>h. encodeText s = Inr h" if "encodable (CText s)" for s
    using that encodeText_ok by simp
  have key: "encodable (CText (js k))" if "length (utf8_encode (js k)) \<le> 30" for k
    using short_safe [OF that] by simp
  obtain a b c d e f g h k l where
    "encodeText FLEET_OP_TAG = Inr a" "encodeText (v2_worker_id rec) = Inr b"
    "encodeText (js ''cpu_cores'') = Inr c" "encodeText (js ''fleet_operator_pubkey'') = Inr d"
    "encodeText (js ''gpu_count'') = Inr e" "encodeText (js ''gpu_type'') = Inr f"
    "encodeText (js ''issued_ms'') = Inr g" "encodeInt (cpu_cores ?hw) = Inr h"
    "encodeInt (gpu_count ?hw) = Inr k" "encodeText (gpu_type ?hw) = Inr l"
    using texts [OF tag_encodable(1)] texts [OF rules_texts(1) [OF rules]]
      texts [OF rules_texts(3) [OF rules]] spec_keys_short [THEN key, THEN texts]
      rules_ints(3,5) [OF rules now] unfolding encodeInt_ok [symmetric] by blast
  moreover obtain m where "encodeBytes (hex_to_bytes (fleet_operator_pubkey ?hw)) = Inr m"
    using encodeCbor_Inr [OF len] by auto
  moreover obtain n where "encodeUint 4 4 = Inr n" using encodeUint_okI [of 4 4] by (auto simp: js_safe_int_def)
  ultimately show ?thesis
    using encode_large_int [OF issued]
    by (simp add: canonicalCborForFleetOpSig_def hardwareSpecNoSigToCbor_def pk)
qed

section \<open>Properties\<close>

text \<open>The schema's rules on the numbers themselves.\<close>

definition metrics_spec :: "metrics_v2 \<Rightarrow> bool" where
  "metrics_spec m \<longleftrightarrow>
     (\<forall>x \<in> {cpu_seconds m, ram_gb_hours m, disk_gb_hours m, net_bytes_in m, net_bytes_out m, gpu_seconds m}.
        f64_finite x \<and> 0 \<le> f64_val x)
     \<and> (\<forall>x \<in> {net_bytes_in m, net_bytes_out m}. \<exists>i. f64_to_int x = Some i \<and> i \<le> js_safe_int)"

definition cap_slack :: rat where "cap_slack = 1 + 1 / 2 ^ 50"

text \<open>
  Reported usage is at most the declared hardware times the period times 1.05, up to the
  rounding of four operations, and no GPU time is reported without a GPU.
\<close>

definition caps_spec :: "hardware_spec_v2 \<Rightarrow> metrics_v2 \<Rightarrow> int \<Rightarrow> bool" where
  "caps_spec hw m ms \<longleftrightarrow>
     f64_val (cpu_seconds m) \<le> of_int (f64_int (cpu_cores hw)) * (of_int ms / 1000) * (21 / 20) * cap_slack
     \<and> f64_val (ram_gb_hours m) \<le> of_int (f64_int (ram_gb hw)) * (of_int ms / 3600000) * (21 / 20) * cap_slack
     \<and> (gpu_type hw = js ''none'' \<or> f64_int (gpu_count hw) = 0 \<longrightarrow> f64_val (gpu_seconds m) = 0)"

definition hardware_spec_ok :: "hardware_spec_v2 \<Rightarrow> bool" where
  "hardware_spec_ok hw \<longleftrightarrow>
     (\<exists>i. f64_to_int (cpu_cores hw) = Some i \<and> 1 \<le> i \<and> i \<le> 1024)
     \<and> (\<exists>i. f64_to_int (ram_gb hw) = Some i \<and> 1 \<le> i \<and> i \<le> 16384)
     \<and> (\<exists>i. f64_to_int (gpu_count hw) = Some i \<and> 0 \<le> i \<and> i \<le> 16)
     \<and> gpu_type hw \<in> set GPU_TYPES
     \<and> (\<exists>i. f64_to_int (issued_ms hw) = Some i \<and> 0 < i \<and> i \<le> js_safe_int)"

definition v2_spec :: "int \<Rightarrow> int \<Rightarrow> metering_v2 \<Rightarrow> bool" where
  "v2_spec now last_start rec \<longleftrightarrow>
     WORKER_ID_REGEX (v2_worker_id rec) \<and> ID_REGEX (v2_tenant_id rec)
     \<and> period_ok now last_start (v2_period_start_ms rec) (v2_period_end_ms rec)
     \<and> metrics_spec (v2_metrics rec) \<and> hardware_spec_ok (v2_hardware_spec rec)
     \<and> caps_spec (v2_hardware_spec rec) (v2_metrics rec)
         (f64_int (v2_period_end_ms rec) - f64_int (v2_period_start_ms rec))"

lemma validate_v2_Inr:
  assumes "f64_to_int nowMs = Some now" "0 \<le> now" "now \<le> 2 ^ 52" "f64_to_int lastMs = Some last_start"
  shows "validateComputeMeteringV2 P nowMs lastMs verify raw = Inr ok \<longleftrightarrow>
    (\<exists>r. raw = JObj r \<and> v2_wire r (ok_record ok)) \<and> v2_rules now last_start (ok_record ok)
    \<and> canonicalCborForFleetOpSig P (v2_worker_id (ok_record ok)) (v2_hardware_spec (ok_record ok))
        = Inr (ok_fleet_op_pre_image ok)
    \<and> canonicalCborForWorkerSig P (ok_record ok) None = Inr (ok_worker_pre_image ok)
    \<and> (verify \<longrightarrow> check_signatures P (ok_fleet_op_pre_image ok) (ok_worker_pre_image ok) (ok_record ok) = Inr ())
    \<and> ok_content_hash ok = sha256_hex (ok_worker_pre_image ok) \<and> ok_schema_hash ok = SCHEMA_HASH_HEX"
proof -
  have lift: "lift_raise r = Inr a \<longleftrightarrow> r = Inr a" for r :: "type_error + 'a" and a
    by (cases r) (auto simp: lift_raise_def)
  have "(if verify then check_signatures P a b rec else Inr ()) = Inr u
      \<longleftrightarrow> (verify \<longrightarrow> check_signatures P a b rec = Inr ())" for a b rec u
    by simp
  note simps = and_then_Inr_iff lift this parse_v2_Inr [OF assms]
  show ?thesis
    unfolding validateComputeMeteringV2_def simps
    by (cases ok) auto
qed

lemma cap_bound:
  assumes cap: "f64_to_int cap = Some c" "1 \<le> c" "c \<le> 16384"
    and ab: "f64_to_int s = Some a" "f64_to_int e = Some b" "a < b" "b - a \<le> 86400000"
    and k: "1000 \<le> k" "k \<le> 3600000"
    and x: "f64_finite x" "\<not> f64_lt (cap_of cap (f64_sub e s) k) x"
  shows "f64_val x \<le> of_int c * (of_int (b - a) / of_int k) * (21 / 20) * cap_slack"
proof -
  have d: "f64_to_int (f64_sub e s) = Some (b - a)"
    using ab by (intro f64_sub_exact) auto
  have d': "1 \<le> b - a" "b - a \<le> 86400000" using ab by auto
  note close = cap_of_close [OF cap d d' k]
  have "f64_val x \<le> f64_val (cap_of cap (f64_sub e s) k)"
    using x close(1) by (simp add: f64_lt_val)
  also note close(2)
  finally show ?thesis by (simp only: cap_slack_def)
qed

lemma rules_spec:
  assumes rules: "v2_rules now last_start rec"
    and issued: "f64_int (issued_ms (v2_hardware_spec rec)) \<le> js_safe_int"
  shows "v2_spec now last_start rec"
proof -
  let ?hw = "v2_hardware_spec rec" and ?m = "v2_metrics rec"
  let ?s = "v2_period_start_ms rec" and ?e = "v2_period_end_ms rec"
  obtain a b where ab: "f64_to_int ?s = Some a" "f64_to_int ?e = Some b" "a < b" "b - a \<le> 86400000"
    using rules by (auto simp: v2_rules_def period_ok_def)
  have hw: "hardware_ok ?hw" and m: "metrics_ok ?m"
    and bounds: "check_bounds ?hw ?m ?s ?e = Inr ()"
    using rules by (simp_all add: v2_rules_def)
  obtain c where c: "f64_to_int (cpu_cores ?hw) = Some c" "1 \<le> c" "c \<le> 1024"
    using hw by (auto simp: hardware_ok_def int_between_iff)
  obtain r where r: "f64_to_int (ram_gb ?hw) = Some r" "1 \<le> r" "r \<le> 16384"
    using hw by (auto simp: hardware_ok_def int_between_iff)
  obtain g where g: "f64_to_int (gpu_count ?hw) = Some g" "0 \<le> g" "g \<le> 16"
    using hw by (auto simp: hardware_ok_def int_between_iff)
  obtain i where i: "f64_to_int (issued_ms ?hw) = Some i"
    using hw by (auto simp: hardware_ok_def elim: f64_int_cases)
  then have "0 < i" using hw f64_le_ints [OF i num_to_int [of 0]] by (simp add: hardware_ok_def)
  then have "hardware_spec_ok ?hw"
    using hw c r g i issued by (simp add: hardware_spec_ok_def hardware_ok_def)
  moreover have "metrics_spec ?m"
    using m by (auto simp: metrics_ok_def metric_ok_iff metrics_spec_def)
  moreover have "caps_spec ?hw ?m (f64_int ?e - f64_int ?s)"
  proof -
    have fin: "f64_finite (cpu_seconds ?m)" "f64_finite (ram_gb_hours ?m)" "f64_finite (gpu_seconds ?m)"
      using m by (auto simp: metrics_ok_def metric_ok_iff)
    have caps: "\<not> f64_lt (cap_of (cpu_cores ?hw) (f64_sub ?e ?s) 1000) (cpu_seconds ?m)"
      "\<not> f64_lt (cap_of (ram_gb ?hw) (f64_sub ?e ?s) 3600000) (ram_gb_hours ?m)"
      "gpu_type ?hw = js ''none'' \<or> f64_eq (gpu_count ?hw) (num 0) \<Longrightarrow> f64_eq (gpu_seconds ?m) (num 0)"
      using bounds by (auto simp: check_bounds_def and_then_Inr_iff check_iffs cap_of_def cpuCap_def ramCap_def)
    have "f64_eq (gpu_count ?hw) (num 0) \<longleftrightarrow> g = 0" by (rule f64_eq_ints [OF g(1) num_to_int]) simp
    moreover have "f64_eq (gpu_seconds ?m) (num 0) \<longleftrightarrow> f64_val (gpu_seconds ?m) = 0"
      using fin(3) num_finite [of 0] by (simp add: f64_eq_val)
    ultimately show ?thesis
      using cap_bound [OF c(1,2) _ ab _ _ fin(1) caps(1)] cap_bound [OF r(1,2) _ ab _ _ fin(2) caps(2)]
        c r g ab caps(3)
      by (simp add: caps_spec_def)
  qed
  ultimately show ?thesis using rules by (simp add: v2_spec_def v2_rules_def)
qed

text \<open>A record and clock on which every hypothesis below holds.\<close>

definition sample_key :: jsstring where "sample_key = replicate 64 0x61"

definition sample_sig :: jsstring where "sample_sig = sample_key @ sample_key"

definition sample_v2 :: metering_v2 where
  "sample_v2 =
     \<lparr>v2_worker_id = js ''pod_7.rack'', v2_tenant_id = js ''acme'',
      v2_period_start_ms = num 1000000, v2_period_end_ms = num 4600000,
      v2_metrics = \<lparr>cpu_seconds = num 7000, ram_gb_hours = num 8, disk_gb_hours = num 1,
                    net_bytes_in = num 12, net_bytes_out = num 34, gpu_seconds = num 0\<rparr>,
      v2_hardware_spec = \<lparr>cpu_cores = num 2, ram_gb = num 16, gpu_type = js ''none'', gpu_count = num 0,
                    fleet_operator_pubkey = sample_key, fleet_operator_signature = sample_sig,
                    issued_ms = num 900000\<rparr>,
      v2_worker_pubkey = sample_key, v2_worker_signature = sample_sig,
      v2_observer = Some \<lparr>observer_pubkey = sample_key, observer_signature = sample_sig\<rparr>\<rparr>"

lemma sample_hex: "re_lower_hex 64 sample_key" "re_lower_hex 128 sample_sig"
proof -
  show "re_lower_hex 64 sample_key"
    unfolding sample_key_def by (rule re_lower_hex_replicate) (simp add: char_class_defs)
  then show "re_lower_hex 128 sample_sig" by (simp add: sample_sig_def re_lower_hex_def)
qed

lemma sample_bounds:
  "check_bounds (v2_hardware_spec sample_v2) (v2_metrics sample_v2) (num 1000000) (num 4600000) = Inr ()"
proof -
  have "cpuCap (v2_hardware_spec sample_v2) (num 1000000) (num 4600000) = F64 0x40BD880000000000"
    by (simp add: cpuCap_def sample_v2_def num_def JITTER_FACTOR_def f64_eval)
  moreover have "ramCap (v2_hardware_spec sample_v2) (num 1000000) (num 4600000) = F64 0x4030CCCCCCCCCCCD"
    by (simp add: ramCap_def sample_v2_def num_def JITTER_FACTOR_def f64_eval)
  moreover have "\<not> f64_lt (F64 0x40BD880000000000) (num 7000)" "\<not> f64_lt (F64 0x4030CCCCCCCCCCCD) (num 8)"
    "f64_eq (num 0) (num 0)"
    by (simp_all add: num_def f64_eval)
  ultimately show ?thesis by (simp add: check_bounds_def sample_v2_def guard_def)
qed

lemma sample_rules: "v2_rules 5000000 500000 sample_v2"
proof -
  note ints = num_to_int
  have "metrics_ok (v2_metrics sample_v2)"
    using num_finite by (auto simp: metrics_ok_def metric_ok_iff sample_v2_def ints js_safe_int_def)
  moreover have "hardware_ok (v2_hardware_spec sample_v2)"
    using f64_le_ints [OF ints [of 900000] ints [of 0]]
    by (auto simp: hardware_ok_def int_between_iff sample_v2_def sample_hex ints GPU_TYPES_def
        f64_is_integer_def)
  moreover have "WORKER_ID_REGEX (v2_worker_id sample_v2)" "ID_REGEX (v2_tenant_id sample_v2)"
    by (simp_all add: sample_v2_def WORKER_ID_REGEX_def ID_REGEX_def js_eval)
  ultimately show ?thesis
    using sample_bounds
    by (simp add: v2_rules_def sample_v2_def period_ok_def ints sample_hex observer_ok_def)
qed

lemma sample_verifies: "verifySr25519 polkadot_sample m sample_sig sample_key"
proof -
  have "bytes_to_hex (hex_to_bytes sample_sig) = sample_sig" "bytes_to_hex (hex_to_bytes sample_key) = sample_key"
    using sample_hex hex_bytes_round by (auto simp: re_lower_hex_def)
  then show ?thesis
    by (simp add: verifySr25519_def polkadot_sample_def js_eval sample_sig_def)
qed

lemma sample_signed: "check_signatures polkadot_sample a b sample_v2 = Inr ()"
  using sample_verifies by (simp add: check_signatures_def guard_def sample_v2_def)

text \<open>C11: Every record the validator accepts follows the schema: identifiers, an integral period
  of at most 24 hours that ends at most a minute ahead of the clock and starts no earlier than
  the worker's last one, finite metrics from zero upwards, hardware within its bounds, and
  reported CPU and RAM usage within the hardware's capacity for the period.\<close>

theorem v2_accept_sound:
  assumes "validateComputeMeteringV2 P nowMs lastMs verify raw = Inr ok"
    and "f64_to_int nowMs = Some now" and "0 \<le> now" and "now \<le> 2 ^ 52"
    and "f64_to_int lastMs = Some last_start" and "hexToU8a_documented P"
  shows "(\<exists>r. raw = JObj r \<and> v2_wire r (ok_record ok)) \<and> v2_spec now last_start (ok_record ok)"
proof -
  note iff = validate_v2_Inr [OF assms(2-5), of P verify raw ok]
  have rules: "v2_rules now last_start (ok_record ok)" using assms(1) iff by blast
  obtain i where i: "f64_to_int (issued_ms (v2_hardware_spec (ok_record ok))) = Some i"
    using rules by (auto simp: v2_rules_def hardware_ok_def elim: f64_int_cases)
  have "\<not> js_safe_int < i"
    using fleet_pre_image_raises [OF assms(6) rules assms(4) i] assms(1) iff by auto
  then have "v2_spec now last_start (ok_record ok)"
    using rules i by (intro rules_spec) auto
  then show ?thesis using assms(1) iff by blast
qed

text \<open>C35: A record that follows the rules, written as JSON with signatures that verify over the
  two pre-images, is accepted, and the record returned is the record sent.\<close>

theorem v2_accept_complete:
  assumes "v2_rules now last_start rec" and "f64_int (issued_ms (v2_hardware_spec rec)) \<le> js_safe_int"
    and "f64_to_int nowMs = Some now" and "0 \<le> now" and "now \<le> 2 ^ 52"
    and "f64_to_int lastMs = Some last_start" and "hexToU8a_documented P"
    and "\<And>a b. canonicalCborForFleetOpSig P (v2_worker_id rec) (v2_hardware_spec rec) = Inr a \<Longrightarrow>
           canonicalCborForWorkerSig P rec None = Inr b \<Longrightarrow> check_signatures P a b rec = Inr ()"
  shows "\<exists>ok. validateComputeMeteringV2 P nowMs lastMs True (json_of_v2 rec) = Inr ok \<and> ok_record ok = rec"
proof -
  obtain i where i: "f64_to_int (issued_ms (v2_hardware_spec rec)) = Some i"
    using assms(1) by (auto simp: v2_rules_def hardware_ok_def elim: f64_int_cases)
  then have "i \<le> js_safe_int" using assms(2) by simp
  from pre_images_encode [OF assms(7,1,5) i this] obtain a b
    where a: "canonicalCborForFleetOpSig P (v2_worker_id rec) (v2_hardware_spec rec) = Inr a"
    and b: "canonicalCborForWorkerSig P rec None = Inr b" by blast
  let ?ok = "\<lparr>ok_record = rec, ok_content_hash = sha256_hex b, ok_schema_hash = SCHEMA_HASH_HEX,
      ok_worker_pre_image = b, ok_fleet_op_pre_image = a\<rparr>"
  have "validateComputeMeteringV2 P nowMs lastMs True (json_of_v2 rec) = Inr ?ok"
    unfolding validate_v2_Inr [OF assms(3-6)]
    using json_of_v2_wire [of rec] assms(1,8) a b by simp
  then show ?thesis by (intro exI [of _ ?ok]) simp
qed

lemma sample_ints:
  "f64_to_int (num 5000000) = Some 5000000" "f64_to_int (num 500000) = Some 500000"
  "f64_int (issued_ms (v2_hardware_spec sample_v2)) \<le> js_safe_int"
  using num_to_int [of 5000000] num_to_int [of 500000] num_to_int [of 900000]
  by (simp_all add: sample_v2_def js_safe_int_def)

theorem v2_accept_complete_witness:
  "\<exists>ok. validateComputeMeteringV2 polkadot_sample (num 5000000) (num 500000) True (json_of_v2 sample_v2) = Inr ok
     \<and> ok_record ok = sample_v2"
  by (rule v2_accept_complete [OF sample_rules sample_ints(3) sample_ints(1) _ _ sample_ints(2)
        polkadot_sample_hex sample_signed]) simp_all

lemma sample_accepted:
  "\<exists>ok. validateComputeMeteringV2 polkadot_sample (num 5000000) (num 500000) True (json_of_v2 sample_v2) = Inr ok"
proof -
  have i: "f64_to_int (issued_ms (v2_hardware_spec sample_v2)) = Some 900000" "900000 \<le> js_safe_int"
    using num_to_int [of 900000] by (simp_all add: sample_v2_def js_safe_int_def)
  from pre_images_encode [OF polkadot_sample_hex sample_rules _ i] obtain a b
    where a: "canonicalCborForFleetOpSig polkadot_sample (v2_worker_id sample_v2) (v2_hardware_spec sample_v2) = Inr a"
    and b: "canonicalCborForWorkerSig polkadot_sample sample_v2 None = Inr b" by auto
  let ?ok = "\<lparr>ok_record = sample_v2, ok_content_hash = sha256_hex b, ok_schema_hash = SCHEMA_HASH_HEX,
      ok_worker_pre_image = b, ok_fleet_op_pre_image = a\<rparr>"
  have "validateComputeMeteringV2 polkadot_sample (num 5000000) (num 500000) True (json_of_v2 sample_v2) = Inr ?ok"
    using validate_v2_Inr [OF sample_ints(1) _ _ sample_ints(2), of polkadot_sample True "json_of_v2 sample_v2" ?ok]
      json_of_v2_wire [of sample_v2] sample_rules a b sample_signed by simp
  then show ?thesis by blast
qed

theorem v2_accept_sound_witness:
  "\<exists>ok. validateComputeMeteringV2 polkadot_sample (num 5000000) (num 500000) True (json_of_v2 sample_v2) = Inr ok
     \<and> v2_spec 5000000 500000 (ok_record ok)"
proof -
  obtain ok where ok: "validateComputeMeteringV2 polkadot_sample (num 5000000) (num 500000) True
      (json_of_v2 sample_v2) = Inr ok"
    using sample_accepted by blast
  with v2_accept_sound [OF ok sample_ints(1) _ _ sample_ints(2) polkadot_sample_hex] show ?thesis by simp
qed
text \<open>C34: Nothing is accepted without its signatures: the fleet operator's signature verifies
  over the hardware pre-image, the worker's and, when present, the observer's over the worker
  pre-image of exactly this record, and the content hash is the SHA-256 of that pre-image.\<close>

theorem v2_accept_signed:
  assumes "validateComputeMeteringV2 P nowMs lastMs True raw = Inr ok"
  shows "canonicalCborForFleetOpSig P (v2_worker_id (ok_record ok)) (v2_hardware_spec (ok_record ok))
      = Inr (ok_fleet_op_pre_image ok)
    \<and> verifySr25519 P (ok_fleet_op_pre_image ok) (fleet_operator_signature (v2_hardware_spec (ok_record ok)))
        (fleet_operator_pubkey (v2_hardware_spec (ok_record ok)))
    \<and> canonicalCborForWorkerSig P (ok_record ok) None = Inr (ok_worker_pre_image ok)
    \<and> verifySr25519 P (ok_worker_pre_image ok) (v2_worker_signature (ok_record ok))
        (v2_worker_pubkey (ok_record ok))
    \<and> (\<forall>ob. v2_observer (ok_record ok) = Some ob \<longrightarrow>
          verifySr25519 P (ok_worker_pre_image ok) (observer_signature ob) (observer_pubkey ob))
    \<and> ok_content_hash ok = sha256_hex (ok_worker_pre_image ok)"
proof -
  have lift: "lift_raise r = Inr a \<longleftrightarrow> r = Inr a" for r :: "type_error + 'a" and a
    by (cases r) (auto simp: lift_raise_def)
  obtain rec f w where "canonicalCborForFleetOpSig P (v2_worker_id rec) (v2_hardware_spec rec) = Inr f"
    and "canonicalCborForWorkerSig P rec None = Inr w" and sigs: "check_signatures P f w rec = Inr ()"
    and ok: "ok = \<lparr>ok_record = rec, ok_content_hash = sha256_hex w, ok_schema_hash = SCHEMA_HASH_HEX,
      ok_worker_pre_image = w, ok_fleet_op_pre_image = f\<rparr>"
    using assms unfolding validateComputeMeteringV2_def
    by (auto simp: and_then_Inr_iff lift)
  moreover from sigs have "verifySr25519 P f (fleet_operator_signature (v2_hardware_spec rec))
        (fleet_operator_pubkey (v2_hardware_spec rec))"
    "verifySr25519 P w (v2_worker_signature rec) (v2_worker_pubkey rec)"
    "\<forall>ob. v2_observer rec = Some ob \<longrightarrow> verifySr25519 P w (observer_signature ob) (observer_pubkey ob)"
    by (auto simp: check_signatures_def Let_def and_then_Inr_iff check_iffs split: option.splits)
  ultimately show ?thesis by simp
qed

theorem v2_accept_signed_witness:
  "\<exists>ok. validateComputeMeteringV2 polkadot_sample (num 5000000) (num 500000) True (json_of_v2 sample_v2) = Inr ok
     \<and> verifySr25519 polkadot_sample (ok_worker_pre_image ok) (v2_worker_signature (ok_record ok))
         (v2_worker_pubkey (ok_record ok))"
  using sample_accepted v2_accept_signed by blast

text \<open>C22: The content hash binds the whole record: two accepted records with one content hash carry
  the same data in every signed field, or their pre-images are a SHA-256 collision.\<close>

theorem v2_content_hash_binds:
  assumes "validateComputeMeteringV2 P nowMs lastMs v raw = Inr ok"
    and "validateComputeMeteringV2 P nowMs lastMs' v' raw' = Inr ok'"
    and "ok_content_hash ok = ok_content_hash ok'"
    and "f64_to_int nowMs = Some now" and "0 \<le> now" and "now \<le> 2 ^ 52"
    and "f64_to_int lastMs = Some l" and "f64_to_int lastMs' = Some l'" and "hexToU8a_documented P"
  shows "same_v2 (ok_record ok) (ok_record ok') \<or> sha_collision (ok_worker_pre_image ok) (ok_worker_pre_image ok')"
proof -
  note a = assms(1) [unfolded validate_v2_Inr [OF assms(4-7)]]
  note b = assms(2) [unfolded validate_v2_Inr [OF assms(4-6,8)]]
  have shaped: "hex_shaped (ok_record ok)" "hex_shaped (ok_record ok')"
    using a b rules_hex by blast+
  have "sha256 (ok_worker_pre_image ok) = sha256 (ok_worker_pre_image ok')"
    using a b assms(3) by (simp flip: sha256_hex_eq)
  then consider "ok_worker_pre_image ok = ok_worker_pre_image ok'"
    | "sha_collision (ok_worker_pre_image ok) (ok_worker_pre_image ok')" by (auto dest: sha256_eqD)
  then show ?thesis
  proof cases
    case 1
    then have "canonicalCborForWorkerSig P (ok_record ok) None = Inr (ok_worker_pre_image ok)"
      "canonicalCborForWorkerSig P (ok_record ok') None = Inr (ok_worker_pre_image ok)"
      using a b by simp_all
    then show ?thesis using worker_pre_image_binds(1) [OF assms(9) shaped] by blast
  qed simp
qed

theorem v2_content_hash_binds_witness:
  "\<exists>ok. validateComputeMeteringV2 polkadot_sample (num 5000000) (num 500000) True (json_of_v2 sample_v2) = Inr ok
     \<and> (same_v2 (ok_record ok) (ok_record ok) \<or> sha_collision (ok_worker_pre_image ok) (ok_worker_pre_image ok))"
proof -
  obtain ok where ok: "validateComputeMeteringV2 polkadot_sample (num 5000000) (num 500000) True
      (json_of_v2 sample_v2) = Inr ok"
    using sample_accepted by blast
  from v2_content_hash_binds [OF ok ok refl sample_ints(1) _ _ sample_ints(2) sample_ints(2)
      polkadot_sample_hex] ok
  show ?thesis by auto
qed

text \<open>A signature cannot be moved between the two roles: no fleet-operator pre-image is an
  initial part of a worker pre-image (with or without evidence) or the other way round.\<close>

theorem v2_domain_separation:
  assumes "canonicalCborForFleetOpSig P w hw = Inr a" and "canonicalCborForWorkerSig P rec ev = Inr b"
  shows "\<not> (\<exists>r. b = a @ r) \<and> \<not> (\<exists>r. a = b @ r)"
  using pre_images_differ [OF assms, of _ "[]"] pre_images_differ [OF assms, of "[]"] by auto

theorem v2_domain_separation_witness:
  "\<exists>a b. canonicalCborForFleetOpSig polkadot_sample (v2_worker_id sample_v2) (v2_hardware_spec sample_v2) = Inr a
     \<and> canonicalCborForWorkerSig polkadot_sample sample_v2 None = Inr b \<and> \<not> (\<exists>r. b = a @ r)"
proof -
  have i: "f64_to_int (issued_ms (v2_hardware_spec sample_v2)) = Some 900000" "900000 \<le> js_safe_int"
    using num_to_int [of 900000] by (simp_all add: sample_v2_def js_safe_int_def)
  from pre_images_encode [OF polkadot_sample_hex sample_rules _ i] obtain a b
    where a: "canonicalCborForFleetOpSig polkadot_sample (v2_worker_id sample_v2) (v2_hardware_spec sample_v2) = Inr a"
    and b: "canonicalCborForWorkerSig polkadot_sample sample_v2 None = Inr b" by auto
  with v2_domain_separation [OF a b] show ?thesis by blast
qed

text \<open>The validator is documented never to throw on the shape of its input.  It throws exactly
  when everything before the pre-images is accepted and \<open>issued_ms\<close>, which is only checked to be
  a positive integer, is above 2^53 - 1: the encoder refuses it.\<close>

theorem v2_raises_iff:
  assumes "f64_to_int nowMs = Some now" and "0 \<le> now" and "now \<le> 2 ^ 52"
    and "f64_to_int lastMs = Some last_start" and "hexToU8a_documented P"
  shows "validateComputeMeteringV2 P nowMs lastMs verify raw = Inl (Raised e) \<longleftrightarrow>
    e = EncodeUintUnsafe
    \<and> (\<exists>rec. parse_v2 nowMs lastMs raw = Inr rec \<and> js_safe_int < f64_int (issued_ms (v2_hardware_spec rec)))"
proof (cases "parse_v2 nowMs lastMs raw")
  case (Inl x)
  then show ?thesis
    using no_raise_parse [of nowMs lastMs raw] by (auto simp: validateComputeMeteringV2_def no_raise_def)
next
  case (Inr rec)
  then have rules: "v2_rules now last_start rec" unfolding parse_v2_Inr [OF assms(1-4)] by blast
  obtain i where i: "f64_to_int (issued_ms (v2_hardware_spec rec)) = Some i"
    using rules by (auto simp: v2_rules_def hardware_ok_def elim: f64_int_cases)
  show ?thesis
  proof (cases "js_safe_int < i")
    case True
    with fleet_pre_image_raises [OF assms(5) rules assms(3) i] Inr i show ?thesis
      by (auto simp: validateComputeMeteringV2_def lift_raise_def)
  next
    case False
    then obtain a b where "canonicalCborForFleetOpSig P (v2_worker_id rec) (v2_hardware_spec rec) = Inr a"
      and "canonicalCborForWorkerSig P rec None = Inr b"
      using pre_images_encode [OF assms(5) rules assms(3) i] by auto
    moreover have "(if verify then check_signatures P a b rec else Inr ()) \<noteq> Inl (Raised e)"
      using no_raise_signatures [of P a b rec] by (simp add: no_raise_def)
    ultimately show ?thesis
      using Inr i False by (auto simp: validateComputeMeteringV2_def lift_raise_def and_then_Inl_iff)
  qed
qed

definition late_v2 :: metering_v2 where
  "late_v2 = sample_v2\<lparr>v2_hardware_spec := (v2_hardware_spec sample_v2)\<lparr>issued_ms := num (2 ^ 53)\<rparr>\<rparr>"

theorem v2_raises_iff_witness:
  "validateComputeMeteringV2 polkadot_sample (num 5000000) (num 500000) True (json_of_v2 late_v2)
   = Inl (Raised EncodeUintUnsafe)"
proof -
  have late: "f64_to_int (num (2 ^ 53)) = Some (2 ^ 53)" by (rule num_to_int) simp
  have "\<not> f64_le (num (2 ^ 53)) (num 0)"
    using f64_le_ints [OF late num_to_int [of 0]] by simp
  then have "v2_rules 5000000 500000 late_v2"
    using sample_rules late
    by (auto simp: v2_rules_def hardware_ok_def late_v2_def f64_is_integer_def check_bounds_def
        cpuCap_def ramCap_def)
  then have "parse_v2 (num 5000000) (num 500000) (json_of_v2 late_v2) = Inr late_v2"
    using parse_v2_Inr [OF sample_ints(1) _ _ sample_ints(2)] json_of_v2_wire [of late_v2] by simp
  moreover have "js_safe_int < f64_int (issued_ms (v2_hardware_spec late_v2))"
    using late by (simp add: late_v2_def js_safe_int_def)
  ultimately show ?thesis
    using v2_raises_iff [OF sample_ints(1) _ _ sample_ints(2) polkadot_sample_hex] by auto
qed

end
