(* ===== verification/MeteringV1.thy ===== *)
theory MeteringV1
  imports MeteringV2
begin

text \<open>
  The \<open>compute_metering_v1\<close> record of \<open>schemas/compute_metering_v1.ts\<close>: its own copy of the
  CBOR encoder, the canonical body, and its validator with per-worker hardware bounds.
\<close>

section \<open>Types\<close>

definition SCHEMA_VERSION_V1 :: jsstring where "SCHEMA_VERSION_V1 = js ''compute_metering_v1''"

definition SCHEMA_HASH_HEX_V1 :: jsstring where
  "SCHEMA_HASH_HEX_V1 = sha256_hex (utf8_encode SCHEMA_VERSION_V1)"

record worker_bounds =
  max_cpu_cores :: f64
  max_ram_gb :: f64
  max_disk_gb :: f64
  max_gpu_count :: f64

definition DEFAULT_BOUNDS :: worker_bounds where
  "DEFAULT_BOUNDS = \<lparr>max_cpu_cores = num 128, max_ram_gb = num 2048, max_disk_gb = num 16384,
                     max_gpu_count = num 8\<rparr>"

record metering_v1 =
  v1_worker_id :: jsstring
  v1_tenant_id :: jsstring
  v1_period_start :: f64
  v1_period_end :: f64
  v1_cpu_seconds :: f64
  v1_ram_gb_hours :: f64
  v1_disk_gb_hours :: f64
  v1_net_bytes_in :: f64
  v1_net_bytes_out :: f64
  v1_gpu_seconds :: f64
  v1_worker_pubkey :: jsstring
  v1_worker_signature :: jsstring

text \<open>The codes shared with version 2, and the one code of a failed signature.\<close>

datatype v1_code = Shared validate_code | SIGNATURE_INVALID

datatype v1_err = V1Refuse v1_code "jsstring option" | V1Raised type_error

record v1_ok =
  v1_record :: metering_v1
  v1_content_hash :: jsstring
  v1_schema_hash :: jsstring
  v1_canonical_body :: bytes

section \<open>The encoder of this file\<close>

definition encodeUint_v1 :: "nat \<Rightarrow> int \<Rightarrow> type_error + bytes" where
  "encodeUint_v1 major n =
     (if n < 0 then Inl EncodeUintOutOfRange
      else if n \<le> 23 then Inr [head_byte major n]
      else if n \<le> 0xff then Inr (head_byte major 24 # be_bytes 1 n)
      else if n \<le> 0xffff then Inr (head_byte major 25 # be_bytes 2 n)
      else if n \<le> 0xffffffff then Inr (head_byte major 26 # be_bytes 4 n)
      else if js_safe_int < n then Inl EncodeUintUnsafe
      else Inr (head_byte major 27 # be_bytes 8 n))"

definition encodeInt_v1 :: "f64 \<Rightarrow> type_error + bytes" where
  "encodeInt_v1 x =
     (case f64_to_int x of
        None \<Rightarrow> Inl EncodeIntNotInteger
      | Some n \<Rightarrow> if 0 \<le> n then encodeUint_v1 0 n else encodeUint_v1 1 (- 1 - n))"

definition encodeFloat64_v1 :: "f64 \<Rightarrow> type_error + bytes" where
  "encodeFloat64_v1 x =
     (if f64_finite x then Inr (head_byte 7 27 # f64_bytes x) else Inl EncodeFloatNotFinite)"

definition encodeText_v1 :: "jsstring \<Rightarrow> type_error + bytes" where
  "encodeText_v1 s =
     (let bytes = utf8_encode s
      in and_then (encodeUint_v1 3 (int (length bytes))) (\<lambda>h. Inr (h @ bytes)))"

datatype v1_value = VNum f64 | VText jsstring

text \<open>
  The last branch of the source throws for a number that is neither integral nor finite; it
  is given the error of the float encoder.
\<close>

fun encodeValue_v1 :: "v1_value \<Rightarrow> type_error + bytes" where
  "encodeValue_v1 (VText s) = encodeText_v1 s"
| "encodeValue_v1 (VNum x) =
     (if f64_is_integer x then encodeInt_v1 x
      else if f64_finite x then encodeFloat64_v1 x else Inl EncodeFloatNotFinite)"

fun cmpBytes_v1 :: "bytes \<Rightarrow> bytes \<Rightarrow> int" where
  "cmpBytes_v1 (x # xs) (y # ys) = (if x \<noteq> y then uint x - uint y else cmpBytes_v1 xs ys)"
| "cmpBytes_v1 xs ys = int (length xs) - int (length ys)"

definition encodeMap :: "(jsstring \<times> v1_value) list \<Rightarrow> type_error + bytes" where
  "encodeMap entries =
     and_then (map_result (\<lambda>kv.
         and_then (encodeText_v1 (fst kv)) (\<lambda>keyBytes.
         and_then (encodeValue_v1 (snd kv)) (\<lambda>valueBytes.
         Inr (keyBytes, valueBytes)))) entries) (\<lambda>encoded.
     let sorted = js_sort (\<lambda>a b. cmpBytes_v1 (fst a) (fst b)) encoded
     in and_then (encodeUint_v1 5 (int (length sorted))) (\<lambda>head.
        Inr (head @ concat (map (\<lambda>kv. fst kv @ snd kv) sorted))))"

definition canonicalBody :: "metering_v1 \<Rightarrow> type_error + bytes" where
  "canonicalBody rec =
     encodeMap
       [(js ''schema_version'', VText SCHEMA_VERSION_V1),
        (js ''worker_id'', VText (v1_worker_id rec)),
        (js ''tenant_id'', VText (v1_tenant_id rec)),
        (js ''period_start'', VNum (v1_period_start rec)),
        (js ''period_end'', VNum (v1_period_end rec)),
        (js ''cpu_seconds'', VNum (v1_cpu_seconds rec)),
        (js ''ram_gb_hours'', VNum (v1_ram_gb_hours rec)),
        (js ''disk_gb_hours'', VNum (v1_disk_gb_hours rec)),
        (js ''net_bytes_in'', VNum (v1_net_bytes_in rec)),
        (js ''net_bytes_out'', VNum (v1_net_bytes_out rec)),
        (js ''gpu_seconds'', VNum (v1_gpu_seconds rec)),
        (js ''worker_pubkey'', VText (v1_worker_pubkey rec))]"

definition canonicalContentHash_v1 :: "metering_v1 \<Rightarrow> type_error + jsstring" where
  "canonicalContentHash_v1 rec = and_then (canonicalBody rec) (\<lambda>b. Inr (sha256_hex b))"

section \<open>The validator\<close>

definition check_schema_version_v1 :: "(jsstring \<times> json) list \<Rightarrow> validate_err + unit" where
  "check_schema_version_v1 r =
     and_then (require r (js ''schema_version'') (js ''schema_version'')) (\<lambda>v.
     and_then (want_string (js ''schema_version'') v) (\<lambda>s.
     guard (s = SCHEMA_VERSION_V1) WRONG_SCHEMA_VERSION (js ''schema_version'')))"

definition check_period_v1 ::
  "f64 \<Rightarrow> f64 \<Rightarrow> (jsstring \<times> json) list \<Rightarrow> validate_err + f64 \<times> f64" where
  "check_period_v1 = check_period_at (js ''period_start'') (js ''period_end'')"

text \<open>The six numeric fields: name, whether an integer is required, and the cap of a float.\<close>

definition numericFields :: "worker_bounds \<Rightarrow> f64 \<Rightarrow> f64 \<Rightarrow> (jsstring \<times> bool \<times> f64) list" where
  "numericFields bounds periodStart periodEnd =
     (let periodSec = f64_div (f64_sub periodEnd periodStart) (num 1000);
          periodHr = f64_div (f64_sub periodEnd periodStart) (num 3600000)
      in [(js ''cpu_seconds'', False, f64_mul periodSec (max_cpu_cores bounds)),
          (js ''ram_gb_hours'', False, f64_mul periodHr (max_ram_gb bounds)),
          (js ''disk_gb_hours'', False, f64_mul periodHr (max_disk_gb bounds)),
          (js ''net_bytes_in'', True, JS_SAFE_INT),
          (js ''net_bytes_out'', True, JS_SAFE_INT),
          (js ''gpu_seconds'', False, f64_mul periodSec (max_gpu_count bounds))])"

definition validate_numeric ::
  "(jsstring \<times> json) list \<Rightarrow> jsstring \<times> bool \<times> f64 \<Rightarrow> validate_err + f64" where
  "validate_numeric r f =
     (let k = fst f; is_int = fst (snd f); cap = snd (snd f)
      in and_then (require r k k) (\<lambda>v.
         case as_number v of
           None \<Rightarrow> refuse WRONG_TYPE k
         | Some x \<Rightarrow>
             and_then (guard (f64_finite x) WRONG_TYPE k) (\<lambda>_.
             and_then (guard (is_int \<longrightarrow> f64_is_integer x) WRONG_TYPE k) (\<lambda>_.
             and_then (guard (\<not> f64_lt x (num 0)) NEGATIVE_VALUE k) (\<lambda>_.
             and_then (guard (\<not> (is_int \<and> f64_lt JS_SAFE_INT x)) INT_OVERFLOW k) (\<lambda>_.
             and_then (guard (\<not> (\<not> is_int \<and> f64_lt cap x)) BOUND_EXCEEDED k) (\<lambda>_.
             Inr x)))))))"

definition parse_v1 ::
  "worker_bounds \<Rightarrow> f64 \<Rightarrow> f64 \<Rightarrow> json \<Rightarrow> validate_err + metering_v1" where
  "parse_v1 bounds nowMs lastPeriodStart raw =
     (case as_object raw of
        None \<Rightarrow> Inl (Refuse WRONG_TYPE None)
      | Some r \<Rightarrow>
          and_then (check_schema_version_v1 r) (\<lambda>_.
          and_then (check_id ID_REGEX (js ''worker_id'') r) (\<lambda>workerId.
          and_then (check_id ID_REGEX (js ''tenant_id'') r) (\<lambda>tenantId.
          and_then (check_period_v1 nowMs lastPeriodStart r) (\<lambda>period.
          and_then (map_result (validate_numeric r) (numericFields bounds (fst period) (snd period))) (\<lambda>vs.
          and_then (hex_field r (js ''worker_pubkey'') 64 (js ''worker_pubkey'')) (\<lambda>pk.
          and_then (hex_field r (js ''worker_signature'') 128 (js ''worker_signature'')) (\<lambda>sg.
          Inr \<lparr>v1_worker_id = workerId, v1_tenant_id = tenantId, v1_period_start = fst period,
               v1_period_end = snd period, v1_cpu_seconds = vs ! 0, v1_ram_gb_hours = vs ! 1,
               v1_disk_gb_hours = vs ! 2, v1_net_bytes_in = vs ! 3, v1_net_bytes_out = vs ! 4,
               v1_gpu_seconds = vs ! 5, v1_worker_pubkey = pk, v1_worker_signature = sg\<rparr>))))))))"

definition lift_v1 :: "validate_err + 'a \<Rightarrow> v1_err + 'a" where
  "lift_v1 r =
     (case r of
        Inl (Refuse c f) \<Rightarrow> Inl (V1Refuse (Shared c) f)
      | Inl (Raised e) \<Rightarrow> Inl (V1Raised e)
      | Inr a \<Rightarrow> Inr a)"

text \<open>The two hexadecimal conversions are outside the \<open>try\<close>; the verification is inside.\<close>

definition check_signature_v1 :: "polkadot \<Rightarrow> bytes \<Rightarrow> jsstring \<Rightarrow> jsstring \<Rightarrow> v1_err + unit" where
  "check_signature_v1 P body workerPubkey workerSignature =
     (case hexToU8a P (js ''0x'' @ workerPubkey) of
        None \<Rightarrow> Inl (V1Raised HexToU8aThrows)
      | Some pubkeyU8 \<Rightarrow>
          (case hexToU8a P (js ''0x'' @ workerSignature) of
             None \<Rightarrow> Inl (V1Raised HexToU8aThrows)
           | Some sigU8 \<Rightarrow>
               (case signatureVerify P body sigU8 (u8aToHex P pubkeyU8) of
                  None \<Rightarrow> Inl (V1Refuse SIGNATURE_INVALID (Some (js ''worker_signature'')))
                | Some isValid \<Rightarrow>
                    if isValid then Inr ()
                    else Inl (V1Refuse SIGNATURE_INVALID (Some (js ''worker_signature''))))))"

definition validateComputeMeteringV1 ::
  "polkadot \<Rightarrow> worker_bounds option \<Rightarrow> f64 \<Rightarrow> f64 \<Rightarrow> json \<Rightarrow> v1_err + v1_ok" where
  "validateComputeMeteringV1 P bounds nowMs lastPeriodStart raw =
     (let bounds = (case bounds of None \<Rightarrow> DEFAULT_BOUNDS | Some b \<Rightarrow> b)
      in and_then (lift_v1 (parse_v1 bounds nowMs lastPeriodStart raw)) (\<lambda>rec.
         and_then (lift_v1 (lift_raise (canonicalBody rec))) (\<lambda>body.
         and_then (check_signature_v1 P body (v1_worker_pubkey rec) (v1_worker_signature rec)) (\<lambda>_.
         Inr \<lparr>v1_record = rec, v1_content_hash = sha256_hex body, v1_schema_hash = SCHEMA_HASH_HEX_V1,
              v1_canonical_body = body\<rparr>))))"

definition workerPubkeyToSs58_v1 :: "polkadot \<Rightarrow> jsstring \<Rightarrow> int \<Rightarrow> ss58_error + jsstring" where
  "workerPubkeyToSs58_v1 P workerPubkey prefix =
     (if \<not> re_lower_hex 64 workerPubkey then Inl NotHex64
      else case hexToU8a P (js ''0x'' @ workerPubkey) of
             None \<Rightarrow> Inl EncodeAddressThrows
           | Some b \<Rightarrow> (case encodeAddress P b prefix of
                          None \<Rightarrow> Inl EncodeAddressThrows | Some s \<Rightarrow> Inr s))"

section \<open>The two encoders agree\<close>

fun v1_cbor :: "v1_value \<Rightarrow> cbor" where
  "v1_cbor (VText s) = CText s"
| "v1_cbor (VNum x) = (if f64_is_integer x then CInt x else CFloat x)"

lemma encodeUint_v1_eq: "encodeUint_v1 = encodeUint"
  by (intro ext) (simp add: encodeUint_v1_def encodeUint_def)

lemma encodeText_v1_eq: "encodeText_v1 = encodeText"
  by (intro ext) (simp add: encodeText_v1_def encodeText_def encodeUint_v1_eq)

lemma cmpBytes_v1_eq: "cmpBytes_v1 xs ys = cmpBytes xs ys"
  by (induction xs ys rule: cmpBytes_v1.induct) auto

lemma encodeValue_v1_eq: "encodeValue_v1 v = encodeCbor (v1_cbor v)"
  by (cases v)
    (auto simp: encodeText_v1_eq encodeInt_v1_def encodeInt_def encodeUint_v1_eq encodeFloat64_v1_def
      encodeFloat64_def split: option.splits)

definition v1_map :: "(jsstring \<times> v1_value) list \<Rightarrow> cbor" where
  "v1_map entries = CMap (map (\<lambda>kv. (fst kv, v1_cbor (snd kv))) entries)"

lemma map_result_map: "map_result f (map g xs) = map_result (\<lambda>x. f (g x)) xs"
  by (induction xs) auto

lemma encodeMap_eq: "encodeMap entries = encodeCbor (v1_map entries)"
  by (simp add: encodeMap_def v1_map_def map_result_map encodeText_v1_eq encodeValue_v1_eq
      encodeUint_v1_eq cmpBytes_v1_eq [abs_def])

section \<open>When the checks succeed\<close>

definition v1_numeric_ok :: "bool \<Rightarrow> f64 \<Rightarrow> f64 \<Rightarrow> bool" where
  "v1_numeric_ok is_int cap x \<longleftrightarrow> metric_ok is_int x \<and> (is_int \<or> \<not> f64_lt cap x)"

lemma validate_numeric_Inr [check_iffs]:
  "validate_numeric r (k, is_int, cap) = Inr x \<longleftrightarrow>
     get_prop k r = Some (JNum x) \<and> v1_numeric_ok is_int cap x"
  by (auto simp: validate_numeric_def v1_numeric_ok_def metric_ok_def and_then_Inr_iff check_iffs refuse_def
      Let_def split: option.splits)

definition v1_cap :: "worker_bounds \<Rightarrow> (worker_bounds \<Rightarrow> f64) \<Rightarrow> int \<Rightarrow> metering_v1 \<Rightarrow> f64" where
  "v1_cap b get k rec = f64_mul (f64_div (f64_sub (v1_period_end rec) (v1_period_start rec)) (num k)) (get b)"

definition v1_rules :: "worker_bounds \<Rightarrow> int \<Rightarrow> int \<Rightarrow> metering_v1 \<Rightarrow> bool" where
  "v1_rules b now last_start rec \<longleftrightarrow>
     ID_REGEX (v1_worker_id rec) \<and> ID_REGEX (v1_tenant_id rec)
     \<and> period_ok now last_start (v1_period_start rec) (v1_period_end rec)
     \<and> v1_numeric_ok False (v1_cap b max_cpu_cores 1000 rec) (v1_cpu_seconds rec)
     \<and> v1_numeric_ok False (v1_cap b max_ram_gb 3600000 rec) (v1_ram_gb_hours rec)
     \<and> v1_numeric_ok False (v1_cap b max_disk_gb 3600000 rec) (v1_disk_gb_hours rec)
     \<and> v1_numeric_ok True JS_SAFE_INT (v1_net_bytes_in rec)
     \<and> v1_numeric_ok True JS_SAFE_INT (v1_net_bytes_out rec)
     \<and> v1_numeric_ok False (v1_cap b max_gpu_count 1000 rec) (v1_gpu_seconds rec)
     \<and> re_lower_hex 64 (v1_worker_pubkey rec) \<and> re_lower_hex 128 (v1_worker_signature rec)"

definition v1_wire :: "(jsstring \<times> json) list \<Rightarrow> metering_v1 \<Rightarrow> bool" where
  "v1_wire r rec \<longleftrightarrow>
     get_prop (js ''schema_version'') r = Some (JStr SCHEMA_VERSION_V1)
     \<and> get_prop (js ''worker_id'') r = Some (JStr (v1_worker_id rec))
     \<and> get_prop (js ''tenant_id'') r = Some (JStr (v1_tenant_id rec))
     \<and> get_prop (js ''period_start'') r = Some (JNum (v1_period_start rec))
     \<and> get_prop (js ''period_end'') r = Some (JNum (v1_period_end rec))
     \<and> get_prop (js ''cpu_seconds'') r = Some (JNum (v1_cpu_seconds rec))
     \<and> get_prop (js ''ram_gb_hours'') r = Some (JNum (v1_ram_gb_hours rec))
     \<and> get_prop (js ''disk_gb_hours'') r = Some (JNum (v1_disk_gb_hours rec))
     \<and> get_prop (js ''net_bytes_in'') r = Some (JNum (v1_net_bytes_in rec))
     \<and> get_prop (js ''net_bytes_out'') r = Some (JNum (v1_net_bytes_out rec))
     \<and> get_prop (js ''gpu_seconds'') r = Some (JNum (v1_gpu_seconds rec))
     \<and> get_prop (js ''worker_pubkey'') r = Some (JStr (v1_worker_pubkey rec))
     \<and> get_prop (js ''worker_signature'') r = Some (JStr (v1_worker_signature rec))"

lemma check_schema_version_v1_Inr [check_iffs]:
  "check_schema_version_v1 r = Inr u \<longleftrightarrow> get_prop (js ''schema_version'') r = Some (JStr SCHEMA_VERSION_V1)"
  by (auto simp: check_schema_version_v1_def and_then_Inr_iff check_iffs)

lemma numeric_fields_Inr:
  "map_result (validate_numeric r) (numericFields b s e) = Inr vs \<longleftrightarrow>
    (\<exists>c1 c2 c3 c4 c5 c6. vs = [c1, c2, c3, c4, c5, c6]
       \<and> validate_numeric r (js ''cpu_seconds'', False, f64_mul (f64_div (f64_sub e s) (num 1000)) (max_cpu_cores b)) = Inr c1
       \<and> validate_numeric r (js ''ram_gb_hours'', False, f64_mul (f64_div (f64_sub e s) (num 3600000)) (max_ram_gb b)) = Inr c2
       \<and> validate_numeric r (js ''disk_gb_hours'', False, f64_mul (f64_div (f64_sub e s) (num 3600000)) (max_disk_gb b)) = Inr c3
       \<and> validate_numeric r (js ''net_bytes_in'', True, JS_SAFE_INT) = Inr c4
       \<and> validate_numeric r (js ''net_bytes_out'', True, JS_SAFE_INT) = Inr c5
       \<and> validate_numeric r (js ''gpu_seconds'', False, f64_mul (f64_div (f64_sub e s) (num 1000)) (max_gpu_count b)) = Inr c6)"
  by (auto simp: numericFields_def Let_def and_then_Inr_iff)

lemma parse_v1_Inr:
  assumes "f64_to_int nowMs = Some now" "0 \<le> now" "now \<le> 2 ^ 52" "f64_to_int lastMs = Some last_start"
  shows "parse_v1 b nowMs lastMs raw = Inr rec \<longleftrightarrow>
    (\<exists>r. raw = JObj r \<and> v1_wire r rec) \<and> v1_rules b now last_start rec"
proof (cases raw)
  case (JObj r)
  note period = check_period_at_Inr [OF assms, of "js ''period_start''" "js ''period_end''" r]
  have pp: "check_period_v1 nowMs lastMs r = Inr p \<longleftrightarrow>
      get_prop (js ''period_start'') r = Some (JNum (fst p)) \<and> get_prop (js ''period_end'') r = Some (JNum (snd p))
      \<and> period_ok now last_start (fst p) (snd p)" for p
    using period [of "fst p" "snd p"] by (simp add: check_period_v1_def)
  show ?thesis (is "?l \<longleftrightarrow> ?r")
  proof
    assume ?l
    then show ?r
      unfolding parse_v1_def JObj
      by (auto simp: and_then_Inr_iff check_iffs pp numeric_fields_Inr v1_wire_def v1_rules_def v1_cap_def)
  next
    assume ?r
    then have r: "v1_wire r rec" "v1_rules b now last_start rec" using JObj by auto
    let ?vs = "[v1_cpu_seconds rec, v1_ram_gb_hours rec, v1_disk_gb_hours rec, v1_net_bytes_in rec,
        v1_net_bytes_out rec, v1_gpu_seconds rec]"
    have vs: "map_result (validate_numeric r)
        (numericFields b (v1_period_start rec) (v1_period_end rec)) = Inr ?vs"
      unfolding numeric_fields_Inr using r by (auto simp: check_iffs v1_wire_def v1_rules_def v1_cap_def)
    have "check_period_v1 nowMs lastMs r = Inr (v1_period_start rec, v1_period_end rec)"
      unfolding pp using r by (simp add: v1_wire_def v1_rules_def)
    moreover have "check_schema_version_v1 r = Inr ()" "check_id ID_REGEX (js ''worker_id'') r = Inr (v1_worker_id rec)"
      "check_id ID_REGEX (js ''tenant_id'') r = Inr (v1_tenant_id rec)"
      "hex_field r (js ''worker_pubkey'') 64 (js ''worker_pubkey'') = Inr (v1_worker_pubkey rec)"
      "hex_field r (js ''worker_signature'') 128 (js ''worker_signature'') = Inr (v1_worker_signature rec)"
      unfolding check_iffs using r by (simp_all add: v1_wire_def v1_rules_def)
    ultimately show ?l by (simp add: parse_v1_def JObj vs)
  qed
qed (simp_all add: parse_v1_def)

section \<open>The body and what it determines\<close>

definition v1_entries :: "metering_v1 \<Rightarrow> (jsstring \<times> v1_value) list" where
  "v1_entries rec =
       [(js ''schema_version'', VText SCHEMA_VERSION_V1),
        (js ''worker_id'', VText (v1_worker_id rec)),
        (js ''tenant_id'', VText (v1_tenant_id rec)),
        (js ''period_start'', VNum (v1_period_start rec)),
        (js ''period_end'', VNum (v1_period_end rec)),
        (js ''cpu_seconds'', VNum (v1_cpu_seconds rec)),
        (js ''ram_gb_hours'', VNum (v1_ram_gb_hours rec)),
        (js ''disk_gb_hours'', VNum (v1_disk_gb_hours rec)),
        (js ''net_bytes_in'', VNum (v1_net_bytes_in rec)),
        (js ''net_bytes_out'', VNum (v1_net_bytes_out rec)),
        (js ''gpu_seconds'', VNum (v1_gpu_seconds rec)),
        (js ''worker_pubkey'', VText (v1_worker_pubkey rec))]"

lemma canonicalBody_eq: "canonicalBody rec = encodeCbor (v1_map (v1_entries rec))"
  by (simp only: canonicalBody_def v1_entries_def encodeMap_eq)

definition vnorm :: "v1_value \<Rightarrow> cnorm" where "vnorm v = cbor_norm (v1_cbor v)"

lemma v1_norm:
  "cbor_norm (v1_map (v1_entries rec)) =
     NMap [(utf8_encode (js ''tenant_id''), NText (utf8_encode (v1_tenant_id rec))),
           (utf8_encode (js ''worker_id''), NText (utf8_encode (v1_worker_id rec))),
           (utf8_encode (js ''period_end''), vnorm (VNum (v1_period_end rec))),
           (utf8_encode (js ''cpu_seconds''), vnorm (VNum (v1_cpu_seconds rec))),
           (utf8_encode (js ''gpu_seconds''), vnorm (VNum (v1_gpu_seconds rec))),
           (utf8_encode (js ''net_bytes_in''), vnorm (VNum (v1_net_bytes_in rec))),
           (utf8_encode (js ''period_start''), vnorm (VNum (v1_period_start rec))),
           (utf8_encode (js ''ram_gb_hours''), vnorm (VNum (v1_ram_gb_hours rec))),
           (utf8_encode (js ''disk_gb_hours''), vnorm (VNum (v1_disk_gb_hours rec))),
           (utf8_encode (js ''net_bytes_out''), vnorm (VNum (v1_net_bytes_out rec))),
           (utf8_encode (js ''worker_pubkey''), NText (utf8_encode (v1_worker_pubkey rec))),
           (utf8_encode (js ''schema_version''), NText (utf8_encode SCHEMA_VERSION_V1))]"
  by (simp add: v1_map_def v1_entries_def vnorm_def norm_eval)

text \<open>A number's encoding determines its value.\<close>

lemma vnorm_val:
  assumes "f64_finite x" and "f64_finite y" and "vnorm (VNum x) = vnorm (VNum y)"
  shows "f64_val x = f64_val y"
  using assms f64_int_val by (auto simp: vnorm_def split: if_splits)

definition same_v1 :: "metering_v1 \<Rightarrow> metering_v1 \<Rightarrow> bool" where
  "same_v1 r r' \<longleftrightarrow>
     v1_worker_id r = v1_worker_id r' \<and> v1_tenant_id r = v1_tenant_id r'
     \<and> f64_val (v1_period_start r) = f64_val (v1_period_start r')
     \<and> f64_val (v1_period_end r) = f64_val (v1_period_end r')
     \<and> f64_val (v1_cpu_seconds r) = f64_val (v1_cpu_seconds r')
     \<and> f64_val (v1_ram_gb_hours r) = f64_val (v1_ram_gb_hours r')
     \<and> f64_val (v1_disk_gb_hours r) = f64_val (v1_disk_gb_hours r')
     \<and> f64_val (v1_net_bytes_in r) = f64_val (v1_net_bytes_in r')
     \<and> f64_val (v1_net_bytes_out r) = f64_val (v1_net_bytes_out r')
     \<and> f64_val (v1_gpu_seconds r) = f64_val (v1_gpu_seconds r')
     \<and> v1_worker_pubkey r = v1_worker_pubkey r'"

lemma id_ascii: "ID_REGEX s \<Longrightarrow> list_all (\<lambda>c. c < 0x80) s"
  by (auto simp: ID_REGEX_def list_all_iff char_class_defs word_le_nat_alt word_less_nat_alt)

lemma hex_ascii: "re_lower_hex n s \<Longrightarrow> list_all (\<lambda>c. c < 0x80) s"
  by (auto simp: re_lower_hex_def list_all_iff char_class_defs word_le_nat_alt word_less_nat_alt)

lemma ascii_utf8_inj:
  "list_all (\<lambda>c. c < 0x80) s \<Longrightarrow> list_all (\<lambda>c. c < 0x80) t \<Longrightarrow> utf8_encode s = utf8_encode t \<Longrightarrow> s = t"
  by (intro utf8_encode_inj well_formed_ascii)

lemma v1_rules_finite:
  assumes "v1_rules b now last_start rec"
  shows "f64_finite (v1_period_start rec)" "f64_finite (v1_period_end rec)"
    "f64_finite (v1_cpu_seconds rec)" "f64_finite (v1_ram_gb_hours rec)" "f64_finite (v1_disk_gb_hours rec)"
    "f64_finite (v1_net_bytes_in rec)" "f64_finite (v1_net_bytes_out rec)" "f64_finite (v1_gpu_seconds rec)"
  using assms f64_to_int_SomeD(1)
  by (auto simp: v1_rules_def v1_numeric_ok_def metric_ok_def period_ok_def)

lemma v1_body_binds:
  assumes a: "v1_rules b now l r" and c: "v1_rules b' now' l' r'"
    and "canonicalBody r = Inr bs" and "canonicalBody r' = Inr bs"
  shows "same_v1 r r'"
proof -
  have eq: "cbor_norm (v1_map (v1_entries r)) = cbor_norm (v1_map (v1_entries r'))"
    using assms(3,4) unfolding canonicalBody_eq by (rule encodeCbor_inj)
  note parts = eq [unfolded v1_norm]
  have texts: "utf8_encode (v1_worker_id r) = utf8_encode (v1_worker_id r')"
    "utf8_encode (v1_tenant_id r) = utf8_encode (v1_tenant_id r')"
    "utf8_encode (v1_worker_pubkey r) = utf8_encode (v1_worker_pubkey r')"
    using parts by simp_all
  have "v1_worker_id r = v1_worker_id r'"
    using a c by (intro ascii_utf8_inj [OF _ _ texts(1)] id_ascii) (simp_all add: v1_rules_def)
  moreover have "v1_tenant_id r = v1_tenant_id r'"
    using a c by (intro ascii_utf8_inj [OF _ _ texts(2)] id_ascii) (simp_all add: v1_rules_def)
  moreover have "v1_worker_pubkey r = v1_worker_pubkey r'"
    using a c by (intro ascii_utf8_inj [OF _ _ texts(3)] hex_ascii [of 64]) (simp_all add: v1_rules_def)
  ultimately show ?thesis
    using parts vnorm_val [OF v1_rules_finite(1) [OF a] v1_rules_finite(1) [OF c]]
      vnorm_val [OF v1_rules_finite(2) [OF a] v1_rules_finite(2) [OF c]]
      vnorm_val [OF v1_rules_finite(3) [OF a] v1_rules_finite(3) [OF c]]
      vnorm_val [OF v1_rules_finite(4) [OF a] v1_rules_finite(4) [OF c]]
      vnorm_val [OF v1_rules_finite(5) [OF a] v1_rules_finite(5) [OF c]]
      vnorm_val [OF v1_rules_finite(6) [OF a] v1_rules_finite(6) [OF c]]
      vnorm_val [OF v1_rules_finite(7) [OF a] v1_rules_finite(7) [OF c]]
      vnorm_val [OF v1_rules_finite(8) [OF a] v1_rules_finite(8) [OF c]]
    by (simp add: same_v1_def)
qed

section \<open>The caps\<close>

text \<open>Bounds as operators register them: positive integers.\<close>

definition bound_ok :: "f64 \<Rightarrow> bool" where
  "bound_ok x \<longleftrightarrow> (\<exists>i. f64_to_int x = Some i \<and> 1 \<le> i \<and> i \<le> 2 ^ 100)"

definition bounds_ok :: "worker_bounds \<Rightarrow> bool" where
  "bounds_ok b \<longleftrightarrow> bound_ok (max_cpu_cores b) \<and> bound_ok (max_ram_gb b) \<and> bound_ok (max_disk_gb b)
     \<and> bound_ok (max_gpu_count b)"

lemma bounds_ok_default: "bounds_ok DEFAULT_BOUNDS"
  using num_to_int [of 128] num_to_int [of 2048] num_to_int [of 16384] num_to_int [of 8]
  by (simp add: bounds_ok_def bound_ok_def DEFAULT_BOUNDS_def)

definition v1_slack :: rat where "v1_slack = 1 + 1 / 2 ^ 51"

lemma v1_cap_close:
  assumes B: "f64_to_int bnd = Some c" "1 \<le> c" "c \<le> 2 ^ 100"
    and d: "f64_to_int width = Some d" "1 \<le> d" "d \<le> 86400000"
    and k: "1000 \<le> k" "k \<le> 3600000"
  shows "f64_finite (f64_mul (f64_div width (num k)) bnd)"
    and "f64_val (f64_mul (f64_div width (num k)) bnd) \<le> of_int c * (of_int d / of_int k) * v1_slack"
proof -
  define y :: rat where "y = of_int d / of_int k"
  define C :: rat where "C = of_int c"
  have "(of_int 1 :: rat) \<le> of_int c" "(of_int c :: rat) \<le> of_int (2 ^ 100)"
    using B by (simp_all only: of_int_le_iff)
  then have C: "1 \<le> C" "C \<le> 2 ^ 100" by (simp_all add: C_def)
  have "(of_int 1 :: rat) \<le> of_int d" "(of_int d :: rat) \<le> of_int 86400000"
    "(of_int 1000 :: rat) \<le> of_int k" "(of_int k :: rat) \<le> of_int 3600000"
    using d k by (simp_all only: of_int_le_iff)
  then have dk: "(1::rat) \<le> of_int d" "of_int d \<le> (86400000 :: rat)"
    "(1000 :: rat) \<le> of_int k" "of_int k \<le> (3600000 :: rat)" by simp_all
  have y: "1 / 3600000 \<le> y" "y \<le> 86400"
    using dk frac_le [of "of_int d" 1 "of_int k" "3600000 :: rat"]
      frac_le [of 86400000 "of_int d" "1000 :: rat" "of_int k"] by (simp_all add: y_def)
  note cf = f64_to_int_SomeD [OF B(1)] and df = f64_to_int_SomeD [OF d(1)]
  have kf: "f64_finite (num k)" "f64_val (num k) = of_int k" using num_finite [of k] k by auto
  define q where "q = f64_div width (num k)"
  have "f64_close q (f64_val width / f64_val (num k))"
    unfolding q_def using df kf dk y
    by (intro f64_div_close normal_rangeI) (auto simp: y_def)
  then have q: "f64_close q y" using df kf by (simp add: y_def)
  have y0: "0 \<le> y" using y by linarith
  note qD = f64_closeD [OF q y0]
  have q_lo: "1 / 2 ^ 23 \<le> f64_val q" using qD(3) y by simp
  have q_hi: "f64_val q \<le> 2 ^ 17" using qD(2) y by simp
  have q0: "0 < f64_val q" by (rule less_le_trans [OF _ q_lo]) simp
  have qC: "1 / 2 ^ 23 \<le> f64_val q * C" "f64_val q * C \<le> 2 ^ 17 * 2 ^ 100"
    using mult_mono [of "1 / 2 ^ 23" "f64_val q" 1 C] mult_mono [of "f64_val q" "2 ^ 17" C "2 ^ 100"]
      C q_lo q_hi by auto
  have "normal_range (f64_val q * f64_val bnd)"
    using qC cf unfolding C_def by (intro normal_rangeI) (auto intro: order_trans)
  from f64_mul_close [OF qD(1) cf(1) q0 _ this]
  have r: "f64_close (f64_mul q bnd) (f64_val q * C)" using C cf by (simp add: C_def)
  have qC0: "0 \<le> f64_val q * C" by (rule order_trans [OF _ qC(1)]) simp
  note rD = f64_closeD [OF r qC0]
  show "f64_finite (f64_mul (f64_div width (num k)) bnd)" using rD(1) by (simp add: q_def)
  let ?A = "1 + 1 / 2 ^ 53 :: rat"
  have "f64_val q * C \<le> (y * ?A) * C" using qD(2) C by (intro mult_right_mono) auto
  also have "(y * ?A) * C = (C * y) * ?A" by (simp only: ac_simps)
  finally have "f64_val (f64_mul q bnd) \<le> (C * y) * (?A * ?A)" using rD(2) by simp
  also have "\<dots> \<le> (C * y) * v1_slack"
    using C y0 by (intro mult_left_mono) (simp_all add: v1_slack_def)
  finally show "f64_val (f64_mul (f64_div width (num k)) bnd) \<le> of_int c * (of_int d / of_int k) * v1_slack"
    by (simp add: q_def C_def y_def)
qed

definition v1_within :: "f64 \<Rightarrow> f64 \<Rightarrow> int \<Rightarrow> int \<Rightarrow> bool" where
  "v1_within x bnd ms k \<longleftrightarrow>
     f64_finite x \<and> 0 \<le> f64_val x
     \<and> f64_val x \<le> of_int (f64_int bnd) * (of_int ms / of_int k) * v1_slack"

definition v1_spec :: "worker_bounds \<Rightarrow> int \<Rightarrow> int \<Rightarrow> metering_v1 \<Rightarrow> bool" where
  "v1_spec b now last_start rec \<longleftrightarrow>
     (let ms = f64_int (v1_period_end rec) - f64_int (v1_period_start rec)
      in ID_REGEX (v1_worker_id rec) \<and> ID_REGEX (v1_tenant_id rec)
         \<and> period_ok now last_start (v1_period_start rec) (v1_period_end rec)
         \<and> v1_within (v1_cpu_seconds rec) (max_cpu_cores b) ms 1000
         \<and> v1_within (v1_ram_gb_hours rec) (max_ram_gb b) ms 3600000
         \<and> v1_within (v1_disk_gb_hours rec) (max_disk_gb b) ms 3600000
         \<and> v1_within (v1_gpu_seconds rec) (max_gpu_count b) ms 1000
         \<and> (\<forall>x \<in> {v1_net_bytes_in rec, v1_net_bytes_out rec}.
              \<exists>i. f64_to_int x = Some i \<and> 0 \<le> i \<and> i \<le> js_safe_int))"

lemma v1_within_cap:
  assumes "v1_numeric_ok False (f64_mul (f64_div (f64_sub e s) (num k)) bnd) x" and "bound_ok bnd"
    and "f64_to_int s = Some a" "f64_to_int e = Some b" "a < b" "b - a \<le> 86400000"
    and "1000 \<le> k" "k \<le> 3600000"
  shows "v1_within x bnd (b - a) k"
proof -
  obtain c where c: "f64_to_int bnd = Some c" "1 \<le> c" "c \<le> 2 ^ 100" using assms(2) by (auto simp: bound_ok_def)
  have d: "f64_to_int (f64_sub e s) = Some (b - a)" using assms by (intro f64_sub_exact) auto
  have "1 \<le> b - a" using assms(5) by simp
  note cap = v1_cap_close [OF c d this assms(6-8)]
  have x: "f64_finite x" "0 \<le> f64_val x" "\<not> f64_lt (f64_mul (f64_div (f64_sub e s) (num k)) bnd) x"
    using assms(1) by (auto simp: v1_numeric_ok_def metric_ok_iff)
  then have "f64_val x \<le> f64_val (f64_mul (f64_div (f64_sub e s) (num k)) bnd)"
    using cap(1) by (simp add: f64_lt_val)
  also note cap(2)
  finally show ?thesis using x c by (simp add: v1_within_def)
qed

lemma v1_rules_spec:
  assumes "v1_rules b now last_start rec" and "bounds_ok b"
  shows "v1_spec b now last_start rec"
proof -
  obtain s e where se: "f64_to_int (v1_period_start rec) = Some s" "f64_to_int (v1_period_end rec) = Some e"
    "s < e" "e - s \<le> 86400000"
    using assms(1) by (auto simp: v1_rules_def period_ok_def)
  have "0 \<le> i" if "f64_to_int x = Some i" "0 \<le> f64_val x" for x i
    using f64_to_int_SomeD(2) [OF that(1)] that(2) by simp
  then have ints: "\<exists>i. f64_to_int x = Some i \<and> 0 \<le> i \<and> i \<le> js_safe_int"
    if "v1_numeric_ok True JS_SAFE_INT x" for x
    using that by (auto simp: v1_numeric_ok_def metric_ok_iff)
  note within = v1_within_cap [OF _ _ se(1,2,3,4)]
  show ?thesis
    using assms se within [of 1000] within [of 3600000] ints
    unfolding v1_spec_def Let_def v1_rules_def bounds_ok_def v1_cap_def
    by simp
qed

section \<open>Properties\<close>

lemma lift_v1_Inr: "lift_v1 r = Inr a \<longleftrightarrow> r = Inr a"
  by (auto simp: lift_v1_def split: sum.splits validate_err.splits)

lemma lift_raise_Inr: "lift_raise r = Inr a \<longleftrightarrow> r = Inr a"
  by (cases r) (auto simp: lift_raise_def)

text \<open>The signature check succeeds exactly when the verifier says so over decoded hexadecimal.\<close>

definition v1_signed :: "polkadot \<Rightarrow> bytes \<Rightarrow> jsstring \<Rightarrow> jsstring \<Rightarrow> bool" where
  "v1_signed P body pubkey sig \<longleftrightarrow>
     (\<exists>pk sg. hexToU8a P (js ''0x'' @ pubkey) = Some pk \<and> hexToU8a P (js ''0x'' @ sig) = Some sg
        \<and> signatureVerify P body sg (u8aToHex P pk) = Some True)"

lemma check_signature_v1_Inr: "check_signature_v1 P body pk sg = Inr u \<longleftrightarrow> v1_signed P body pk sg"
  by (auto simp: check_signature_v1_def v1_signed_def split: option.splits)

lemma validate_v1_Inr:
  assumes "f64_to_int nowMs = Some now" "0 \<le> now" "now \<le> 2 ^ 52" "f64_to_int lastMs = Some last_start"
  shows "validateComputeMeteringV1 P (Some b) nowMs lastMs raw = Inr ok \<longleftrightarrow>
    (\<exists>r. raw = JObj r \<and> v1_wire r (v1_record ok)) \<and> v1_rules b now last_start (v1_record ok)
    \<and> canonicalBody (v1_record ok) = Inr (v1_canonical_body ok)
    \<and> v1_signed P (v1_canonical_body ok) (v1_worker_pubkey (v1_record ok)) (v1_worker_signature (v1_record ok))
    \<and> v1_content_hash ok = sha256_hex (v1_canonical_body ok) \<and> v1_schema_hash ok = SCHEMA_HASH_HEX_V1"
  unfolding validateComputeMeteringV1_def Let_def option.case and_then_Inr_iff lift_v1_Inr lift_raise_Inr
    check_signature_v1_Inr parse_v1_Inr [OF assms]
  by (cases ok) auto

text \<open>The copy of the CBOR encoder in the version 1 schema file computes what the version 2
  encoder computes: a map of the same entries, where a number is an integer exactly when it
  is integral.\<close>

theorem v1_encoder_agrees:
  "encodeMap entries = encodeCbor (CMap (map (\<lambda>kv. (fst kv, v1_cbor (snd kv))) entries))"
  using encodeMap_eq [of entries] by (simp only: v1_map_def)

text \<open>C36: A version 1 record is accepted only if it follows the schema, is signed by its worker
  over the canonical body of exactly this record, and reports usage within the worker's
  registered bounds for the period, up to the rounding of three operations.\<close>

theorem v1_accept_sound:
  assumes "validateComputeMeteringV1 P (Some b) nowMs lastMs raw = Inr ok"
    and "f64_to_int nowMs = Some now" and "0 \<le> now" and "now \<le> 2 ^ 52"
    and "f64_to_int lastMs = Some last_start" and "bounds_ok b"
  shows "(\<exists>r. raw = JObj r \<and> v1_wire r (v1_record ok)) \<and> v1_spec b now last_start (v1_record ok)
    \<and> canonicalBody (v1_record ok) = Inr (v1_canonical_body ok)
    \<and> v1_signed P (v1_canonical_body ok) (v1_worker_pubkey (v1_record ok)) (v1_worker_signature (v1_record ok))
    \<and> v1_content_hash ok = sha256_hex (v1_canonical_body ok)"
  using assms(1) v1_rules_spec [OF _ assms(6)] unfolding validate_v1_Inr [OF assms(2-5)] by blast

definition sample_v1 :: metering_v1 where
  "sample_v1 =
     \<lparr>v1_worker_id = js ''pod-7'', v1_tenant_id = js ''acme'', v1_period_start = num 1000000,
      v1_period_end = num 4600000, v1_cpu_seconds = num 7000, v1_ram_gb_hours = num 8,
      v1_disk_gb_hours = num 1, v1_net_bytes_in = num 12, v1_net_bytes_out = num 34,
      v1_gpu_seconds = num 0, v1_worker_pubkey = sample_key, v1_worker_signature = sample_sig\<rparr>"

definition json_of_v1 :: "metering_v1 \<Rightarrow> json" where
  "json_of_v1 rec =
     JObj [(js ''schema_version'', JStr SCHEMA_VERSION_V1), (js ''worker_id'', JStr (v1_worker_id rec)),
           (js ''tenant_id'', JStr (v1_tenant_id rec)), (js ''period_start'', JNum (v1_period_start rec)),
           (js ''period_end'', JNum (v1_period_end rec)), (js ''cpu_seconds'', JNum (v1_cpu_seconds rec)),
           (js ''ram_gb_hours'', JNum (v1_ram_gb_hours rec)),
           (js ''disk_gb_hours'', JNum (v1_disk_gb_hours rec)),
           (js ''net_bytes_in'', JNum (v1_net_bytes_in rec)),
           (js ''net_bytes_out'', JNum (v1_net_bytes_out rec)),
           (js ''gpu_seconds'', JNum (v1_gpu_seconds rec)),
           (js ''worker_pubkey'', JStr (v1_worker_pubkey rec)),
           (js ''worker_signature'', JStr (v1_worker_signature rec))]"

lemma json_of_v1_wire: "\<exists>r. json_of_v1 rec = JObj r \<and> v1_wire r rec"
  by (simp add: json_of_v1_def v1_wire_def get_prop_def js_eq_iff)

lemma sample_v1_caps:
  "\<not> f64_lt (v1_cap DEFAULT_BOUNDS max_cpu_cores 1000 sample_v1) (num 7000)"
  "\<not> f64_lt (v1_cap DEFAULT_BOUNDS max_ram_gb 3600000 sample_v1) (num 8)"
  "\<not> f64_lt (v1_cap DEFAULT_BOUNDS max_disk_gb 3600000 sample_v1) (num 1)"
  "\<not> f64_lt (v1_cap DEFAULT_BOUNDS max_gpu_count 1000 sample_v1) (num 0)"
  by (simp_all add: v1_cap_def DEFAULT_BOUNDS_def sample_v1_def num_def f64_eval)

lemma sample_v1_rules: "v1_rules DEFAULT_BOUNDS 5000000 500000 sample_v1"
  using sample_v1_caps num_finite
  by (auto simp: v1_rules_def v1_numeric_ok_def metric_ok_iff num_to_int period_ok_def sample_hex
      js_safe_int_def ID_REGEX_def js_eval sample_v1_def v1_cap_def)

lemma sample_v1_body: "\<exists>body. canonicalBody sample_v1 = Inr body"
proof -
  have ints: "f64_is_integer (num i) \<and> encodable_int (num i)" if "\<bar>i\<bar> \<le> 2 ^ 52" for i
    using num_to_int [of i] that by (auto simp: f64_is_integer_def encodable_int_def js_safe_int_def)
  have "length (utf8_encode sample_key) \<le> 256"
    using length_utf8_encode [of sample_key] by (simp add: sample_key_def)
  then have "encodable (v1_map (v1_entries sample_v1))"
    using ints by (simp add: v1_map_def v1_entries_def sample_v1_def js_safe_int_def SCHEMA_VERSION_V1_def js_eval)
  then show ?thesis unfolding canonicalBody_eq using encodeCbor_ok by blast
qed

lemma sample_v1_accepted:
  "\<exists>ok. validateComputeMeteringV1 polkadot_sample (Some DEFAULT_BOUNDS) (num 5000000) (num 500000)
     (json_of_v1 sample_v1) = Inr ok"
proof -
  obtain body where body: "canonicalBody sample_v1 = Inr body" using sample_v1_body by blast
  have round: "bytes_to_hex (hex_to_bytes sample_sig) = sample_sig" "bytes_to_hex (hex_to_bytes sample_key) = sample_key"
    using sample_hex hex_bytes_round by (auto simp: re_lower_hex_def)
  then have "v1_signed polkadot_sample body sample_key sample_sig"
    by (simp add: v1_signed_def polkadot_sample_def js_eval sample_sig_def)
  then have sig: "v1_signed polkadot_sample body (v1_worker_pubkey sample_v1) (v1_worker_signature sample_v1)"
    by (simp add: sample_v1_def)
  let ?ok = "\<lparr>v1_record = sample_v1, v1_content_hash = sha256_hex body, v1_schema_hash = SCHEMA_HASH_HEX_V1,
      v1_canonical_body = body\<rparr>"
  have "validateComputeMeteringV1 polkadot_sample (Some DEFAULT_BOUNDS) (num 5000000) (num 500000)
      (json_of_v1 sample_v1) = Inr ?ok"
    using validate_v1_Inr [OF sample_ints(1) _ _ sample_ints(2), of polkadot_sample DEFAULT_BOUNDS
        "json_of_v1 sample_v1" ?ok] json_of_v1_wire [of sample_v1] sample_v1_rules body sig by simp
  then show ?thesis by blast
qed

theorem v1_accept_sound_witness:
  "\<exists>ok. validateComputeMeteringV1 polkadot_sample (Some DEFAULT_BOUNDS) (num 5000000) (num 500000)
     (json_of_v1 sample_v1) = Inr ok \<and> v1_spec DEFAULT_BOUNDS 5000000 500000 (v1_record ok)"
proof -
  obtain ok where ok: "validateComputeMeteringV1 polkadot_sample (Some DEFAULT_BOUNDS) (num 5000000)
      (num 500000) (json_of_v1 sample_v1) = Inr ok"
    using sample_v1_accepted by blast
  with v1_accept_sound [OF ok sample_ints(1) _ _ sample_ints(2) bounds_ok_default] show ?thesis by simp
qed

text \<open>The version 1 content hash binds identifiers, period, every metric and the worker's key:
  two accepted records with one hash agree in all of them, or their canonical bodies are a
  SHA-256 collision.\<close>

theorem v1_content_hash_binds:
  assumes "validateComputeMeteringV1 P (Some b) nowMs lastMs raw = Inr ok"
    and "validateComputeMeteringV1 P (Some b') nowMs lastMs' raw' = Inr ok'"
    and "v1_content_hash ok = v1_content_hash ok'"
    and "f64_to_int nowMs = Some now" and "0 \<le> now" and "now \<le> 2 ^ 52"
    and "f64_to_int lastMs = Some l" and "f64_to_int lastMs' = Some l'"
  shows "same_v1 (v1_record ok) (v1_record ok') \<or> sha_collision (v1_canonical_body ok) (v1_canonical_body ok')"
proof -
  note a = assms(1) [unfolded validate_v1_Inr [OF assms(4-7)]]
  note c = assms(2) [unfolded validate_v1_Inr [OF assms(4-6,8)]]
  have "sha256 (v1_canonical_body ok) = sha256 (v1_canonical_body ok')"
    using a c assms(3) by (simp flip: sha256_hex_eq)
  then consider "v1_canonical_body ok = v1_canonical_body ok'"
    | "sha_collision (v1_canonical_body ok) (v1_canonical_body ok')" by (auto dest: sha256_eqD)
  then show ?thesis
  proof cases
    case 1
    then have "canonicalBody (v1_record ok) = Inr (v1_canonical_body ok)"
      "canonicalBody (v1_record ok') = Inr (v1_canonical_body ok)" using a c by simp_all
    then show ?thesis using v1_body_binds a c by blast
  qed simp
qed

theorem v1_content_hash_binds_witness:
  "\<exists>ok. validateComputeMeteringV1 polkadot_sample (Some DEFAULT_BOUNDS) (num 5000000) (num 500000)
     (json_of_v1 sample_v1) = Inr ok
     \<and> (same_v1 (v1_record ok) (v1_record ok) \<or> sha_collision (v1_canonical_body ok) (v1_canonical_body ok))"
proof -
  obtain ok where ok: "validateComputeMeteringV1 polkadot_sample (Some DEFAULT_BOUNDS) (num 5000000)
      (num 500000) (json_of_v1 sample_v1) = Inr ok"
    using sample_v1_accepted by blast
  from v1_content_hash_binds [OF ok ok refl sample_ints(1) _ _ sample_ints(2) sample_ints(2)] ok
  show ?thesis by auto
qed

text \<open>A version 1 signature never serves for version 2: no canonical body is an initial part
  of a worker or fleet-operator pre-image, or the other way round.\<close>

theorem v1_v2_separation:
  assumes "canonicalBody rec1 = Inr a"
    and "canonicalCborForWorkerSig P rec ev = Inr b \<or> canonicalCborForFleetOpSig P w hw = Inr b"
  shows "\<not> (\<exists>r. b = a @ r) \<and> \<not> (\<exists>r. a = b @ r)"
proof -
  have v: "encodeCbor (v1_map (v1_entries rec1)) = Inr a" using assms(1) by (simp add: canonicalBody_eq)
  obtain u xs where u: "encodeCbor u = Inr b" and un: "cbor_norm u = NArray xs"
    using assms(2) by (metis fleet_pre_image_head worker_pre_image_head)
  have "a @ r \<noteq> b @ s" for r s
    using encodeCbor_prefix_free(1) [OF v u, of r s] un by (auto simp: v1_norm)
  from this [of _ "[]"] this [of "[]"] show ?thesis by auto
qed

theorem v1_v2_separation_witness:
  "\<exists>a b. canonicalBody sample_v1 = Inr a \<and> canonicalCborForWorkerSig polkadot_sample sample_v2 None = Inr b
     \<and> \<not> (\<exists>r. b = a @ r)"
proof -
  have i: "f64_to_int (issued_ms (v2_hardware_spec sample_v2)) = Some 900000" "900000 \<le> js_safe_int"
    using num_to_int [of 900000] by (simp_all add: sample_v2_def js_safe_int_def)
  obtain a where a: "canonicalBody sample_v1 = Inr a" using sample_v1_body by blast
  obtain b where b: "canonicalCborForWorkerSig polkadot_sample sample_v2 None = Inr b"
    using pre_images_encode(2) [OF polkadot_sample_hex sample_rules _ i] by auto
  from v1_v2_separation [OF a disjI1 [OF b]] a b show ?thesis by blast
qed

end
