(* ===== verification/WorkerBounds.thy ===== *)
theory WorkerBounds
  imports MeteringV1
begin

text \<open>
  The metering database of \<open>worker_bounds.ts\<close>: hardware bounds per worker, the last submission of
  each worker, and the billing rows with their paged query.  A handle that is not initialised
  is \<open>None\<close>.  Columns that only ever hold integral numbers and are compared are \<open>int\<close>.
\<close>

section \<open>Tables\<close>

record bounds_row =
  br_worker_id :: jsstring
  br_bounds :: worker_bounds
  br_created_at :: int
  br_updated_at :: int

record state_row =
  sr_worker_id :: jsstring
  sr_last_period_start :: int
  sr_last_content_hash :: "jsstring option"
  sr_last_seen_at :: int

record metering_row =
  m_content_hash :: jsstring
  m_tenant_id :: jsstring
  m_worker_id :: jsstring
  m_period_start_ms :: int
  m_period_end_ms :: int
  m_cpu_seconds :: f64
  m_ram_gb_hours :: f64
  m_disk_gb_hours :: f64
  m_net_bytes_in :: f64
  m_net_bytes_out :: f64
  m_gpu_seconds :: f64
  m_submitted_at_ms :: int

record metering_db =
  bounds_table :: "bounds_row list"
  state_table :: "state_row list"
  submissions :: "metering_row list"

definition empty_metering_db :: metering_db where
  "empty_metering_db = \<lparr>bounds_table = [], state_table = [], submissions = []\<rparr>"

section \<open>Bounds\<close>

definition getWorkerBounds :: "jsstring \<Rightarrow> metering_db option \<Rightarrow> worker_bounds" where
  "getWorkerBounds workerId db =
     (case db of
        None \<Rightarrow> DEFAULT_BOUNDS
      | Some d \<Rightarrow>
          (case sql_get (\<lambda>r. br_worker_id r = workerId) (bounds_table d) of
             None \<Rightarrow> DEFAULT_BOUNDS
           | Some r \<Rightarrow> br_bounds r))"

datatype metering_db_error = DbNotInitialised | BadBound

definition positive_integer :: "f64 \<Rightarrow> bool" where
  "positive_integer x \<longleftrightarrow> f64_is_integer x \<and> \<not> f64_le x (num 0)"

definition upsertWorkerBounds ::
  "jsstring \<Rightarrow> worker_bounds \<Rightarrow> int \<Rightarrow> metering_db option \<Rightarrow> metering_db_error + metering_db option" where
  "upsertWorkerBounds workerId bounds now db =
     (case db of
        None \<Rightarrow> Inl DbNotInitialised
      | Some d \<Rightarrow>
          if \<not> (positive_integer (max_cpu_cores bounds) \<and> positive_integer (max_ram_gb bounds)
               \<and> positive_integer (max_disk_gb bounds) \<and> positive_integer (max_gpu_count bounds))
          then Inl BadBound
          else Inr (Some (d\<lparr>bounds_table := sql_upsert br_worker_id
                 (\<lambda>old new. old\<lparr>br_bounds := br_bounds new, br_updated_at := br_updated_at new\<rparr>)
                 \<lparr>br_worker_id = workerId, br_bounds = bounds, br_created_at = now, br_updated_at = now\<rparr>
                 (bounds_table d)\<rparr>)))"

section \<open>Last submission of a worker\<close>

definition getLastPeriodStart :: "jsstring \<Rightarrow> metering_db option \<Rightarrow> int" where
  "getLastPeriodStart workerId db =
     (case db of
        None \<Rightarrow> 0
      | Some d \<Rightarrow>
          (case sql_get (\<lambda>r. sr_worker_id r = workerId) (state_table d) of
             None \<Rightarrow> 0
           | Some r \<Rightarrow> sr_last_period_start r))"

definition recordWorkerSubmission ::
  "jsstring \<Rightarrow> int \<Rightarrow> jsstring \<Rightarrow> int \<Rightarrow> metering_db option \<Rightarrow> metering_db_error + metering_db option" where
  "recordWorkerSubmission workerId periodStart contentHash now db =
     (case db of
        None \<Rightarrow> Inl DbNotInitialised
      | Some d \<Rightarrow> Inr (Some (d\<lparr>state_table := sql_upsert sr_worker_id
          (\<lambda>old new. old\<lparr>sr_last_period_start := sr_last_period_start new,
                         sr_last_content_hash := sr_last_content_hash new, sr_last_seen_at := sr_last_seen_at new\<rparr>)
          \<lparr>sr_worker_id = workerId, sr_last_period_start = periodStart, sr_last_content_hash = Some contentHash,
           sr_last_seen_at = now\<rparr> (state_table d)\<rparr>)))"

definition isReplayedContent :: "jsstring \<Rightarrow> jsstring \<Rightarrow> metering_db option \<Rightarrow> bool" where
  "isReplayedContent workerId contentHash db =
     (case db of
        None \<Rightarrow> False
      | Some d \<Rightarrow>
          (case sql_get (\<lambda>r. sr_worker_id r = workerId) (state_table d) of
             None \<Rightarrow> False
           | Some r \<Rightarrow> sr_last_content_hash r = Some contentHash))"

section \<open>Billing rows\<close>

definition recordMeteringSubmission ::
  "metering_row \<Rightarrow> metering_db option \<Rightarrow> metering_db_error + metering_db option" where
  "recordMeteringSubmission row db =
     (case db of
        None \<Rightarrow> Inl DbNotInitialised
      | Some d \<Rightarrow> Inr (Some (d\<lparr>submissions := sql_insert_or_ignore m_content_hash row (submissions d)\<rparr>)))"

record metering_query =
  q_tenant_id :: jsstring
  q_start_ms :: int
  q_end_ms :: int
  q_limit :: nat
  q_after :: "(int \<times> jsstring) option"

text \<open>The order \<open>(period_start_ms ASC, content_hash ASC)\<close>; text compares by its UTF-8 octets.\<close>

definition cmp_cursor :: "int \<times> jsstring \<Rightarrow> int \<times> jsstring \<Rightarrow> int" where
  "cmp_cursor a b = (if fst a \<noteq> fst b then fst a - fst b else cmpBytes (utf8_encode (snd a)) (utf8_encode (snd b)))"

definition row_cursor :: "metering_row \<Rightarrow> int \<times> jsstring" where
  "row_cursor r = (m_period_start_ms r, m_content_hash r)"

definition cmp_row :: "metering_row \<Rightarrow> metering_row \<Rightarrow> int" where
  "cmp_row a b = cmp_cursor (row_cursor a) (row_cursor b)"

definition in_window :: "metering_query \<Rightarrow> metering_row \<Rightarrow> bool" where
  "in_window q r \<longleftrightarrow> m_tenant_id r = q_tenant_id q \<and> q_start_ms q \<le> m_period_start_ms r
     \<and> m_period_start_ms r < q_end_ms q"

definition after_cursor :: "(int \<times> jsstring) option \<Rightarrow> metering_row \<Rightarrow> bool" where
  "after_cursor c r = (case c of None \<Rightarrow> True | Some k \<Rightarrow> 0 < cmp_cursor (row_cursor r) k)"

definition getMeteringSubmissions :: "metering_query \<Rightarrow> metering_db option \<Rightarrow> metering_row list" where
  "getMeteringSubmissions q db =
     (case db of
        None \<Rightarrow> []
      | Some d \<Rightarrow>
          take (q_limit q)
            (js_sort cmp_row (filter (\<lambda>r. in_window q r \<and> after_cursor (q_after q) r) (submissions d))))"

section \<open>Paging\<close>

interpretation cursor_order: comparator cmp_cursor
proof unfold_locales
  fix x y z :: "int \<times> jsstring"
  show "cmp_cursor x y \<le> 0 \<longleftrightarrow> 0 \<le> cmp_cursor y x"
    using bytes_order.cmp_flip [of "utf8_encode (snd x)" "utf8_encode (snd y)"] by (auto simp: cmp_cursor_def)
  show "cmp_cursor x y \<le> 0 \<Longrightarrow> cmp_cursor y z \<le> 0 \<Longrightarrow> cmp_cursor x z \<le> 0"
    using bytes_order.cmp_trans [of "utf8_encode (snd x)" "utf8_encode (snd y)" "utf8_encode (snd z)"]
    by (auto simp: cmp_cursor_def split: if_splits)
qed

interpretation row_order: comparator cmp_row
proof unfold_locales
  fix x y z :: metering_row
  show "cmp_row x y \<le> 0 \<longleftrightarrow> 0 \<le> cmp_row y x" unfolding cmp_row_def by (rule cursor_order.cmp_flip)
  show "cmp_row x y \<le> 0 \<Longrightarrow> cmp_row y z \<le> 0 \<Longrightarrow> cmp_row x z \<le> 0"
    unfolding cmp_row_def by (rule cursor_order.cmp_trans)
qed

text \<open>What the routes put in the table: content hashes are hexadecimal and unique.\<close>

definition submissions_ok :: "metering_row list \<Rightarrow> bool" where
  "submissions_ok t \<longleftrightarrow> unique_key m_content_hash t \<and> (\<forall>r \<in> set t. re_lower_hex 64 (m_content_hash r))"

lemma cmp_row_zero:
  assumes "submissions_ok t" "a \<in> set t" "b \<in> set t" "cmp_row a b = 0"
  shows "a = b"
proof -
  have "utf8_encode (m_content_hash a) = utf8_encode (m_content_hash b)"
    using assms(4) by (auto simp: cmp_row_def cmp_cursor_def row_cursor_def cmpBytes_zero split: if_splits)
  moreover have "list_all (\<lambda>c. c < 0x80) (m_content_hash r)" if "r \<in> set t" for r
    using assms(1) that hex_ascii by (auto simp: submissions_ok_def)
  ultimately have "m_content_hash a = m_content_hash b"
    using ascii_utf8_inj assms(2,3) by blast
  then show ?thesis
    using assms(1-3) by (auto simp: submissions_ok_def unique_key_def distinct_map dest: inj_onD)
qed

definition matching :: "metering_query \<Rightarrow> metering_row list \<Rightarrow> metering_row list" where
  "matching q t = js_sort cmp_row (filter (\<lambda>r. in_window q r \<and> after_cursor (q_after q) r) t)"

lemma get_matching: "getMeteringSubmissions q (Some d) = take (q_limit q) (matching q (submissions d))"
  by (simp add: getMeteringSubmissions_def matching_def)

lemma set_matching: "set (matching q t) = {r \<in> set t. in_window q r \<and> after_cursor (q_after q) r}"
  by (simp add: matching_def)

lemma mset_matching:
  "mset (matching q t) = filter_mset (\<lambda>r. in_window q r \<and> after_cursor (q_after q) r) (mset t)"
  by (simp add: matching_def)

lemma length_matching:
  "length (matching q t) = length (filter (\<lambda>r. in_window q r \<and> after_cursor (q_after q) r) t)"
  by (simp add: matching_def)

lemma after_trans:
  assumes "after_cursor c r" "after_cursor (Some (row_cursor r)) s"
  shows "after_cursor c s"
proof (cases c)
  case (Some k)
  have "cmp_cursor (row_cursor s) k \<le> 0 \<Longrightarrow> cmp_cursor (row_cursor r) k \<le> 0"
    using assms(2) cursor_order.cmp_trans [of "row_cursor r" "row_cursor s" k]
      cursor_order.cmp_flip [of "row_cursor r" "row_cursor s"] by (simp add: after_cursor_def)
  then show ?thesis using assms(1) Some by (fastforce simp: after_cursor_def)
qed (simp add: after_cursor_def)

lemma after_self: "\<not> after_cursor (Some (row_cursor r)) r"
  using cursor_order.cmp_refl by (simp add: after_cursor_def)

lemma length_filter_less:
  "(\<And>x. P x \<Longrightarrow> Q x) \<Longrightarrow> a \<in> set xs \<Longrightarrow> Q a \<Longrightarrow> \<not> P a \<Longrightarrow> length (filter P xs) < length (filter Q xs)"
proof (induction xs)
  case (Cons x xs)
  have le: "length (filter P xs) \<le> length (filter Q xs)"
    using Cons.prems(1) by (induction xs) (auto intro: le_SucI)
  show ?case
  proof (cases "x = a")
    case True
    with Cons.prems le show ?thesis by (auto simp: le_imp_less_Suc)
  next
    case False
    with Cons show ?thesis by (cases "P x"; cases "Q x") auto
  qed
qed simp

lemma matching_decreases:
  assumes "take n (matching q t) \<noteq> []"
  shows "length (matching (q\<lparr>q_after := Some (row_cursor (last (take n (matching q t))))\<rparr>) t)
    < length (matching q t)"
proof -
  let ?l = "last (take n (matching q t))"
  have l: "?l \<in> set (matching q t)" using assms last_in_set in_set_takeD by metis
  then have "?l \<in> set t" "in_window q ?l" "after_cursor (q_after q) ?l" by (auto simp: set_matching)
  then show ?thesis
    unfolding length_matching
    by (intro length_filter_less [where a = ?l])
      (auto simp: after_self in_window_def intro: after_trans)
qed

text \<open>
  A client that follows the cursors: it asks for the rows after the last one it got until a page
  is not full (\<open>buildNextCursor\<close> then answers null).
\<close>

function all_pages :: "metering_query \<Rightarrow> metering_db \<Rightarrow> metering_row list" where
  "all_pages q d =
     (let page = getMeteringSubmissions q (Some d)
      in if length page < q_limit q \<or> page = [] then page
         else page @ all_pages (q\<lparr>q_after := Some (row_cursor (last page))\<rparr>) d)"
  by pat_completeness auto
termination
proof (relation "measure (\<lambda>(q, d). length (matching q (submissions d)))", goal_cases)
  case (2 q d page)
  then have "take (q_limit q) (matching q (submissions d)) \<noteq> []" by (simp add: get_matching)
  from matching_decreases [OF this] 2(1) show ?case by (simp add: get_matching)
qed simp

declare all_pages.simps [simp del]

lemma sorted_wrt_strict:
  assumes "sorted_wrt R xs" "distinct xs" "\<And>a b. a \<in> set xs \<Longrightarrow> b \<in> set xs \<Longrightarrow> a \<noteq> b \<Longrightarrow> R a b \<Longrightarrow> S a b"
  shows "sorted_wrt S xs"
  using assms by (induction xs) auto

lemma matching_strict:
  assumes "submissions_ok t"
  shows "sorted_wrt (\<lambda>a b. cmp_row a b < 0) (matching q t)"
proof (rule sorted_wrt_strict)
  show "sorted_wrt (\<lambda>a b. cmp_row a b \<le> 0) (matching q t)" unfolding matching_def by (rule row_order.sorted_sort)
  have "distinct t" using assms by (simp add: submissions_ok_def unique_key_def distinct_map)
  then have "distinct (filter (\<lambda>r. in_window q r \<and> after_cursor (q_after q) r) t)" by simp
  then show "distinct (matching q t)"
    unfolding matching_def by (metis mset_js_sort mset_eq_imp_distinct_iff)
  fix a b assume "a \<in> set (matching q t)" "b \<in> set (matching q t)" "a \<noteq> b" "cmp_row a b \<le> 0"
  then show "cmp_row a b < 0" using cmp_row_zero [OF assms] by (fastforce simp: set_matching)
qed

lemma drop_after:
  assumes "sorted_wrt (\<lambda>a b. cmp_row a b < 0) xs" "0 < n" "n \<le> length xs"
  shows "filter (after_cursor (Some (row_cursor (xs ! (n - 1))))) xs = drop n xs"
proof -
  let ?c = "after_cursor (Some (row_cursor (xs ! (n - 1))))"
  have split: "xs = take n xs @ drop n xs" by simp
  have later: "?c r" if "r \<in> set (drop n xs)" for r
  proof -
    from that obtain i where "r = xs ! (n + i)" "n + i < length xs"
      by (metis in_set_conv_nth length_drop less_diff_conv add.commute nth_drop assms(3))
    then have "cmp_row (xs ! (n - 1)) r < 0" using assms by (auto simp: sorted_wrt_iff_nth_less)
    then show ?thesis
      using cursor_order.cmp_flip [of "row_cursor r" "row_cursor (xs ! (n - 1))"]
      by (fastforce simp: after_cursor_def cmp_row_def)
  qed
  have earlier: "\<not> ?c r" if "r \<in> set (take n xs)" for r
  proof -
    from that obtain i where i: "r = xs ! i" "i < n" by (auto simp: in_set_conv_nth)
    then have "cmp_row r (xs ! (n - 1)) \<le> 0"
      using assms row_order.cmp_refl by (cases "i = n - 1") (auto simp: sorted_wrt_iff_nth_less less_imp_le)
    then show ?thesis by (simp add: after_cursor_def cmp_row_def)
  qed
  have "filter ?c (take n xs) = []" "filter ?c (drop n xs) = drop n xs"
    using later earlier by (simp_all add: filter_empty_conv filter_id_conv)
  then show ?thesis by (metis split filter_append self_append_conv2)
qed

lemma matching_after:
  assumes "submissions_ok t" "0 < n" "n \<le> length (matching q t)"
  shows "matching (q\<lparr>q_after := Some (row_cursor (matching q t ! (n - 1)))\<rparr>) t = drop n (matching q t)"
proof -
  let ?L = "matching q t" let ?k = "row_cursor (?L ! (n - 1))" let ?q = "q\<lparr>q_after := Some ?k\<rparr>"
  have in_L: "after_cursor (q_after q) (?L ! (n - 1))"
    using assms(2,3) nth_mem [of "n - 1" ?L] by (auto simp: set_matching)
  have pred: "in_window ?q r \<and> after_cursor (q_after ?q) r \<longleftrightarrow>
      after_cursor (Some ?k) r \<and> in_window q r \<and> after_cursor (q_after q) r" for r
    using after_trans [OF in_L] by (auto simp: in_window_def)
  have "mset (matching ?q t) =
      filter_mset (\<lambda>r. after_cursor (Some ?k) r \<and> in_window q r \<and> after_cursor (q_after q) r) (mset t)"
    unfolding mset_matching by (rule filter_mset_cong) (use pred in auto)
  also have "\<dots> = mset (filter (after_cursor (Some ?k)) ?L)"
    unfolding mset_filter mset_matching filter_filter_mset by (rule filter_mset_cong) auto
  finally have "mset (matching ?q t) = mset (filter (after_cursor (Some ?k)) ?L)" .
  moreover have "sorted_wrt (\<lambda>a b. cmp_row a b < 0) (filter (after_cursor (Some ?k)) ?L)"
    using matching_strict [OF assms(1)] by (rule sorted_wrt_filter)
  then have "sorted_wrt (\<lambda>a b. cmp_row a b \<le> 0) (filter (after_cursor (Some ?k)) ?L)"
    by (rule sorted_wrt_mono_rel [rotated]) simp
  ultimately have "matching ?q t = filter (after_cursor (Some ?k)) ?L"
    by (intro row_order.sorted_unique)
      (auto simp: matching_def row_order.sorted_sort intro: cmp_row_zero [OF assms(1)])
  then show ?thesis using drop_after [OF matching_strict [OF assms(1)] assms(2,3)] by simp
qed

text \<open>Following the cursors terminates and returns every billing row of the tenant whose period
  starts in the window exactly once, ordered by period start and content hash, whatever page
  size of at least one is used.\<close>

theorem pages_complete:
  assumes "submissions_ok (submissions d)" "0 < q_limit q" "q_after q = None"
  shows "all_pages q d = js_sort cmp_row (filter (in_window q) (submissions d))
    \<and> distinct (map m_content_hash (all_pages q d))"
proof -
  have gen: "all_pages q d = matching q (submissions d)" if "0 < q_limit q" "submissions_ok (submissions d)" for q d
    using that
  proof (induction q d rule: all_pages.induct)
    case (1 q d)
    let ?L = "matching q (submissions d)"
    show ?case
    proof (cases "length ?L < q_limit q")
      case True
      then show ?thesis by (subst all_pages.simps) (simp add: get_matching Let_def)
    next
      case False
      let ?q = "q\<lparr>q_after := Some (row_cursor (?L ! (q_limit q - 1)))\<rparr>"
      have page: "getMeteringSubmissions q (Some d) = take (q_limit q) ?L" by (rule get_matching)
      have ne: "take (q_limit q) ?L \<noteq> []" and len: "\<not> length (take (q_limit q) ?L) < q_limit q"
        using False "1.prems" by auto
      have last: "last (take (q_limit q) ?L) = ?L ! (q_limit q - 1)"
        using False ne "1.prems" by (simp add: last_conv_nth)
      have "all_pages ?q d = matching ?q (submissions d)"
        using "1.IH" [OF page [symmetric]] ne len last "1.prems" by simp
      also have "\<dots> = drop (q_limit q) ?L"
        using False "1.prems" by (intro matching_after) simp_all
      finally show ?thesis
        using ne len last by (subst all_pages.simps) (simp add: page Let_def)
    qed
  qed
  have all: "all_pages q d = js_sort cmp_row (filter (in_window q) (submissions d))"
    using gen [OF assms(2,1)] assms(3) by (simp add: matching_def after_cursor_def)
  have "distinct (map m_content_hash (filter (in_window q) (submissions d)))"
    using assms(1) by (simp add: submissions_ok_def unique_key_def distinct_map_filter)
  then have "distinct (map m_content_hash (all_pages q d))"
    unfolding all by (metis mset_js_sort mset_map mset_eq_imp_distinct_iff)
  then show ?thesis using all by simp
qed


definition sample_row :: "jsstring \<Rightarrow> int \<Rightarrow> metering_row" where
  "sample_row h p = \<lparr>m_content_hash = h, m_tenant_id = js ''acme'', m_worker_id = js ''w-01'', m_period_start_ms = p,
     m_period_end_ms = p + 1000, m_cpu_seconds = num 1, m_ram_gb_hours = num 0, m_disk_gb_hours = num 0,
     m_net_bytes_in = num 5, m_net_bytes_out = num 6, m_gpu_seconds = num 0, m_submitted_at_ms = p + 2000\<rparr>"

definition sample_db :: metering_db where
  "sample_db = empty_metering_db\<lparr>submissions :=
     [sample_row (replicate 64 0x62) 30, sample_row (replicate 64 0x61) 10, sample_row (replicate 64 0x63) 99]\<rparr>"

definition sample_query :: metering_query where
  "sample_query = \<lparr>q_tenant_id = js ''acme'', q_start_ms = 10, q_end_ms = 99, q_limit = 1, q_after = None\<rparr>"

theorem pages_complete_witness:
  "all_pages sample_query sample_db = [sample_row (replicate 64 0x61) 10, sample_row (replicate 64 0x62) 30]"
proof -
  have "re_lower_hex 64 (replicate 64 c)" if "is_lower_hex c" for c using that by (rule re_lower_hex_replicate)
  then have "submissions_ok (submissions sample_db)"
    by (simp add: submissions_ok_def sample_db_def sample_row_def unique_key_def char_class_defs)
  from pages_complete [OF this, of sample_query] show ?thesis
    by (simp add: sample_query_def sample_db_def sample_row_def in_window_def cmp_row_def cmp_cursor_def row_cursor_def)
qed

end
