(* ===== verification/Registries.thy ===== *)
theory Registries
  imports JsStrings
begin

text \<open>
  The three key registries administrators maintain: \<open>fleet_operators.ts\<close>, \<open>observers.ts\<close> and
  \<open>attestation_evidence_attestors.ts\<close>.  A database handle that is not initialised is \<open>None\<close>.
  The contract the metering and evidence routes rely on, that a revoked key stays revoked
  whatever else happens to the registry, is proved once in a locale and instantiated three
  times.
\<close>

section \<open>Rows and keys\<close>

record registry_row =
  row_id :: nat
  pubkey_hex :: jsstring
  label :: "jsstring option"
  registered_at :: int
  revoked_at :: "int option"
  row_notes :: "jsstring option"

record attestor_row = registry_row +
  sig_algo :: jsstring

text \<open>A table with an autoincremented id: its rows and the next id.\<close>

record 'r table =
  rows :: "'r list"
  next_id :: nat

definition empty_table :: "'r table" where "empty_table = \<lparr>rows = [], next_id = 1\<rparr>"

datatype registry_error = NotInitialised | BadPubkey | BadSigAlgo | UniqueViolation

definition normalizePubkey :: "jsstring \<Rightarrow> jsstring" where
  "normalizePubkey input =
     to_lower (if starts_with input (js ''0x'') \<or> starts_with input (js ''0X'') then drop 2 input else input)"

text \<open>\<open>input.label ? String(input.label).slice(0, n) : null\<close>\<close>

definition clip :: "nat \<Rightarrow> jsstring option \<Rightarrow> jsstring option" where
  "clip n s = (case s of None \<Rightarrow> None | Some t \<Rightarrow> if t = [] then None else Some (take n t))"

record register_input =
  in_pubkey :: jsstring
  in_label :: "jsstring option"
  in_notes :: "jsstring option"

text \<open>The SQL statements, for a row that extends \<open>registry_row\<close>.\<close>

definition insert_row ::
  "'a registry_row_scheme \<Rightarrow> 'a registry_row_scheme table \<Rightarrow> 'a registry_row_scheme table option" where
  "insert_row r t =
     map_option (\<lambda>rs. \<lparr>rows = rs, next_id = Suc (next_id t)\<rparr>) (sql_insert pubkey_hex r (rows t))"

definition is_live :: "jsstring \<Rightarrow> 'a registry_row_scheme \<Rightarrow> bool" where
  "is_live k r \<longleftrightarrow> pubkey_hex r = k \<and> revoked_at r = None"

definition revoke_row ::
  "jsstring \<Rightarrow> int \<Rightarrow> 'a registry_row_scheme table \<Rightarrow> 'a registry_row_scheme table" where
  "revoke_row k now t = t\<lparr>rows := sql_update (is_live k) (revoked_at_update (\<lambda>_. Some now)) (rows t)\<rparr>"

definition cmp_newest :: "'a registry_row_scheme \<Rightarrow> 'a registry_row_scheme \<Rightarrow> int" where
  "cmp_newest a b =
     (if registered_at a \<noteq> registered_at b then registered_at b - registered_at a
      else int (row_id b) - int (row_id a))"

definition list_rows :: "bool \<Rightarrow> 'a registry_row_scheme table \<Rightarrow> 'a registry_row_scheme list" where
  "list_rows active t =
     js_sort cmp_newest (filter (\<lambda>r. active \<longrightarrow> revoked_at r = None) (rows t))"

section \<open>Fleet operators\<close>

type_synonym registry = "registry_row table option"

definition registerFleetOperator ::
  "register_input \<Rightarrow> int \<Rightarrow> registry \<Rightarrow> registry_error + registry_row \<times> registry" where
  "registerFleetOperator input now db =
     (case db of
        None \<Rightarrow> Inl NotInitialised
      | Some t \<Rightarrow>
          let normalized = normalizePubkey (in_pubkey input)
          in if \<not> re_lower_hex 64 normalized then Inl BadPubkey
             else let r = \<lparr>row_id = next_id t, pubkey_hex = normalized, label = clip 256 (in_label input),
                           registered_at = now, revoked_at = None, row_notes = clip 1024 (in_notes input)\<rparr>
                  in (case insert_row r t of
                        None \<Rightarrow> Inl UniqueViolation
                      | Some t' \<Rightarrow> Inr (r, Some t')))"

definition revokeFleetOperator :: "jsstring \<Rightarrow> int \<Rightarrow> registry \<Rightarrow> registry_error + bool \<times> registry" where
  "revokeFleetOperator pubkey now db =
     (case db of
        None \<Rightarrow> Inl NotInitialised
      | Some t \<Rightarrow>
          let k = normalizePubkey pubkey
          in Inr (0 < sql_count (is_live k) (rows t), Some (revoke_row k now t)))"

definition getFleetOperator :: "jsstring \<Rightarrow> registry \<Rightarrow> registry_row option" where
  "getFleetOperator pubkey db =
     (case db of
        None \<Rightarrow> None
      | Some t \<Rightarrow> sql_get (\<lambda>r. pubkey_hex r = normalizePubkey pubkey) (rows t))"

definition isFleetOperatorActive :: "jsstring \<Rightarrow> registry \<Rightarrow> bool" where
  "isFleetOperatorActive pubkey db =
     (case db of
        None \<Rightarrow> False
      | Some t \<Rightarrow> sql_get (is_live (normalizePubkey pubkey)) (rows t) \<noteq> None)"

definition listFleetOperators :: "bool \<Rightarrow> registry \<Rightarrow> registry_row list" where
  "listFleetOperators active db = (case db of None \<Rightarrow> [] | Some t \<Rightarrow> list_rows active t)"

section \<open>Observers\<close>

definition registerObserver ::
  "register_input \<Rightarrow> int \<Rightarrow> registry \<Rightarrow> registry_error + registry_row \<times> registry" where
  "registerObserver input now db =
     (case db of
        None \<Rightarrow> Inl NotInitialised
      | Some t \<Rightarrow>
          let normalized = normalizePubkey (in_pubkey input)
          in if \<not> re_lower_hex 64 normalized then Inl BadPubkey
             else let r = \<lparr>row_id = next_id t, pubkey_hex = normalized, label = clip 256 (in_label input),
                           registered_at = now, revoked_at = None, row_notes = clip 1024 (in_notes input)\<rparr>
                  in (case insert_row r t of
                        None \<Rightarrow> Inl UniqueViolation
                      | Some t' \<Rightarrow> Inr (r, Some t')))"

definition revokeObserver :: "jsstring \<Rightarrow> int \<Rightarrow> registry \<Rightarrow> registry_error + bool \<times> registry" where
  "revokeObserver pubkey now db =
     (case db of
        None \<Rightarrow> Inl NotInitialised
      | Some t \<Rightarrow>
          let k = normalizePubkey pubkey
          in Inr (0 < sql_count (is_live k) (rows t), Some (revoke_row k now t)))"

definition getObserver :: "jsstring \<Rightarrow> registry \<Rightarrow> registry_row option" where
  "getObserver pubkey db =
     (case db of
        None \<Rightarrow> None
      | Some t \<Rightarrow> sql_get (\<lambda>r. pubkey_hex r = normalizePubkey pubkey) (rows t))"

definition isObserverActive :: "jsstring \<Rightarrow> registry \<Rightarrow> bool" where
  "isObserverActive pubkey db =
     (case db of
        None \<Rightarrow> False
      | Some t \<Rightarrow> sql_get (is_live (normalizePubkey pubkey)) (rows t) \<noteq> None)"

definition listObservers :: "bool \<Rightarrow> registry \<Rightarrow> registry_row list" where
  "listObservers active db = (case db of None \<Rightarrow> [] | Some t \<Rightarrow> list_rows active t)"

section \<open>Evidence attestors\<close>

type_synonym attestors = "attestor_row table option"

definition SIG_ALGOS :: "jsstring list" where
  "SIG_ALGOS = [js ''sr25519'', js ''ed25519'', js ''secp256r1'']"

text \<open>\<open>input.sig_algo\<close> is an argument of its own; absent it is \<open>sr25519\<close>.\<close>

definition registerAttestationEvidenceAttestor ::
  "register_input \<Rightarrow> jsstring option \<Rightarrow> int \<Rightarrow> attestors \<Rightarrow> registry_error + attestor_row \<times> attestors" where
  "registerAttestationEvidenceAttestor input algo now db =
     (case db of
        None \<Rightarrow> Inl NotInitialised
      | Some t \<Rightarrow>
          let normalized = normalizePubkey (in_pubkey input);
              sigAlgo = (case algo of None \<Rightarrow> js ''sr25519'' | Some a \<Rightarrow> a)
          in if sigAlgo \<notin> set SIG_ALGOS then Inl BadSigAlgo
             else if \<not> re_lower_hex (if sigAlgo = js ''secp256r1'' then 66 else 64) normalized then Inl BadPubkey
             else let r = \<lparr>row_id = next_id t, pubkey_hex = normalized, label = clip 256 (in_label input),
                           registered_at = now, revoked_at = None, row_notes = clip 1024 (in_notes input),
                           sig_algo = sigAlgo\<rparr>
                  in (case insert_row r t of
                        None \<Rightarrow> Inl UniqueViolation
                      | Some t' \<Rightarrow> Inr (r, Some t')))"

definition revokeAttestationEvidenceAttestor ::
  "jsstring \<Rightarrow> int \<Rightarrow> attestors \<Rightarrow> registry_error + bool \<times> attestors" where
  "revokeAttestationEvidenceAttestor pubkey now db =
     (case db of
        None \<Rightarrow> Inl NotInitialised
      | Some t \<Rightarrow>
          let k = normalizePubkey pubkey
          in Inr (0 < sql_count (is_live k) (rows t), Some (revoke_row k now t)))"

definition getAttestationEvidenceAttestor :: "jsstring \<Rightarrow> attestors \<Rightarrow> attestor_row option" where
  "getAttestationEvidenceAttestor pubkey db =
     (case db of
        None \<Rightarrow> None
      | Some t \<Rightarrow> sql_get (\<lambda>r. pubkey_hex r = normalizePubkey pubkey) (rows t))"

definition isAttestationEvidenceAttestorActive :: "jsstring \<Rightarrow> attestors \<Rightarrow> bool" where
  "isAttestationEvidenceAttestorActive pubkey db =
     (case db of
        None \<Rightarrow> False
      | Some t \<Rightarrow> sql_get (is_live (normalizePubkey pubkey)) (rows t) \<noteq> None)"

definition getActiveAttestorSigAlgo :: "jsstring \<Rightarrow> attestors \<Rightarrow> jsstring option" where
  "getActiveAttestorSigAlgo pubkey db =
     (case db of
        None \<Rightarrow> None
      | Some t \<Rightarrow>
          (case sql_get (is_live (normalizePubkey pubkey)) (rows t) of
             None \<Rightarrow> None
           | Some r \<Rightarrow> if sig_algo r \<in> set SIG_ALGOS then Some (sig_algo r) else None))"

definition listAttestationEvidenceAttestors :: "bool \<Rightarrow> attestors \<Rightarrow> attestor_row list" where
  "listAttestationEvidenceAttestors active db = (case db of None \<Rightarrow> [] | Some t \<Rightarrow> list_rows active t)"

section \<open>Administrative requests\<close>

text \<open>
  A request that throws leaves the table as it was (one statement, one transaction); it is
  reported to the administrator as an error.
\<close>

datatype registry_op =
    Register register_input "jsstring option" int
  | Revoke jsstring int

fun fleet_step :: "registry_op \<Rightarrow> registry \<Rightarrow> registry" where
  "fleet_step (Register input algo now) db =
     (case registerFleetOperator input now db of Inl _ \<Rightarrow> db | Inr (_, db') \<Rightarrow> db')"
| "fleet_step (Revoke pk now) db =
     (case revokeFleetOperator pk now db of Inl _ \<Rightarrow> db | Inr (_, db') \<Rightarrow> db')"

fun observer_step :: "registry_op \<Rightarrow> registry \<Rightarrow> registry" where
  "observer_step (Register input algo now) db =
     (case registerObserver input now db of Inl _ \<Rightarrow> db | Inr (_, db') \<Rightarrow> db')"
| "observer_step (Revoke pk now) db =
     (case revokeObserver pk now db of Inl _ \<Rightarrow> db | Inr (_, db') \<Rightarrow> db')"

fun attestor_step :: "registry_op \<Rightarrow> attestors \<Rightarrow> attestors" where
  "attestor_step (Register input algo now) db =
     (case registerAttestationEvidenceAttestor input algo now db of Inl _ \<Rightarrow> db | Inr (_, db') \<Rightarrow> db')"
| "attestor_step (Revoke pk now) db =
     (case revokeAttestationEvidenceAttestor pk now db of Inl _ \<Rightarrow> db | Inr (_, db') \<Rightarrow> db')"

section \<open>The contract of a revocable registry\<close>

text \<open>
  \<open>key\<close> is the normal form of a key, \<open>known\<close> says that it has a row, \<open>active\<close> is the check the
  routes call, and a step is any administrative request.  A key only becomes active when it
  is registered for the first time.
\<close>

locale revocable_registry =
  fixes key :: "jsstring \<Rightarrow> jsstring"
    and known :: "'db \<Rightarrow> jsstring \<Rightarrow> bool"
    and active :: "jsstring \<Rightarrow> 'db \<Rightarrow> bool"
    and step :: "'op \<Rightarrow> 'db \<Rightarrow> 'db"
  assumes active_known: "active p db \<Longrightarrow> known db (key p)"
    and step_known: "known db k \<Longrightarrow> known (step op db) k"
    and step_active: "known db (key p) \<Longrightarrow> active p (step op db) \<Longrightarrow> active p db"
begin

lemma fold_known: "known db k \<Longrightarrow> known (fold step ops db) k"
  by (induction ops arbitrary: db) (auto intro: step_known)

lemma stays_inactive: "known db (key p) \<Longrightarrow> \<not> active p db \<Longrightarrow> \<not> active p (fold step ops db)"
proof (induction ops arbitrary: db)
  case (Cons op ops)
  then have "\<not> active p (step op db)" and "known (step op db) (key p)"
    using step_active step_known by blast+
  then show ?case using Cons.IH by simp
qed simp

lemma inactive_after:
  assumes "known db (key p)" and "\<not> active p (fold step xs db)"
  shows "\<not> active p (fold step (xs @ ys) db)"
  using stays_inactive [OF fold_known [OF assms(1)] assms(2)] by simp

end

section \<open>Tables\<close>

definition known_row :: "'a registry_row_scheme table option \<Rightarrow> jsstring \<Rightarrow> bool" where
  "known_row db k \<longleftrightarrow> (\<exists>t r. db = Some t \<and> r \<in> set (rows t) \<and> pubkey_hex r = k)"

definition live_row :: "'a registry_row_scheme table option \<Rightarrow> jsstring \<Rightarrow> bool" where
  "live_row db k \<longleftrightarrow> (\<exists>t r. db = Some t \<and> r \<in> set (rows t) \<and> is_live k r)"

lemma known_row_Some: "known_row (Some t) k \<longleftrightarrow> (\<exists>r \<in> set (rows t). pubkey_hex r = k)"
  by (auto simp: known_row_def)

lemma live_row_Some: "live_row (Some t) k \<longleftrightarrow> (\<exists>r \<in> set (rows t). is_live k r)"
  by (auto simp: live_row_def)

lemma live_get: "sql_get (is_live k) (rows t) \<noteq> None \<longleftrightarrow> live_row (Some t) k"
  using sql_get_None [of "is_live k" "rows t"] by (auto simp: live_row_def)

lemma insert_row_rows:
  "insert_row r t = Some t' \<Longrightarrow> set (rows t') = insert r (set (rows t)) \<and> \<not> known_row (Some t) (pubkey_hex r)"
  by (auto simp: insert_row_def sql_insert_def known_row_def image_iff split: if_splits)

lemma insert_known: "insert_row r t = Some t' \<Longrightarrow> known_row (Some t) k \<Longrightarrow> known_row (Some t') k"
  using insert_row_rows [of r t t'] by (auto simp: known_row_def)

lemma insert_live:
  "insert_row r t = Some t' \<Longrightarrow> known_row (Some t) k \<Longrightarrow> live_row (Some t') k \<Longrightarrow> live_row (Some t) k"
  using insert_row_rows [of r t t'] by (auto simp: live_row_def is_live_def)

lemma revoke_known: "known_row (Some (revoke_row k now t)) l \<longleftrightarrow> known_row (Some t) l"
proof -
  have keys: "known_row (Some u) l \<longleftrightarrow> l \<in> set (map pubkey_hex (rows u))" for u :: "'a registry_row_scheme table"
    by (auto simp: known_row_Some)
  have "map pubkey_hex (rows (revoke_row k now t)) = map pubkey_hex (rows t)"
    unfolding revoke_row_def by (simp add: sql_update_key del: set_map)
  then show ?thesis unfolding keys by metis
qed

lemma revoke_live: "live_row (Some (revoke_row k now t)) l \<longleftrightarrow> live_row (Some t) l \<and> l \<noteq> k"
  by (auto simp: live_row_Some revoke_row_def set_sql_update is_live_def)

lemma active_live [simp]:
  "isFleetOperatorActive p db \<longleftrightarrow> live_row db (normalizePubkey p)"
  "isObserverActive p db \<longleftrightarrow> live_row db (normalizePubkey p)"
  "isAttestationEvidenceAttestorActive p adb \<longleftrightarrow> live_row adb (normalizePubkey p)"
  using live_get [of "normalizePubkey p" "the db"] live_get [of "normalizePubkey p" "the adb"]
  by (cases db; cases adb;
      simp add: isFleetOperatorActive_def isObserverActive_def isAttestationEvidenceAttestorActive_def
        live_row_def)+

lemma live_known: "live_row db k \<Longrightarrow> known_row db k"
  by (auto simp: live_row_def known_row_def is_live_def)

lemma registered_row:
  "registerFleetOperator input now (Some t) = Inr (r, db') \<Longrightarrow>
     re_lower_hex 64 (normalizePubkey (in_pubkey input)) \<and> pubkey_hex r = normalizePubkey (in_pubkey input)
     \<and> revoked_at r = None \<and> (\<exists>t'. db' = Some t' \<and> insert_row r t = Some t')"
  "registerObserver input now (Some t) = Inr (r, db') \<Longrightarrow>
     re_lower_hex 64 (normalizePubkey (in_pubkey input)) \<and> pubkey_hex r = normalizePubkey (in_pubkey input)
     \<and> revoked_at r = None \<and> (\<exists>t'. db' = Some t' \<and> insert_row r t = Some t')"
  by (auto simp: registerFleetOperator_def registerObserver_def Let_def split: if_splits option.splits
      intro: sym)

lemma registered_attestor:
  "registerAttestationEvidenceAttestor input algo now (Some t) = Inr (r, db') \<Longrightarrow>
     sig_algo r \<in> set SIG_ALGOS \<and> re_lower_hex (if sig_algo r = js ''secp256r1'' then 66 else 64) (pubkey_hex r)
     \<and> pubkey_hex r = normalizePubkey (in_pubkey input)
     \<and> revoked_at r = None \<and> (\<exists>t'. db' = Some t' \<and> insert_row r t = Some t')"
  by (auto simp: registerAttestationEvidenceAttestor_def Let_def js_eq_iff split: if_splits option.splits
      intro: sym)

text \<open>One step on an initialised table either leaves it alone, inserts a fresh row, or revokes.\<close>

lemma fleet_step_cases:
  "fleet_step op (Some t) = Some t \<or> (\<exists>r t'. insert_row r t = Some t' \<and> fleet_step op (Some t) = Some t')
   \<or> (\<exists>k now. fleet_step op (Some t) = Some (revoke_row k now t))"
  by (cases op)
    (auto split: sum.splits dest!: registered_row(1) simp: revokeFleetOperator_def Let_def)

lemma observer_step_cases:
  "observer_step op (Some t) = Some t \<or> (\<exists>r t'. insert_row r t = Some t' \<and> observer_step op (Some t) = Some t')
   \<or> (\<exists>k now. observer_step op (Some t) = Some (revoke_row k now t))"
  by (cases op)
    (auto split: sum.splits dest!: registered_row(2) simp: revokeObserver_def Let_def)

lemma attestor_step_cases:
  "attestor_step op (Some t) = Some t
   \<or> (\<exists>r t'. insert_row r t = Some t' \<and> attestor_step op (Some t) = Some t')
   \<or> (\<exists>k now. attestor_step op (Some t) = Some (revoke_row k now t))"
  by (cases op)
    (auto split: sum.splits dest!: registered_attestor simp: revokeAttestationEvidenceAttestor_def Let_def)

lemma known_Some: "known_row db k \<Longrightarrow> \<exists>t. db = Some t"
  by (auto simp: known_row_def)

lemma step_cases_known:
  assumes "step (Some t) = Some t \<or> (\<exists>r t'. insert_row r t = Some t' \<and> step (Some t) = Some t')
      \<or> (\<exists>k now. step (Some t) = Some (revoke_row k now t))"
  shows "known_row (Some t) k \<Longrightarrow> known_row (step (Some t)) k"
    and "known_row (Some t) k \<Longrightarrow> live_row (step (Some t)) k \<Longrightarrow> live_row (Some t) k"
  using assms by (auto simp: revoke_known revoke_live intro: insert_known insert_live)

interpretation fleet: revocable_registry normalizePubkey known_row isFleetOperatorActive fleet_step
proof unfold_locales
  fix db :: registry and k p op
  show "isFleetOperatorActive p db \<Longrightarrow> known_row db (normalizePubkey p)" by (simp add: live_known)
  show "known_row db k \<Longrightarrow> known_row (fleet_step op db) k"
    using known_Some step_cases_known(1) [where step = "fleet_step op", OF fleet_step_cases] by blast
  show "known_row db (normalizePubkey p) \<Longrightarrow> isFleetOperatorActive p (fleet_step op db)
      \<Longrightarrow> isFleetOperatorActive p db"
    using known_Some step_cases_known(2) [where step = "fleet_step op", OF fleet_step_cases] unfolding active_live by blast
qed

interpretation observers: revocable_registry normalizePubkey known_row isObserverActive observer_step
proof unfold_locales
  fix db :: registry and k p op
  show "isObserverActive p db \<Longrightarrow> known_row db (normalizePubkey p)" by (simp add: live_known)
  show "known_row db k \<Longrightarrow> known_row (observer_step op db) k"
    using known_Some step_cases_known(1) [where step = "observer_step op", OF observer_step_cases] by blast
  show "known_row db (normalizePubkey p) \<Longrightarrow> isObserverActive p (observer_step op db)
      \<Longrightarrow> isObserverActive p db"
    using known_Some step_cases_known(2) [where step = "observer_step op", OF observer_step_cases] unfolding active_live by blast
qed

interpretation attestors: revocable_registry normalizePubkey known_row isAttestationEvidenceAttestorActive
  attestor_step
proof unfold_locales
  fix db :: attestors and k p op
  show "isAttestationEvidenceAttestorActive p db \<Longrightarrow> known_row db (normalizePubkey p)"
    by (simp add: live_known)
  show "known_row db k \<Longrightarrow> known_row (attestor_step op db) k"
    using known_Some step_cases_known(1) [where step = "attestor_step op", OF attestor_step_cases] by blast
  show "known_row db (normalizePubkey p) \<Longrightarrow> isAttestationEvidenceAttestorActive p (attestor_step op db)
      \<Longrightarrow> isAttestationEvidenceAttestorActive p db"
    using known_Some step_cases_known(2) [where step = "attestor_step op", OF attestor_step_cases] unfolding active_live by blast
qed

section \<open>Reachable tables\<close>

text \<open>
  What every table holds that was built from the empty one by administrative requests: keys
  are unique, lower-case hexadecimal of the length of their algorithm, and ids are given out
  in order.
\<close>

definition key_shape :: "('a registry_row_scheme \<Rightarrow> nat) \<Rightarrow> 'a registry_row_scheme table \<Rightarrow> bool" where
  "key_shape len t \<longleftrightarrow> (\<forall>r \<in> set (rows t). re_lower_hex (len r) (pubkey_hex r))"

definition wf_registry :: "('a registry_row_scheme \<Rightarrow> nat) \<Rightarrow> 'a registry_row_scheme table option \<Rightarrow> bool" where
  "wf_registry len db \<longleftrightarrow>
     (case db of
        None \<Rightarrow> True
      | Some t \<Rightarrow> unique_key pubkey_hex (rows t) \<and> key_shape len t
                  \<and> sorted_wrt (<) (map row_id (rows t)) \<and> (\<forall>r \<in> set (rows t). row_id r < next_id t))"

definition attestor_key_len :: "attestor_row \<Rightarrow> nat" where
  "attestor_key_len r = (if sig_algo r = js ''secp256r1'' then 66 else 64)"

definition wf_attestors :: "attestors \<Rightarrow> bool" where
  "wf_attestors db \<longleftrightarrow> wf_registry attestor_key_len db
     \<and> (case db of None \<Rightarrow> True | Some t \<Rightarrow> \<forall>r \<in> set (rows t). sig_algo r \<in> set SIG_ALGOS)"

lemma wf_empty: "wf_registry len (Some empty_table)"
  by (simp add: wf_registry_def empty_table_def key_shape_def unique_key_def)

lemma wf_insert_row:
  assumes "wf_registry len (Some t)" "insert_row r t = Some t'" "re_lower_hex (len r) (pubkey_hex r)"
    "row_id r = next_id t"
  shows "wf_registry len (Some t')"
proof -
  from assms(2) have t': "rows t' = rows t @ [r]" "next_id t' = Suc (next_id t)"
      "sql_insert pubkey_hex r (rows t) = Some (rows t @ [r])"
    by (auto simp: insert_row_def sql_insert_def split: if_splits)
  moreover have "unique_key pubkey_hex (rows t @ [r])"
    using unique_key_insert [OF _ t'(3)] assms(1) by (simp add: wf_registry_def)
  ultimately show ?thesis
    using assms(1,3,4) by (auto simp: wf_registry_def key_shape_def sorted_wrt_append)
qed

lemma wf_revoke_row:
  assumes "wf_registry len (Some t)" "\<And>r. len (r\<lparr>revoked_at := Some now\<rparr>) = len r"
  shows "wf_registry len (Some (revoke_row k now t))"
proof -
  have "map row_id (rows (revoke_row k now t)) = map row_id (rows t)"
    by (simp add: revoke_row_def sql_update_key)
  moreover have "unique_key pubkey_hex (rows (revoke_row k now t))"
    using assms(1) unfolding revoke_row_def by (auto simp: wf_registry_def)
  ultimately show ?thesis
    using assms by (auto simp: wf_registry_def key_shape_def revoke_row_def set_sql_update)
qed

lemma registered_id:
  "registerFleetOperator input now (Some t) = Inr (r, db') \<Longrightarrow> row_id r = next_id t"
  "registerObserver input now (Some t) = Inr (r, db') \<Longrightarrow> row_id r = next_id t"
  by (auto simp: registerFleetOperator_def registerObserver_def Let_def split: if_splits option.splits)


lemma registered_attestor_id:
  "registerAttestationEvidenceAttestor input algo now (Some t) = Inr (r, db') \<Longrightarrow> row_id r = next_id t"
  by (auto simp: registerAttestationEvidenceAttestor_def Let_def split: if_splits option.splits)

lemma register_None [simp]:
  "registerFleetOperator input now None = Inl NotInitialised"
  "registerObserver input now None = Inl NotInitialised"
  "revokeFleetOperator pk now None = Inl NotInitialised"
  "revokeObserver pk now None = Inl NotInitialised"
  by (simp_all add: registerFleetOperator_def registerObserver_def revokeFleetOperator_def revokeObserver_def)

lemma registered_wf:
  assumes "wf_registry (\<lambda>_. 64) (Some t)"
  shows "registerFleetOperator input now (Some t) = Inr (r, db') \<Longrightarrow> wf_registry (\<lambda>_. 64) db'"
    and "registerObserver input now (Some t) = Inr (r, db') \<Longrightarrow> wf_registry (\<lambda>_. 64) db'"
  using wf_insert_row [OF assms] registered_row registered_id by metis+

lemma wf_fleet_step: "wf_registry (\<lambda>_. 64) db \<Longrightarrow> wf_registry (\<lambda>_. 64) (fleet_step op db)"
  by (cases db; cases op)
    (auto split: sum.splits intro: registered_wf(1) wf_revoke_row simp: revokeFleetOperator_def Let_def)

lemma wf_observer_step: "wf_registry (\<lambda>_. 64) db \<Longrightarrow> wf_registry (\<lambda>_. 64) (observer_step op db)"
  by (cases db; cases op)
    (auto split: sum.splits intro: registered_wf(2) wf_revoke_row simp: revokeObserver_def Let_def)

lemma wf_attestor_step:
  assumes "wf_attestors db" shows "wf_attestors (attestor_step op db)"
proof (cases db)
  case None
  then show ?thesis
    by (cases op) (auto simp: registerAttestationEvidenceAttestor_def revokeAttestationEvidenceAttestor_def
        wf_attestors_def wf_registry_def)
next
  case (Some t)
  show ?thesis
  proof (cases op)
    case (Register input algo now)
    show ?thesis
    proof (cases "registerAttestationEvidenceAttestor input algo now (Some t)")
      case (Inr p)
      obtain r db' where p: "p = (r, db')" by (cases p)
      note reg = registered_attestor [OF Inr [unfolded p]] registered_attestor_id [OF Inr [unfolded p]]
      then obtain t' where t': "db' = Some t'" "insert_row r t = Some t'" by auto
      have "wf_registry attestor_key_len (Some t')"
        using wf_insert_row [OF _ t'(2)] assms reg Some by (auto simp: wf_attestors_def attestor_key_len_def)
      then show ?thesis
        using Register Inr p t' Some assms reg insert_row_rows [OF t'(2)] by (auto simp: wf_attestors_def)
    qed (use Register Some assms in simp)
  next
    case (Revoke k now)
    have "wf_registry attestor_key_len (Some (revoke_row (normalizePubkey k) now t))"
      using assms Some by (intro wf_revoke_row) (auto simp: wf_attestors_def attestor_key_len_def)
    then show ?thesis
      using Revoke assms Some
      by (auto simp: revokeAttestationEvidenceAttestor_def Let_def wf_attestors_def revoke_row_def set_sql_update)
  qed
qed

lemma fold_invariant: "I s \<Longrightarrow> (\<And>op s. I s \<Longrightarrow> I (step op s)) \<Longrightarrow> I (fold step ops s)"
  by (induction ops arbitrary: s) auto

text \<open>In every state of the three registries that requests can build, keys are unique and
  lower-case hexadecimal (64 digits, 66 for a secp256r1 attestor), ids are in order and below
  the next one, and every attestor's algorithm is one the routes dispatch on.\<close>

theorem registry_invariant:
  "wf_registry (\<lambda>_. 64) (fold fleet_step ops (Some empty_table))
   \<and> wf_registry (\<lambda>_. 64) (fold observer_step ops (Some empty_table))
   \<and> wf_attestors (fold attestor_step ops (Some empty_table))"
proof (intro conjI)
  show "wf_registry (\<lambda>_. 64) (fold fleet_step ops (Some empty_table))"
    by (rule fold_invariant [where I = "wf_registry (\<lambda>_. 64)", OF wf_empty wf_fleet_step])
  show "wf_registry (\<lambda>_. 64) (fold observer_step ops (Some empty_table))"
    by (rule fold_invariant [where I = "wf_registry (\<lambda>_. 64)", OF wf_empty wf_observer_step])
  have "wf_attestors (Some empty_table)" by (simp add: wf_attestors_def wf_empty) (simp add: empty_table_def)
  then show "wf_attestors (fold attestor_step ops (Some empty_table))" by (rule fold_invariant [where I = wf_attestors, OF _ wf_attestor_step])
qed

section \<open>Revocation\<close>

lemma revoked_known:
  "revokeFleetOperator pk now db = Inr (True, db') \<Longrightarrow>
     known_row db' (normalizePubkey pk) \<and> \<not> isFleetOperatorActive pk db'"
  "revokeObserver pk now db = Inr (True, db') \<Longrightarrow>
     known_row db' (normalizePubkey pk) \<and> \<not> isObserverActive pk db'"
  "revokeAttestationEvidenceAttestor pk now adb = Inr (True, adb') \<Longrightarrow>
     known_row adb' (normalizePubkey pk) \<and> \<not> isAttestationEvidenceAttestorActive pk adb'"
proof -
  have pos: "0 < sql_count (is_live k) (rows t) \<Longrightarrow> known_row (Some t) k" for k and t :: "'b registry_row_scheme table"
    by (auto simp: sql_count_def known_row_def is_live_def filter_empty_conv)
  show "revokeFleetOperator pk now db = Inr (True, db') \<Longrightarrow>
     known_row db' (normalizePubkey pk) \<and> \<not> isFleetOperatorActive pk db'"
    using pos by (auto simp: revokeFleetOperator_def Let_def revoke_known revoke_live split: option.splits)
  show "revokeObserver pk now db = Inr (True, db') \<Longrightarrow>
     known_row db' (normalizePubkey pk) \<and> \<not> isObserverActive pk db'"
    using pos by (auto simp: revokeObserver_def Let_def revoke_known revoke_live split: option.splits)
  show "revokeAttestationEvidenceAttestor pk now adb = Inr (True, adb') \<Longrightarrow>
     known_row adb' (normalizePubkey pk) \<and> \<not> isAttestationEvidenceAttestorActive pk adb'"
    using pos by (auto simp: revokeAttestationEvidenceAttestor_def Let_def revoke_known revoke_live
        split: option.splits)
qed

text \<open>C39: A key an administrator revoked is never active again, whatever is registered or
  revoked afterwards, and however the key is spelled (case, \<open>0x\<close>).\<close>

theorem revocation_is_final:
  assumes "revokeFleetOperator pk now db = Inr (True, db')"
    and "revokeObserver pk now odb = Inr (True, odb')"
    and "revokeAttestationEvidenceAttestor pk now adb = Inr (True, adb')"
    and "normalizePubkey pk' = normalizePubkey pk"
  shows "\<not> isFleetOperatorActive pk' (fold fleet_step ops db')
    \<and> \<not> isObserverActive pk' (fold observer_step ops odb')
    \<and> \<not> isAttestationEvidenceAttestorActive pk' (fold attestor_step ops adb')"
  using revoked_known(1) [OF assms(1)] revoked_known(2) [OF assms(2)] revoked_known(3) [OF assms(3)]
    fleet.stays_inactive [of db' pk'] observers.stays_inactive [of odb' pk']
    attestors.stays_inactive [of adb' pk'] assms(4)
  by (simp only: active_live simp_thms)

definition sample_registry :: registry where
  "sample_registry = Some \<lparr>rows = [\<lparr>row_id = 1, pubkey_hex = replicate 64 0x61, label = None, registered_at = 5,
     revoked_at = None, row_notes = None\<rparr>], next_id = 2\<rparr>"

definition sample_attestors :: attestors where
  "sample_attestors = Some \<lparr>rows = [\<lparr>row_id = 1, pubkey_hex = replicate 64 0x61, label = None,
     registered_at = 5, revoked_at = None, row_notes = None, sig_algo = js ''ed25519''\<rparr>], next_id = 2\<rparr>"

lemma normalize_spellings:
  "normalizePubkey (replicate 64 0x61) = replicate 64 0x61"
  "normalizePubkey (js ''0X'' @ replicate 64 0x41) = replicate 64 0x61"
proof -
  have "lower_u16 0x41 = 0x61" "lower_u16 0x61 = 0x61" by (simp_all add: lower_u16_def is_upper_letter_def)
  then show "normalizePubkey (replicate 64 0x61) = replicate 64 0x61"
    "normalizePubkey (js ''0X'' @ replicate 64 0x41) = replicate 64 0x61"
    by (simp_all add: normalizePubkey_def starts_with_replicate js_eval to_lower_def map_replicate)
qed

theorem revocation_is_final_witness:
  "\<exists>db' odb' adb'. revokeFleetOperator (replicate 64 0x61) 9 sample_registry = Inr (True, db')
    \<and> \<not> isFleetOperatorActive (js ''0X'' @ replicate 64 0x41) (fold fleet_step [] db')
    \<and> \<not> isObserverActive (js ''0X'' @ replicate 64 0x41) (fold observer_step [] odb')
    \<and> \<not> isAttestationEvidenceAttestorActive (js ''0X'' @ replicate 64 0x41) (fold attestor_step [] adb')"
proof -
  obtain db' where db': "revokeFleetOperator (replicate 64 0x61) 9 sample_registry = Inr (True, db')"
    and odb': "revokeObserver (replicate 64 0x61) 9 sample_registry = Inr (True, db')"
    by (simp add: revokeFleetOperator_def revokeObserver_def sample_registry_def normalize_spellings
        sql_count_def is_live_def Let_def)
  obtain adb' where "revokeAttestationEvidenceAttestor (replicate 64 0x61) 9 sample_attestors = Inr (True, adb')"
    by (simp add: revokeAttestationEvidenceAttestor_def sample_attestors_def normalize_spellings
        sql_count_def is_live_def Let_def)
  from revocation_is_final [OF db' odb' this, of "js ''0X'' @ replicate 64 0x41"] db' show ?thesis
    unfolding normalize_spellings by blast
qed

section \<open>Registration and revocation row by row\<close>

text \<open>Registration succeeds exactly when the normalised key is 64 lower-case hexadecimal digits
  and has no row yet, revoked or not; it then appends one active row and leaves all others
  alone.  Every other call throws and changes nothing.\<close>

theorem register_exact:
  "case registerFleetOperator input now (Some t) of
     Inl e \<Rightarrow> (if re_lower_hex 64 (normalizePubkey (in_pubkey input))
              then e = UniqueViolation \<and> getFleetOperator (in_pubkey input) (Some t) \<noteq> None
              else e = BadPubkey)
   | Inr (r, db') \<Rightarrow> re_lower_hex 64 (normalizePubkey (in_pubkey input))
       \<and> getFleetOperator (in_pubkey input) (Some t) = None
       \<and> db' = Some \<lparr>rows = rows t @ [r], next_id = Suc (next_id t)\<rparr>
       \<and> getFleetOperator (in_pubkey input) db' = Some r \<and> isFleetOperatorActive (in_pubkey input) db'"
proof -
  let ?k = "normalizePubkey (in_pubkey input)"
  have none: "sql_get (\<lambda>r. pubkey_hex r = ?k) (rows t) = None \<longleftrightarrow> ?k \<notin> set (map pubkey_hex (rows t))"
    unfolding sql_get_None set_map image_iff by fastforce
  have one: "sql_get p [r] = (if p r then Some r else None)" for p and r :: registry_row
    by (simp add: sql_get_def)
  show ?thesis
  proof (cases "re_lower_hex 64 ?k")
    case hex: True
    show ?thesis
    proof (cases "?k \<in> set (map pubkey_hex (rows t))")
      case True
      with none have "getFleetOperator (in_pubkey input) (Some t) \<noteq> None"
        unfolding getFleetOperator_def by simp
      with hex True show ?thesis
        by (simp add: registerFleetOperator_def Let_def insert_row_def sql_insert_def)
    next
      case False
      with none have none': "sql_get (\<lambda>r. pubkey_hex r = ?k) (rows t) = None" by simp
      with hex False show ?thesis
        by (simp add: registerFleetOperator_def getFleetOperator_def Let_def insert_row_def sql_insert_def
            sql_get_append one live_row_Some is_live_def)
    qed
  next
    case False
    then show ?thesis by (simp add: registerFleetOperator_def Let_def)
  qed
qed

text \<open>Revoking answers true exactly when the key was active, ends its activity, and leaves every
  row of another key, and the time stamp of an earlier revocation, as they were.\<close>

theorem revoke_exact:
  "\<exists>t'. revokeFleetOperator pk now (Some t) = Inr (isFleetOperatorActive pk (Some t), Some t')
     \<and> \<not> isFleetOperatorActive pk (Some t')
     \<and> map pubkey_hex (rows t') = map pubkey_hex (rows t)
     \<and> (\<forall>i < length (rows t).
          rows t' ! i = (if pubkey_hex (rows t ! i) = normalizePubkey pk \<and> revoked_at (rows t ! i) = None
                         then (rows t ! i)\<lparr>revoked_at := Some now\<rparr> else rows t ! i))"
proof -
  let ?k = "normalizePubkey pk"
  have keys: "map pubkey_hex (rows (revoke_row ?k now t)) = map pubkey_hex (rows t)"
    by (simp add: revoke_row_def sql_update_key)
  have "0 < sql_count (is_live ?k) (rows t) \<longleftrightarrow> live_row (Some t) ?k"
    by (simp add: sql_count_def live_row_Some filter_empty_conv)
  then have "revokeFleetOperator pk now (Some t) =
      Inr (isFleetOperatorActive pk (Some t), Some (revoke_row ?k now t))"
    by (simp add: revokeFleetOperator_def Let_def)
  with keys show ?thesis
    by (intro exI [of _ "revoke_row ?k now t"])
      (simp add: revoke_live, simp add: revoke_row_def sql_update_def is_live_def)
qed

section \<open>What a registry promises\<close>

text \<open>
  A registry is a partial map from keys to whether they are active.  Registering makes an unknown
  acceptable key active, revoking makes an active key inactive, everything else changes
  nothing.
\<close>

definition key_status :: "'a registry_row_scheme table option \<Rightarrow> jsstring \<rightharpoonup> bool" where
  "key_status db k = (if live_row db k then Some True else if known_row db k then Some False else None)"

definition operator_key_ok :: "jsstring option \<Rightarrow> jsstring \<Rightarrow> bool" where
  "operator_key_ok algo k \<longleftrightarrow> re_lower_hex 64 k"

definition attestor_key_ok :: "jsstring option \<Rightarrow> jsstring \<Rightarrow> bool" where
  "attestor_key_ok algo k \<longleftrightarrow>
     (let a = (case algo of None \<Rightarrow> js ''sr25519'' | Some a \<Rightarrow> a)
      in a \<in> set SIG_ALGOS \<and> re_lower_hex (if a = js ''secp256r1'' then 66 else 64) k)"

fun spec_step ::
  "(jsstring option \<Rightarrow> jsstring \<Rightarrow> bool) \<Rightarrow> registry_op \<Rightarrow> (jsstring \<rightharpoonup> bool) \<Rightarrow> (jsstring \<rightharpoonup> bool)" where
  "spec_step ok (Register input algo now) m =
     (let k = normalizePubkey (in_pubkey input)
      in if ok algo k \<and> m k = None then m(k \<mapsto> True) else m)"
| "spec_step ok (Revoke pk now) m =
     (let k = normalizePubkey pk in if m k = Some True then m(k \<mapsto> False) else m)"

lemma key_status_simps:
  "key_status db k = Some True \<longleftrightarrow> live_row db k"
  "key_status db k = None \<longleftrightarrow> \<not> known_row db k"
  using live_known [of db k] by (auto simp: key_status_def)

lemma key_status_new:
  assumes "insert_row r t = Some t'" "revoked_at r = None"
  shows "key_status (Some t') = (key_status (Some t))(pubkey_hex r \<mapsto> True)"
proof -
  have t': "set (rows t') = insert r (set (rows t))" using insert_row_rows [OF assms(1)] by simp
  then have "live_row (Some t') k \<longleftrightarrow> k = pubkey_hex r \<or> live_row (Some t) k"
    and "known_row (Some t') k \<longleftrightarrow> k = pubkey_hex r \<or> known_row (Some t) k" for k
    using assms(2) by (auto simp: live_row_Some known_row_Some is_live_def)
  then show ?thesis by (intro ext) (simp add: key_status_def)
qed

lemma key_status_revoke:
  "key_status (Some (revoke_row k now t)) =
     (if key_status (Some t) k = Some True then (key_status (Some t))(k \<mapsto> False) else key_status (Some t))"
  using live_known [of "Some t" k] by (intro ext) (auto simp: key_status_def revoke_live revoke_known)

lemma insert_row_None: "insert_row r t = None \<longleftrightarrow> known_row (Some t) (pubkey_hex r)"
  unfolding insert_row_def sql_insert_def known_row_Some by (simp add: image_iff) metis

lemma fleet_refines: "key_status (fleet_step op (Some t)) = spec_step operator_key_ok op (key_status (Some t))"
  by (cases op)
    (auto simp: registerFleetOperator_def revokeFleetOperator_def operator_key_ok_def Let_def key_status_revoke
      key_status_simps insert_row_None key_status_new split: option.splits dest!: insert_row_rows)

lemma observer_refines:
  "key_status (observer_step op (Some t)) = spec_step operator_key_ok op (key_status (Some t))"
  by (cases op)
    (auto simp: registerObserver_def revokeObserver_def operator_key_ok_def Let_def key_status_revoke
      key_status_simps insert_row_None key_status_new split: option.splits dest!: insert_row_rows)

lemma attestor_refines:
  "key_status (attestor_step op (Some t)) = spec_step attestor_key_ok op (key_status (Some t))"
  by (cases op)
    (auto simp: registerAttestationEvidenceAttestor_def revokeAttestationEvidenceAttestor_def
      attestor_key_ok_def Let_def key_status_revoke
      key_status_simps insert_row_None key_status_new split: option.splits dest!: insert_row_rows)

lemma step_stays_open:
  "\<exists>t'. fleet_step op (Some t) = Some t'" "\<exists>t'. observer_step op (Some t) = Some t'"
  "\<exists>u'. attestor_step op (Some u) = Some u'"
  using fleet_step_cases [of op t] observer_step_cases [of op t] attestor_step_cases [of op u] by auto

lemma fold_refines:
  assumes "\<And>op t. \<exists>t'. step op (Some t) = Some t'"
    and "\<And>op t. abst (step op (Some t)) = spec op (abst (Some t))"
  shows "abst (fold step ops (Some t)) = fold spec ops (abst (Some t))"
proof (induction ops arbitrary: t)
  case (Cons op ops)
  obtain t' where "step op (Some t) = Some t'" using assms(1) by blast
  then show ?case using Cons.IH [of t'] assms(2) [of op t] by simp
qed simp

text \<open>C40: The three registries implement the map of keys to whether they are active: started empty
  and whatever administrators request, the keys with a row, the active ones among them, and
  the answer of the check the routes call are those of the map.\<close>

theorem registry_refines:
  "key_status (fold fleet_step ops (Some empty_table)) = fold (spec_step operator_key_ok) ops Map.empty
   \<and> key_status (fold observer_step ops (Some empty_table)) = fold (spec_step operator_key_ok) ops Map.empty
   \<and> key_status (fold attestor_step ops (Some empty_table)) = fold (spec_step attestor_key_ok) ops Map.empty
   \<and> (isFleetOperatorActive pk (fold fleet_step ops (Some empty_table))
        \<longleftrightarrow> fold (spec_step operator_key_ok) ops Map.empty (normalizePubkey pk) = Some True)
   \<and> (isObserverActive pk (fold observer_step ops (Some empty_table))
        \<longleftrightarrow> fold (spec_step operator_key_ok) ops Map.empty (normalizePubkey pk) = Some True)
   \<and> (isAttestationEvidenceAttestorActive pk (fold attestor_step ops (Some empty_table))
        \<longleftrightarrow> fold (spec_step attestor_key_ok) ops Map.empty (normalizePubkey pk) = Some True)"
proof -
  have e: "key_status (Some empty_table :: registry) = Map.empty" "key_status (Some empty_table :: attestors) = Map.empty"
    by (simp_all add: fun_eq_iff key_status_def empty_table_def live_row_def known_row_def)
  note r = fold_refines [of fleet_step key_status, OF step_stays_open(1) fleet_refines, of ops empty_table]
    fold_refines [of observer_step key_status, OF step_stays_open(2) observer_refines, of ops empty_table]
    fold_refines [of attestor_step key_status, OF step_stays_open(3) attestor_refines, of ops empty_table]
  show ?thesis unfolding active_live key_status_simps(1) [symmetric] r e by simp
qed

end
