(* ===== verification/MeteringRoute.thy ===== *)
theory MeteringRoute
  imports WorkerBounds Registries
begin

text \<open>
  \<open>POST /metering/submit\<close>: the version dispatch and version 1 path of \<open>routes/metering.ts\<close>, the
  version 2 path of \<open>routes/metering_v2.ts\<close>, and what they write: the manifest and its metadata
  (\<open>storage.ts\<close>), the worker's state and the billing row (\<open>worker_bounds.ts\<close>) and the message to
  the receipt submitter (\<open>sponsored-receipts.ts\<close>).

  Both handlers check everything, then await two file writes, then update the database.  The
  checks and the writes are therefore two definitions, and the gateway is a step relation in
  which the second part of a submission comes any time after its first.  The sr25519
  verification on octets is the parameter \<open>sv\<close>.
\<close>

section \<open>Replies and state\<close>

datatype v2_route_code =
    V2Code validate_code
  | FLEET_OPERATOR_UNKNOWN
  | FLEET_OPERATOR_SIG_INVALID
  | WORKER_SIG_INVALID
  | OBSERVER_UNKNOWN
  | OBSERVER_SIG_INVALID

datatype metering_reply =
    RejectV1 nat v1_code "jsstring option"
  | RejectV2 nat v2_route_code "jsstring option"
  | ReplayReply jsstring jsstring jsstring
  | AcceptReply jsstring jsstring jsstring jsstring "bool option" bool
  | InternalError

datatype stored_record = StoredV1 metering_v1 | StoredV2 metering_v2

record notification =
  n_contentHash :: jsstring
  n_operator :: jsstring
  n_authTier :: jsstring
  n_rootHash :: "jsstring option"
  n_manifestHash :: "jsstring option"
  n_source :: "jsstring option"
  n_schemaHash :: "jsstring option"

record gateway =
  g_fleet :: registry
  g_observers :: registry
  g_metering :: "metering_db option"
  g_manifests :: "jsstring \<rightharpoonup> stored_record"
  g_uploaders :: "jsstring \<rightharpoonup> jsstring"
  g_outbox :: "notification list"

definition METERING_SOURCE :: jsstring where "METERING_SOURCE = js ''compute-metering-v1''"
definition METERING_V2_SOURCE :: jsstring where "METERING_V2_SOURCE = js ''compute-metering-v2''"

text \<open>
  The body of the submitter's request; without a configured URL nothing is sent.  An empty or
  absent schema hash is left out, an absent source is \<open>blob-gateway\<close>.
\<close>

definition sponsored_body :: "notification \<Rightarrow> notification" where
  "sponsored_body p =
     p\<lparr>n_source := Some (case n_source p of None \<Rightarrow> js ''blob-gateway'' | Some s \<Rightarrow> s),
       n_schemaHash := (case n_schemaHash p of None \<Rightarrow> None | Some s \<Rightarrow> if s = [] then None else Some s)\<rparr>"

definition notifySponsoredReceiptSubmitter :: "bool \<Rightarrow> notification \<Rightarrow> notification list \<Rightarrow> notification list" where
  "notifySponsoredReceiptSubmitter configured p outbox =
     (if configured then outbox @ [sponsored_body p] else outbox)"

definition isSponsoredTier :: "jsstring option \<Rightarrow> bool" where
  "isSponsoredTier tier \<longleftrightarrow> tier = Some (js ''bearer'') \<or> tier = Some (js ''api-key'')"

section \<open>A submission that passed its checks\<close>

record pending =
  p_content_hash :: jsstring
  p_schema_hash :: jsstring
  p_worker_id :: jsstring
  p_period_start :: int
  p_row :: "int \<Rightarrow> metering_row"
  p_operator :: jsstring
  p_record :: stored_record
  p_observer :: "bool option"
  p_root :: "jsstring option"
  p_source :: jsstring

definition row_v2 :: "validate_ok \<Rightarrow> int \<Rightarrow> metering_row" where
  "row_v2 ok submitted =
     (let r = ok_record ok; m = v2_metrics r
      in \<lparr>m_content_hash = ok_content_hash ok, m_tenant_id = v2_tenant_id r, m_worker_id = v2_worker_id r,
          m_period_start_ms = f64_int (v2_period_start_ms r), m_period_end_ms = f64_int (v2_period_end_ms r),
          m_cpu_seconds = cpu_seconds m, m_ram_gb_hours = ram_gb_hours m, m_disk_gb_hours = disk_gb_hours m,
          m_net_bytes_in = net_bytes_in m, m_net_bytes_out = net_bytes_out m, m_gpu_seconds = gpu_seconds m,
          m_submitted_at_ms = submitted\<rparr>)"

definition row_v1 :: "v1_ok \<Rightarrow> int \<Rightarrow> metering_row" where
  "row_v1 ok submitted =
     (let r = v1_record ok
      in \<lparr>m_content_hash = v1_content_hash ok, m_tenant_id = v1_tenant_id r, m_worker_id = v1_worker_id r,
          m_period_start_ms = f64_int (v1_period_start r), m_period_end_ms = f64_int (v1_period_end r),
          m_cpu_seconds = v1_cpu_seconds r, m_ram_gb_hours = v1_ram_gb_hours r,
          m_disk_gb_hours = v1_disk_gb_hours r, m_net_bytes_in = v1_net_bytes_in r,
          m_net_bytes_out = v1_net_bytes_out r, m_gpu_seconds = v1_gpu_seconds r, m_submitted_at_ms = submitted\<rparr>)"

section \<open>Version 2\<close>

text \<open>The route verifies against the octets of the key, not their hexadecimal form.\<close>

definition verifySr25519_route ::
  "polkadot \<Rightarrow> (bytes \<Rightarrow> bytes \<Rightarrow> bytes \<Rightarrow> bool option) \<Rightarrow> bytes \<Rightarrow> jsstring \<Rightarrow> jsstring \<Rightarrow> bool" where
  "verifySr25519_route P sv preimage pubkeyHex sigHex =
     (case hexToU8a P (js ''0x'' @ pubkeyHex) of
        None \<Rightarrow> False
      | Some pub \<Rightarrow>
          (case hexToU8a P (js ''0x'' @ sigHex) of
             None \<Rightarrow> False
           | Some sig \<Rightarrow> (case sv preimage sig pub of None \<Rightarrow> False | Some v \<Rightarrow> v)))"

fun statusForStructuralCode :: "validate_code \<Rightarrow> nat" where
  "statusForStructuralCode INVALID_JSON = 400"
| "statusForStructuralCode MISSING_FIELD = 400"
| "statusForStructuralCode WRONG_TYPE = 400"
| "statusForStructuralCode WRONG_SCHEMA_VERSION = 400"
| "statusForStructuralCode ID_FORMAT = 400"
| "statusForStructuralCode PERIOD_INVALID = 400"
| "statusForStructuralCode HEX_FORMAT = 400"
| "statusForStructuralCode GPU_TYPE_INVALID = 400"
| "statusForStructuralCode NEGATIVE_VALUE = 422"
| "statusForStructuralCode BOUND_EXCEEDED = 422"
| "statusForStructuralCode INT_OVERFLOW = 422"
| "statusForStructuralCode GPU_COUNT_MISMATCH = 422"
| "statusForStructuralCode HARDWARE_BOUND = 422"
| "statusForStructuralCode FLEET_OP_SIGNATURE_INVALID = 401"
| "statusForStructuralCode WORKER_SIGNATURE_INVALID = 401"
| "statusForStructuralCode OBSERVER_SIGNATURE_INVALID = 401"
| "statusForStructuralCode MONOTONIC_VIOLATION = 409"

text \<open>Rules 8 to 11 and the two guards on the worker's state, in their order.\<close>

definition v2_auth ::
  "polkadot \<Rightarrow> (bytes \<Rightarrow> bytes \<Rightarrow> bytes \<Rightarrow> bool option) \<Rightarrow> validate_ok \<Rightarrow> gateway \<Rightarrow> metering_reply + unit" where
  "v2_auth P sv ok g =
     (let record = ok_record ok; hw = v2_hardware_spec record
      in if \<not> isFleetOperatorActive (fleet_operator_pubkey hw) (g_fleet g)
         then Inl (RejectV2 403 FLEET_OPERATOR_UNKNOWN (Some (js ''fleet_operator_pubkey'')))
         else if \<not> verifySr25519_route P sv (ok_fleet_op_pre_image ok) (fleet_operator_pubkey hw)
                    (fleet_operator_signature hw)
         then Inl (RejectV2 401 FLEET_OPERATOR_SIG_INVALID (Some (js ''fleet_operator_signature'')))
         else if \<not> verifySr25519_route P sv (ok_worker_pre_image ok) (v2_worker_pubkey record)
                    (v2_worker_signature record)
         then Inl (RejectV2 401 WORKER_SIG_INVALID (Some (js ''worker_signature'')))
         else case v2_observer record of
           None \<Rightarrow> Inr ()
         | Some ob \<Rightarrow>
             if \<not> isObserverActive (observer_pubkey ob) (g_observers g)
             then Inl (RejectV2 403 OBSERVER_UNKNOWN (Some (js ''observer_pubkey'')))
             else if \<not> verifySr25519_route P sv (ok_worker_pre_image ok) (observer_pubkey ob)
                        (observer_signature ob)
             then Inl (RejectV2 401 OBSERVER_SIG_INVALID (Some (js ''observer_signature'')))
             else Inr ())"

definition v2_worker_guards :: "validate_ok \<Rightarrow> gateway \<Rightarrow> metering_reply + unit" where
  "v2_worker_guards ok g =
     (let record = ok_record ok
      in if isReplayedContent (v2_worker_id record) (ok_content_hash ok) (g_metering g)
         then Inl (ReplayReply (ok_content_hash ok) (ok_schema_hash ok) (v2_worker_id record))
         else if f64_lt (v2_period_start_ms record) (num (getLastPeriodStart (v2_worker_id record) (g_metering g)))
         then Inl (RejectV2 409 (V2Code MONOTONIC_VIOLATION) (Some (js ''period_start_ms'')))
         else Inr ())"

definition handleV2Submit ::
  "polkadot \<Rightarrow> (bytes \<Rightarrow> bytes \<Rightarrow> bytes \<Rightarrow> bool option) \<Rightarrow> int \<Rightarrow> json \<Rightarrow> gateway \<Rightarrow> metering_reply + pending" where
  "handleV2Submit P sv nowMs raw g =
     (case validateComputeMeteringV2 P (num nowMs) (num 0) False raw of
        Inl (Refuse code field) \<Rightarrow> Inl (RejectV2 (statusForStructuralCode code) (V2Code code) field)
      | Inl (Raised e) \<Rightarrow> Inl InternalError
      | Inr ok \<Rightarrow>
          and_then (v2_auth P sv ok g) (\<lambda>_.
          and_then (v2_worker_guards ok g) (\<lambda>_.
          case workerPubkeyToSs58 P (v2_worker_pubkey (ok_record ok)) 42 of
            Inl _ \<Rightarrow> Inl InternalError
          | Inr operatorSs58 \<Rightarrow>
              Inr \<lparr>p_content_hash = ok_content_hash ok, p_schema_hash = ok_schema_hash ok,
                   p_worker_id = v2_worker_id (ok_record ok),
                   p_period_start = f64_int (v2_period_start_ms (ok_record ok)),
                   p_row = (\<lambda>_. row_v2 ok nowMs), p_operator = operatorSs58,
                   p_record = StoredV2 (ok_record ok), p_observer = Some (v2_observer (ok_record ok) \<noteq> None),
                   p_root = Some (ok_content_hash ok), p_source = METERING_V2_SOURCE\<rparr>)))"

section \<open>Version 1 and the dispatch\<close>

fun statusForCode :: "v1_code \<Rightarrow> nat" where
  "statusForCode (Shared WRONG_SCHEMA_VERSION) = 422"
| "statusForCode (Shared BOUND_EXCEEDED) = 422"
| "statusForCode SIGNATURE_INVALID = 401"
| "statusForCode (Shared MONOTONIC_VIOLATION) = 409"
| "statusForCode _ = 400"

definition raw_prop :: "jsstring \<Rightarrow> json \<Rightarrow> json option" where
  "raw_prop k raw = (case raw of JObj ps \<Rightarrow> get_prop k ps | _ \<Rightarrow> None)"

definition handleV1Submit ::
  "polkadot \<Rightarrow> int \<Rightarrow> json \<Rightarrow> gateway \<Rightarrow> metering_reply + pending" where
  "handleV1Submit P nowMs raw g =
     (let workerIdStr = (case raw_prop (js ''worker_id'') raw of Some (JStr s) \<Rightarrow> s | _ \<Rightarrow> []);
          bounds = (if workerIdStr = [] then None else Some (getWorkerBounds workerIdStr (g_metering g)));
          lastPeriodStart = (if workerIdStr = [] then 0 else getLastPeriodStart workerIdStr (g_metering g))
      in case validateComputeMeteringV1 P bounds (num nowMs) (num lastPeriodStart) raw of
           Inl (V1Refuse code field) \<Rightarrow> Inl (RejectV1 (statusForCode code) code field)
         | Inl (V1Raised e) \<Rightarrow> Inl InternalError
         | Inr ok \<Rightarrow>
             let record = v1_record ok
             in if isReplayedContent (v1_worker_id record) (v1_content_hash ok) (g_metering g)
                then Inl (ReplayReply (v1_content_hash ok) (v1_schema_hash ok) (v1_worker_id record))
                else case workerPubkeyToSs58_v1 P (v1_worker_pubkey record) 42 of
                  Inl _ \<Rightarrow> Inl InternalError
                | Inr operatorSs58 \<Rightarrow>
                    Inr \<lparr>p_content_hash = v1_content_hash ok, p_schema_hash = v1_schema_hash ok,
                         p_worker_id = v1_worker_id record, p_period_start = f64_int (v1_period_start record),
                         p_row = row_v1 ok, p_operator = operatorSs58, p_record = StoredV1 record,
                         p_observer = None, p_root = None, p_source = METERING_SOURCE\<rparr>)"

text \<open>\<open>None\<close> is a request without a body.\<close>

definition meteringSubmit ::
  "polkadot \<Rightarrow> (bytes \<Rightarrow> bytes \<Rightarrow> bytes \<Rightarrow> bool option) \<Rightarrow> int \<Rightarrow> json option \<Rightarrow> gateway
   \<Rightarrow> metering_reply + pending" where
  "meteringSubmit P sv nowMs body g =
     (case body of
        None \<Rightarrow> Inl (RejectV1 400 (Shared INVALID_JSON) None)
      | Some raw \<Rightarrow>
          if raw = JNull then Inl (RejectV1 400 (Shared INVALID_JSON) None)
          else if raw_prop (js ''schema_version'') raw = Some (JStr SCHEMA_VERSION)
          then handleV2Submit P sv nowMs raw g
          else handleV1Submit P nowMs raw g)"

section \<open>After the writes\<close>

text \<open>
  The manifest and its metadata, then the worker's state, the billing row and the message.  A
  file write can throw before anything is written, with the manifest cut short (which reads as
  no manifest), or after the manifest and before its metadata name the uploader.
\<close>

datatype disk_outcome = NothingWritten | ManifestCutShort | NoUploaderWritten | AllWritten

definition commitSubmission :: "bool \<Rightarrow> disk_outcome \<Rightarrow> int \<Rightarrow> pending \<Rightarrow> gateway \<Rightarrow> metering_reply \<times> gateway" where
  "commitSubmission configured disk nowMs p g =
     (case disk of
        NothingWritten \<Rightarrow> (InternalError, g)
      | ManifestCutShort \<Rightarrow> (InternalError, g\<lparr>g_manifests := (g_manifests g)(p_content_hash p := None)\<rparr>)
      | NoUploaderWritten \<Rightarrow> (InternalError, g\<lparr>g_manifests := (g_manifests g)(p_content_hash p \<mapsto> p_record p)\<rparr>)
      | AllWritten \<Rightarrow>
          let g1 = g\<lparr>g_manifests := (g_manifests g)(p_content_hash p \<mapsto> p_record p),
                     g_uploaders := (g_uploaders g)(p_content_hash p \<mapsto> p_operator p)\<rparr>
          in (case recordWorkerSubmission (p_worker_id p) (p_period_start p) (p_content_hash p) (nowMs div 1000)
                     (g_metering g1) of
                Inl _ \<Rightarrow> (InternalError, g1)
              | Inr db1 \<Rightarrow>
                  (case recordMeteringSubmission (p_row p nowMs) db1 of
                     Inl _ \<Rightarrow> (InternalError, g1\<lparr>g_metering := db1\<rparr>)
                   | Inr db2 \<Rightarrow>
                       (AcceptReply (p_content_hash p) (p_schema_hash p) (p_worker_id p) (p_operator p)
                          (p_observer p) configured,
                        g1\<lparr>g_metering := db2,
                           g_outbox := notifySponsoredReceiptSubmitter configured
                             \<lparr>n_contentHash = p_content_hash p, n_operator = p_operator p, n_authTier = js ''bearer'',
                              n_rootHash = p_root p, n_manifestHash = None, n_source = Some (p_source p),
                              n_schemaHash = Some (p_schema_hash p)\<rparr> (g_outbox g1)\<rparr>))))"

section \<open>When a submission passes\<close>



lemma v2_submit_Inr:
  assumes "handleV2Submit P sv nowMs raw g = Inr p"
  obtains ok where "validateComputeMeteringV2 P (num nowMs) (num 0) False raw = Inr ok"
    "v2_auth P sv ok g = Inr ()" "v2_worker_guards ok g = Inr ()"
    "p_row p = (\<lambda>_. row_v2 ok nowMs)" "p_content_hash p = ok_content_hash ok"
    "p_worker_id p = v2_worker_id (ok_record ok)" "p_period_start p = f64_int (v2_period_start_ms (ok_record ok))"
  using assms
  by (auto simp: handleV2Submit_def and_then_Inr_iff split: sum.splits validate_err.splits)

lemma v1_submit_Inr:
  assumes "handleV1Submit P nowMs raw g = Inr p"
  obtains ok b l where "validateComputeMeteringV1 P b (num nowMs) (num l) raw = Inr ok"
    "raw_prop (js ''worker_id'') raw = Some (JStr (v1_worker_id (v1_record ok))) \<and> v1_worker_id (v1_record ok) \<noteq> []
        \<longrightarrow>
       b = Some (getWorkerBounds (v1_worker_id (v1_record ok)) (g_metering g))
       \<and> l = getLastPeriodStart (v1_worker_id (v1_record ok)) (g_metering g)"
    "p_row p = row_v1 ok" "p_content_hash p = v1_content_hash ok"
    "p_worker_id p = v1_worker_id (v1_record ok)" "p_period_start p = f64_int (v1_period_start (v1_record ok))"
    "\<not> isReplayedContent (v1_worker_id (v1_record ok)) (v1_content_hash ok) (g_metering g)"
proof -
  define w where "w = (case raw_prop (js ''worker_id'') raw of Some (JStr s) \<Rightarrow> s | _ \<Rightarrow> [])"
  define b where "b = (if w = [] then None else Some (getWorkerBounds w (g_metering g)))"
  define l where "l = (if w = [] then 0 else getLastPeriodStart w (g_metering g))"
  from assms obtain ok where ok: "validateComputeMeteringV1 P b (num nowMs) (num l) raw = Inr ok"
    and p: "p_row p = row_v1 ok" "p_content_hash p = v1_content_hash ok"
      "p_worker_id p = v1_worker_id (v1_record ok)" "p_period_start p = f64_int (v1_period_start (v1_record ok))"
      "\<not> isReplayedContent (v1_worker_id (v1_record ok)) (v1_content_hash ok) (g_metering g)"
    unfolding handleV1Submit_def Let_def w_def [symmetric] b_def [symmetric] l_def [symmetric]
    by (auto split: sum.splits v1_err.splits if_splits)
  have "b = Some (getWorkerBounds (v1_worker_id (v1_record ok)) (g_metering g))
      \<and> l = getLastPeriodStart (v1_worker_id (v1_record ok)) (g_metering g)"
    if "raw_prop (js ''worker_id'') raw = Some (JStr (v1_worker_id (v1_record ok)))" "v1_worker_id (v1_record ok) \<noteq> []"
    using that by (simp add: w_def b_def l_def)
  then show thesis using that [OF ok] p by blast
qed

lemma metering_submit_Inr:
  assumes "meteringSubmit P sv nowMs body g = Inr p"
  shows "\<exists>raw. body = Some raw \<and> (handleV2Submit P sv nowMs raw g = Inr p \<or> handleV1Submit P nowMs raw g = Inr p)"
  using assms by (auto simp: meteringSubmit_def split: option.splits if_splits)



section \<open>The gateway as a step relation\<close>

text \<open>
  A state is the gateway and the submissions that passed their checks and await their file
  writes.  Administrators change the registries and the bounds at any time.
\<close>

inductive gw_step ::
  "polkadot \<Rightarrow> (bytes \<Rightarrow> bytes \<Rightarrow> bytes \<Rightarrow> bool option) \<Rightarrow> bool
   \<Rightarrow> gateway \<times> pending list \<Rightarrow> gateway \<times> pending list \<Rightarrow> bool"
  for P sv configured where
  submit: "meteringSubmit P sv nowMs body g = Inr p \<Longrightarrow> gw_step P sv configured (g, ps) (g, p # ps)"
| commit: "p \<in> set ps \<Longrightarrow> commitSubmission configured disk nowMs p g = (reply, g')
    \<Longrightarrow> gw_step P sv configured (g, ps) (g', remove1 p ps)"
| fleet: "gw_step P sv configured (g, ps) (g\<lparr>g_fleet := fleet_step op (g_fleet g)\<rparr>, ps)"
| observers: "gw_step P sv configured (g, ps) (g\<lparr>g_observers := observer_step op (g_observers g)\<rparr>, ps)"
| bounds: "upsertWorkerBounds w b nowMs (g_metering g) = Inr db
    \<Longrightarrow> gw_step P sv configured (g, ps) (g\<lparr>g_metering := db\<rparr>, ps)"

inductive_cases gw_stepE: "gw_step P sv configured s s'"

definition initial_gateway :: gateway where
  "initial_gateway = \<lparr>g_fleet = Some empty_table, g_observers = Some empty_table,
     g_metering = Some empty_metering_db, g_manifests = Map.empty, g_uploaders = Map.empty, g_outbox = []\<rparr>"

inductive reachable ::
  "polkadot \<Rightarrow> (bytes \<Rightarrow> bytes \<Rightarrow> bytes \<Rightarrow> bool option) \<Rightarrow> bool \<Rightarrow> gateway \<times> pending list \<Rightarrow> bool"
  for P sv configured where
  start: "reachable P sv configured (initial_gateway, [])"
| step: "reachable P sv configured s \<Longrightarrow> gw_step P sv configured s s' \<Longrightarrow> reachable P sv configured s'"
















lemma last_start_commit:
  assumes "commitSubmission configured AllWritten nowMs p g = (reply, g')" "g_metering g \<noteq> None"
  shows "getLastPeriodStart w (g_metering g') =
    (if w = p_worker_id p then p_period_start p else getLastPeriodStart w (g_metering g))"
proof -
  let ?new = "\<lparr>sr_worker_id = p_worker_id p, sr_last_period_start = p_period_start p,
      sr_last_content_hash = Some (p_content_hash p), sr_last_seen_at = nowMs div 1000\<rparr>"
  let ?upd = "\<lambda>old new. old\<lparr>sr_last_period_start := sr_last_period_start new,
      sr_last_content_hash := sr_last_content_hash new, sr_last_seen_at := sr_last_seen_at new\<rparr>"
  from assms(2) obtain d where d: "g_metering g = Some d" by auto
  have st: "\<exists>d'. g_metering g' = Some d' \<and> state_table d' = sql_upsert sr_worker_id ?upd ?new (state_table d)"
    using assms(1) d
    by (auto simp: commitSubmission_def Let_def recordWorkerSubmission_def recordMeteringSubmission_def)
  have "sql_get (\<lambda>r. sr_worker_id r = w) (sql_upsert sr_worker_id ?upd ?new (state_table d)) =
      (if w = p_worker_id p
       then Some (case sql_get (\<lambda>r. sr_worker_id r = w) (state_table d) of None \<Rightarrow> ?new | Some r \<Rightarrow> ?upd r ?new)
       else sql_get (\<lambda>r. sr_worker_id r = w) (state_table d))"
    using sql_get_upsert [of sr_worker_id ?new ?upd w "state_table d"] by simp
  with st d show ?thesis by (auto simp: getLastPeriodStart_def split: option.splits)
qed

lemma v1_default_bounds:
  "validateComputeMeteringV1 P b nowMs lastMs raw =
     validateComputeMeteringV1 P (Some (case b of None \<Rightarrow> DEFAULT_BOUNDS | Some c \<Rightarrow> c)) nowMs lastMs raw"
  by (simp add: validateComputeMeteringV1_def split: option.splits)

lemma submit_not_before_last:
  assumes "meteringSubmit P sv nowMs body g = Inr p" "0 \<le> nowMs" "nowMs \<le> 2 ^ 52"
    and last: "\<And>w. 0 \<le> getLastPeriodStart w (g_metering g) \<and> getLastPeriodStart w (g_metering g) \<le> 2 ^ 53"
  shows "getLastPeriodStart (p_worker_id p) (g_metering g) \<le> p_period_start p"
proof -
  have now: "f64_to_int (num nowMs) = Some nowMs" using assms(2,3) by (intro num_to_int) simp
  have lst: "f64_to_int (num (getLastPeriodStart w (g_metering g))) = Some (getLastPeriodStart w (g_metering g))" for w
    using last [of w] by (intro num_to_int) simp
  obtain raw where "handleV2Submit P sv nowMs raw g = Inr p \<or> handleV1Submit P nowMs raw g = Inr p"
    using metering_submit_Inr [OF assms(1)] by blast
  then show ?thesis
  proof
    assume "handleV2Submit P sv nowMs raw g = Inr p"
    then obtain ok where ok: "validateComputeMeteringV2 P (num nowMs) (num 0) False raw = Inr ok"
      "v2_worker_guards ok g = Inr ()" "p_worker_id p = v2_worker_id (ok_record ok)"
      "p_period_start p = f64_int (v2_period_start_ms (ok_record ok))" by (rule v2_submit_Inr)
    have "v2_rules nowMs 0 (ok_record ok)"
      using ok(1) validate_v2_Inr [OF now assms(2,3) num_to_int [of 0]] by simp
    then obtain a where a: "f64_to_int (v2_period_start_ms (ok_record ok)) = Some a"
      by (auto simp: v2_rules_def period_ok_def)
    have "\<not> f64_lt (v2_period_start_ms (ok_record ok))
        (num (getLastPeriodStart (v2_worker_id (ok_record ok)) (g_metering g)))"
      using ok(2) by (auto simp: v2_worker_guards_def Let_def split: if_splits)
    then show ?thesis using f64_lt_ints [OF a lst] a ok(3,4) by simp
  next
    assume h: "handleV1Submit P nowMs raw g = Inr p"
    show ?thesis
    proof (rule v1_submit_Inr [OF h])
    fix ok b l assume ok: "validateComputeMeteringV1 P b (num nowMs) (num l) raw = Inr ok"
      and bl: "raw_prop (js ''worker_id'') raw = Some (JStr (v1_worker_id (v1_record ok))) \<and> v1_worker_id (v1_record ok) \<noteq> []
        \<longrightarrow>
         b = Some (getWorkerBounds (v1_worker_id (v1_record ok)) (g_metering g))
         \<and> l = getLastPeriodStart (v1_worker_id (v1_record ok)) (g_metering g)"
      and p: "p_worker_id p = v1_worker_id (v1_record ok)" "p_period_start p = f64_int (v1_period_start (v1_record ok))"
    obtain r where raw: "raw = JObj r" "get_prop (js ''worker_id'') r = Some (JStr (v1_worker_id (v1_record ok)))"
      and id: "ID_REGEX (v1_worker_id (v1_record ok))"
      using ok
      by (auto simp: validateComputeMeteringV1_def parse_v1_def and_then_Inr_iff lift_v1_Inr check_iffs
          split: option.splits)
    have "v1_worker_id (v1_record ok) \<noteq> []" using id by (auto simp: ID_REGEX_def)
    then have l: "l = getLastPeriodStart (v1_worker_id (v1_record ok)) (g_metering g)"
      using bl raw by (simp add: raw_prop_def)
    have "v1_rules (case b of None \<Rightarrow> DEFAULT_BOUNDS | Some c \<Rightarrow> c) nowMs l (v1_record ok)"
      using ok [unfolded v1_default_bounds [of P b]] validate_v1_Inr [OF now assms(2,3)] lst l by simp
    then show ?thesis using p l by (auto simp: v1_rules_def period_ok_def)
    qed
  qed
qed

text \<open>C23: Submissions handled one after the other never move a worker's last accepted period start
  backwards: checks and writes of one submission together keep it non-decreasing for every
  worker.\<close>

theorem sequential_submission_monotone:
  assumes "meteringSubmit P sv nowMs body g = Inr p" "0 \<le> nowMs" "nowMs \<le> 2 ^ 52"
    and "\<And>w. 0 \<le> getLastPeriodStart w (g_metering g) \<and> getLastPeriodStart w (g_metering g) \<le> 2 ^ 53"
    and "g_metering g \<noteq> None"
  shows "getLastPeriodStart w (g_metering g)
    \<le> getLastPeriodStart w (g_metering (snd (commitSubmission configured disk later p g)))"
proof (cases disk)
  case AllWritten
  obtain reply g' where c: "commitSubmission configured AllWritten later p g = (reply, g')" by fastforce
  then show ?thesis
    using AllWritten last_start_commit [OF c assms(5), of w] submit_not_before_last [OF assms(1-4)] by simp
qed (simp_all add: commitSubmission_def)

text \<open>C24: The same fails when two submissions of a worker overlap: if both pass their checks before
  either is written and the one with the later period is written first, the last period start
  moves backwards, against the comment of \<open>recordWorkerSubmission\<close>.\<close>

theorem overlapping_submissions_rewind:
  assumes "meteringSubmit P sv now1 body1 g = Inr p1" and "meteringSubmit P sv now2 body2 g = Inr p2"
    and "p_worker_id p1 = p_worker_id p2" and "p_period_start p2 < p_period_start p1"
    and "g_metering g \<noteq> None"
  shows "\<exists>g1 g2.
    gw_step P sv configured (g, [p2, p1]) (g1, [p2]) \<and> gw_step P sv configured (g1, [p2]) (g2, [])
    \<and> (gw_step P sv configured)\<^sup>*\<^sup>* (g, []) (g2, [])
    \<and> getLastPeriodStart (p_worker_id p1) (g_metering g2) < getLastPeriodStart (p_worker_id p1) (g_metering g1)"
proof -
  obtain r1 g1 where c1: "commitSubmission configured AllWritten now1 p1 g = (r1, g1)" by fastforce
  obtain r2 g2 where c2: "commitSubmission configured AllWritten now2 p2 g1 = (r2, g2)" by fastforce
  have ne: "p1 \<noteq> p2" using assms(4) by auto
  have m1: "g_metering g1 \<noteq> None"
    using c1 assms(5)
    by (auto simp: commitSubmission_def Let_def recordWorkerSubmission_def recordMeteringSubmission_def)
  have s1: "gw_step P sv configured (g, [p2, p1]) (g1, [p2])"
    using gw_step.commit [of p1 "[p2, p1]", OF _ c1] ne by simp
  have s2: "gw_step P sv configured (g1, [p2]) (g2, [])"
    using gw_step.commit [of p2 "[p2]", OF _ c2] by simp
  have "gw_step P sv configured (g, []) (g, [p1])" "gw_step P sv configured (g, [p1]) (g, [p2, p1])"
    using assms(1,2) by (auto intro: gw_step.submit)
  then have "(gw_step P sv configured)\<^sup>*\<^sup>* (g, []) (g2, [])"
    using s1 s2 by (meson converse_rtranclp_into_rtranclp rtranclp.rtrancl_refl)
  then show ?thesis
    using s1 s2 last_start_commit [OF c1 assms(5)] last_start_commit [OF c2 m1] assms(3,4) by fastforce
qed

definition later_v1 :: metering_v1 where "later_v1 = sample_v1\<lparr>v1_period_start := num 1000500\<rparr>"

definition sv_any :: "bytes \<Rightarrow> bytes \<Rightarrow> bytes \<Rightarrow> bool option" where "sv_any m s k = Some True"

lemma later_v1_caps:
  "\<not> f64_lt (v1_cap DEFAULT_BOUNDS max_cpu_cores 1000 later_v1) (num 7000)"
  "\<not> f64_lt (v1_cap DEFAULT_BOUNDS max_ram_gb 3600000 later_v1) (num 8)"
  "\<not> f64_lt (v1_cap DEFAULT_BOUNDS max_disk_gb 3600000 later_v1) (num 1)"
  "\<not> f64_lt (v1_cap DEFAULT_BOUNDS max_gpu_count 1000 later_v1) (num 0)"
  by (simp_all add: v1_cap_def DEFAULT_BOUNDS_def later_v1_def sample_v1_def num_def f64_eval)

lemma sample_rules_0: "v1_rules DEFAULT_BOUNDS 5000000 0 sample_v1" "v1_rules DEFAULT_BOUNDS 5000000 0 later_v1"
proof -
  show "v1_rules DEFAULT_BOUNDS 5000000 0 sample_v1"
    using sample_v1_rules by (auto simp: v1_rules_def period_ok_def)
  show "v1_rules DEFAULT_BOUNDS 5000000 0 later_v1"
    using later_v1_caps num_finite
    by (auto simp: v1_rules_def v1_numeric_ok_def metric_ok_iff num_to_int period_ok_def sample_hex
        js_safe_int_def ID_REGEX_def js_eval later_v1_def sample_v1_def v1_cap_def)
qed

lemma later_v1_body: "\<exists>body. canonicalBody later_v1 = Inr body"
proof -
  have ints: "f64_is_integer (num i) \<and> encodable_int (num i)" if "\<bar>i\<bar> \<le> 2 ^ 52" for i
    using num_to_int [of i] that by (auto simp: f64_is_integer_def encodable_int_def js_safe_int_def)
  have "length (utf8_encode sample_key) \<le> 256"
    using length_utf8_encode [of sample_key] by (simp add: sample_key_def)
  then have "encodable (v1_map (v1_entries later_v1))"
    using ints by (simp add: v1_map_def v1_entries_def later_v1_def sample_v1_def js_safe_int_def
        SCHEMA_VERSION_V1_def js_eval)
  then show ?thesis unfolding canonicalBody_eq using encodeCbor_ok by blast
qed

lemma sample_submits:
  assumes rules: "v1_rules DEFAULT_BOUNDS 5000000 0 rec" and body: "canonicalBody rec = Inr body"
    and keys: "v1_worker_pubkey rec = sample_key" "v1_worker_signature rec = sample_sig"
  shows "\<exists>p. meteringSubmit polkadot_sample sv_any 5000000 (Some (json_of_v1 rec)) initial_gateway = Inr p
    \<and> p_worker_id p = v1_worker_id rec \<and> p_period_start p = f64_int (v1_period_start rec)"
proof -
  have round: "bytes_to_hex (hex_to_bytes sample_sig) = sample_sig" "bytes_to_hex (hex_to_bytes sample_key) = sample_key"
    using sample_hex hex_bytes_round by (auto simp: re_lower_hex_def)
  then have "v1_signed polkadot_sample body sample_key sample_sig"
    by (simp add: v1_signed_def polkadot_sample_def js_eval sample_sig_def)
  then have sig: "v1_signed polkadot_sample body (v1_worker_pubkey rec) (v1_worker_signature rec)"
    by (simp add: keys)
  let ?ok = "\<lparr>v1_record = rec, v1_content_hash = sha256_hex body, v1_schema_hash = SCHEMA_HASH_HEX_V1,
      v1_canonical_body = body\<rparr>"
  have val: "validateComputeMeteringV1 polkadot_sample (Some DEFAULT_BOUNDS) (num 5000000) (num 0)
      (json_of_v1 rec) = Inr ?ok"
    using validate_v1_Inr [OF sample_ints(1) _ _ num_to_int [of 0], of polkadot_sample DEFAULT_BOUNDS
        "json_of_v1 rec" ?ok] json_of_v1_wire [of rec] rules body sig by simp
  have "v1_worker_id rec \<noteq> []" using rules by (auto simp: v1_rules_def ID_REGEX_def)
  moreover have "raw_prop (js ''worker_id'') (json_of_v1 rec) = Some (JStr (v1_worker_id rec))"
    "raw_prop (js ''schema_version'') (json_of_v1 rec) = Some (JStr SCHEMA_VERSION_V1)"
    by (simp_all add: json_of_v1_def raw_prop_def get_prop_def js_eq_iff)
  moreover have "SCHEMA_VERSION_V1 \<noteq> SCHEMA_VERSION" by (simp add: SCHEMA_VERSION_V1_def SCHEMA_VERSION_def js_eq_iff)
  moreover have "getWorkerBounds w (g_metering initial_gateway) = DEFAULT_BOUNDS"
    "getLastPeriodStart w (g_metering initial_gateway) = 0"
    "\<not> isReplayedContent w h (g_metering initial_gateway)" for w h
    by (simp_all add: initial_gateway_def empty_metering_db_def getWorkerBounds_def getLastPeriodStart_def
        isReplayedContent_def sql_get_def)
  moreover have "\<exists>s. workerPubkeyToSs58_v1 polkadot_sample sample_key 42 = Inr s"
    using sample_hex by (simp add: workerPubkeyToSs58_v1_def polkadot_sample_def)
  moreover have "json_of_v1 rec \<noteq> JNull" by (simp add: json_of_v1_def)
  ultimately show ?thesis
    using val keys by (auto simp: meteringSubmit_def handleV1Submit_def Let_def)
qed

theorem overlapping_submissions_rewind_witness:
  "\<exists>p1 p2 (g1 :: gateway) (g2 :: gateway).
     meteringSubmit polkadot_sample sv_any 5000000 (Some (json_of_v1 later_v1)) initial_gateway = Inr p1
     \<and> meteringSubmit polkadot_sample sv_any 5000000 (Some (json_of_v1 sample_v1)) initial_gateway = Inr p2
     \<and> reachable polkadot_sample sv_any True (g2, [])
     \<and> getLastPeriodStart (js ''pod-7'') (g_metering g2) < getLastPeriodStart (js ''pod-7'') (g_metering g1)"
proof -
  obtain b1 b2 where b: "canonicalBody later_v1 = Inr b1" "canonicalBody sample_v1 = Inr b2"
    using later_v1_body sample_v1_body by blast
  obtain p1 where p1: "meteringSubmit polkadot_sample sv_any 5000000 (Some (json_of_v1 later_v1)) initial_gateway = Inr p1"
    "p_worker_id p1 = js ''pod-7''" "p_period_start p1 = 1000500"
    using sample_submits [OF sample_rules_0(2) b(1)] num_to_int [of 1000500] by (auto simp: later_v1_def sample_v1_def)
  obtain p2 where p2: "meteringSubmit polkadot_sample sv_any 5000000 (Some (json_of_v1 sample_v1)) initial_gateway = Inr p2"
    "p_worker_id p2 = js ''pod-7''" "p_period_start p2 = 1000000"
    using sample_submits [OF sample_rules_0(1) b(2)] num_to_int [of 1000000] by (auto simp: sample_v1_def)
  have some: "g_metering initial_gateway \<noteq> None" by (simp add: initial_gateway_def)
  have pp: "p_worker_id p1 = p_worker_id p2" "p_period_start p2 < p_period_start p1"
    using p1(2,3) p2(2,3) by simp_all
  obtain g1 g2 :: gateway where g: "(gw_step polkadot_sample sv_any True)\<^sup>*\<^sup>* (initial_gateway, []) (g2, [])"
    "getLastPeriodStart (js ''pod-7'') (g_metering g2) < getLastPeriodStart (js ''pod-7'') (g_metering g1)"
    using overlapping_submissions_rewind [OF p1(1) p2(1) pp some, of True, unfolded p1(2)] by blast
  from g(1) have "reachable polkadot_sample sv_any True (g2, [])"
    by (induction rule: rtranclp_induct) (auto intro: reachable.intros)
  with p1 p2 g(2) show ?thesis by blast
qed

theorem sequential_submission_monotone_witness:
  "\<exists>p. meteringSubmit polkadot_sample sv_any 5000000 (Some (json_of_v1 sample_v1)) initial_gateway = Inr p
     \<and> 0 \<le> getLastPeriodStart (js ''pod-7'') (g_metering (snd (commitSubmission True AllWritten 5000001 p initial_gateway)))"
proof -
  obtain b where b: "canonicalBody sample_v1 = Inr b" using sample_v1_body by blast
  obtain p where p: "meteringSubmit polkadot_sample sv_any 5000000 (Some (json_of_v1 sample_v1)) initial_gateway = Inr p"
    using sample_submits [OF sample_rules_0(1) b] by (auto simp: sample_v1_def)
  have z: "getLastPeriodStart w (g_metering initial_gateway) = 0" for w
    by (simp add: initial_gateway_def empty_metering_db_def getLastPeriodStart_def sql_get_def)
  have "g_metering initial_gateway \<noteq> None" by (simp add: initial_gateway_def)
  from sequential_submission_monotone [OF p _ _ _ this, of "js ''pod-7''" True AllWritten 5000001] p z show ?thesis by auto
qed


end
