(* ===== verification/Quota.thy ===== *)
theory Quota
  imports Registries Sha256 CanonicalCbor
begin

text \<open>
  Upload quotas and API keys, \<open>quota.ts\<close>.  The tables are lists of rows in rowid order, the order
  in which SQLite scans them.  An instant is its Unix time in milliseconds: \<open>toISOString\<close> is
  increasing in it, so comparing the stored texts is comparing the instants, and the UTC date
  that starts the text is the number of whole days.  Counters are mathematical integers.
\<close>

section \<open>Tables\<close>

record api_key_row =
  key_hash :: jsstring
  key_name :: jsstring
  enabled :: bool
  max_receipts_per_day :: int
  max_bytes_per_day :: int
  max_concurrent_uploads :: int
  validator_id :: "jsstring option"
  bound_validator_aura :: "jsstring option"
  lifetime_receipts :: int
  lifetime_bytes :: int
  lifetime_matra_debited :: int
  last_used_at :: "int option"

record daily_row =
  daily_owner :: jsstring
  daily_day :: int
  daily_receipts :: int
  daily_bytes :: int

datatype upload_status = Active | Complete

record inflight_row =
  upload_id :: jsstring
  upload_owner :: jsstring
  started_at :: int
  upload_bytes :: int
  upload_status :: upload_status

record used_sig_row =
  used_sig :: jsstring
  expires_at :: int

text \<open>\<open>daily_owner\<close> and \<open>upload_owner\<close> are \<open>key_hash\<close> in the key tables and \<open>address\<close> in the
  account tables.\<close>

record quota_db =
  api_keys :: "api_key_row list"
  quota_daily :: "daily_row list"
  uploads_inflight :: "inflight_row list"
  account_quotas_daily :: "daily_row list"
  account_uploads_inflight :: "inflight_row list"
  used_upload_sigs :: "used_sig_row list"

definition empty_quota_db :: quota_db where
  "empty_quota_db = \<lparr>api_keys = [], quota_daily = [], uploads_inflight = [], account_quotas_daily = [],
     account_uploads_inflight = [], used_upload_sigs = []\<rparr>"

record key_info =
  keyHash :: jsstring
  ki_name :: jsstring
  ki_enabled :: bool
  maxReceiptsPerDay :: int
  maxBytesPerDay :: int
  maxConcurrentUploads :: int
  validatorId :: "jsstring option"
  boundValidatorAura :: "jsstring option"

text \<open>The settings of \<open>config.ts\<close> that quotas read.\<close>

record quota_config =
  sigOnlyMaxReceiptsPerDay :: int
  sigOnlyMaxBytesPerDay :: int
  sigOnlyMaxConcurrentUploads :: int

datatype quota_error = ConcurrentLimit | ByteQuota | ReceiptQuota

datatype quota_check = Allowed | Denied quota_error int int

definition hashKey :: "jsstring \<Rightarrow> jsstring" where
  "hashKey plaintext = sha256_hex (utf8_encode plaintext)"

definition today :: "int \<Rightarrow> int" where "today now = now div 86400000"

definition STALE_MS :: int where "STALE_MS = 10 * 60 * 1000"

section \<open>The statements on a daily table and an inflight table\<close>

definition clean_stale :: "jsstring \<Rightarrow> int \<Rightarrow> inflight_row list \<Rightarrow> inflight_row list" where
  "clean_stale owner now t =
     sql_delete (\<lambda>r. upload_owner r = owner \<and> started_at r < now - STALE_MS \<and> upload_status r = Active) t"

definition active_count :: "jsstring \<Rightarrow> inflight_row list \<Rightarrow> int" where
  "active_count owner t = int (sql_count (\<lambda>r. upload_owner r = owner \<and> upload_status r = Active) t)"

definition put_upload :: "jsstring \<Rightarrow> jsstring \<Rightarrow> int \<Rightarrow> inflight_row list \<Rightarrow> inflight_row list" where
  "put_upload contentHash owner now t =
     sql_insert_or_replace upload_id
       \<lparr>upload_id = contentHash, upload_owner = owner, started_at = now, upload_bytes = 0,
        upload_status = Active\<rparr> t"

definition touch_upload ::
  "jsstring \<Rightarrow> jsstring \<Rightarrow> int \<Rightarrow> int \<Rightarrow> inflight_row list \<Rightarrow> inflight_row list" where
  "touch_upload contentHash owner bytes now t =
     sql_update (\<lambda>r. upload_id r = contentHash \<and> upload_owner r = owner)
       (\<lambda>r. r\<lparr>upload_bytes := upload_bytes r + bytes, started_at := now\<rparr>) t"

definition complete_upload :: "jsstring \<Rightarrow> jsstring \<Rightarrow> inflight_row list \<Rightarrow> inflight_row list" where
  "complete_upload contentHash owner t =
     sql_update (\<lambda>r. upload_id r = contentHash \<and> upload_owner r = owner)
       (upload_status_update (\<lambda>_. Complete)) t"

definition daily_key :: "daily_row \<Rightarrow> jsstring \<times> int" where
  "daily_key r = (daily_owner r, daily_day r)"

definition ensure_day :: "jsstring \<Rightarrow> int \<Rightarrow> daily_row list \<Rightarrow> daily_row list" where
  "ensure_day owner day t =
     sql_insert_or_ignore daily_key
       \<lparr>daily_owner = owner, daily_day = day, daily_receipts = 0, daily_bytes = 0\<rparr> t"

text \<open>A missing row counts as zero, as in \<open>getDailyUsage\<close>; after \<open>ensure_day\<close> it is present.\<close>

definition day_bytes :: "jsstring \<Rightarrow> int \<Rightarrow> daily_row list \<Rightarrow> int" where
  "day_bytes owner day t =
     (case sql_get (\<lambda>r. daily_key r = (owner, day)) t of Some r \<Rightarrow> daily_bytes r | None \<Rightarrow> 0)"

definition day_receipts :: "jsstring \<Rightarrow> int \<Rightarrow> daily_row list \<Rightarrow> int" where
  "day_receipts owner day t =
     (case sql_get (\<lambda>r. daily_key r = (owner, day)) t of Some r \<Rightarrow> daily_receipts r | None \<Rightarrow> 0)"

definition add_bytes :: "jsstring \<Rightarrow> int \<Rightarrow> int \<Rightarrow> daily_row list \<Rightarrow> daily_row list" where
  "add_bytes owner day bytes t =
     sql_update (\<lambda>r. daily_key r = (owner, day)) (\<lambda>r. r\<lparr>daily_bytes := daily_bytes r + bytes\<rparr>) t"

definition add_receipt :: "jsstring \<Rightarrow> int \<Rightarrow> daily_row list \<Rightarrow> daily_row list" where
  "add_receipt owner day t =
     sql_update (\<lambda>r. daily_key r = (owner, day)) (\<lambda>r. r\<lparr>daily_receipts := daily_receipts r + 1\<rparr>) t"

section \<open>Uploads charged to a key\<close>

definition cleanStaleInflight :: "jsstring \<Rightarrow> int \<Rightarrow> quota_db \<Rightarrow> quota_db" where
  "cleanStaleInflight kh now db = db\<lparr>uploads_inflight := clean_stale kh now (uploads_inflight db)\<rparr>"

definition startUpload :: "key_info \<Rightarrow> jsstring \<Rightarrow> int \<Rightarrow> quota_db \<Rightarrow> quota_check \<times> quota_db" where
  "startUpload ki contentHash now db =
     (let db = cleanStaleInflight (keyHash ki) now db;
          cnt = active_count (keyHash ki) (uploads_inflight db)
      in if maxConcurrentUploads ki \<le> cnt
         then (Denied ConcurrentLimit (maxConcurrentUploads ki) cnt, db)
         else (Allowed, db\<lparr>uploads_inflight := put_upload contentHash (keyHash ki) now (uploads_inflight db)\<rparr>))"

definition chargeKeyDailyBytes :: "key_info \<Rightarrow> int \<Rightarrow> int \<Rightarrow> quota_db \<Rightarrow> quota_check \<times> quota_db" where
  "chargeKeyDailyBytes ki bytes now db =
     (let d = today now;
          db = db\<lparr>quota_daily := ensure_day (keyHash ki) d (quota_daily db)\<rparr>;
          used = day_bytes (keyHash ki) d (quota_daily db)
      in if maxBytesPerDay ki < used + bytes
         then (Denied ByteQuota (maxBytesPerDay ki) used, db)
         else (Allowed, db\<lparr>quota_daily := add_bytes (keyHash ki) d bytes (quota_daily db)\<rparr>))"

definition recordChunkBytes ::
  "key_info \<Rightarrow> jsstring \<Rightarrow> int \<Rightarrow> int \<Rightarrow> quota_db \<Rightarrow> quota_check \<times> quota_db" where
  "recordChunkBytes ki contentHash chunkBytes now db =
     (case chargeKeyDailyBytes ki chunkBytes now db of
        (Allowed, db) \<Rightarrow>
          (Allowed, db\<lparr>uploads_inflight := touch_upload contentHash (keyHash ki) chunkBytes now (uploads_inflight db)\<rparr>)
      | charged \<Rightarrow> charged)"

definition chargeManifestBytes :: "key_info \<Rightarrow> int \<Rightarrow> int \<Rightarrow> quota_db \<Rightarrow> quota_check \<times> quota_db" where
  "chargeManifestBytes ki bytes now db = chargeKeyDailyBytes ki bytes now db"

definition finalizeUpload :: "key_info \<Rightarrow> jsstring \<Rightarrow> int \<Rightarrow> quota_db \<Rightarrow> quota_check \<times> quota_db" where
  "finalizeUpload ki contentHash now db =
     (let d = today now;
          db = db\<lparr>quota_daily := ensure_day (keyHash ki) d (quota_daily db)\<rparr>;
          db = db\<lparr>uploads_inflight := complete_upload contentHash (keyHash ki) (uploads_inflight db)\<rparr>;
          used = day_receipts (keyHash ki) d (quota_daily db)
      in if maxReceiptsPerDay ki \<le> used
         then (Denied ReceiptQuota (maxReceiptsPerDay ki) used, db)
         else (Allowed, db\<lparr>quota_daily := add_receipt (keyHash ki) d (quota_daily db)\<rparr>))"

section \<open>Uploads charged to an account\<close>

definition cleanStaleAccountInflight :: "jsstring \<Rightarrow> int \<Rightarrow> quota_db \<Rightarrow> quota_db" where
  "cleanStaleAccountInflight address now db =
     db\<lparr>account_uploads_inflight := clean_stale address now (account_uploads_inflight db)\<rparr>"

definition startAccountUpload ::
  "quota_config \<Rightarrow> jsstring \<Rightarrow> jsstring \<Rightarrow> int \<Rightarrow> quota_db \<Rightarrow> quota_check \<times> quota_db" where
  "startAccountUpload cfg address contentHash now db =
     (let db = cleanStaleAccountInflight address now db;
          cnt = active_count address (account_uploads_inflight db)
      in if sigOnlyMaxConcurrentUploads cfg \<le> cnt
         then (Denied ConcurrentLimit (sigOnlyMaxConcurrentUploads cfg) cnt, db)
         else (Allowed, db\<lparr>account_uploads_inflight :=
                 put_upload contentHash address now (account_uploads_inflight db)\<rparr>))"

definition chargeAccountDailyBytes ::
  "quota_config \<Rightarrow> jsstring \<Rightarrow> int \<Rightarrow> int \<Rightarrow> quota_db \<Rightarrow> quota_check \<times> quota_db" where
  "chargeAccountDailyBytes cfg address bytes now db =
     (let d = today now;
          db = db\<lparr>account_quotas_daily := ensure_day address d (account_quotas_daily db)\<rparr>;
          used = day_bytes address d (account_quotas_daily db)
      in if sigOnlyMaxBytesPerDay cfg < used + bytes
         then (Denied ByteQuota (sigOnlyMaxBytesPerDay cfg) used, db)
         else (Allowed, db\<lparr>account_quotas_daily := add_bytes address d bytes (account_quotas_daily db)\<rparr>))"

definition recordAccountChunkBytes ::
  "quota_config \<Rightarrow> jsstring \<Rightarrow> jsstring \<Rightarrow> int \<Rightarrow> int \<Rightarrow> quota_db \<Rightarrow> quota_check \<times> quota_db" where
  "recordAccountChunkBytes cfg address contentHash chunkBytes now db =
     (case chargeAccountDailyBytes cfg address chunkBytes now db of
        (Allowed, db) \<Rightarrow>
          (Allowed, db\<lparr>account_uploads_inflight :=
             touch_upload contentHash address chunkBytes now (account_uploads_inflight db)\<rparr>)
      | charged \<Rightarrow> charged)"

definition chargeAccountManifestBytes ::
  "quota_config \<Rightarrow> jsstring \<Rightarrow> int \<Rightarrow> int \<Rightarrow> quota_db \<Rightarrow> quota_check \<times> quota_db" where
  "chargeAccountManifestBytes cfg address bytes now db = chargeAccountDailyBytes cfg address bytes now db"

definition finalizeAccountUpload ::
  "quota_config \<Rightarrow> jsstring \<Rightarrow> jsstring \<Rightarrow> int \<Rightarrow> quota_db \<Rightarrow> quota_check \<times> quota_db" where
  "finalizeAccountUpload cfg address contentHash now db =
     (let d = today now;
          db = db\<lparr>account_quotas_daily := ensure_day address d (account_quotas_daily db)\<rparr>;
          db = db\<lparr>account_uploads_inflight := complete_upload contentHash address (account_uploads_inflight db)\<rparr>;
          used = day_receipts address d (account_quotas_daily db)
      in if sigOnlyMaxReceiptsPerDay cfg \<le> used
         then (Denied ReceiptQuota (sigOnlyMaxReceiptsPerDay cfg) used, db)
         else (Allowed, db\<lparr>account_quotas_daily := add_receipt address d (account_quotas_daily db)\<rparr>))"

section \<open>Operations and counters\<close>

text \<open>
  An operation of the upload path with its instant.  \<open>limits\<close> gives the limits of a key; a step
  resolves the key to its \<open>KeyInfo\<close> and runs the operation.
\<close>

datatype quota_op =
    KeyStart jsstring jsstring int
  | KeyChunk jsstring jsstring int int
  | KeyManifest jsstring int int
  | KeyFinalize jsstring jsstring int
  | AccStart jsstring jsstring int
  | AccChunk jsstring jsstring int int
  | AccManifest jsstring int int
  | AccFinalize jsstring jsstring int

definition info_of :: "(jsstring \<Rightarrow> key_info) \<Rightarrow> jsstring \<Rightarrow> key_info" where
  "info_of limits k = (limits k)\<lparr>keyHash := k\<rparr>"

fun quota_step :: "(jsstring \<Rightarrow> key_info) \<Rightarrow> quota_config \<Rightarrow> quota_op \<Rightarrow> quota_db \<Rightarrow> quota_check \<times> quota_db" where
  "quota_step limits cfg (KeyStart k h now) db = startUpload (info_of limits k) h now db"
| "quota_step limits cfg (KeyChunk k h b now) db = recordChunkBytes (info_of limits k) h b now db"
| "quota_step limits cfg (KeyManifest k b now) db = chargeManifestBytes (info_of limits k) b now db"
| "quota_step limits cfg (KeyFinalize k h now) db = finalizeUpload (info_of limits k) h now db"
| "quota_step limits cfg (AccStart a h now) db = startAccountUpload cfg a h now db"
| "quota_step limits cfg (AccChunk a h b now) db = recordAccountChunkBytes cfg a h b now db"
| "quota_step limits cfg (AccManifest a b now) db = chargeAccountManifestBytes cfg a b now db"
| "quota_step limits cfg (AccFinalize a h now) db = finalizeAccountUpload cfg a h now db"

datatype counter =
    KeyBytes jsstring int
  | KeyReceipts jsstring int
  | KeyActive jsstring
  | AccBytes jsstring int
  | AccReceipts jsstring int
  | AccActive jsstring

fun counter_used :: "counter \<Rightarrow> quota_db \<Rightarrow> int" where
  "counter_used (KeyBytes k d) db = day_bytes k d (quota_daily db)"
| "counter_used (KeyReceipts k d) db = day_receipts k d (quota_daily db)"
| "counter_used (KeyActive k) db = active_count k (uploads_inflight db)"
| "counter_used (AccBytes a d) db = day_bytes a d (account_quotas_daily db)"
| "counter_used (AccReceipts a d) db = day_receipts a d (account_quotas_daily db)"
| "counter_used (AccActive a) db = active_count a (account_uploads_inflight db)"

fun counter_cap :: "(jsstring \<Rightarrow> key_info) \<Rightarrow> quota_config \<Rightarrow> counter \<Rightarrow> int" where
  "counter_cap limits cfg (KeyBytes k d) = maxBytesPerDay (limits k)"
| "counter_cap limits cfg (KeyReceipts k d) = maxReceiptsPerDay (limits k)"
| "counter_cap limits cfg (KeyActive k) = maxConcurrentUploads (limits k)"
| "counter_cap limits cfg (AccBytes a d) = sigOnlyMaxBytesPerDay cfg"
| "counter_cap limits cfg (AccReceipts a d) = sigOnlyMaxReceiptsPerDay cfg"
| "counter_cap limits cfg (AccActive a) = sigOnlyMaxConcurrentUploads cfg"

text \<open>What an operation adds to a counter when it is admitted.\<close>

fun demand :: "quota_op \<Rightarrow> counter \<Rightarrow> int" where
  "demand (KeyChunk k h b now) (KeyBytes k' d) = (if k' = k \<and> d = today now then b else 0)"
| "demand (KeyManifest k b now) (KeyBytes k' d) = (if k' = k \<and> d = today now then b else 0)"
| "demand (KeyFinalize k h now) (KeyReceipts k' d) = (if k' = k \<and> d = today now then 1 else 0)"
| "demand (KeyStart k h now) (KeyActive k') = (if k' = k then 1 else 0)"
| "demand (AccChunk a h b now) (AccBytes a' d) = (if a' = a \<and> d = today now then b else 0)"
| "demand (AccManifest a b now) (AccBytes a' d) = (if a' = a \<and> d = today now then b else 0)"
| "demand (AccFinalize a h now) (AccReceipts a' d) = (if a' = a \<and> d = today now then 1 else 0)"
| "demand (AccStart a h now) (AccActive a') = (if a' = a then 1 else 0)"
| "demand _ _ = 0"

fun is_daily :: "counter \<Rightarrow> bool" where
  "is_daily (KeyActive k) = False"
| "is_daily (AccActive a) = False"
| "is_daily _ = True"

definition quota_run :: "(jsstring \<Rightarrow> key_info) \<Rightarrow> quota_config \<Rightarrow> quota_op list \<Rightarrow> quota_db \<Rightarrow> quota_db" where
  "quota_run limits cfg ops db = fold (\<lambda>op db. snd (quota_step limits cfg op db)) ops db"

section \<open>Counters of a daily table\<close>

lemma daily_get_ensure:
  "sql_get (\<lambda>r. daily_key r = (o', d')) (ensure_day owner d t) =
     (case sql_get (\<lambda>r. daily_key r = (o', d')) t of
        Some r \<Rightarrow> Some r
      | None \<Rightarrow> if (o', d') = (owner, d)
                then Some \<lparr>daily_owner = owner, daily_day = d, daily_receipts = 0, daily_bytes = 0\<rparr> else None)"
proof (cases "(owner, d) \<in> daily_key ` set t")
  case True
  then have "sql_get (\<lambda>r. daily_key r = (owner, d)) t \<noteq> None" by (auto simp: sql_get_None)
  with True show ?thesis
    by (auto simp: ensure_day_def sql_insert_or_ignore_def daily_key_def split: option.splits)
next
  case False
  then show ?thesis
    by (auto simp: ensure_day_def sql_insert_or_ignore_def sql_get_append daily_key_def split: option.splits)
      (auto simp: sql_get_def)
qed

lemma day_ensure [simp]:
  "day_bytes o' d' (ensure_day owner d t) = day_bytes o' d' t"
  "day_receipts o' d' (ensure_day owner d t) = day_receipts o' d' t"
  by (auto simp: day_bytes_def day_receipts_def daily_get_ensure split: option.splits)

lemma daily_get_add:
  "sql_get (\<lambda>r. daily_key r = k) (add_bytes owner d b t) =
     map_option (\<lambda>r. if daily_key r = (owner, d) then r\<lparr>daily_bytes := daily_bytes r + b\<rparr> else r)
       (sql_get (\<lambda>r. daily_key r = k) t)"
  "sql_get (\<lambda>r. daily_key r = k) (add_receipt owner d t) =
     map_option (\<lambda>r. if daily_key r = (owner, d) then r\<lparr>daily_receipts := daily_receipts r + 1\<rparr> else r)
       (sql_get (\<lambda>r. daily_key r = k) t)"
  unfolding add_bytes_def add_receipt_def by (rule sql_get_update_key; simp add: daily_key_def)+

lemma day_present: "sql_get (\<lambda>r. daily_key r = (owner, d)) (ensure_day owner d t) \<noteq> None"
  by (simp add: daily_get_ensure split: option.splits)

lemma daily_get_key: "sql_get (\<lambda>r. daily_key r = k) t = Some r \<Longrightarrow> daily_key r = k"
  by (drule sql_get_SomeD) simp

lemma day_add_bytes [simp]:
  "day_bytes o' d' (add_bytes owner d b (ensure_day owner d t)) =
     day_bytes o' d' t + (if (o', d') = (owner, d) then b else 0)"
proof (cases "sql_get (\<lambda>r. daily_key r = (o', d')) t")
  case None
  then show ?thesis by (simp add: day_bytes_def daily_get_add daily_get_ensure, simp add: daily_key_def)
next
  case (Some r)
  from daily_get_key [OF this] have "daily_key r = (o', d')" .
  with Some show ?thesis by (simp add: day_bytes_def daily_get_add daily_get_ensure)
qed

lemma day_add_receipt [simp]:
  "day_receipts o' d' (add_receipt owner d (ensure_day owner d t)) =
     day_receipts o' d' t + (if (o', d') = (owner, d) then 1 else 0)"
proof (cases "sql_get (\<lambda>r. daily_key r = (o', d')) t")
  case None
  then show ?thesis by (simp add: day_receipts_def daily_get_add daily_get_ensure, simp add: daily_key_def)
next
  case (Some r)
  from daily_get_key [OF this] have "daily_key r = (o', d')" .
  with Some show ?thesis by (simp add: day_receipts_def daily_get_add daily_get_ensure)
qed

lemma day_add_other [simp]:
  "day_receipts o' d' (add_bytes owner d b t) = day_receipts o' d' t"
  "day_bytes o' d' (add_receipt owner d t) = day_bytes o' d' t"
  by (cases "sql_get (\<lambda>r. daily_key r = (o', d')) t";
      simp add: day_receipts_def day_bytes_def daily_get_add)+

section \<open>Slots of an inflight table\<close>

lemma active_nonneg: "0 \<le> active_count owner t"
  by (simp add: active_count_def)

lemma active_clean: "active_count o' (clean_stale owner now t) \<le> active_count o' t"
  by (simp add: active_count_def clean_stale_def sql_count_delete_le)

lemma active_put:
  "active_count o' (put_upload h owner now t) \<le> active_count o' t + (if o' = owner then 1 else 0)"
  using sql_count_replace_le [of "\<lambda>r. upload_owner r = o' \<and> upload_status r = Active" upload_id
      "\<lparr>upload_id = h, upload_owner = owner, started_at = now, upload_bytes = 0, upload_status = Active\<rparr>" t]
  by (auto simp: active_count_def put_upload_def split: if_splits)

lemma active_touch [simp]: "active_count o' (touch_upload h owner b now t) = active_count o' t"
  by (induction t) (auto simp: active_count_def touch_upload_def sql_count_def sql_update_def)

lemma active_complete: "active_count o' (complete_upload h owner t) \<le> active_count o' t"
  unfolding active_count_def complete_upload_def of_nat_le_iff by (rule sql_count_update_le) simp

section \<open>The contract of a capped counter\<close>

text \<open>The sum of what the admitted operations of a run add.\<close>

fun admitted_sum ::
  "('op \<Rightarrow> 'db \<Rightarrow> 'r \<times> 'db) \<Rightarrow> ('op \<Rightarrow> 'db \<Rightarrow> bool) \<Rightarrow> ('op \<Rightarrow> int) \<Rightarrow> 'op list \<Rightarrow> 'db \<Rightarrow> int" where
  "admitted_sum step admitted adds [] db = 0"
| "admitted_sum step admitted adds (op # ops) db =
     (if admitted op db then adds op else 0) + admitted_sum step admitted adds ops (snd (step op db))"

text \<open>
  A store admits operations one by one; each either raises a counter and leaves it within its
  cap, or does not raise it.
\<close>

locale capped_counters =
  fixes step :: "'op \<Rightarrow> 'db \<Rightarrow> 'r \<times> 'db"
    and used :: "'c \<Rightarrow> 'db \<Rightarrow> int"
    and cap :: "'c \<Rightarrow> int"
  assumes step_capped: "used c (snd (step op db)) \<le> max (used c db) (cap c)"
begin

lemma run_capped: "used c (fold (\<lambda>op db. snd (step op db)) ops db) \<le> max (used c db) (cap c)"
proof (induction ops arbitrary: db)
  case (Cons op ops)
  then show ?case using step_capped [of c op db] by (simp add: max_def) (smt (verit) Cons.IH)
qed simp

end

text \<open>A counter that is moreover exact: it is the sum of what was admitted.\<close>

locale exact_counters = capped_counters +
  fixes admitted :: "'op \<Rightarrow> 'db \<Rightarrow> bool"
    and adds :: "'op \<Rightarrow> 'c \<Rightarrow> int"
    and exact :: "'c \<Rightarrow> bool"
  assumes step_exact:
    "exact c \<Longrightarrow> used c (snd (step op db)) = used c db + (if admitted op db then adds op c else 0)"
begin

lemma run_exact:
  "exact c \<Longrightarrow> used c (fold (\<lambda>op db. snd (step op db)) ops db) =
     used c db + admitted_sum step admitted (\<lambda>op. adds op c) ops db"
  by (induction ops arbitrary: db) (simp_all add: step_exact)

end

abbreviation quota_admitted :: "(jsstring \<Rightarrow> key_info) \<Rightarrow> quota_config \<Rightarrow> quota_op \<Rightarrow> quota_db \<Rightarrow> bool" where
  "quota_admitted limits cfg op db \<equiv> fst (quota_step limits cfg op db) = Allowed"

lemmas quota_defs =
  startUpload_def chargeKeyDailyBytes_def recordChunkBytes_def chargeManifestBytes_def finalizeUpload_def
  startAccountUpload_def chargeAccountDailyBytes_def recordAccountChunkBytes_def
  chargeAccountManifestBytes_def finalizeAccountUpload_def cleanStaleInflight_def
  cleanStaleAccountInflight_def info_of_def Let_def

lemma step_start_capped:
  "active_count o' (put_upload h owner now (clean_stale owner now t))
     \<le> (if o' = owner then active_count owner (clean_stale owner now t) + 1 else active_count o' t)"
  using active_put [of o' h owner now "clean_stale owner now t"] active_clean [of o' owner now t]
  by (auto split: if_splits)

lemma quota_step_capped:
  "counter_used c (snd (quota_step limits cfg op db)) \<le> max (counter_used c db) (counter_cap limits cfg c)"
proof (cases op)
  case (KeyStart k h now)
  show ?thesis
  proof (cases c)
    case (KeyActive k')
    then show ?thesis
      using KeyStart step_start_capped [of k' h k now "uploads_inflight db"]
        active_clean [of k' k now "uploads_inflight db"]
      by (auto simp: quota_defs split: if_splits)
  qed (use KeyStart in \<open>auto simp: quota_defs\<close>)
next
  case (AccStart k h now)
  show ?thesis
  proof (cases c)
    case (AccActive k')
    then show ?thesis
      using AccStart step_start_capped [of k' h k now "account_uploads_inflight db"]
        active_clean [of k' k now "account_uploads_inflight db"]
      by (auto simp: quota_defs split: if_splits)
  qed (use AccStart in \<open>auto simp: quota_defs\<close>)
qed (cases c; auto simp: quota_defs max_def intro: active_complete order_trans)+

lemma quota_step_exact:
  "is_daily c \<Longrightarrow> counter_used c (snd (quota_step limits cfg op db)) =
     counter_used c db + (if quota_admitted limits cfg op db then demand op c else 0)"
  by (cases op; cases c; auto simp: quota_defs)

interpretation quota: exact_counters "quota_step limits cfg" counter_used "counter_cap limits cfg"
  "quota_admitted limits cfg" demand is_daily for limits cfg
  by unfold_locales (auto intro: quota_step_capped simp: quota_step_exact)

section \<open>What holds after any run\<close>

text \<open>C21: However operations of keys and accounts are interleaved, no counter ever exceeds its cap:
  bytes and receipts of a day and uploads in flight, per key and per account.\<close>

theorem quota_within_caps:
  "counter_used c (quota_run limits cfg ops empty_quota_db) \<le> max 0 (counter_cap limits cfg c)"
proof -
  have "counter_used c empty_quota_db = 0"
    by (cases c) (simp_all add: empty_quota_db_def day_bytes_def day_receipts_def sql_get_def
        active_count_def sql_count_def)
  then show ?thesis
    using quota.run_capped [of c limits cfg ops empty_quota_db] by (simp add: quota_run_def)
qed

text \<open>C28: The daily byte and receipt counters are exact: after any run each is what it was plus the
  bytes (or receipts) of the operations that were admitted for that key or account on that
  day, and nothing of the refused ones.\<close>

theorem quota_daily_exact:
  "counter_used (KeyBytes k d) (quota_run limits cfg ops db) = counter_used (KeyBytes k d) db
     + admitted_sum (quota_step limits cfg) (quota_admitted limits cfg) (\<lambda>op. demand op (KeyBytes k d)) ops db
   \<and> counter_used (KeyReceipts k d) (quota_run limits cfg ops db) = counter_used (KeyReceipts k d) db
     + admitted_sum (quota_step limits cfg) (quota_admitted limits cfg) (\<lambda>op. demand op (KeyReceipts k d)) ops db
   \<and> counter_used (AccBytes k d) (quota_run limits cfg ops db) = counter_used (AccBytes k d) db
     + admitted_sum (quota_step limits cfg) (quota_admitted limits cfg) (\<lambda>op. demand op (AccBytes k d)) ops db
   \<and> counter_used (AccReceipts k d) (quota_run limits cfg ops db) = counter_used (AccReceipts k d) db
     + admitted_sum (quota_step limits cfg) (quota_admitted limits cfg) (\<lambda>op. demand op (AccReceipts k d)) ops db"
  unfolding quota_run_def by (intro conjI quota.run_exact; simp)

text \<open>Finalizing frees the slot of this upload even when the receipt is refused, touches no
  other upload, and counts exactly one receipt when it is admitted.\<close>

theorem finalize_frees_slot:
  "case finalizeUpload ki h now db of (verdict, db') \<Rightarrow>
     (\<forall>r \<in> set (uploads_inflight db'). \<not> (upload_id r = h \<and> upload_owner r = keyHash ki \<and> upload_status r = Active))
     \<and> filter (\<lambda>r. upload_id r \<noteq> h \<or> upload_owner r \<noteq> keyHash ki) (uploads_inflight db') =
         filter (\<lambda>r. upload_id r \<noteq> h \<or> upload_owner r \<noteq> keyHash ki) (uploads_inflight db)
     \<and> (verdict = Allowed \<longleftrightarrow> day_receipts (keyHash ki) (today now) (quota_daily db) < maxReceiptsPerDay ki)
     \<and> day_receipts (keyHash ki) (today now) (quota_daily db') =
         day_receipts (keyHash ki) (today now) (quota_daily db) + (if verdict = Allowed then 1 else 0)"
proof -
  have other: "filter (\<lambda>r. upload_id r \<noteq> h \<or> upload_owner r \<noteq> o') (complete_upload h o' t) =
      filter (\<lambda>r. upload_id r \<noteq> h \<or> upload_owner r \<noteq> o') t" for o' t
    by (induction t) (auto simp: complete_upload_def sql_update_def)
  have gone: "\<not> (upload_id r = h \<and> upload_owner r = o' \<and> upload_status r = Active)"
    if "r \<in> set (complete_upload h o' t)" for r o' t
  proof -
    from that obtain r' where "r = (if upload_id r' = h \<and> upload_owner r' = o'
        then upload_status_update (\<lambda>_. Complete) r' else r')"
      unfolding complete_upload_def set_sql_update by blast
    then show ?thesis by (cases "upload_id r' = h \<and> upload_owner r' = o'") auto
  qed
  let ?i = "complete_upload h (keyHash ki) (uploads_inflight db)"
  have infl: "uploads_inflight (snd (finalizeUpload ki h now db)) = ?i"
    by (simp add: quota_defs)
  have verdict: "fst (finalizeUpload ki h now db) = Allowed
      \<longleftrightarrow> day_receipts (keyHash ki) (today now) (quota_daily db) < maxReceiptsPerDay ki"
    by (simp add: quota_defs)
  have "day_receipts (keyHash ki) (today now) (quota_daily (snd (finalizeUpload ki h now db))) =
      day_receipts (keyHash ki) (today now) (quota_daily db)
      + (if fst (finalizeUpload ki h now db) = Allowed then 1 else 0)"
    by (simp add: quota_defs)
  then show ?thesis
    unfolding case_prod_beta infl other verdict using gone by blast
qed

text \<open>The slot table is keyed by the content hash alone: when a second key starts an upload of
  the same content, the first key's slot is gone, although its upload goes on.\<close>

theorem start_takes_over_slot:
  assumes "startUpload ki h now db = (Allowed, db')" and "k \<noteq> keyHash ki"
  shows "\<forall>r \<in> set (uploads_inflight db'). upload_id r = h \<longrightarrow> upload_owner r \<noteq> k"
proof -
  have "uploads_inflight db' = put_upload h (keyHash ki) now (clean_stale (keyHash ki) now (uploads_inflight db))"
    using assms(1) by (auto simp: quota_defs split: if_splits)
  then show ?thesis
    using assms(2) by (simp add: put_upload_def sql_insert_or_replace_def)
qed

definition sample_key_info :: key_info where
  "sample_key_info = \<lparr>keyHash = js ''b'', ki_name = js ''beta'', ki_enabled = True, maxReceiptsPerDay = 2,
     maxBytesPerDay = 100, maxConcurrentUploads = 1, validatorId = None, boundValidatorAura = None\<rparr>"

definition one_upload_db :: quota_db where
  "one_upload_db = snd (startUpload (sample_key_info\<lparr>keyHash := js ''a''\<rparr>) (js ''h'') 1000 empty_quota_db)"

theorem start_takes_over_slot_witness:
  "active_count (js ''a'') (uploads_inflight one_upload_db) = 1
   \<and> (\<exists>db'. startUpload sample_key_info (js ''h'') 2000 one_upload_db = (Allowed, db')
        \<and> (\<forall>r \<in> set (uploads_inflight db'). upload_id r = js ''h'' \<longrightarrow> upload_owner r \<noteq> js ''a''))"
proof -
  note ev = one_upload_db_def sample_key_info_def quota_defs empty_quota_db_def clean_stale_def sql_delete_def
    active_count_def sql_count_def put_upload_def sql_insert_or_replace_def js_eq_iff
  obtain db' where ok: "startUpload sample_key_info (js ''h'') 2000 one_upload_db = (Allowed, db')"
    by (simp add: ev)
  have "js ''a'' \<noteq> keyHash sample_key_info" by (simp add: sample_key_info_def js_eq_iff)
  from start_takes_over_slot [OF ok this] have
    "\<forall>r \<in> set (uploads_inflight db'). upload_id r = js ''h'' \<longrightarrow> upload_owner r \<noteq> js ''a''" .
  moreover have "active_count (js ''a'') (uploads_inflight one_upload_db) = 1" by (simp add: ev)
  ultimately show ?thesis using ok by blast
qed

section \<open>No slot is held for ever\<close>

fun op_time :: "quota_op \<Rightarrow> int" where
  "op_time (KeyStart k h now) = now"
| "op_time (KeyChunk k h b now) = now"
| "op_time (KeyManifest k b now) = now"
| "op_time (KeyFinalize k h now) = now"
| "op_time (AccStart a h now) = now"
| "op_time (AccChunk a h b now) = now"
| "op_time (AccManifest a b now) = now"
| "op_time (AccFinalize a h now) = now"

definition no_later :: "int \<Rightarrow> inflight_row list \<Rightarrow> bool" where
  "no_later T t \<longleftrightarrow> (\<forall>r \<in> set t. started_at r \<le> T)"

lemma no_later_ops [intro, simp]:
  "no_later T t \<Longrightarrow> no_later T (clean_stale o' now t)"
  "no_later T t \<Longrightarrow> no_later T (complete_upload h o' t)"
  "no_later T t \<Longrightarrow> now \<le> T \<Longrightarrow> no_later T (put_upload h o' now t)"
  "no_later T t \<Longrightarrow> now \<le> T \<Longrightarrow> no_later T (touch_upload h o' b now t)"
  by (auto simp: no_later_def clean_stale_def sql_delete_def complete_upload_def put_upload_def
      sql_insert_or_replace_def touch_upload_def sql_update_def)

lemma no_later_step:
  assumes "no_later T (uploads_inflight db)" "no_later T (account_uploads_inflight db)" "op_time op \<le> T"
  shows "no_later T (uploads_inflight (snd (quota_step limits cfg op db)))
    \<and> no_later T (account_uploads_inflight (snd (quota_step limits cfg op db)))"
  using assms by (cases op) (auto simp: quota_defs)

lemma no_later_run:
  assumes "no_later T (uploads_inflight db)" "no_later T (account_uploads_inflight db)" "\<forall>op \<in> set ops. op_time op \<le> T"
  shows "no_later T (uploads_inflight (quota_run limits cfg ops db))
    \<and> no_later T (account_uploads_inflight (quota_run limits cfg ops db))"
  using assms unfolding quota_run_def
proof (induction ops arbitrary: db)
  case (Cons op ops)
  then show ?case using no_later_step [OF Cons.prems(1,2), of op] by simp
qed simp

lemma stale_none:
  assumes "no_later T t" "T + STALE_MS < now" shows "active_count o' (clean_stale o' now t) = 0"
  using assms by (auto simp: active_count_def sql_count_def clean_stale_def sql_delete_def no_later_def
      filter_empty_conv)

text \<open>C32: An abandoned upload never blocks its owner for good: once ten minutes have passed since
  the last request, a key or account with a positive limit is admitted to start an upload,
  however many uploads it left unfinished.\<close>

theorem abandoned_slots_reclaimed:
  assumes "\<forall>op \<in> set ops. op_time op \<le> T" and "T + 10 * 60 * 1000 < now"
    and "0 < maxConcurrentUploads (limits k)" and "0 < sigOnlyMaxConcurrentUploads cfg"
  shows "quota_admitted limits cfg (KeyStart k h now) (quota_run limits cfg ops empty_quota_db)
    \<and> quota_admitted limits cfg (AccStart a h now) (quota_run limits cfg ops empty_quota_db)"
proof -
  have "no_later T (uploads_inflight empty_quota_db)" "no_later T (account_uploads_inflight empty_quota_db)"
    by (simp_all add: no_later_def empty_quota_db_def)
  from no_later_run [OF this assms(1), of limits cfg] show ?thesis
    using stale_none [of T _ now] assms(2-4) by (simp add: quota_defs) (simp add: STALE_MS_def)
qed

theorem abandoned_slots_reclaimed_witness:
  "\<not> quota_admitted (\<lambda>_. sample_key_info) \<lparr>sigOnlyMaxReceiptsPerDay = 1, sigOnlyMaxBytesPerDay = 1,
       sigOnlyMaxConcurrentUploads = 1\<rparr> (KeyStart (js ''b'') (js ''i'') 3000)
       (quota_run (\<lambda>_. sample_key_info) \<lparr>sigOnlyMaxReceiptsPerDay = 1, sigOnlyMaxBytesPerDay = 1,
          sigOnlyMaxConcurrentUploads = 1\<rparr> [KeyStart (js ''b'') (js ''h'') 2000] empty_quota_db)
   \<and> quota_admitted (\<lambda>_. sample_key_info) \<lparr>sigOnlyMaxReceiptsPerDay = 1, sigOnlyMaxBytesPerDay = 1,
       sigOnlyMaxConcurrentUploads = 1\<rparr> (KeyStart (js ''b'') (js ''i'') 700000)
       (quota_run (\<lambda>_. sample_key_info) \<lparr>sigOnlyMaxReceiptsPerDay = 1, sigOnlyMaxBytesPerDay = 1,
          sigOnlyMaxConcurrentUploads = 1\<rparr> [KeyStart (js ''b'') (js ''h'') 2000] empty_quota_db)"
proof (rule conjI)
  note ev = sample_key_info_def quota_defs quota_run_def empty_quota_db_def clean_stale_def sql_delete_def
    active_count_def sql_count_def put_upload_def sql_insert_or_replace_def js_eq_iff STALE_MS_def
  show "\<not> quota_admitted (\<lambda>_. sample_key_info) \<lparr>sigOnlyMaxReceiptsPerDay = 1, sigOnlyMaxBytesPerDay = 1,
       sigOnlyMaxConcurrentUploads = 1\<rparr> (KeyStart (js ''b'') (js ''i'') 3000)
       (quota_run (\<lambda>_. sample_key_info) \<lparr>sigOnlyMaxReceiptsPerDay = 1, sigOnlyMaxBytesPerDay = 1,
          sigOnlyMaxConcurrentUploads = 1\<rparr> [KeyStart (js ''b'') (js ''h'') 2000] empty_quota_db)"
    by (simp add: ev)
qed (rule abandoned_slots_reclaimed [of _ 2000, THEN conjunct1]; simp add: sample_key_info_def)

theorem finalize_frees_slot_witness:
  "active_count (js ''a'') (uploads_inflight one_upload_db) = 1
   \<and> (\<exists>db'. finalizeUpload (sample_key_info\<lparr>keyHash := js ''a''\<rparr>) (js ''h'') 2000 one_upload_db = (Allowed, db')
        \<and> day_receipts (js ''a'') 0 (quota_daily db') = 1
        \<and> (\<forall>r \<in> set (uploads_inflight db'). \<not> (upload_id r = js ''h'' \<and> upload_owner r = js ''a'' \<and> upload_status r = Active)))"
proof -
  note ev = one_upload_db_def sample_key_info_def quota_defs empty_quota_db_def clean_stale_def sql_delete_def
    active_count_def sql_count_def put_upload_def sql_insert_or_replace_def js_eq_iff day_receipts_def sql_get_def
    today_def
  have z: "day_receipts (js ''a'') 0 (quota_daily one_upload_db) = 0" by (simp add: ev)
  obtain v db' where f: "finalizeUpload (sample_key_info\<lparr>keyHash := js ''a''\<rparr>) (js ''h'') 2000 one_upload_db = (v, db')"
    by fastforce
  have "active_count (js ''a'') (uploads_inflight one_upload_db) = 1" by (simp add: ev)
  with finalize_frees_slot [where ki = "sample_key_info\<lparr>keyHash := js ''a''\<rparr>" and h = "js ''h''" and now = 2000
      and db = one_upload_db, unfolded f] z f
  show ?thesis by (simp add: sample_key_info_def today_def)
qed

end
