(* ===== verification/ApiKeys.thy ===== *)
theory ApiKeys
  imports Quota
begin

text \<open>
  The API key table of \<open>quota.ts\<close>: resolving a presented key or an account to its limits, loading
  \<open>keys.json\<close>, replacing keys that are merely the hash of a public address, the bindings
  between validators and their certificate daemons, and the usage counters.
\<close>

section \<open>Resolving keys\<close>

definition row_info :: "api_key_row \<Rightarrow> key_info" where
  "row_info r =
     \<lparr>keyHash = key_hash r, ki_name = key_name r, ki_enabled = enabled r,
      maxReceiptsPerDay = max_receipts_per_day r, maxBytesPerDay = max_bytes_per_day r,
      maxConcurrentUploads = max_concurrent_uploads r, validatorId = validator_id r,
      boundValidatorAura = bound_validator_aura r\<rparr>"

definition resolveKey :: "jsstring \<Rightarrow> quota_db \<Rightarrow> key_info option" where
  "resolveKey apiKeyPlaintext db =
     (case sql_get (\<lambda>r. key_hash r = hashKey apiKeyPlaintext) (api_keys db) of
        None \<Rightarrow> None
      | Some r \<Rightarrow> if enabled r then Some (row_info r) else None)"

text \<open>\<open>LIMIT 1\<close> without an order: SQLite scans the table in rowid order.\<close>

definition resolveKeyByAccount :: "jsstring \<Rightarrow> quota_db \<Rightarrow> key_info option" where
  "resolveKeyByAccount ss58 db =
     map_option row_info (sql_get (\<lambda>r. validator_id r = Some ss58 \<and> enabled r) (api_keys db))"

definition getApiKeyByHash :: "jsstring \<Rightarrow> quota_db \<Rightarrow> key_info option" where
  "getApiKeyByHash kh db = map_option row_info (sql_get (\<lambda>r. key_hash r = kh) (api_keys db))"

text \<open>\<open>key_hash LIKE 'heartbeat-only:%'\<close>; \<open>LIKE\<close> ignores the case of ASCII letters.\<close>

definition heartbeat_only :: "jsstring \<Rightarrow> bool" where
  "heartbeat_only kh \<longleftrightarrow> starts_with (to_lower kh) (js ''heartbeat-only:'')"

definition lookupValidatorInfo :: "jsstring \<Rightarrow> quota_db \<Rightarrow> jsstring option" where
  "lookupValidatorInfo vid db =
     map_option key_name (sql_get (\<lambda>r. validator_id r = Some vid \<and> enabled r) (api_keys db))"

definition lookupUploadEligibleValidator :: "jsstring \<Rightarrow> quota_db \<Rightarrow> jsstring option" where
  "lookupUploadEligibleValidator vid db =
     map_option key_name
       (sql_get (\<lambda>r. validator_id r = Some vid \<and> enabled r \<and> \<not> heartbeat_only (key_hash r)) (api_keys db))"

section \<open>Creating rows\<close>

definition new_key_row :: "jsstring \<Rightarrow> jsstring \<Rightarrow> jsstring option \<Rightarrow> api_key_row" where
  "new_key_row kh name vid =
     \<lparr>key_hash = kh, key_name = name, enabled = True, max_receipts_per_day = 100,
      max_bytes_per_day = 1073741824, max_concurrent_uploads = 5, validator_id = vid,
      bound_validator_aura = None, lifetime_receipts = 0, lifetime_bytes = 0,
      lifetime_matra_debited = 0, last_used_at = None\<rparr>"

text \<open>\<open>None\<close>: the primary key is taken and the statement throws.\<close>

definition ensureFaucetApiKey :: "jsstring \<Rightarrow> jsstring \<Rightarrow> quota_db \<Rightarrow> quota_db option" where
  "ensureFaucetApiKey vid kh db =
     (if (\<exists>r \<in> set (api_keys db). validator_id r = Some vid \<and> \<not> heartbeat_only (key_hash r)) then Some db
      else map_option (\<lambda>t. db\<lparr>api_keys := t\<rparr>)
             (sql_insert key_hash (new_key_row kh (js ''faucet-attestor'') (Some vid)) (api_keys db)))"

text \<open>An entry of \<open>keys.json\<close>; optional properties are \<open>None\<close>.\<close>

record key_entry =
  ke_keyHash :: jsstring
  ke_name :: jsstring
  ke_enabled :: "bool option"
  ke_maxReceiptsPerDay :: "int option"
  ke_maxBytesPerDay :: "int option"
  ke_maxConcurrentUploads :: "int option"
  ke_validatorId :: "jsstring option"
  ke_boundValidatorAura :: "jsstring option"

text \<open>\<open>!!validatorId && keyHash === hashKey(validatorId)\<close>\<close>

definition isAddressDerived :: "jsstring \<Rightarrow> jsstring option \<Rightarrow> bool" where
  "isAddressDerived kh vid = (case vid of None \<Rightarrow> False | Some v \<Rightarrow> v \<noteq> [] \<and> kh = hashKey v)"

definition or_default :: "'a \<Rightarrow> 'a option \<Rightarrow> 'a" where
  "or_default d x = (case x of None \<Rightarrow> d | Some v \<Rightarrow> v)"

definition entry_row :: "key_entry \<Rightarrow> api_key_row" where
  "entry_row k =
     (new_key_row (ke_keyHash k) (ke_name k) (ke_validatorId k))
       \<lparr>enabled := or_default True (ke_enabled k),
        max_receipts_per_day := or_default 100 (ke_maxReceiptsPerDay k),
        max_bytes_per_day := or_default 1073741824 (ke_maxBytesPerDay k),
        max_concurrent_uploads := or_default 5 (ke_maxConcurrentUploads k),
        bound_validator_aura := ke_boundValidatorAura k\<rparr>"

text \<open>The \<open>DO UPDATE\<close> clause: the usage columns are kept, and an existing binding survives.\<close>

definition merge_key_row :: "api_key_row \<Rightarrow> api_key_row \<Rightarrow> api_key_row" where
  "merge_key_row old new =
     old\<lparr>key_name := key_name new, enabled := enabled new,
         max_receipts_per_day := max_receipts_per_day new, max_bytes_per_day := max_bytes_per_day new,
         max_concurrent_uploads := max_concurrent_uploads new, validator_id := validator_id new,
         bound_validator_aura := (case bound_validator_aura new of
            Some a \<Rightarrow> Some a | None \<Rightarrow> bound_validator_aura old)\<rparr>"

definition upsert_entry :: "key_entry \<Rightarrow> api_key_row list \<Rightarrow> api_key_row list" where
  "upsert_entry k t = sql_upsert key_hash merge_key_row (entry_row k) t"

text \<open>
  What is found at the configured path: no file, a file that cannot be read or parsed, or the
  entries.  \<open>apiKey\<close> is the legacy setting, \<open>None\<close> when empty.
\<close>

datatype keys_file = NoKeysFile | UnreadableKeysFile | KeysFile "key_entry list"

definition loadKeys :: "keys_file \<Rightarrow> jsstring option \<Rightarrow> quota_db \<Rightarrow> quota_db" where
  "loadKeys file apiKey db =
     (case file of
        KeysFile ks \<Rightarrow>
          let loadable = filter (\<lambda>k. \<not> isAddressDerived (ke_keyHash k) (ke_validatorId k)) ks
          in db\<lparr>api_keys := fold upsert_entry loadable (api_keys db)\<rparr>
      | UnreadableKeysFile \<Rightarrow> db
      | NoKeysFile \<Rightarrow>
          (case apiKey of
             None \<Rightarrow> db
           | Some p \<Rightarrow> db\<lparr>api_keys := sql_insert_or_ignore key_hash
               (new_key_row (hashKey p) (js ''legacy-default'') None) (api_keys db)\<rparr>))"

section \<open>Keys that are the hash of an address\<close>

text \<open>
  One round of the three \<open>UPDATE ... SET key_hash = ?\<close> statements.  \<open>None\<close>: a primary key would
  be duplicated, the statement throws and the transaction is rolled back.
\<close>

definition rekey :: "jsstring \<Rightarrow> jsstring \<Rightarrow> quota_db \<Rightarrow> quota_db option" where
  "rekey new old db =
     (if new \<in> key_hash ` set (api_keys db)
         \<or> (\<exists>r \<in> set (quota_daily db). daily_owner r = old \<and> (new, daily_day r) \<in> daily_key ` set (quota_daily db))
      then None
      else Some (db\<lparr>
        api_keys := sql_update (\<lambda>r. key_hash r = old) (key_hash_update (\<lambda>_. new)) (api_keys db),
        quota_daily := sql_update (\<lambda>r. daily_owner r = old) (daily_owner_update (\<lambda>_. new)) (quota_daily db),
        uploads_inflight := sql_update (\<lambda>r. upload_owner r = old) (upload_owner_update (\<lambda>_. new)) (uploads_inflight db)\<rparr>))"

fun rekey_all :: "(jsstring \<times> jsstring) list \<Rightarrow> quota_db \<Rightarrow> quota_db option" where
  "rekey_all [] db = Some db"
| "rekey_all ((new, old) # ps) db = (case rekey new old db of None \<Rightarrow> None | Some db' \<Rightarrow> rekey_all ps db')"

text \<open>\<open>unguessableKeyHash\<close> is 32 random octets in hexadecimal.\<close>

definition unguessableKeyHash :: "bytes \<Rightarrow> jsstring" where
  "unguessableKeyHash random = bytes_to_hex random"

definition guessable :: "quota_db \<Rightarrow> api_key_row list" where
  "guessable db = filter (\<lambda>r. isAddressDerived (key_hash r) (validator_id r)) (api_keys db)"

text \<open>\<open>random i\<close> are the octets drawn for the \<open>i\<close>th row.\<close>

definition retireAddressDerivedApiKeys ::
  "(nat \<Rightarrow> bytes) \<Rightarrow> quota_db \<Rightarrow> ((jsstring option \<times> jsstring) list \<times> quota_db) option" where
  "retireAddressDerivedApiKeys random db =
     (let rs = guessable db
      in case rekey_all (map (\<lambda>i. (unguessableKeyHash (random i), key_hash (rs ! i))) [0..<length rs]) db of
           None \<Rightarrow> None
         | Some db' \<Rightarrow> Some (map (\<lambda>r. (validator_id r, key_name r)) rs, db'))"

section \<open>Bindings of validators to certificate daemons\<close>

definition bindValidatorAura :: "jsstring \<Rightarrow> jsstring \<Rightarrow> quota_db \<Rightarrow> bool \<times> quota_db" where
  "bindValidatorAura kh aura db =
     (0 < sql_count (\<lambda>r. key_hash r = kh) (api_keys db),
      db\<lparr>api_keys := sql_update (\<lambda>r. key_hash r = kh) (bound_validator_aura_update (\<lambda>_. Some aura)) (api_keys db)\<rparr>)"

definition clearValidatorAuraBinding :: "jsstring \<Rightarrow> quota_db \<Rightarrow> bool \<times> quota_db" where
  "clearValidatorAuraBinding kh db =
     (0 < sql_count (\<lambda>r. key_hash r = kh) (api_keys db),
      db\<lparr>api_keys := sql_update (\<lambda>r. key_hash r = kh) (bound_validator_aura_update (\<lambda>_. None)) (api_keys db)\<rparr>)"

record aura_binding =
  ab_keyHash :: jsstring
  ab_name :: jsstring
  ab_certDaemonSs58 :: "jsstring option"

text \<open>\<open>ORDER BY key_hash ASC\<close>: text compares by its UTF-8 octets.\<close>

definition by_key_hash :: "api_key_row \<Rightarrow> api_key_row \<Rightarrow> int" where
  "by_key_hash a b = cmpBytes (utf8_encode (key_hash a)) (utf8_encode (key_hash b))"

definition getBindingForAura :: "jsstring \<Rightarrow> quota_db \<Rightarrow> aura_binding option" where
  "getBindingForAura aura db =
     (case js_sort by_key_hash (filter (\<lambda>r. bound_validator_aura r = Some aura \<and> enabled r) (api_keys db)) of
        [] \<Rightarrow> None
      | r # _ \<Rightarrow> Some \<lparr>ab_keyHash = key_hash r, ab_name = key_name r, ab_certDaemonSs58 = validator_id r\<rparr>)"

text \<open>
  The result object starts as \<open>{}\<close>, which inherits the properties of \<open>Object.prototype\<close>: a name
  among them already reads as present.
\<close>

definition object_prototype :: "jsstring list" where
  "object_prototype = map js
     [''constructor'', ''__defineGetter__'', ''__defineSetter__'', ''hasOwnProperty'', ''__lookupGetter__'',
      ''__lookupSetter__'', ''isPrototypeOf'', ''propertyIsEnumerable'', ''toString'', ''valueOf'',
      ''__proto__'', ''toLocaleString'']"

fun collect_bindings ::
  "api_key_row list \<Rightarrow> (jsstring \<times> jsstring \<times> jsstring) list \<Rightarrow> (jsstring \<times> jsstring \<times> jsstring) list" where
  "collect_bindings [] out = out"
| "collect_bindings (r # rs) out =
     (case (bound_validator_aura r, validator_id r) of
        (Some aura, Some daemon) \<Rightarrow>
          if aura \<in> fst ` set out \<or> aura \<in> set object_prototype then collect_bindings rs out
          else collect_bindings rs (out @ [(aura, daemon, key_name r)])
      | _ \<Rightarrow> collect_bindings rs out)"

definition listAllAuraBindings :: "quota_db \<Rightarrow> (jsstring \<times> jsstring \<times> jsstring) list" where
  "listAllAuraBindings db =
     collect_bindings
       (js_sort by_key_hash
          (filter (\<lambda>r. bound_validator_aura r \<noteq> None \<and> validator_id r \<noteq> None \<and> enabled r) (api_keys db))) []"

section \<open>Usage\<close>

record usage_snapshot =
  us_lifetime_receipts :: int
  us_lifetime_bytes :: int
  us_lifetime_matra_debited :: int
  us_last_used_at :: "int option"
  us_max_receipts_per_day :: int
  us_max_bytes_per_day :: int

text \<open>Callers pass the length of a body, an integer; anything that is not positive counts 0.\<close>

definition recordUsage :: "jsstring \<Rightarrow> int \<Rightarrow> int \<Rightarrow> int \<Rightarrow> quota_db \<Rightarrow> quota_db" where
  "recordUsage kh bytes receiptCount now db =
     (let safeBytes = (if 0 < bytes then bytes else 0);
          safeReceipts = (if receiptCount = 1 then 1 else 0)
      in db\<lparr>api_keys := sql_update (\<lambda>r. key_hash r = kh)
              (\<lambda>r. r\<lparr>lifetime_receipts := lifetime_receipts r + safeReceipts,
                     lifetime_bytes := lifetime_bytes r + safeBytes, last_used_at := Some now\<rparr>) (api_keys db)\<rparr>)"

definition getUsage :: "jsstring \<Rightarrow> quota_db \<Rightarrow> usage_snapshot option" where
  "getUsage kh db =
     map_option (\<lambda>r. \<lparr>us_lifetime_receipts = lifetime_receipts r, us_lifetime_bytes = lifetime_bytes r,
         us_lifetime_matra_debited = lifetime_matra_debited r, us_last_used_at = last_used_at r,
         us_max_receipts_per_day = max_receipts_per_day r, us_max_bytes_per_day = max_bytes_per_day r\<rparr>)
       (sql_get (\<lambda>r. key_hash r = kh) (api_keys db))"

definition getDailyUsage :: "jsstring \<Rightarrow> int \<Rightarrow> quota_db \<Rightarrow> int \<times> int" where
  "getDailyUsage kh day db = (day_receipts kh day (quota_daily db), day_bytes kh day (quota_daily db))"

section \<open>Presented keys\<close>

lemma hashKey_hex: "re_lower_hex 64 (hashKey p)"
  unfolding hashKey_def by (rule sha256_hex_shape)

lemma heartbeat_not_hash: "\<not> heartbeat_only (hashKey p)"
proof
  assume hb: "heartbeat_only (hashKey p)"
  have "to_lower (hashKey p) = hashKey p" using hashKey_hex by (rule to_lower_hex_id)
  with hb have "starts_with (hashKey p) (js ''heartbeat-only:'')" by (simp add: heartbeat_only_def)
  then have "hd (hashKey p) = 0x68" and "hashKey p \<noteq> []"
    using starts_with_hd by (fastforce simp: js_eval)+
  moreover have "list_all is_lower_hex (hashKey p)" using hashKey_hex by (simp add: re_lower_hex_def)
  ultimately have "is_lower_hex 0x68" by (cases "hashKey p") auto
  then show False by (simp add: char_class_defs)
qed

text \<open>A presented key selects only an enabled row whose stored hash is the SHA-256 of that key;
  the rows of heartbeat-only validators are never selected by any key.\<close>

theorem resolve_key_sound:
  "case resolveKey p db of
     None \<Rightarrow> True
   | Some ki \<Rightarrow> ki_enabled ki \<and> keyHash ki = hashKey p \<and> \<not> heartbeat_only (keyHash ki)
       \<and> (\<exists>r \<in> set (api_keys db). enabled r \<and> ki = row_info r)"
proof (cases "sql_get (\<lambda>r. key_hash r = hashKey p) (api_keys db)")
  case (Some r)
  from sql_get_SomeD [OF this] have "r \<in> set (api_keys db)" "key_hash r = hashKey p" by auto
  with Some show ?thesis
    using heartbeat_not_hash [of p] by (auto simp: resolveKey_def row_info_def)
qed (simp add: resolveKey_def)

section \<open>Replacing guessable keys\<close>

lemma rekey_api_keys:
  "rekey new old db = Some db' \<Longrightarrow>
     new \<notin> key_hash ` set (api_keys db)
     \<and> api_keys db' = sql_update (\<lambda>r. key_hash r = old) (key_hash_update (\<lambda>_. new)) (api_keys db)"
  by (auto simp: rekey_def split: if_splits)

definition rekeyed :: "(jsstring \<times> jsstring) list \<Rightarrow> api_key_row \<Rightarrow> api_key_row" where
  "rekeyed ps r =
     (case map_of (map (\<lambda>p. (snd p, fst p)) ps) (key_hash r) of None \<Rightarrow> r | Some n \<Rightarrow> r\<lparr>key_hash := n\<rparr>)"

lemma map_of_swap_None: "map_of (map (\<lambda>p. (snd p, fst p)) ps) k = None \<longleftrightarrow> k \<notin> set (map snd ps)"
  by (force simp: map_of_eq_None_iff)

lemma rekey_all_api_keys:
  assumes "rekey_all ps db = Some db'" and "distinct (map snd ps)"
    and "set (map snd ps) \<subseteq> set (map key_hash (api_keys db))"
  shows "api_keys db' = map (rekeyed ps) (api_keys db)"
  using assms
proof (induction ps arbitrary: db)
  case Nil
  then show ?case by (simp add: rekeyed_def)
next
  case (Cons p ps)
  obtain new old where p: "p = (new, old)" by (cases p)
  from Cons.prems(1) p obtain db1 where db1: "rekey new old db = Some db1" "rekey_all ps db1 = Some db'"
    by (auto split: option.splits)
  note k1 = rekey_api_keys [OF db1(1)]
  let ?f = "\<lambda>r. if key_hash r = old then r\<lparr>key_hash := new\<rparr> else r"
  have keys1: "api_keys db1 = map ?f (api_keys db)" using k1 by (simp add: sql_update_def)
  have "set (map snd ps) \<subseteq> set (map key_hash (api_keys db1))"
  proof
    fix k assume k: "k \<in> set (map snd ps)"
    then have "k \<noteq> old" using Cons.prems(2) p by auto
    moreover obtain r where "r \<in> set (api_keys db)" "key_hash r = k" using k Cons.prems(3) by auto
    ultimately show "k \<in> set (map key_hash (api_keys db1))" unfolding keys1 by force
  qed
  then have "api_keys db' = map (rekeyed ps) (api_keys db1)"
    using Cons.IH [OF db1(2)] Cons.prems(2) by simp
  moreover have "rekeyed ps (?f r) = rekeyed (p # ps) r" if "r \<in> set (api_keys db)" for r
  proof -
    have "new \<notin> set (map snd ps)" using k1 Cons.prems(3) p by auto
    then have "map_of (map (\<lambda>p. (snd p, fst p)) ps) new = None"
      by (simp only: map_of_swap_None simp_thms)
    then show ?thesis by (cases "key_hash r = old") (simp_all add: rekeyed_def p)
  qed
  ultimately show ?case by (simp add: keys1)
qed

lemma guessable_set: "r \<in> set (guessable db) \<longleftrightarrow> r \<in> set (api_keys db) \<and> isAddressDerived (key_hash r) (validator_id r)"
  by (auto simp: guessable_def)

lemma rekeyed_other: "validator_id (rekeyed ps r) = validator_id r"
    "key_hash_update (\<lambda>_. []) (rekeyed ps r) = key_hash_update (\<lambda>_. []) r"
  by (auto simp: rekeyed_def split: option.splits)

text \<open>After the start-up migration no API key is the hash of its own validator's public address,
  so presenting the address selects no row of that validator; nothing but key hashes changed,
  and running the migration again changes nothing.  (The random replacements are assumed not
  to be hashes of the addresses in the table.)\<close>

theorem retire_removes_guessable:
  assumes "unique_key key_hash (api_keys db)" and "retireAddressDerivedApiKeys random db = Some (retired, db')"
    and "\<And>i r v. r \<in> set (api_keys db) \<Longrightarrow> validator_id r = Some v \<Longrightarrow> unguessableKeyHash (random i) \<noteq> hashKey v"
  shows "guessable db' = []
    \<and> (\<forall>v ki. v \<noteq> [] \<longrightarrow> resolveKey v db' = Some ki \<longrightarrow> validatorId ki \<noteq> Some v)
    \<and> map (key_hash_update (\<lambda>_. [])) (api_keys db') = map (key_hash_update (\<lambda>_. [])) (api_keys db)
    \<and> retireAddressDerivedApiKeys random' db' = Some ([], db')"
proof -
  let ?rs = "guessable db"
  let ?ps = "map (\<lambda>i. (unguessableKeyHash (random i), key_hash (?rs ! i))) [0..<length ?rs]"
  have olds: "map snd ?ps = map key_hash ?rs" by (auto intro: nth_equalityI)
  have all: "rekey_all ?ps db = Some db'"
    using assms(2) by (auto simp: retireAddressDerivedApiKeys_def Let_def split: option.splits)
  have "distinct (map key_hash ?rs)"
    using assms(1) by (simp add: unique_key_def guessable_def distinct_map_filter)
  moreover have "set (map key_hash ?rs) \<subseteq> set (map key_hash (api_keys db))" by (auto simp: guessable_def)
  ultimately have rows': "api_keys db' = map (rekeyed ?ps) (api_keys db)"
    using rekey_all_api_keys [OF all] unfolding olds by blast
  have fine: "\<not> isAddressDerived (key_hash (rekeyed ?ps r)) (validator_id (rekeyed ?ps r))"
    if r: "r \<in> set (api_keys db)" for r
  proof (cases "map_of (map (\<lambda>p. (snd p, fst p)) ?ps) (key_hash r)")
    case None
    then have "key_hash r \<notin> set (map key_hash ?rs)" unfolding map_of_swap_None olds .
    then have "r \<notin> set ?rs" by auto
    then show ?thesis using r None by (simp add: rekeyed_def guessable_set)
  next
    case (Some n)
    from map_of_SomeD [OF this] obtain i where "n = unguessableKeyHash (random i)" by auto
    then show ?thesis using Some assms(3) [OF r]
      by (auto simp: rekeyed_def isAddressDerived_def split: option.splits)
  qed
  have none: "guessable db' = []"
    using fine by (auto simp: guessable_def rows' filter_empty_conv)
  have "validatorId ki \<noteq> Some v" if "v \<noteq> []" "resolveKey v db' = Some ki" for v ki
  proof
    assume vid: "validatorId ki = Some v"
    from that(2) obtain r where "r \<in> set (api_keys db')" "key_hash r = hashKey v" "ki = row_info r"
      using sql_get_SomeD [of "\<lambda>r. key_hash r = hashKey v" "api_keys db'"]
      by (auto simp: resolveKey_def split: option.splits if_splits)
    then have "r \<in> set (guessable db')"
      using vid that(1) by (simp add: guessable_set isAddressDerived_def row_info_def)
    then show False by (simp add: none)
  qed
  then show ?thesis
    by (auto simp: none rows' rekeyed_other retireAddressDerivedApiKeys_def)
qed

definition sample_addr :: jsstring where "sample_addr = js ''5Grw''"

definition guessable_db :: quota_db where
  "guessable_db = empty_quota_db\<lparr>api_keys := [new_key_row (hashKey sample_addr) (js ''v'') (Some sample_addr)]\<rparr>"

definition sample_random :: "nat \<Rightarrow> bytes" where
  "sample_random i = (if bytes_to_hex (replicate 32 0) = hashKey sample_addr then replicate 32 1 else replicate 32 0)"

lemma sample_random_fresh: "unguessableKeyHash (sample_random i) \<noteq> hashKey sample_addr"
proof -
  have "(replicate 32 0 :: bytes) \<noteq> replicate 32 1" by (simp add: numeral_eq_Suc)
  then have "bytes_to_hex (replicate 32 0) \<noteq> bytes_to_hex (replicate 32 1)" by (simp only: bytes_to_hex_inj simp_thms)
  then show ?thesis by (auto simp: sample_random_def unguessableKeyHash_def)
qed

theorem retire_removes_guessable_witness:
  "guessable guessable_db \<noteq> [] \<and> (\<exists>db'.
     retireAddressDerivedApiKeys sample_random guessable_db = Some ([(Some sample_addr, js ''v'')], db')
     \<and> guessable db' = [])"
proof -
  have g: "guessable guessable_db = api_keys guessable_db"
    by (simp add: guessable_def guessable_db_def new_key_row_def isAddressDerived_def sample_addr_def
        js_eval)
  obtain db' where r: "retireAddressDerivedApiKeys sample_random guessable_db
      = Some ([(Some sample_addr, js ''v'')], db')"
    using sample_random_fresh [of 0]
    by (simp add: retireAddressDerivedApiKeys_def g)
      (simp add: guessable_db_def empty_quota_db_def new_key_row_def rekey_def)
  have "unique_key key_hash (api_keys guessable_db)" by (simp add: guessable_db_def unique_key_def)
  from retire_removes_guessable [OF this r, of "\<lambda>_. []"] have "guessable db' = []"
    using sample_random_fresh by (simp add: guessable_db_def new_key_row_def)
  with r g show ?thesis by (simp add: guessable_db_def)
qed

end
