(* ===== verification/Ss58.thy ===== *)
theory Ss58
  imports Polkadot
begin

text \<open>
  Account addresses, \<open>ss58.ts\<close>.  An account has one 32-octet id and many spellings; the gateway
  stores the one for network prefix 42.  The base58 codec is \<open>@polkadot/util-crypto\<close>'s.
\<close>

definition MAX_ACCOUNT_ID_CHARS :: nat where "MAX_ACCOUNT_ID_CHARS = 66"

datatype address_error = NotAString | TooLong | NotDecodable | BadLength nat | NotEncodable

definition decodeAccountId :: "polkadot \<Rightarrow> jsstring \<Rightarrow> address_error + bytes" where
  "decodeAccountId P value =
     (if MAX_ACCOUNT_ID_CHARS < length value then Inl TooLong
      else case decodeAddress P value of None \<Rightarrow> Inl NotDecodable | Some b \<Rightarrow> Inr b)"

text \<open>\<open>None\<close>: \<open>checkAddress\<close> throws.\<close>

definition checkAccountAddress :: "polkadot \<Rightarrow> jsstring \<Rightarrow> int \<Rightarrow> bool option" where
  "checkAccountAddress P address prefix =
     (if MAX_ACCOUNT_ID_CHARS < length address then Some False else checkAddress P address prefix)"

definition normalizeSs58 :: "polkadot \<Rightarrow> json \<Rightarrow> address_error + jsstring" where
  "normalizeSs58 P address =
     (case as_string address of
        None \<Rightarrow> Inl NotAString
      | Some s \<Rightarrow>
          if s = [] then Inl NotAString
          else and_then (decodeAccountId P s) (\<lambda>raw.
               if length raw \<noteq> 32 then Inl (BadLength (length raw))
               else case encodeAddress P raw 42 of None \<Rightarrow> Inl NotEncodable | Some a \<Rightarrow> Inr a))"

text \<open>\<open>/^[15][a-zA-Z0-9]{45,47}$/\<close>\<close>

definition SS58_SHAPE :: "jsstring \<Rightarrow> bool" where
  "SS58_SHAPE s \<longleftrightarrow>
     (case s of
        [] \<Rightarrow> False
      | c # cs \<Rightarrow> (c = 0x31 \<or> c = 0x35) \<and> 45 \<le> length cs \<and> length cs \<le> 47
                  \<and> list_all (\<lambda>d. is_lower_letter d \<or> is_upper_letter d \<or> is_digit_u16 d) cs)"

definition isAccountAddress :: "polkadot \<Rightarrow> jsstring \<Rightarrow> bool" where
  "isAccountAddress P value =
     (if SS58_SHAPE value then True
      else case normalizeSs58 P (JStr value) of Inr _ \<Rightarrow> True | Inl _ \<Rightarrow> False)"

definition lookupSs58 :: "polkadot \<Rightarrow> jsstring \<Rightarrow> jsstring" where
  "lookupSs58 P address = (case normalizeSs58 P (JStr address) of Inr a \<Rightarrow> a | Inl _ \<Rightarrow> address)"

text \<open>Addresses at prefix 42 are not empty and within the bound on spellings.\<close>

definition ss58_short :: "polkadot \<Rightarrow> bool" where
  "ss58_short P \<longleftrightarrow>
     (\<forall>b s. length b = 32 \<longrightarrow> encodeAddress P b 42 = Some s \<longrightarrow> s \<noteq> [] \<and> length s \<le> MAX_ACCOUNT_ID_CHARS)"

lemma normalize_Inr:
  "normalizeSs58 P (JStr s) = Inr c \<longleftrightarrow>
     s \<noteq> [] \<and> length s \<le> 66 \<and> (\<exists>b. decodeAddress P s = Some b \<and> length b = 32 \<and> encodeAddress P b 42 = Some c)"
  by (auto simp: normalizeSs58_def decodeAccountId_def MAX_ACCOUNT_ID_CHARS_def split: option.splits if_splits)

lemma normalize_idem:
  assumes "ss58_documented P" "ss58_short P" "normalizeSs58 P (JStr s) = Inr c"
  shows "normalizeSs58 P (JStr c) = Inr c"
  using assms
  by (auto simp: normalize_Inr ss58_documented_def ss58_short_def MAX_ACCOUNT_ID_CHARS_def)

lemma normalize_same:
  assumes "ss58_documented P" "normalizeSs58 P (JStr s) = Inr c" "normalizeSs58 P (JStr t) = Inr d"
  shows "c = d \<longleftrightarrow> decodeAddress P s = decodeAddress P t"
  using assms by (auto simp: normalize_Inr ss58_documented_def) (metis option.inject)

text \<open>The canonical spelling identifies the account: normalising is idempotent, and two spellings
  get one canonical form exactly when they decode to the same account id.  Looking an address
  up under its canonical form finds what was stored under any other.\<close>

theorem ss58_canonical:
  assumes "ss58_documented P" "ss58_short P"
    and "normalizeSs58 P (JStr s) = Inr c" and "normalizeSs58 P (JStr t) = Inr d"
  shows "normalizeSs58 P (JStr c) = Inr c \<and> lookupSs58 P s = c \<and> lookupSs58 P c = c
    \<and> (c = d \<longleftrightarrow> decodeAddress P s = decodeAddress P t)"
  using normalize_idem [OF assms(1-3)] normalize_same [OF assms(1,3,4)] assms(3)
  by (simp add: lookupSs58_def)

text \<open>A codec with two spellings per account: hexadecimal, and the same with a \<open>0x\<close> in front.\<close>

definition polkadot_two :: polkadot where
  "polkadot_two = polkadot_sample
     \<lparr>decodeAddress := (\<lambda>s. Some (hex_to_bytes (if starts_with s (js ''0x'') then drop 2 s else s))),
      encodeAddress := (\<lambda>b p. Some (js ''0x'' @ bytes_to_hex b))\<rparr>"

lemma polkadot_two_ok: "ss58_documented polkadot_two" "ss58_short polkadot_two"
  by (auto simp: ss58_documented_def ss58_short_def polkadot_two_def polkadot_sample_def MAX_ACCOUNT_ID_CHARS_def
      js_eval)

theorem ss58_canonical_witness:
  "\<exists>c. normalizeSs58 polkadot_two (JStr (replicate 64 0x61)) = Inr c
     \<and> normalizeSs58 polkadot_two (JStr (js ''0x'' @ replicate 64 0x61)) = Inr c
     \<and> lookupSs58 polkadot_two (replicate 64 0x61) = c
     \<and> normalizeSs58 polkadot_two (JStr c) = Inr c"
proof -
  let ?s = "replicate 64 0x61 :: jsstring" and ?t = "js ''0x'' @ replicate 64 0x61"
  have hex: "list_all is_lower_hex ?s" by (simp add: list_all_iff char_class_defs)
  have len: "length (hex_to_bytes ?s) = 32" using length_hex_to_bytes [OF hex] by simp
  have ns: "\<not> starts_with ?s (js ''0x'')" by (rule starts_with_replicate) (simp_all add: js_eval)
  have two: "decodeAddress polkadot_two x =
      Some (hex_to_bytes (if starts_with x (js ''0x'') then drop 2 x else x))" for x
    by (simp add: polkadot_two_def)
  have dec: "decodeAddress polkadot_two ?s = Some (hex_to_bytes ?s)"
    "decodeAddress polkadot_two ?t = Some (hex_to_bytes ?s)"
    using ns starts_with_append [of "js ''0x''" ?s] by (simp_all add: two js_eval)
  then obtain c d where "normalizeSs58 polkadot_two (JStr ?s) = Inr c" "normalizeSs58 polkadot_two (JStr ?t) = Inr d"
    unfolding normalize_Inr using len by (auto simp: polkadot_two_def js_eval)
  from this ss58_canonical [OF polkadot_two_ok this] dec show ?thesis by auto
qed

end
