(* ===== verification/UploadAuth.thy ===== *)
theory UploadAuth
  imports ApiKeys Ss58
begin

text \<open>
  Signed upload requests, \<open>upload-auth.ts\<close>, and the store of used signatures in \<open>quota.ts\<close>.
  The sr25519 verification of \<open>@polkadot/util-crypto\<close> is the parameter \<open>sr\<close> (message,
  signature, public key; \<open>None\<close> when it throws).  Instants are Unix seconds.
\<close>

section \<open>Requests\<close>

text \<open>The parts of an Express request the authentication reads; a repeated header is not a string
  and counts as absent.\<close>

record request =
  h_upload_sig_v2 :: "jsstring option"
  h_upload_sig :: "jsstring option"
  h_uploader_address :: "jsstring option"
  h_upload_ts :: "jsstring option"
  h_authorization :: "jsstring option"
  h_api_key :: "jsstring option"
  req_method :: jsstring
  req_originalUrl :: jsstring
  req_rawBody :: bytes

record upload_config =
  batchWriterAddresses :: "jsstring list"
  uploadSigMaxAgeSec :: int

type_synonym sr25519 = "bytes \<Rightarrow> bytes \<Rightarrow> bytes \<Rightarrow> bool option"

definition hasUploadSignature :: "request \<Rightarrow> bool" where
  "hasUploadSignature req \<longleftrightarrow> h_upload_sig_v2 req \<noteq> None \<or> h_upload_sig req \<noteq> None"

section \<open>Messages\<close>

fun decimal :: "nat \<Rightarrow> jsstring" where
  "decimal n = (if n < 10 then [of_nat (0x30 + n)] else decimal (n div 10) @ [of_nat (0x30 + n mod 10)])"

declare decimal.simps [simp del]

fun join_bar :: "jsstring list \<Rightarrow> jsstring" where
  "join_bar [] = []"
| "join_bar [s] = s"
| "join_bar (s # ss) = s @ 0x7C # join_bar ss"

definition uploadSigV2Message ::
  "jsstring \<Rightarrow> jsstring \<Rightarrow> jsstring \<Rightarrow> jsstring \<Rightarrow> jsstring \<Rightarrow> nat \<Rightarrow> jsstring" where
  "uploadSigV2Message method path bodySha256 ident address ts =
     join_bar [js ''materios-upload-v2'', method, path, bodySha256, ident, address, decimal ts]"

definition uploadSigV1Message :: "jsstring \<Rightarrow> jsstring \<Rightarrow> nat \<Rightarrow> jsstring" where
  "uploadSigV1Message ident address ts = join_bar [js ''materios-upload-v1'', ident, address, decimal ts]"

text \<open>\<open>/^(0x)?[0-9a-fA-F]{128}$/\<close>\<close>

definition SIG_HEX :: "jsstring \<Rightarrow> bool" where
  "SIG_HEX s \<longleftrightarrow> re_any_hex 128 s \<or> starts_with s (js ''0x'') \<and> re_any_hex 128 (drop 2 s)"

definition signatureKey :: "jsstring \<Rightarrow> jsstring" where
  "signatureKey s = to_lower (if starts_with s (js ''0x'') then drop 2 s else s)"

section \<open>Verification\<close>

datatype upload_error =
    MissingHeaders
  | BatchWriterNeedsV2
  | TimestampRejected
  | PredatesStart
  | MalformedSignature nat
  | InvalidSignature nat
  | SigVerifyThrows

record upload_sig =
  us_address :: jsstring
  us_version :: nat
  us_ts :: int
  us_signatures :: "jsstring list"

definition present :: "jsstring option \<Rightarrow> jsstring option" where
  "present h = (case h of None \<Rightarrow> None | Some s \<Rightarrow> if s = [] then None else Some s)"

text \<open>
  \<open>/^\d+$/.test(s) ? Number(s) : NaN\<close>.  A number too large to be exact is far outside the
  window, where exactness no longer matters.
\<close>

definition parse_ts :: "jsstring \<Rightarrow> int option" where
  "parse_ts s =
     (if s \<noteq> [] \<and> list_all is_digit_u16 s
      then Some (fold (\<lambda>c n. n * 10 + (int (unat c) - 0x30)) s 0) else None)"

text \<open>The signatures a request carries: scheme, signature, message.\<close>

definition carried_sigs ::
  "request \<Rightarrow> jsstring \<Rightarrow> jsstring \<Rightarrow> int \<Rightarrow> (nat \<times> jsstring \<times> jsstring) list" where
  "carried_sigs req ident address ts =
     (case present (h_upload_sig_v2 req) of
        None \<Rightarrow> []
      | Some s \<Rightarrow> [(2, s, uploadSigV2Message (req_method req)
                     (takeWhile (\<lambda>c. c \<noteq> 0x3F) (req_originalUrl req))
                     (sha256_hex (req_rawBody req)) ident address (nat ts))])
     @ (case present (h_upload_sig req) of
          None \<Rightarrow> []
        | Some s \<Rightarrow> [(1, s, uploadSigV1Message ident address (nat ts))])"

fun check_carried ::
  "polkadot \<Rightarrow> sr25519 \<Rightarrow> bytes \<Rightarrow> (nat \<times> jsstring \<times> jsstring) list \<Rightarrow> upload_error + unit" where
  "check_carried P sr publicKey [] = Inr ()"
| "check_carried P sr publicKey ((version, s, message) # cs) =
     (if \<not> SIG_HEX s then Inl (MalformedSignature version)
      else case hexToU8a P (if starts_with s (js ''0x'') then s else js ''0x'' @ s) of
             None \<Rightarrow> Inl SigVerifyThrows
           | Some sigBytes \<Rightarrow>
               (case sr (utf8_encode message) sigBytes publicKey of
                  None \<Rightarrow> Inl SigVerifyThrows
                | Some False \<Rightarrow> Inl (InvalidSignature version)
                | Some True \<Rightarrow> check_carried P sr publicKey cs))"

definition verifyUploadSig ::
  "polkadot \<Rightarrow> sr25519 \<Rightarrow> upload_config \<Rightarrow> int \<Rightarrow> int \<Rightarrow> request \<Rightarrow> jsstring \<Rightarrow> upload_error + upload_sig" where
  "verifyUploadSig P sr cfg processStart now req ident =
     (let sigV2 = present (h_upload_sig_v2 req); sigV1 = present (h_upload_sig req)
      in if sigV2 = None \<and> sigV1 = None then Inl MissingHeaders
         else case (present (h_uploader_address req), present (h_upload_ts req)) of
           (Some address, Some tsStr) \<Rightarrow>
             if sigV2 = None \<and> address \<in> set (batchWriterAddresses cfg) then Inl BatchWriterNeedsV2
             else (case parse_ts tsStr of
                     None \<Rightarrow> Inl TimestampRejected
                   | Some ts \<Rightarrow>
                       if uploadSigMaxAgeSec cfg < \<bar>now - ts\<bar> then Inl TimestampRejected
                       else if ts < processStart then Inl PredatesStart
                       else let carried = carried_sigs req ident address ts
                            in (case decodeAccountId P address of
                                  Inl _ \<Rightarrow> Inl SigVerifyThrows
                                | Inr publicKey \<Rightarrow>
                                    and_then (check_carried P sr publicKey carried) (\<lambda>_.
                                    Inr \<lparr>us_address = address, us_version = (if sigV2 \<noteq> None then 2 else 1),
                                         us_ts = ts, us_signatures = map (\<lambda>c. signatureKey (fst (snd c))) carried\<rparr>)))
         | _ \<Rightarrow> Inl MissingHeaders)"

section \<open>Spending\<close>

text \<open>\<open>[...new Set(sigs)]\<close> keeps first occurrences in order.\<close>

definition js_unique :: "'a list \<Rightarrow> 'a list" where
  "js_unique xs = rev (remdups (rev xs))"

definition claimUploadSignatures :: "jsstring list \<Rightarrow> int \<Rightarrow> int \<Rightarrow> quota_db \<Rightarrow> bool \<times> quota_db" where
  "claimUploadSignatures sigs expiresAt now db =
     (let unique = js_unique sigs;
          t = sql_delete (\<lambda>r. expires_at r < now) (used_upload_sigs db)
      in if (\<exists>s \<in> set unique. s \<in> used_sig ` set t)
         then (False, db\<lparr>used_upload_sigs := t\<rparr>)
         else (True, db\<lparr>used_upload_sigs := t @ map (\<lambda>s. \<lparr>used_sig = s, expires_at = expiresAt\<rparr>) unique\<rparr>))"

definition spendUploadSig :: "upload_config \<Rightarrow> upload_sig \<Rightarrow> int \<Rightarrow> quota_db \<Rightarrow> bool \<times> quota_db" where
  "spendUploadSig cfg s now db =
     (if uploadSigMaxAgeSec cfg < \<bar>now - us_ts s\<bar> then (False, db)
      else claimUploadSignatures (us_signatures s) (us_ts s + uploadSigMaxAgeSec cfg) now db)"

section \<open>The contract of a single-use store\<close>

text \<open>
  A token names a set of keys; a key is blocked from an instant on.  Spending a token blocks
  its keys, a blocked key is refused, and nothing unblocks a key as time goes on.
\<close>

locale single_use_store =
  fixes spend :: "'t \<Rightarrow> int \<Rightarrow> 'db \<Rightarrow> bool \<times> 'db"
    and keys :: "'t \<Rightarrow> 'k set"
    and blocked :: "'k \<Rightarrow> int \<Rightarrow> 'db \<Rightarrow> bool"
  assumes spend_blocks: "fst (spend t now db) \<Longrightarrow> k \<in> keys t \<Longrightarrow> blocked k now (snd (spend t now db))"
    and blocked_refused: "blocked k now db \<Longrightarrow> k \<in> keys t \<Longrightarrow> \<not> fst (spend t now db)"
    and blocked_later: "blocked k now db \<Longrightarrow> now \<le> now' \<Longrightarrow> blocked k now' db"
    and blocked_stays: "blocked k now db \<Longrightarrow> blocked k now (snd (spend t now db))"
begin

lemma blocked_run:
  "blocked k now db \<Longrightarrow> sorted (now # map snd xs) \<Longrightarrow> t0 = last (now # map snd xs) \<Longrightarrow>
     blocked k t0 (fold (\<lambda>x db. snd (spend (fst x) (snd x) db)) xs db)"
proof (induction xs arbitrary: now db)
  case (Cons x xs)
  then have "blocked k (snd x) (snd (spend (fst x) (snd x) db))"
    using blocked_later blocked_stays by simp
  from Cons.IH [OF this] Cons.prems show ?case by simp
qed simp

lemma never_twice:
  assumes "fst (spend t now db)" and "k \<in> keys t" and "k \<in> keys t'"
    and "sorted (now # map snd xs @ [now'])"
  shows "\<not> fst (spend t' now' (fold (\<lambda>x db. snd (spend (fst x) (snd x) db)) xs (snd (spend t now db))))"
proof -
  have s: "sorted (now # map snd xs)" and "\<forall>x \<in> set (now # map snd xs). x \<le> now'"
    using assms(4) by (auto simp: sorted_append)
  moreover have "last (now # map snd xs) \<in> set (now # map snd xs)" by (rule last_in_set) simp
  ultimately have le: "last (now # map snd xs) \<le> now'" by blast
  from blocked_run [OF spend_blocks [OF assms(1,2)] s refl] le show ?thesis
    using blocked_refused [OF blocked_later assms(3)] by blast
qed

end

text \<open>The code's store: a pair of a reuse key and a time stamp is blocked while its row is there or
  once the stamp is too old.\<close>

definition sig_blocked :: "upload_config \<Rightarrow> jsstring \<times> int \<Rightarrow> int \<Rightarrow> quota_db \<Rightarrow> bool" where
  "sig_blocked cfg k now db \<longleftrightarrow>
     (\<exists>r \<in> set (used_upload_sigs db). used_sig r = fst k \<and> expires_at r = snd k + uploadSigMaxAgeSec cfg)
     \<or> snd k + uploadSigMaxAgeSec cfg < now"

lemma set_js_unique [simp]: "set (js_unique xs) = set xs"
  by (simp add: js_unique_def)

interpretation used_sigs: single_use_store "spendUploadSig cfg" "\<lambda>s. (\<lambda>k. (k, us_ts s)) ` set (us_signatures s)"
  "sig_blocked cfg" for cfg
proof unfold_locales
  fix t :: upload_sig and now now' :: int and db :: quota_db and k :: "jsstring \<times> int"
  show "fst (spendUploadSig cfg t now db) \<Longrightarrow> k \<in> (\<lambda>k. (k, us_ts t)) ` set (us_signatures t)
      \<Longrightarrow> sig_blocked cfg k now (snd (spendUploadSig cfg t now db))"
    by (simp add: spendUploadSig_def claimUploadSignatures_def sig_blocked_def Let_def image_Un bex_Un
        split: if_splits) auto
  show "sig_blocked cfg k now db \<Longrightarrow> k \<in> (\<lambda>k. (k, us_ts t)) ` set (us_signatures t)
      \<Longrightarrow> \<not> fst (spendUploadSig cfg t now db)"
  proof -
    assume b: "sig_blocked cfg k now db" and "k \<in> (\<lambda>k. (k, us_ts t)) ` set (us_signatures t)"
    then obtain s where s: "k = (s, us_ts t)" "s \<in> set (us_signatures t)" by blast
    show "\<not> fst (spendUploadSig cfg t now db)"
    proof (cases "us_ts t + uploadSigMaxAgeSec cfg < now")
      case True
      then have "uploadSigMaxAgeSec cfg < \<bar>now - us_ts t\<bar>" by linarith
      then show ?thesis by (simp add: spendUploadSig_def)
    next
      case False
      with b s obtain r where "r \<in> set (used_upload_sigs db)" "used_sig r = s" "\<not> expires_at r < now"
        by (auto simp: sig_blocked_def)
      then have "s \<in> used_sig ` set (sql_delete (\<lambda>r. expires_at r < now) (used_upload_sigs db))"
        by (auto simp: set_sql_delete)
      with s have "\<exists>s \<in> set (us_signatures t).
          s \<in> used_sig ` set (sql_delete (\<lambda>r. expires_at r < now) (used_upload_sigs db))" by blast
      then show ?thesis by (simp add: spendUploadSig_def claimUploadSignatures_def)
    qed
  qed
  show "sig_blocked cfg k now db \<Longrightarrow> now \<le> now' \<Longrightarrow> sig_blocked cfg k now' db"
    by (auto simp: sig_blocked_def)
  show "sig_blocked cfg k now db \<Longrightarrow> sig_blocked cfg k now (snd (spendUploadSig cfg t now db))"
    by (auto simp: spendUploadSig_def claimUploadSignatures_def sig_blocked_def Let_def set_sql_delete
        split: if_splits)
qed


section \<open>Properties\<close>

lemma decimal_digits: "list_all is_digit_u16 (decimal n) \<and> decimal n \<noteq> []"
proof (induction n rule: decimal.induct)
  case (1 n)
  have "is_digit_u16 (of_nat (0x30 + k))" if "k < 10" for k
    using that by (auto simp: is_digit_u16_def word_le_nat_alt unat_unit simp del: of_nat_add)
  then show ?case using 1 by (cases "n < 10") (simp_all add: decimal.simps [of n])
qed

lemma parse_decimal: "parse_ts (decimal n) = Some (int n)"
proof -
  have "fold (\<lambda>c n. n * 10 + (int (unat c) - 0x30)) (decimal n) 0 = int n"
  proof (induction n rule: decimal.induct)
    case (1 n)
    have d: "int (unat (of_nat (0x30 + k) :: u16)) - 0x30 = int k" if "k < 10" for k
      using that by (simp add: unat_unit del: of_nat_add)
    show ?case
    proof (cases "n < 10")
      case True
      then show ?thesis using d [of n] by (simp add: decimal.simps [of n])
    next
      case False
      have "int n = int (n div 10) * 10 + int (n mod 10)" by presburger
      then show ?thesis using 1 [OF False] False d [of "n mod 10"] by (simp add: decimal.simps [of n])
    qed
  qed
  then show ?thesis using decimal_digits [of n] by (simp add: parse_ts_def)
qed

lemma parse_ts_nonneg: "parse_ts s = Some t \<Longrightarrow> 0 \<le> t"
proof -
  have "0 \<le> fold (\<lambda>c n. n * 10 + (int (unat c) - 0x30)) s (a::int)"
    if "list_all is_digit_u16 s" "0 \<le> a" for s a
    using that
  proof (induction s arbitrary: a)
    case (Cons c s)
    then have "0x30 \<le> uint c" by (simp add: is_digit_u16_def word_le_def)
    with Cons show ?case by simp
  qed simp
  then show "parse_ts s = Some t \<Longrightarrow> 0 \<le> t" by (auto simp: parse_ts_def split: if_splits)
qed

lemma check_carried_ok:
  "check_carried P sr pk cs = Inr () \<longleftrightarrow>
     (\<forall>(v, s, m) \<in> set cs. SIG_HEX s
        \<and> (\<exists>b. hexToU8a P (if starts_with s (js ''0x'') then s else js ''0x'' @ s) = Some b
              \<and> sr (utf8_encode m) b pk = Some True))"
  by (induction P sr pk cs rule: check_carried.induct) (auto split: option.splits bool.splits)

text \<open>C18: A request is accepted only if its time stamp is within the window and not before the start
  of the process, and every signature it carries verified, under the key of the address it
  names, over a message with this method, path, body hash, id, address and time stamp (version
  2) or id, address and time stamp (version 1); a batch writer must carry version 2.\<close>

theorem accepted_upload_is_signed:
  assumes "verifyUploadSig P sr cfg start now req ident = Inr sig"
  shows "\<exists>pk. decodeAddress P (us_address sig) = Some pk
    \<and> \<bar>now - us_ts sig\<bar> \<le> uploadSigMaxAgeSec cfg \<and> start \<le> us_ts sig
    \<and> h_uploader_address req = Some (us_address sig)
    \<and> carried_sigs req ident (us_address sig) (us_ts sig) \<noteq> []
    \<and> us_signatures sig = map (\<lambda>c. signatureKey (fst (snd c))) (carried_sigs req ident (us_address sig) (us_ts sig))
    \<and> (\<forall>(v, s, m) \<in> set (carried_sigs req ident (us_address sig) (us_ts sig)).
         SIG_HEX s \<and> (\<exists>b. hexToU8a P (if starts_with s (js ''0x'') then s else js ''0x'' @ s) = Some b
           \<and> sr (utf8_encode m) b pk = Some True))
    \<and> (us_address sig \<in> set (batchWriterAddresses cfg) \<longrightarrow> us_version sig = 2)"
proof -
  from assms obtain ts_str pk where
    "present (h_uploader_address req) = Some (us_address sig)"
    "decodeAccountId P (us_address sig) = Inr pk"
    "check_carried P sr pk (carried_sigs req ident (us_address sig) (us_ts sig)) = Inr ()"
    "us_signatures sig = map (\<lambda>c. signatureKey (fst (snd c))) (carried_sigs req ident (us_address sig) (us_ts sig))"
    "\<bar>now - us_ts sig\<bar> \<le> uploadSigMaxAgeSec cfg" "start \<le> us_ts sig"
    "present (h_upload_sig_v2 req) \<noteq> None \<or> present (h_upload_sig req) \<noteq> None"
    "us_address sig \<in> set (batchWriterAddresses cfg) \<longrightarrow> us_version sig = 2"
    by (auto simp: verifyUploadSig_def Let_def and_then_Inr_iff split: option.splits if_splits sum.splits)
  then show ?thesis
    unfolding check_carried_ok
    by (intro exI [of _ pk])
      (auto simp: decodeAccountId_def present_def carried_sigs_def split: if_splits option.splits)
qed


text \<open>A scheme in which every signature verifies, and a request signed under both schemes.\<close>

definition sr_any :: sr25519 where "sr_any m s k = Some True"

definition sample_cfg :: upload_config where
  "sample_cfg = \<lparr>batchWriterAddresses = [], uploadSigMaxAgeSec = 300\<rparr>"

definition sample_req :: request where
  "sample_req = \<lparr>h_upload_sig_v2 = Some (replicate 128 0x61), h_upload_sig = None,
     h_uploader_address = Some (js ''ab''), h_upload_ts = Some (decimal 1200), h_authorization = None,
     h_api_key = None, req_method = js ''POST'', req_originalUrl = js ''/blobs/x?y'', req_rawBody = []\<rparr>"

definition upload_sample_sig :: upload_sig where
  "upload_sample_sig = \<lparr>us_address = js ''ab'', us_version = 2, us_ts = 1200, us_signatures = [replicate 128 0x61]\<rparr>"

lemma upload_sample_verifies:
  assumes "\<bar>now - 1200\<bar> \<le> 300" "start \<le> 1200"
  shows "verifyUploadSig polkadot_sample sr_any sample_cfg start now sample_req (js ''x'') = Inr upload_sample_sig"
proof -
  have ns: "\<not> starts_with (replicate 128 0x61) (js ''0x'')" by (rule starts_with_replicate) (simp_all add: js_eval)
  have hex: "re_lower_hex 128 (replicate 128 0x61)" by (rule re_lower_hex_replicate) (simp add: char_class_defs)
  note sh = re_lower_hex_any [OF hex] to_lower_hex_id [OF hex]
  have ne: "replicate 128 (0x61::u16) \<noteq> []" "decimal 1200 \<noteq> []" "js ''ab'' \<noteq> []"
    using decimal_digits by (simp_all add: js_eval)
  have carried: "carried_sigs sample_req ident addr 1200 = [(2, replicate 128 0x61,
      snd (snd (hd (carried_sigs sample_req ident addr 1200))))]" for ident addr
    using ne by (simp add: carried_sigs_def sample_req_def present_def)
  have "check_carried polkadot_sample sr_any pk (carried_sigs sample_req ident addr 1200) = Inr ()" for pk ident addr
    unfolding check_carried_ok by (subst carried)
      (simp add: SIG_HEX_def sh ns sr_any_def polkadot_sample_def)
  moreover have "map (\<lambda>c. signatureKey (fst (snd c))) (carried_sigs sample_req ident addr 1200)
      = [replicate 128 0x61]" for ident addr
    by (subst carried) (simp add: signatureKey_def ns sh)
  moreover have "present (h_upload_sig_v2 sample_req) = Some (replicate 128 0x61)"
    "present (h_upload_sig sample_req) = None" "present (h_uploader_address sample_req) = Some (js ''ab'')"
    "present (h_upload_ts sample_req) = Some (decimal 1200)"
    using ne by (simp_all add: sample_req_def present_def)
  moreover have "decodeAccountId polkadot_sample (js ''ab'') = Inr (hex_to_bytes (js ''ab''))"
    by (simp add: decodeAccountId_def MAX_ACCOUNT_ID_CHARS_def polkadot_sample_def)
  ultimately show ?thesis
    using assms parse_decimal [of 1200]
    by (simp add: verifyUploadSig_def Let_def sample_cfg_def upload_sample_sig_def)
qed

theorem accepted_upload_is_signed_witness:
  "verifyUploadSig polkadot_sample sr_any sample_cfg 1000 1100 sample_req (js ''x'') = Inr upload_sample_sig
   \<and> (\<exists>pk. decodeAddress polkadot_sample (js ''ab'') = Some pk \<and> \<bar>1100 - us_ts upload_sample_sig\<bar> \<le> 300)"
proof -
  have v: "verifyUploadSig polkadot_sample sr_any sample_cfg 1000 1100 sample_req (js ''x'') = Inr upload_sample_sig"
    by (rule upload_sample_verifies) simp_all
  from accepted_upload_is_signed [OF v] v show ?thesis by (auto simp: sample_cfg_def upload_sample_sig_def)
qed

text \<open>C16: A signature is accepted at most once: after a request was accepted, whatever is spent in
  between, no later request that carries one of its signatures with its time stamp is, the
  clock being non-decreasing.  (A signature covers its time stamp.)\<close>

theorem signature_never_accepted_twice:
  assumes "fst (spendUploadSig cfg sig now db)" and "s \<in> set (us_signatures sig)" "s \<in> set (us_signatures sig')"
    and "us_ts sig' = us_ts sig" and "sorted (now # map snd others @ [now'])"
  shows "\<not> fst (spendUploadSig cfg sig' now'
    (fold (\<lambda>x db. snd (spendUploadSig cfg (fst x) (snd x) db)) others (snd (spendUploadSig cfg sig now db))))"
  using assms by (intro used_sigs.never_twice [where k = "(s, us_ts sig)"]) auto

theorem signature_never_accepted_twice_witness:
  "fst (spendUploadSig sample_cfg upload_sample_sig 1100 empty_quota_db)
   \<and> \<not> fst (spendUploadSig sample_cfg upload_sample_sig 1500
        (fold (\<lambda>x db. snd (spendUploadSig sample_cfg (fst x) (snd x) db)) [(upload_sample_sig\<lparr>us_ts := 1400\<rparr>, 1300)]
          (snd (spendUploadSig sample_cfg upload_sample_sig 1100 empty_quota_db))))"
proof -
  have "fst (spendUploadSig sample_cfg upload_sample_sig 1100 empty_quota_db)"
    by (simp add: spendUploadSig_def claimUploadSignatures_def Let_def sample_cfg_def upload_sample_sig_def
        empty_quota_db_def sql_delete_def)
  from signature_never_accepted_twice [OF this, of "replicate 128 0x61" upload_sample_sig
      "[(upload_sample_sig\<lparr>us_ts := 1400\<rparr>, 1300)]" 1500] this
  show ?thesis by (simp add: upload_sample_sig_def)
qed

text \<open>C33: The store is needed across a restart.  A request whose time stamp lies ahead of the clock is
  accepted before the restart; if the store is lost, the same request is accepted again after
  it, because its stamp is not before the new start.\<close>

theorem future_stamp_survives_restart:
  assumes "verifyUploadSig P sr cfg start now req ident = Inr sig"
    and "start \<le> start'" "start' \<le> us_ts sig" "\<bar>now' - us_ts sig\<bar> \<le> uploadSigMaxAgeSec cfg"
  shows "verifyUploadSig P sr cfg start' now' req ident = Inr sig
    \<and> fst (spendUploadSig cfg sig now empty_quota_db) \<and> fst (spendUploadSig cfg sig now' empty_quota_db)"
proof -
  have "\<bar>now - us_ts sig\<bar> \<le> uploadSigMaxAgeSec cfg" using accepted_upload_is_signed [OF assms(1)] by blast
  moreover have "verifyUploadSig P sr cfg start' now' req ident = Inr sig"
    using assms
    by (auto simp: verifyUploadSig_def Let_def and_then_Inr_iff split: option.splits if_splits sum.splits)
  ultimately show ?thesis
    using assms(4) by (simp add: spendUploadSig_def claimUploadSignatures_def Let_def empty_quota_db_def sql_delete_def)
qed

theorem future_stamp_survives_restart_witness:
  "verifyUploadSig polkadot_sample sr_any sample_cfg 500 1000 sample_req (js ''x'') = Inr upload_sample_sig
   \<and> verifyUploadSig polkadot_sample sr_any sample_cfg 1100 1110 sample_req (js ''x'') = Inr upload_sample_sig
   \<and> fst (spendUploadSig sample_cfg upload_sample_sig 1110 empty_quota_db)"
proof -
  have v: "verifyUploadSig polkadot_sample sr_any sample_cfg 500 1000 sample_req (js ''x'') = Inr upload_sample_sig"
    by (rule upload_sample_verifies) simp_all
  have "us_ts upload_sample_sig = 1200" "uploadSigMaxAgeSec sample_cfg = 300" by (simp_all add: upload_sample_sig_def sample_cfg_def)
  with future_stamp_survives_restart [OF v, of 1100 1110] v show ?thesis by simp
qed

section \<open>Messages determine requests\<close>

abbreviation no_bar :: "jsstring \<Rightarrow> bool" where "no_bar s \<equiv> 0x7C \<notin> set s"

lemma split_bar:
  assumes "x @ 0x7C # r = y @ (0x7C::u16) # r'" "no_bar x" "no_bar y"
  shows "x = y \<and> r = r'"
  using assms
proof (induction x arbitrary: y)
  case Nil
  then show ?case by (cases y) auto
next
  case (Cons c x)
  then show ?case by (cases y) auto
qed

lemma split_bar_last:
  assumes "r @ 0x7C # x = r' @ (0x7C::u16) # y" "no_bar x" "no_bar y"
  shows "x = y \<and> r = r'"
proof -
  from arg_cong [OF assms(1), of rev] have "rev x @ 0x7C # rev r = rev y @ 0x7C # rev r'" by simp
  from split_bar [OF this] assms(2,3) show ?thesis by simp
qed

lemma no_bar_hex: "list_all is_lower_hex s \<Longrightarrow> no_bar s"
proof -
  have "\<not> is_lower_hex 0x7C" by (simp add: char_class_defs)
  then show "list_all is_lower_hex s \<Longrightarrow> no_bar s" by (auto simp: list_all_iff)
qed

lemma no_bar_decimal: "no_bar (decimal n)"
proof (rule no_bar_hex)
  show "list_all is_lower_hex (decimal n)"
    using decimal_digits [of n] by (simp add: list_all_iff is_lower_hex_def)
qed

lemma decimal_inj: "decimal m = decimal n \<longleftrightarrow> m = n"
  by (metis parse_decimal option.inject of_nat_eq_iff)

text \<open>What a version 2 signature covers is unambiguous: two equal messages have the same method,
  path, id, address and time stamp, and the same body unless the bodies are a SHA-256
  collision; no version 2 message is a version 1 message.  (Paths may contain the separator;
  methods, ids and addresses do not.)\<close>

theorem upload_message_binds:
  assumes "no_bar m" "no_bar i" "no_bar a" "no_bar m'" "no_bar i'" "no_bar a'"
    and "uploadSigV2Message m p (sha256_hex b) i a t = uploadSigV2Message m' p' (sha256_hex b') i' a' t'"
  shows "m = m' \<and> p = p' \<and> i = i' \<and> a = a' \<and> t = t' \<and> (b = b' \<or> sha_collision b b')
    \<and> (\<forall>i'' a'' t''. uploadSigV2Message m p (sha256_hex b) i a t \<noteq> uploadSigV1Message i'' a'' t'')"
proof -
  have hex: "no_bar (sha256_hex c)" for c
    using no_bar_hex sha256_hex_shape by (auto simp: re_lower_hex_def)
  note nb = assms(1-6) no_bar_decimal hex
  have eq: "m @ 0x7C # (((p @ 0x7C # sha256_hex b) @ 0x7C # i) @ 0x7C # a) @ 0x7C # decimal t =
      m' @ 0x7C # (((p' @ 0x7C # sha256_hex b') @ 0x7C # i') @ 0x7C # a') @ 0x7C # decimal t'"
    using assms(7) by (simp add: uploadSigV2Message_def)
  from split_bar [OF eq] nb have mm: "m = m'"
    and e1: "(((p @ 0x7C # sha256_hex b) @ 0x7C # i) @ 0x7C # a) @ 0x7C # decimal t =
      (((p' @ 0x7C # sha256_hex b') @ 0x7C # i') @ 0x7C # a') @ 0x7C # decimal t'" by blast+
  from split_bar_last [OF e1] nb have t: "decimal t = decimal t'"
    and e2: "((p @ 0x7C # sha256_hex b) @ 0x7C # i) @ 0x7C # a =
      ((p' @ 0x7C # sha256_hex b') @ 0x7C # i') @ 0x7C # a'" by blast+
  from split_bar_last [OF e2] nb have aa: "a = a'"
    and e3: "(p @ 0x7C # sha256_hex b) @ 0x7C # i = (p' @ 0x7C # sha256_hex b') @ 0x7C # i'" by blast+
  from split_bar_last [OF e3] nb have ii: "i = i'"
    and e4: "p @ 0x7C # sha256_hex b = p' @ 0x7C # sha256_hex b'" by blast+
  from split_bar_last [OF e4] nb have pp: "p = p'" and bb: "sha256_hex b = sha256_hex b'" by blast+
  have v: "uploadSigV2Message m p (sha256_hex b) i a t \<noteq> uploadSigV1Message i'' a'' t''" for i'' a'' t''
    by (simp add: uploadSigV2Message_def uploadSigV1Message_def js_eval)
  from bb have "b = b' \<or> sha_collision b b'" by (auto simp: sha256_hex_eq sha_collision_def)
  then show ?thesis using mm pp ii aa t v decimal_inj by blast
qed

theorem upload_message_binds_witness:
  "\<forall>i a t. uploadSigV2Message (js ''PUT'') (js ''/a|b'') (sha256_hex [1]) (js ''x'') (js ''5A'') 7
     \<noteq> uploadSigV1Message i a t"
proof -
  have nb: "no_bar (js ''PUT'')" "no_bar (js ''x'')" "no_bar (js ''5A'')" by (simp_all add: js_eval)
  show ?thesis
    using upload_message_binds [OF nb nb refl, where p = "js ''/a|b''" and b = "[1]" and t = 7] by (elim conjE)
qed

end
