(* ===== verification/ApiTokens.thy ===== *)
theory ApiTokens
  imports Registries Sha256
begin

text \<open>
  Bearer tokens, \<open>api-tokens.ts\<close>: minting, verification, binding to a tenant, revocation and
  listing.  Only the SHA-256 of a token is stored.  Random octets and the clock are arguments.
\<close>

section \<open>Tokens\<close>

definition TOKEN_PREFIX :: jsstring where "TOKEN_PREFIX = js ''matra_''"

definition TOKEN_RANDOM_BYTES :: nat where "TOKEN_RANDOM_BYTES = 32"

definition hashToken :: "jsstring \<Rightarrow> jsstring" where
  "hashToken plaintext = sha256_hex (utf8_encode plaintext)"

definition BASE62_ALPHABET :: jsstring where
  "BASE62_ALPHABET = js ''0123456789ABCDEFGHIJKLMNOPQRSTUVWXYZabcdefghijklmnopqrstuvwxyz''"

text \<open>The octets as one big-endian number, and its digits, most significant first.\<close>

definition big_endian :: "bytes \<Rightarrow> nat" where
  "big_endian buf = fold (\<lambda>b n. n * 256 + unat b) buf 0"

fun base62_digits :: "nat \<Rightarrow> jsstring \<Rightarrow> jsstring" where
  "base62_digits n out = (if n = 0 then out else base62_digits (n div 62) (BASE62_ALPHABET ! (n mod 62) # out))"

declare base62_digits.simps [simp del]

definition pad_start :: "nat \<Rightarrow> u16 \<Rightarrow> jsstring \<Rightarrow> jsstring" where
  "pad_start len c s = replicate (len - length s) c @ s"

definition toBase62 :: "bytes \<Rightarrow> jsstring" where
  "toBase62 buf =
     (let n = big_endian buf
      in pad_start 43 0x30 (if n = 0 then js ''0'' else base62_digits n []))"

section \<open>The table\<close>

record token_row =
  token_hash :: jsstring
  token_account :: jsstring
  token_label :: "jsstring option"
  token_created_at :: int
  token_last_used_at :: "int option"
  token_revoked_at :: "int option"
  token_revoked_reason :: "jsstring option"
  token_tenant :: "jsstring option"

type_synonym token_db = "token_row list"

record issue_input =
  it_accountSs58 :: jsstring
  it_label :: "jsstring option"
  it_tenantId :: "jsstring option"

record issued_token =
  issued_plaintext :: jsstring
  issued_hash :: jsstring
  issued_accountSs58 :: jsstring
  issued_label :: "jsstring option"
  issued_tenantId :: "jsstring option"
  issued_createdAt :: int

text \<open>\<open>typeof tenantId === "string" && tenantId.length > 0 ? tenantId : null\<close>\<close>

definition non_empty :: "jsstring option \<Rightarrow> jsstring option" where
  "non_empty s = (case s of None \<Rightarrow> None | Some t \<Rightarrow> if t = [] then None else Some t)"

text \<open>\<open>None\<close>: the hash is already in the table and the insertion throws.\<close>

definition issueToken :: "bytes \<Rightarrow> int \<Rightarrow> issue_input \<Rightarrow> token_db \<Rightarrow> (issued_token \<times> token_db) option" where
  "issueToken raw now input db =
     (let token = TOKEN_PREFIX @ toBase62 raw;
          tokenHash = hashToken token;
          tenantId = non_empty (it_tenantId input)
      in map_option (Pair \<lparr>issued_plaintext = token, issued_hash = tokenHash,
             issued_accountSs58 = it_accountSs58 input, issued_label = it_label input,
             issued_tenantId = tenantId, issued_createdAt = now\<rparr>)
           (sql_insert token_hash
             \<lparr>token_hash = tokenHash, token_account = it_accountSs58 input, token_label = it_label input,
              token_created_at = now, token_last_used_at = None, token_revoked_at = None,
              token_revoked_reason = None, token_tenant = tenantId\<rparr> db))"

definition bindTokenToTenant :: "jsstring \<Rightarrow> jsstring option \<Rightarrow> token_db \<Rightarrow> bool \<times> token_db" where
  "bindTokenToTenant h tenantId db =
     (0 < sql_count (\<lambda>r. token_hash r = h) db,
      sql_update (\<lambda>r. token_hash r = h) (token_tenant_update (\<lambda>_. non_empty tenantId)) db)"

datatype token_reason = Malformed | Unknown | Revoked

record verified_token =
  vt_accountSs58 :: jsstring
  vt_label :: "jsstring option"
  vt_tokenHash :: jsstring
  vt_tenantId :: "jsstring option"

definition verifyToken :: "jsstring \<Rightarrow> int \<Rightarrow> token_db \<Rightarrow> (token_reason + verified_token) \<times> token_db" where
  "verifyToken plaintext now db =
     (if \<not> starts_with plaintext TOKEN_PREFIX then (Inl Malformed, db)
      else let tokenHash = hashToken plaintext
           in (case sql_get (\<lambda>r. token_hash r = tokenHash) db of
                 None \<Rightarrow> (Inl Unknown, db)
               | Some r \<Rightarrow>
                   if token_revoked_at r \<noteq> None then (Inl Revoked, db)
                   else (Inr \<lparr>vt_accountSs58 = token_account r, vt_label = token_label r,
                              vt_tokenHash = tokenHash, vt_tenantId = token_tenant r\<rparr>,
                         sql_update (\<lambda>r. token_hash r = tokenHash) (token_last_used_at_update (\<lambda>_. Some now)) db)))"

definition revokeToken :: "jsstring \<Rightarrow> jsstring option \<Rightarrow> int \<Rightarrow> token_db \<Rightarrow> bool \<times> token_db" where
  "revokeToken h reason now db =
     (0 < sql_count (\<lambda>r. token_hash r = h \<and> token_revoked_at r = None) db,
      sql_update (\<lambda>r. token_hash r = h \<and> token_revoked_at r = None)
        (\<lambda>r. r\<lparr>token_revoked_at := Some now, token_revoked_reason := reason\<rparr>) db)"

text \<open>\<open>opts.account\<close> is \<open>None\<close> when absent or empty; the order of equal instants is rowid order.\<close>

definition listTokens :: "jsstring option \<Rightarrow> bool \<Rightarrow> token_db \<Rightarrow> token_row list" where
  "listTokens account includeRevoked db =
     js_sort (\<lambda>a b. token_created_at b - token_created_at a)
       (filter (\<lambda>r. (case non_empty account of None \<Rightarrow> True | Some a \<Rightarrow> token_account r = a)
                    \<and> (includeRevoked \<or> token_revoked_at r = None)) db)"

section \<open>The text of a token\<close>

lemma alphabet_distinct: "distinct BASE62_ALPHABET"
  by (simp add: BASE62_ALPHABET_def js_eval)

lemma alphabet_length: "length BASE62_ALPHABET = 62"
  by (simp add: BASE62_ALPHABET_def)

definition base62_value :: "nat list \<Rightarrow> nat" where
  "base62_value ds = fold (\<lambda>d n. n * 62 + d) ds 0"

fun digits62 :: "nat \<Rightarrow> nat \<Rightarrow> nat list" where
  "digits62 0 n = []"
| "digits62 (Suc k) n = digits62 k (n div 62) @ [n mod 62]"

lemma length_digits62 [simp]: "length (digits62 k n) = k"
  by (induction k arbitrary: n) auto

lemma digits62_less: "d \<in> set (digits62 k n) \<Longrightarrow> d < 62"
  by (induction k arbitrary: n) auto

lemma base62_value_digits: "n < 62 ^ k \<Longrightarrow> base62_value (digits62 k n) = n"
proof (induction k arbitrary: n)
  case 0
  then show ?case by (simp add: base62_value_def)
next
  case (Suc k)
  then have "n div 62 < 62 ^ k" by (simp add: less_mult_imp_div_less mult.commute)
  from Suc.IH [OF this] show ?case by (simp add: base62_value_def)
qed

lemma digits62_0: "digits62 k 0 = replicate k 0"
  by (induction k) (simp_all add: replicate_append_same)

text \<open>The loop writes the digits without leading zeros; padding puts them back.\<close>

lemma base62_digits_padded:
  assumes "n < 62 ^ k"
  shows "\<exists>ds. base62_digits n out = map ((!) BASE62_ALPHABET) ds @ out
    \<and> digits62 k n = replicate (k - length ds) 0 @ ds \<and> length ds \<le> k"
  using assms
proof (induction k arbitrary: n out)
  case 0
  then show ?case by (simp add: base62_digits.simps)
next
  case (Suc k)
  show ?case
  proof (cases "n = 0")
    case True
    then show ?thesis by (simp add: base62_digits.simps digits62_0 replicate_append_same)
  next
    case False
    from Suc.prems have "n div 62 < 62 ^ k" by (simp add: less_mult_imp_div_less mult.commute)
    from Suc.IH [OF this, of "BASE62_ALPHABET ! (n mod 62) # out"] obtain ds where
      ds: "base62_digits (n div 62) (BASE62_ALPHABET ! (n mod 62) # out) =
          map ((!) BASE62_ALPHABET) ds @ BASE62_ALPHABET ! (n mod 62) # out"
        "digits62 k (n div 62) = replicate (k - length ds) 0 @ ds" "length ds \<le> k" by blast
    from ds False show ?thesis
      by (intro exI [of _ "ds @ [n mod 62]"]) (simp add: base62_digits.simps [of n])
  qed
qed

lemma big_endian_append: "big_endian (xs @ [b]) = big_endian xs * 256 + unat b"
  by (simp add: big_endian_def)

lemma big_endian_less: "big_endian buf < 256 ^ length buf"
proof (induction buf rule: rev_induct)
  case Nil
  then show ?case by (simp add: big_endian_def)
next
  case (snoc b buf)
  then have "big_endian buf + 1 \<le> 256 ^ length buf" by simp
  then have "(big_endian buf + 1) * 256 \<le> 256 ^ length buf * 256" by (rule mult_le_mono1)
  then show ?case using unat_u8_less [of b] by (simp add: big_endian_append algebra_simps)
qed

lemma big_endian_inj: "length xs = length ys \<Longrightarrow> big_endian xs = big_endian ys \<Longrightarrow> xs = ys"
proof (induction xs arbitrary: ys rule: rev_induct)
  case Nil
  then show ?case by simp
next
  case (snoc x xs)
  then obtain y ys' where ys: "ys = ys' @ [y]" by (cases ys rule: rev_cases) auto
  have eq: "big_endian xs * 256 + unat x = big_endian ys' * 256 + unat y"
    using snoc.prems(2) by (simp add: ys big_endian_append)
  have "unat x = unat y"
    using arg_cong [OF eq, of "\<lambda>n. n mod 256"] unat_u8_less [of x] unat_u8_less [of y] by simp
  then have "x = y" and "big_endian xs = big_endian ys'" using eq by (simp_all add: word_unat_eq_iff)
  then show ?case using snoc ys by simp
qed

lemma toBase62_digits:
  assumes "length buf = 32"
  shows "toBase62 buf = map ((!) BASE62_ALPHABET) (digits62 43 (big_endian buf))"
proof -
  let ?n = "big_endian buf"
  have "(256::nat) ^ 32 \<le> 62 ^ 43" by simp
  then have n: "?n < 62 ^ 43" using big_endian_less [of buf] assms by simp
  have a0: "BASE62_ALPHABET ! 0 = 0x30" by (simp add: BASE62_ALPHABET_def js_eval)
  show ?thesis
  proof (cases "?n = 0")
    case True
    have r: "replicate 42 c @ [c] = replicate 43 c" for c :: u16
      by (simp only: replicate_append_same flip: replicate_Suc) simp
    have "js ''0'' = [0x30]" by (simp add: js_eval)
    then have "toBase62 buf = replicate 43 0x30"
      unfolding toBase62_def pad_start_def Let_def True by (simp add: r)
    then show ?thesis unfolding True digits62_0 map_replicate a0 .
  next
    case False
    from base62_digits_padded [OF n, of "[]"] obtain ds where
      "base62_digits ?n [] = map ((!) BASE62_ALPHABET) ds"
      "digits62 43 ?n = replicate (43 - length ds) 0 @ ds" by auto
    then show ?thesis using False a0 by (simp add: toBase62_def pad_start_def)
  qed
qed

text \<open>Every 32 random octets give a token text of exactly 43 characters of the base62 alphabet, and
  different octets give different texts, so a token carries all 256 bits of its randomness.\<close>

theorem base62_faithful:
  assumes "length a = TOKEN_RANDOM_BYTES" and "length b = TOKEN_RANDOM_BYTES"
  shows "length (toBase62 a) = 43 \<and> set (toBase62 a) \<subseteq> set BASE62_ALPHABET \<and> (toBase62 a = toBase62 b \<longleftrightarrow> a = b)"
proof -
  note ab = assms [unfolded TOKEN_RANDOM_BYTES_def]
  have sub: "set (toBase62 a) \<subseteq> set BASE62_ALPHABET"
    using digits62_less by (auto simp: toBase62_digits [OF ab(1)] alphabet_length)
  have inj62: "a = b" if eq: "toBase62 a = toBase62 b"
  proof -
    have inj: "inj_on ((!) BASE62_ALPHABET) {..<62}"
      using alphabet_distinct alphabet_length by (auto simp: inj_on_def nth_eq_iff_index_eq)
    have "digits62 43 (big_endian a) = digits62 43 (big_endian b)"
      using eq unfolding toBase62_digits [OF ab(1)] toBase62_digits [OF ab(2)]
      by (rule map_inj_on) (rule inj_on_subset [OF inj], auto dest: digits62_less)
    moreover have "big_endian a < 62 ^ 43" "big_endian b < 62 ^ 43"
    proof -
      have "(256::nat) ^ 32 \<le> 62 ^ 43" by simp
      then show "big_endian a < 62 ^ 43" "big_endian b < 62 ^ 43"
        using big_endian_less [of a] big_endian_less [of b] ab by simp_all
    qed
    ultimately have "big_endian a = big_endian b" by (metis base62_value_digits)
    then show ?thesis using big_endian_inj ab by simp
  qed
  have "length (toBase62 a) = 43" unfolding toBase62_digits [OF ab(1)] by simp
  then show ?thesis using sub inj62 by auto
qed

theorem base62_faithful_witness:
  "length (toBase62 (replicate 32 0xFF)) = 43 \<and> toBase62 (replicate 32 0xFF) \<noteq> toBase62 (replicate 32 0)"
proof -
  have "(replicate 32 0xFF :: bytes) \<noteq> replicate 32 0" by simp
  with base62_faithful [of "replicate 32 0xFF" "replicate 32 0"] show ?thesis
    by (simp add: TOKEN_RANDOM_BYTES_def)
qed

section \<open>The life of a token\<close>

datatype token_op =
    Issue bytes int issue_input
  | Verify jsstring int
  | BindTenant jsstring "jsstring option"
  | RevokeHash jsstring "jsstring option" int

fun token_step :: "token_op \<Rightarrow> token_db \<Rightarrow> token_db" where
  "token_step (Issue raw now input) db = (case issueToken raw now input db of None \<Rightarrow> db | Some (_, db') \<Rightarrow> db')"
| "token_step (Verify p now) db = snd (verifyToken p now db)"
| "token_step (BindTenant h tenant) db = snd (bindTokenToTenant h tenant db)"
| "token_step (RevokeHash h reason now) db = snd (revokeToken h reason now db)"

definition token_row_of :: "jsstring \<Rightarrow> token_db \<Rightarrow> token_row option" where
  "token_row_of h db = sql_get (\<lambda>r. token_hash r = h) db"

definition known_token :: "token_db \<Rightarrow> jsstring \<Rightarrow> bool" where
  "known_token db h \<longleftrightarrow> token_row_of h db \<noteq> None"

definition token_valid :: "jsstring \<Rightarrow> token_db \<Rightarrow> bool" where
  "token_valid p db \<longleftrightarrow> (case fst (verifyToken p 0 db) of Inr _ \<Rightarrow> True | Inl _ \<Rightarrow> False)"

lemma token_valid_iff:
  "token_valid p db \<longleftrightarrow> starts_with p TOKEN_PREFIX
     \<and> (case token_row_of (hashToken p) db of None \<Rightarrow> False | Some r \<Rightarrow> token_revoked_at r = None)"
  by (auto simp: token_valid_def verifyToken_def token_row_of_def Let_def split: option.splits)

text \<open>What one step does to the row of a hash.\<close>

lemma token_row_update:
  "(\<And>r. token_hash (f r) = token_hash r) \<Longrightarrow>
     token_row_of h (sql_update q f db) = map_option (\<lambda>r. if q r then f r else r) (token_row_of h db)"
  unfolding token_row_of_def by (rule sql_get_update_key) simp

lemma token_row_insert:
  "sql_insert token_hash r db = Some db' \<Longrightarrow>
     token_row_of h db' = (if h = token_hash r then Some r else token_row_of h db)"
proof -
  assume ins: "sql_insert token_hash r db = Some db'"
  then have db': "db' = db @ [r]" and new: "token_hash r \<notin> set (map token_hash db)"
    by (auto simp: sql_insert_def split: if_splits)
  from new have none: "sql_get (\<lambda>x. token_hash x = token_hash r) db = None"
    by (induction db) (auto simp: sql_get_def)
  have one: "sql_get (\<lambda>x. token_hash x = h) [r] = (if h = token_hash r then Some r else None)"
    by (auto simp: sql_get_def)
  show ?thesis
    unfolding token_row_of_def db' sql_get_append one using none by (auto split: option.splits)
qed

lemma token_row_step:
  assumes "token_row_of h db = Some r"
  shows "\<exists>r'. token_row_of h (token_step op db) = Some r' \<and> token_account r' = token_account r
    \<and> (token_revoked_at r \<noteq> None \<longrightarrow> token_revoked_at r' = token_revoked_at r)
    \<and> (token_revoked_at r = None \<and> (\<forall>reason now. op \<noteq> RevokeHash h reason now) \<longrightarrow> token_revoked_at r' = None)"
proof (cases op)
  case (Issue raw now input)
  show ?thesis
  proof (cases "issueToken raw now input db")
    case (Some x)
    then obtain t db' where x: "x = (t, db')" by (cases x)
    with Some obtain row where ins: "sql_insert token_hash row db = Some db'" by (auto simp: issueToken_def Let_def)
    have "h \<in> token_hash ` set db"
      using assms sql_get_SomeD [of "\<lambda>r. token_hash r = h" db r] by (auto simp: token_row_of_def)
    moreover have "token_hash row \<notin> token_hash ` set db" using ins by (auto simp: sql_insert_def split: if_splits)
    ultimately have "h \<noteq> token_hash row" by blast
    then show ?thesis using Issue Some x assms token_row_insert [OF ins] by simp
  qed (use Issue assms in simp)
next
  case (Verify p now)
  then show ?thesis
    using assms by (auto simp: verifyToken_def Let_def token_row_update split: option.splits)
next
  case (BindTenant k tenant)
  then show ?thesis using assms by (simp add: bindTokenToTenant_def token_row_update)
next
  case (RevokeHash k reason now)
  have "token_hash r = h" using assms sql_get_SomeD by (fastforce simp: token_row_of_def)
  then show ?thesis using RevokeHash assms by (auto simp: revokeToken_def token_row_update)
qed

interpretation tokens: revocable_registry hashToken known_token token_valid token_step
proof unfold_locales
  fix db k p op
  show "token_valid p db \<Longrightarrow> known_token db (hashToken p)"
    by (auto simp: token_valid_iff known_token_def split: option.splits)
  show "known_token db k \<Longrightarrow> known_token (token_step op db) k"
    using token_row_step [of k db _ op] by (auto simp: known_token_def)
  assume "known_token db (hashToken p)" and v: "token_valid p (token_step op db)"
  then obtain r where r: "token_row_of (hashToken p) db = Some r" by (auto simp: known_token_def)
  from token_row_step [OF this, of op] v have "token_revoked_at r = None"
    by (auto simp: token_valid_iff)
  with r v show "token_valid p db" by (simp add: token_valid_iff)
qed

lemma verify_valid: "(\<exists>v. fst (verifyToken p now db) = Inr v) \<longleftrightarrow> token_valid p db"
  by (auto simp: token_valid_def verifyToken_def Let_def split: option.splits)

text \<open>C31: A revoked token never verifies again, whatever tokens are minted, bound, verified or revoked
  afterwards, its own hash included.\<close>

theorem revoked_token_stays_dead:
  assumes "revokeToken (hashToken p) reason now db = (True, db')"
  shows "\<not> (\<exists>v. fst (verifyToken p later (fold token_step ops db')) = Inr v)"
proof -
  have db': "db' = snd (revokeToken (hashToken p) reason now db)" using assms by simp
  have "0 < sql_count (\<lambda>r. token_hash r = hashToken p \<and> token_revoked_at r = None) db"
    using assms by (simp add: revokeToken_def)
  then obtain r0 where "r0 \<in> set db" "token_hash r0 = hashToken p"
    by (auto simp: sql_count_def filter_empty_conv)
  then obtain r where r: "token_row_of (hashToken p) db = Some r"
    by (cases "token_row_of (hashToken p) db") (auto simp: token_row_of_def sql_get_None)
  then have "token_hash r = hashToken p" using sql_get_SomeD by (fastforce simp: token_row_of_def)
  with r have "known_token db' (hashToken p)" "\<not> token_valid p db'"
    by (auto simp: db' revokeToken_def known_token_def token_valid_iff token_row_update)
  then show ?thesis unfolding verify_valid by (rule tokens.stays_inactive)
qed

definition sample_issue :: issue_input where
  "sample_issue = \<lparr>it_accountSs58 = js ''5A'', it_label = None, it_tenantId = Some (js ''t1'')\<rparr>"

definition sample_token :: jsstring where "sample_token = TOKEN_PREFIX @ toBase62 (replicate 32 7)"

definition sample_tokens :: token_db where
  "sample_tokens = token_step (Issue (replicate 32 7) 100 sample_issue) []"

lemma sample_tokens_eq:
  "\<exists>r. sample_tokens = [r] \<and> token_hash r = hashToken sample_token \<and> token_revoked_at r = None
     \<and> token_account r = js ''5A''"
  by (simp add: sample_tokens_def issueToken_def Let_def sql_insert_def sample_token_def sample_issue_def)

theorem revoked_token_stays_dead_witness:
  "(\<exists>v. fst (verifyToken sample_token 150 sample_tokens) = Inr v)
   \<and> \<not> (\<exists>v. fst (verifyToken sample_token 300 (fold token_step [Issue (replicate 32 7) 250 sample_issue]
        (snd (revokeToken (hashToken sample_token) None 200 sample_tokens)))) = Inr v)"
proof -
  obtain r where r: "sample_tokens = [r]" "token_hash r = hashToken sample_token" "token_revoked_at r = None"
    using sample_tokens_eq by blast
  have "\<exists>db'. revokeToken (hashToken sample_token) None 200 sample_tokens = (True, db')"
    unfolding r(1) by (simp add: revokeToken_def sql_count_def r(2,3))
  then have "revokeToken (hashToken sample_token) None 200 sample_tokens =
      (True, snd (revokeToken (hashToken sample_token) None 200 sample_tokens))" by auto
  note revoked_token_stays_dead [OF this]
  moreover have "token_valid sample_token sample_tokens"
    unfolding r(1) token_valid_iff token_row_of_def
    by (simp add: sql_get_def r(2,3)) (simp add: sample_token_def)
  ultimately show ?thesis unfolding verify_valid by blast
qed

lemma token_row_run:
  assumes "token_row_of h db = Some r"
  shows "\<exists>r'. token_row_of h (fold token_step ops db) = Some r' \<and> token_account r' = token_account r
    \<and> (token_revoked_at r = None \<and> (\<forall>reason now. RevokeHash h reason now \<notin> set ops) \<longrightarrow> token_revoked_at r' = None)"
  using assms
proof (induction ops arbitrary: db r)
  case (Cons op ops)
  from token_row_step [OF Cons.prems, of op] obtain r1 where r1:
    "token_row_of h (token_step op db) = Some r1" "token_account r1 = token_account r"
    "token_revoked_at r = None \<and> (\<forall>reason now. op \<noteq> RevokeHash h reason now) \<longrightarrow> token_revoked_at r1 = None"
    by blast
  from Cons.IH [OF r1(1)] r1(2,3) show ?case by auto
qed simp

text \<open>A minted token speaks for exactly the account it was minted for, for ever: no later operation
  changes that account, and as long as its hash is not revoked the token verifies.\<close>

theorem token_identity:
  assumes "issueToken raw now input db = Some (t, db')"
  shows "(\<forall>v. fst (verifyToken (issued_plaintext t) later (fold token_step ops db')) = Inr v
            \<longrightarrow> vt_accountSs58 v = it_accountSs58 input)
    \<and> ((\<forall>reason at. RevokeHash (issued_hash t) reason at \<notin> set ops)
            \<longrightarrow> (\<exists>v. fst (verifyToken (issued_plaintext t) later (fold token_step ops db')) = Inr v))"
proof -
  let ?p = "issued_plaintext t" and ?db = "fold token_step ops db'"
  from assms have p: "?p = TOKEN_PREFIX @ toBase62 raw" "issued_hash t = hashToken ?p"
    and ins: "\<exists>r. sql_insert token_hash r db = Some db' \<and> token_hash r = hashToken ?p
      \<and> token_account r = it_accountSs58 input \<and> token_revoked_at r = None"
    by (auto simp: issueToken_def Let_def)
  from ins obtain r where r: "token_row_of (hashToken ?p) db' = Some r"
    "token_account r = it_accountSs58 input" "token_revoked_at r = None"
    using token_row_insert by fastforce
  from token_row_run [OF r(1), of ops] obtain r' where r': "token_row_of (hashToken ?p) ?db = Some r'"
    "token_account r' = it_accountSs58 input"
    "(\<forall>reason at. RevokeHash (hashToken ?p) reason at \<notin> set ops) \<longrightarrow> token_revoked_at r' = None"
    using r(2,3) by auto
  have "vt_accountSs58 v = it_accountSs58 input" if "fst (verifyToken ?p later ?db) = Inr v" for v
    using that r'(1,2) by (auto simp: verifyToken_def Let_def token_row_of_def split: if_splits option.splits)
  moreover have "token_valid ?p ?db" if "\<forall>reason at. RevokeHash (issued_hash t) reason at \<notin> set ops"
    using that r'(1,3) p by (simp add: token_valid_iff)
  ultimately show ?thesis unfolding verify_valid by blast
qed

theorem token_identity_witness:
  "\<exists>t db'. issueToken (replicate 32 7) 100 sample_issue [] = Some (t, db')
     \<and> (\<exists>v. fst (verifyToken (issued_plaintext t) 200 (fold token_step [Verify (js ''x'') 150] db')) = Inr v
          \<and> vt_accountSs58 v = js ''5A'')"
proof -
  obtain t db' where t: "issueToken (replicate 32 7) 100 sample_issue [] = Some (t, db')"
    by (simp add: issueToken_def Let_def sql_insert_def)
  from token_identity [OF this, of 200 "[Verify (js ''x'') 150]"] have
    "\<exists>v. fst (verifyToken (issued_plaintext t) 200 (fold token_step [Verify (js ''x'') 150] db')) = Inr v
       \<and> vt_accountSs58 v = it_accountSs58 sample_issue" by auto
  with t show ?thesis by (auto simp: sample_issue_def)
qed

end
