(* ===== verification/Auth.thy ===== *)
theory Auth
  imports UploadAuth ApiTokens
begin

text \<open>
  How a write request is authenticated: \<open>resolveAuth\<close> of \<open>auth.ts\<close> with its four tiers, and the
  middlewares \<open>bearerAuth\<close> and \<open>adminGuard\<close> of \<open>bearer-auth.ts\<close>.  The balance check
  (\<open>rpc-client.ts\<close>, a chain query) is the parameter \<open>funded\<close>; while it is awaited other requests
  run, and \<open>others\<close> is what they do to the quota database.
\<close>

section \<open>Tiers\<close>

datatype auth_tier = BearerTier | SigOnlyTier | ApiKeyTier | RegisteredValidatorTier

record auth_ok =
  auth_tier :: auth_tier
  auth_identity :: jsstring
  auth_keyInfo :: "key_info option"
  auth_sigVersion :: "nat option"

datatype auth_error =
    InvalidBearer token_reason
  | AddressAsKey
  | InvalidApiKey
  | UploadSigError upload_error
  | BelowMinimumBalance
  | SignatureAlreadyUsed
  | NoAuthentication

fun drop_space :: "jsstring \<Rightarrow> jsstring" where
  "drop_space [] = []"
| "drop_space (c # s) = (if is_js_space c then drop_space s else c # s)"

definition js_trim :: "jsstring \<Rightarrow> jsstring" where
  "js_trim s = rev (drop_space (rev (drop_space s)))"

text \<open>The token of an \<open>Authorization: Bearer\<close> header.\<close>

definition bearer_token :: "request \<Rightarrow> jsstring option" where
  "bearer_token req =
     (case h_authorization req of
        None \<Rightarrow> None
      | Some h \<Rightarrow> if starts_with h (js ''Bearer '') then Some (js_trim (drop 7 h)) else None)"

section \<open>resolveAuth\<close>

text \<open>
  Priority 0: a token with the right prefix decides the request, unless the token database is
  not open (\<open>None\<close>), in which case the other credentials are tried.
\<close>

definition bearer_priority ::
  "int \<Rightarrow> request \<Rightarrow> token_db option \<Rightarrow> quota_db \<Rightarrow> (auth_error + auth_ok) option \<times> token_db option" where
  "bearer_priority now req tokens db =
     (case bearer_token req of
        None \<Rightarrow> (None, tokens)
      | Some token \<Rightarrow>
          if \<not> starts_with token TOKEN_PREFIX then (None, tokens)
          else (case tokens of
                  None \<Rightarrow> (None, None)
                | Some t \<Rightarrow>
                    (case verifyToken token now t of
                       (Inl reason, t') \<Rightarrow> (Some (Inl (InvalidBearer reason)), Some t')
                     | (Inr v, t') \<Rightarrow>
                         (Some (Inr \<lparr>auth_tier = BearerTier, auth_identity = vt_accountSs58 v,
                                     auth_keyInfo = resolveKeyByAccount (vt_accountSs58 v) db,
                                     auth_sigVersion = None\<rparr>), Some t'))))"

text \<open>Priority 1: \<open>None\<close> when the header is absent, empty, or an address on a signed request.\<close>

definition api_key_priority ::
  "polkadot \<Rightarrow> request \<Rightarrow> jsstring option \<Rightarrow> quota_db \<Rightarrow> (auth_error + auth_ok) option" where
  "api_key_priority P req contentHash db =
     (case present (h_api_key req) of
        None \<Rightarrow> None
      | Some apiKey \<Rightarrow>
          if isAccountAddress P apiKey
          then (if present contentHash = None \<or> \<not> hasUploadSignature req then Some (Inl AddressAsKey) else None)
          else (case resolveKey apiKey db of
                  None \<Rightarrow> Some (Inl InvalidApiKey)
                | Some ki \<Rightarrow> Some (Inr \<lparr>auth_tier = ApiKeyTier, auth_identity = ki_name ki,
                                        auth_keyInfo = Some ki, auth_sigVersion = None\<rparr>)))"

definition spend_for_tier ::
  "upload_config \<Rightarrow> auth_tier option \<Rightarrow> upload_sig \<Rightarrow> int \<Rightarrow> quota_db \<Rightarrow> (auth_error + auth_ok) \<times> quota_db" where
  "spend_for_tier cfg tier sig now db =
     (case tier of
        None \<Rightarrow> (Inl BelowMinimumBalance, db)
      | Some t \<Rightarrow>
          let (fresh, db') = spendUploadSig cfg sig now db
          in if \<not> fresh then (Inl SignatureAlreadyUsed, db')
             else (Inr \<lparr>auth_tier = t, auth_identity = us_address sig, auth_keyInfo = None,
                        auth_sigVersion = Some (us_version sig)\<rparr>, db'))"

definition resolveAuth ::
  "polkadot \<Rightarrow> sr25519 \<Rightarrow> (jsstring \<Rightarrow> bool) \<Rightarrow> upload_config \<Rightarrow> int \<Rightarrow> int \<Rightarrow> int \<Rightarrow> (quota_db \<Rightarrow> quota_db)
   \<Rightarrow> request \<Rightarrow> jsstring option \<Rightarrow> token_db option \<Rightarrow> quota_db
   \<Rightarrow> (auth_error + auth_ok) \<times> token_db option \<times> quota_db" where
  "resolveAuth P sr funded cfg processStart now spendNow others req contentHash tokens db =
     (case bearer_priority now req tokens db of
        (Some r, tokens') \<Rightarrow> (r, tokens', db)
      | (None, tokens') \<Rightarrow>
          (case api_key_priority P req contentHash db of
             Some r \<Rightarrow> (r, tokens', db)
           | None \<Rightarrow>
               (case present contentHash of
                  None \<Rightarrow> (Inl NoAuthentication, tokens', db)
                | Some h \<Rightarrow>
                    (case verifyUploadSig P sr cfg processStart now req h of
                       Inl e \<Rightarrow> (Inl (UploadSigError e), tokens', db)
                     | Inr sig \<Rightarrow>
                         if lookupUploadEligibleValidator (us_address sig) db \<noteq> None
                         then (let (r, db') = spend_for_tier cfg (Some RegisteredValidatorTier) sig spendNow db
                               in (r, tokens', db'))
                         else (let (r, db') = spend_for_tier cfg
                                     (if funded (us_address sig) then Some SigOnlyTier else None)
                                     sig spendNow (others db)
                               in (r, tokens', db'))))))"

section \<open>Middlewares\<close>

datatype bearer_outcome =
    Proceed "(jsstring \<times> auth_tier \<times> key_info option) option"
  | Unauthorized auth_error

definition bearerAuth ::
  "polkadot \<Rightarrow> bool \<Rightarrow> int \<Rightarrow> request \<Rightarrow> token_db \<Rightarrow> quota_db \<Rightarrow> bearer_outcome \<times> token_db" where
  "bearerAuth P required now req tokens db =
     (case bearer_token req of
        Some token \<Rightarrow>
          if starts_with token TOKEN_PREFIX
          then (case verifyToken token now tokens of
                  (Inr v, t') \<Rightarrow> (Proceed (Some (vt_accountSs58 v, BearerTier, None)), t')
                | (Inl reason, t') \<Rightarrow> (Unauthorized (InvalidBearer reason), t'))
          else (Unauthorized (InvalidBearer Malformed), tokens)
      | None \<Rightarrow>
          (case present (h_api_key req) of
             Some apiKey \<Rightarrow>
               if isAccountAddress P apiKey then (Unauthorized AddressAsKey, tokens)
               else (case resolveKey apiKey db of
                       Some ki \<Rightarrow>
                         (Proceed (Some (case validatorId ki of Some v \<Rightarrow> v | None \<Rightarrow> ki_name ki,
                                         ApiKeyTier, Some ki)), tokens)
                     | None \<Rightarrow> (Unauthorized InvalidApiKey, tokens))
           | None \<Rightarrow> (if required then Unauthorized NoAuthentication else Proceed None, tokens)))"

text \<open>\<open>timingSafeEqual\<close> on buffers of one length is equality.\<close>

definition adminGuard :: "jsstring \<Rightarrow> jsstring option \<Rightarrow> bool" where
  "adminGuard expectedAdminToken provided =
     (case present provided of
        None \<Rightarrow> False
      | Some p \<Rightarrow>
          let expectedBuf = utf8_encode expectedAdminToken;
              providedBuf = utf8_encode p;
              sameLen = (length providedBuf = length expectedBuf);
              candidate = (if sameLen then providedBuf else replicate (length expectedBuf) 0);
              equal = (candidate = expectedBuf)
          in \<not> (\<not> sameLen \<or> \<not> equal))"

section \<open>Properties\<close>

lemma present_Some: "present h = Some s \<longleftrightarrow> h = Some s \<and> s \<noteq> []"
  by (auto simp: present_def split: option.splits if_splits)

text \<open>C20: A request is authenticated only by a credential: a bearer token that verifies; an API key
  that is no account address and whose hash has an enabled row; or an upload signature that
  verified and had not been used, of an upload-eligible validator or a funded account.\<close>

theorem authenticated_only_by_credential:
  assumes "resolveAuth P sr funded cfg start now spendNow others req content tokens db = (Inr a, tokens', db')"
  shows "case auth_tier a of
     BearerTier \<Rightarrow> (\<exists>token t v t'. bearer_token req = Some token \<and> tokens = Some t
         \<and> verifyToken token now t = (Inr v, t') \<and> auth_identity a = vt_accountSs58 v)
   | ApiKeyTier \<Rightarrow> (\<exists>key ki. h_api_key req = Some key \<and> \<not> isAccountAddress P key
         \<and> resolveKey key db = Some ki \<and> auth_keyInfo a = Some ki)
   | RegisteredValidatorTier \<Rightarrow> (\<exists>h sig. content = Some h \<and> verifyUploadSig P sr cfg start now req h = Inr sig
         \<and> auth_identity a = us_address sig \<and> lookupUploadEligibleValidator (us_address sig) db \<noteq> None
         \<and> spendUploadSig cfg sig spendNow db = (True, db'))
   | SigOnlyTier \<Rightarrow> (\<exists>h sig. content = Some h \<and> verifyUploadSig P sr cfg start now req h = Inr sig
         \<and> auth_identity a = us_address sig \<and> funded (us_address sig)
         \<and> spendUploadSig cfg sig spendNow (others db) = (True, db'))"
proof (cases "fst (bearer_priority now req tokens db)")
  case (Some r)
  then obtain t1 where "bearer_priority now req tokens db = (Some r, t1)"
    by (cases "bearer_priority now req tokens db") auto
  with assms have "bearer_priority now req tokens db = (Some (Inr a), t1)" by (simp add: resolveAuth_def)
  then show ?thesis
    by (auto simp: bearer_priority_def split: option.splits if_splits prod.splits sum.splits)
next
  case None
  then obtain t1 where b: "bearer_priority now req tokens db = (None, t1)"
    by (cases "bearer_priority now req tokens db") auto
  show ?thesis
  proof (cases "api_key_priority P req content db")
    case (Some r)
    with assms b have "api_key_priority P req content db = Some (Inr a)" by (simp add: resolveAuth_def)
    then show ?thesis
      by (auto simp: api_key_priority_def present_Some split: option.splits if_splits)
  next
    case None
    note rest = assms [unfolded resolveAuth_def b prod.case option.case None]
    then obtain h where h: "present content = Some h" by (cases "present content") auto
    from rest [unfolded h option.case] obtain sig where sig: "verifyUploadSig P sr cfg start now req h = Inr sig"
      by (cases "verifyUploadSig P sr cfg start now req h") auto
    from rest [unfolded h option.case sig sum.case] h sig show ?thesis
      by (auto simp: spend_for_tier_def present_Some split: prod.splits if_splits)
  qed
qed

definition no_creds_req :: request where
  "no_creds_req = sample_req\<lparr>h_api_key := Some (js ''secret'')\<rparr>"

definition keyed_db :: quota_db where
  "keyed_db = empty_quota_db\<lparr>api_keys := [new_key_row (hashKey (js ''secret'')) (js ''op'') None]\<rparr>"

definition polkadot_strict :: polkadot where
  "polkadot_strict = polkadot_sample\<lparr>decodeAddress := \<lambda>s. None\<rparr>"

theorem authenticated_only_by_credential_witness:
  "\<exists>a. resolveAuth polkadot_strict sr_any (\<lambda>_. True) sample_cfg 0 1200 1200 (\<lambda>d. d) no_creds_req None None keyed_db
       = (Inr a, None, keyed_db) \<and> auth_tier a = ApiKeyTier
     \<and> (\<exists>key ki. h_api_key no_creds_req = Some key \<and> resolveKey key keyed_db = Some ki)"
proof -
  have "bearer_priority 1200 no_creds_req None keyed_db = (None, None)"
    by (simp add: bearer_priority_def bearer_token_def no_creds_req_def sample_req_def)
  moreover have "\<not> isAccountAddress polkadot_strict (js ''secret'')"
    by (simp add: isAccountAddress_def SS58_SHAPE_def js_def normalizeSs58_def decodeAccountId_def
        polkadot_strict_def)
  moreover have "present (h_api_key no_creds_req) = Some (js ''secret'')"
    by (simp add: no_creds_req_def present_def js_def)
  moreover have "\<exists>ki. resolveKey (js ''secret'') keyed_db = Some ki"
    by (simp add: resolveKey_def keyed_db_def new_key_row_def sql_get_def)
  ultimately obtain a where a: "resolveAuth polkadot_strict sr_any (\<lambda>_. True) sample_cfg 0 1200 1200 (\<lambda>d. d)
      no_creds_req None None keyed_db = (Inr a, None, keyed_db)" and t: "auth_tier a = ApiKeyTier"
    by (auto simp: resolveAuth_def api_key_priority_def)
  from authenticated_only_by_credential [OF a] t have
    "\<exists>key ki. h_api_key no_creds_req = Some key \<and> resolveKey key keyed_db = Some ki" by auto
  with a t show ?thesis by blast
qed

text \<open>A bearer token that was presented and does not verify ends the request: no other credential
  is tried, in the middleware and, while the token database is open, in \<open>resolveAuth\<close>.\<close>

theorem bad_bearer_is_final:
  assumes "bearer_token req = Some token" "starts_with token TOKEN_PREFIX" "\<not> token_valid token t"
  shows "(\<exists>e. fst (resolveAuth P sr funded cfg start now spendNow others req content (Some t) db) = Inl (InvalidBearer e))
    \<and> (\<exists>e. fst (bearerAuth P required now req t db) = Unauthorized (InvalidBearer e))"
proof -
  obtain e t' where e: "verifyToken token now t = (Inl e, t')"
    using assms(3) verify_valid [of token now t]
    by (cases "verifyToken token now t"; cases "fst (verifyToken token now t)") auto
  then show ?thesis using assms(1,2) by (simp add: resolveAuth_def bearer_priority_def bearerAuth_def)
qed

definition bearer_req :: request where
  "bearer_req = no_creds_req\<lparr>h_authorization := Some (js ''Bearer '' @ TOKEN_PREFIX)\<rparr>"

theorem bad_bearer_is_final_witness:
  "\<exists>e. fst (bearerAuth polkadot_strict True 1200 bearer_req [] keyed_db) = Unauthorized (InvalidBearer e)"
proof -
  have t: "bearer_token bearer_req = Some TOKEN_PREFIX"
    by (simp add: bearer_token_def bearer_req_def TOKEN_PREFIX_def js_trim_def js_def is_js_space_def)
  have "\<not> token_valid TOKEN_PREFIX []" by (simp add: token_valid_iff token_row_of_def sql_get_def)
  moreover have "starts_with TOKEN_PREFIX TOKEN_PREFIX" using starts_with_append [of TOKEN_PREFIX "[]"] by simp
  ultimately show ?thesis using bad_bearer_is_final [OF t] by blast
qed

text \<open>The admin guard admits exactly the configured token: a header that is not empty and whose
  UTF-8 octets are those of the token.\<close>

theorem admin_guard_exact:
  "adminGuard expected provided \<longleftrightarrow> (\<exists>p. provided = Some p \<and> p \<noteq> [] \<and> utf8_encode p = utf8_encode expected)"
  by (auto simp: adminGuard_def Let_def present_def split: option.splits)

end
