(* ===== verification/JsText.thy ===== *)
theory JsText
  imports JsValue
begin

text \<open>
  Conversions of parsed JSON: truth, \<open>String\<close>, the operator \<open>+\<close>, the conversion to a number and
  \<open>JSON.stringify\<close>.  The shortest decimal text of a number and the number a text denotes are
  arguments of the definitions.
\<close>

section \<open>Conversions\<close>

text \<open>\<open>js_text\<close> holds the number-to-text conversion and the text-to-number one.\<close>

record js_text =
  number_text :: "f64 \<Rightarrow> jsstring"
  text_number :: "jsstring \<Rightarrow> f64"

datatype js_prim = PNum f64 | PStr jsstring | PBool bool | PNull

fun truthy :: "json \<Rightarrow> bool" where
  "truthy JNull = False"
| "truthy (JBool b) = b"
| "truthy (JNum x) = (f64_class x \<noteq> NaN \<and> f64_to_int x \<noteq> Some 0)"
| "truthy (JStr s) = (s \<noteq> [])"
| "truthy _ = True"

definition bool_text :: "bool \<Rightarrow> jsstring" where
  "bool_text b = js (if b then ''true'' else ''false'')"

text \<open>
  \<open>String(v)\<close>; an object with a \<open>toString\<close> of its own has none that can be called, which throws
  (\<open>None\<close>).
\<close>

fun js_string :: "js_text \<Rightarrow> json \<Rightarrow> jsstring option"
  and js_join :: "js_text \<Rightarrow> json list \<Rightarrow> jsstring option" where
  "js_string T JNull = Some (js ''null'')"
| "js_string T (JBool b) = Some (bool_text b)"
| "js_string T (JNum x) = Some (number_text T x)"
| "js_string T (JStr s) = Some s"
| "js_string T (JArr vs) = js_join T vs"
| "js_string T (JObj ps) = (if get_prop (js ''toString'') ps = None then Some (js ''[object Object]'') else None)"
| "js_join T [] = Some []"
| "js_join T (v # vs) =
     (case if v = JNull then Some [] else js_string T v of
        None \<Rightarrow> None
      | Some s \<Rightarrow> (if vs = [] then Some s else map_option (\<lambda>t. s @ 0x2C # t) (js_join T vs)))"

definition to_primitive :: "js_text \<Rightarrow> json \<Rightarrow> js_prim option" where
  "to_primitive T v =
     (case v of
        JNull \<Rightarrow> Some PNull | JBool b \<Rightarrow> Some (PBool b) | JNum x \<Rightarrow> Some (PNum x) | JStr s \<Rightarrow> Some (PStr s)
      | _ \<Rightarrow> map_option PStr (js_string T v))"

fun prim_number :: "js_text \<Rightarrow> js_prim \<Rightarrow> f64" where
  "prim_number T (PNum x) = x"
| "prim_number T (PStr s) = text_number T s"
| "prim_number T (PBool b) = num (if b then 1 else 0)"
| "prim_number T PNull = num 0"

fun prim_text :: "js_text \<Rightarrow> js_prim \<Rightarrow> jsstring" where
  "prim_text T (PNum x) = number_text T x"
| "prim_text T (PStr s) = s"
| "prim_text T (PBool b) = bool_text b"
| "prim_text T PNull = js ''null''"

text \<open>The operator \<open>+\<close>: a text on either side makes it concatenation.\<close>

definition js_plus :: "js_text \<Rightarrow> js_prim \<Rightarrow> js_prim \<Rightarrow> js_prim" where
  "js_plus T a b =
     (if (\<exists>s. a = PStr s) \<or> (\<exists>s. b = PStr s) then PStr (prim_text T a @ prim_text T b)
      else PNum (f64_add (prim_number T a) (prim_number T b)))"

text \<open>\<open>JSON.stringify\<close>.  A surrogate without its partner is escaped.\<close>

definition unicode_escape :: "u16 \<Rightarrow> jsstring" where
  "unicode_escape c = [0x5C, 0x75] @ map (\<lambda>k. hex_digit (unat c div k mod 16)) [4096, 256, 16, 1]"

definition quote_unit :: "u16 \<Rightarrow> jsstring" where
  "quote_unit c =
     (if c = 0x22 \<or> c = 0x5C then [0x5C, c]
      else if c = 0x08 then [0x5C, 0x62]
      else if c = 0x09 then [0x5C, 0x74]
      else if c = 0x0A then [0x5C, 0x6E]
      else if c = 0x0C then [0x5C, 0x66]
      else if c = 0x0D then [0x5C, 0x72]
      else if c < 0x20 \<or> is_high_surrogate c \<or> is_low_surrogate c then unicode_escape c
      else [c])"

fun quote_units :: "jsstring \<Rightarrow> jsstring" where
  "quote_units [] = []"
| "quote_units [c] = quote_unit c"
| "quote_units (c # d # s) =
     (if is_high_surrogate c \<and> is_low_surrogate d then c # d # quote_units s
      else quote_unit c @ quote_units (d # s))"

definition json_quote :: "jsstring \<Rightarrow> jsstring" where
  "json_quote s = 0x22 # quote_units s @ [0x22]"

fun join_with :: "u16 \<Rightarrow> jsstring list \<Rightarrow> jsstring" where
  "join_with c [] = []"
| "join_with c [s] = s"
| "join_with c (s # ss) = s @ c # join_with c ss"

fun json_stringify :: "js_text \<Rightarrow> json \<Rightarrow> jsstring" where
  "json_stringify T JNull = js ''null''"
| "json_stringify T (JBool b) = bool_text b"
| "json_stringify T (JNum x) = (if f64_finite x then number_text T x else js ''null'')"
| "json_stringify T (JStr s) = json_quote s"
| "json_stringify T (JArr vs) = 0x5B # join_with 0x2C (map (json_stringify T) vs) @ [0x5D]"
| "json_stringify T (JObj ps) =
     0x7B # join_with 0x2C (map (\<lambda>(k, v). json_quote k @ 0x3A # json_stringify T v) ps) @ [0x7D]"

end
