(* ===== verification/Merkle.thy ===== *)
theory Merkle
  imports Sha256 JsValue
begin

text \<open>
  The chunk Merkle root of \<open>merkle.ts\<close>, computed again by every verifier of an upload: leaves are
  the 32-octet digests of the chunks, an odd level repeats its last node, and a single leaf is
  its own root.  What a root says about the leaves is stated with the list of all texts hashed
  on the way to it, so that a collision, if there is one, is among texts the computation
  names.
\<close>

section \<open>The root of a list of leaves\<close>

fun pair_nodes :: "bytes list \<Rightarrow> bytes list" where
  "pair_nodes (a # b # r) = (a @ b) # pair_nodes r"
| "pair_nodes _ = []"

definition pad_level :: "bytes list \<Rightarrow> bytes list" where
  "pad_level nodes = (if odd (length nodes) then nodes @ [last nodes] else nodes)"

text \<open>The texts one round of the loop hashes, and the round.\<close>

definition level_texts :: "bytes list \<Rightarrow> bytes list" where
  "level_texts nodes = pair_nodes (pad_level nodes)"

definition next_level :: "bytes list \<Rightarrow> bytes list" where
  "next_level nodes = map sha256 (level_texts nodes)"

lemma length_pair_nodes: "length (pair_nodes ns) = length ns div 2"
  by (induction ns rule: pair_nodes.induct) auto

lemma length_next_level [simp]: "length (next_level ns) = (length ns + 1) div 2"
  by (auto simp: next_level_def level_texts_def length_pair_nodes pad_level_def elim: oddE)

function merkle_loop :: "bytes list \<Rightarrow> bytes list" where
  "merkle_loop nodes = (if 1 < length nodes then merkle_loop (next_level nodes) else nodes)"
  by auto
termination by (relation "measure length") auto

declare merkle_loop.simps [simp del]

definition merkleRoot :: "bytes list \<Rightarrow> bytes" where
  "merkleRoot leaves =
     (case leaves of
        [] \<Rightarrow> replicate 32 0
      | [l] \<Rightarrow> l
      | _ \<Rightarrow> hd (merkle_loop leaves))"

section \<open>Hexadecimal forms\<close>

definition isHex64 :: "json option \<Rightarrow> bool" where
  "isHex64 s = (case s of Some (JStr t) \<Rightarrow> re_any_hex 64 t | _ \<Rightarrow> False)"

definition stripHexPrefix :: "jsstring \<Rightarrow> jsstring" where
  "stripHexPrefix hex = (if starts_with hex (js ''0x'') \<or> starts_with hex (js ''0X'') then drop 2 hex else hex)"

definition isValidRootHash :: "json option \<Rightarrow> bool" where
  "isValidRootHash s = (case s of Some (JStr t) \<Rightarrow> isHex64 (Some (JStr (stripHexPrefix t))) | _ \<Rightarrow> False)"

section \<open>The root of a manifest's chunks\<close>

text \<open>
  \<open>c?.sha256\<close> of a parsed chunk: only an object has the property.  The error of the code names
  the position; here it is which of the two errors it is and the position.
\<close>

datatype root_error = MissingSha256 nat | NotHex64 nat

definition chunk_sha256 :: "json \<Rightarrow> json option" where
  "chunk_sha256 c = (case c of JObj ps \<Rightarrow> get_prop (js ''sha256'') ps | _ \<Rightarrow> None)"

definition chunk_leaf :: "nat \<Rightarrow> json \<Rightarrow> root_error + bytes" where
  "chunk_leaf i c =
     (case chunk_sha256 c of
        Some (JStr raw) \<Rightarrow>
          let hex = stripHexPrefix raw
          in if isHex64 (Some (JStr hex)) then Inr (hex_to_bytes hex) else Inl (NotHex64 i)
      | _ \<Rightarrow> Inl (MissingSha256 i))"

fun chunk_leaves :: "nat \<Rightarrow> json list \<Rightarrow> root_error + bytes list" where
  "chunk_leaves i [] = Inr []"
| "chunk_leaves i (c # cs) =
     and_then (chunk_leaf i c) (\<lambda>l. and_then (chunk_leaves (Suc i) cs) (\<lambda>ls. Inr (l # ls)))"

definition computeRootHashFromChunks :: "json list \<Rightarrow> root_error + jsstring" where
  "computeRootHashFromChunks chunks =
     and_then (chunk_leaves 0 chunks) (\<lambda>leaves. Inr (bytes_to_hex (merkleRoot leaves)))"

section \<open>What a root determines\<close>

text \<open>All texts hashed on the way from a list of nodes to its root.\<close>

function merkle_texts :: "bytes list \<Rightarrow> bytes list" where
  "merkle_texts nodes = (if 1 < length nodes then level_texts nodes @ merkle_texts (next_level nodes) else [])"
  by auto
termination by (relation "measure length") auto

declare merkle_texts.simps [simp del]

definition digests :: "bytes list \<Rightarrow> bool" where
  "digests ns \<longleftrightarrow> (\<forall>n \<in> set ns. length n = 32)"

lemma digests_simps [simp]:
  "digests []" "digests (n # ns) \<longleftrightarrow> length n = 32 \<and> digests ns"
  "digests (ns @ ms) \<longleftrightarrow> digests ns \<and> digests ms"
  by (auto simp: digests_def)

lemma digests_next [simp]: "digests (next_level ns)"
  by (auto simp: digests_def next_level_def)

lemma pair_nodes_inj:
  "digests ns \<Longrightarrow> digests ms \<Longrightarrow> length ns = length ms \<Longrightarrow> even (length ns) \<Longrightarrow> pair_nodes ns = pair_nodes ms \<Longrightarrow> ns = ms"
proof (induction ns arbitrary: ms rule: pair_nodes.induct)
  case (1 a b r)
  from "1.prems"(3) obtain c d s where ms: "ms = c # d # s"
    by (cases ms rule: pair_nodes.cases) auto
  have "a @ b = c @ d" "pair_nodes r = pair_nodes s" using "1.prems"(5) ms by simp_all
  moreover have "length a = length c" using "1.prems"(1,2) ms by simp
  moreover have "digests r" "digests s" "length r = length s" "even (length r)" using "1.prems" ms by simp_all
  ultimately show ?case using "1.IH" [of s] ms by simp
qed auto

lemma digests_last: "ns \<noteq> [] \<Longrightarrow> digests ns \<Longrightarrow> length (last ns) = 32"
  by (simp add: digests_def)

lemma pad_level_inj:
  assumes "length ns = length ms" "pad_level ns = pad_level ms" shows "ns = ms"
  using assms by (auto simp: pad_level_def split: if_splits)

lemma pad_level_facts:
  assumes "digests ns" shows "digests (pad_level ns)" "even (length (pad_level ns))"
proof -
  have "odd (length ns) \<Longrightarrow> ns \<noteq> []" by auto
  then show "digests (pad_level ns)" "even (length (pad_level ns))"
    using assms digests_last [of ns] by (auto simp: pad_level_def)
qed

lemma level_texts_inj:
  assumes "digests ns" "digests ms" "length ns = length ms" "level_texts ns = level_texts ms"
  shows "ns = ms"
proof -
  have "length (pad_level ns) = length (pad_level ms)" using assms(3) by (simp add: pad_level_def)
  then have "pad_level ns = pad_level ms"
    using assms pad_level_facts pair_nodes_inj [of "pad_level ns" "pad_level ms"] by (simp add: level_texts_def)
  then show ?thesis using pad_level_inj assms(3) by blast
qed

text \<open>Equal digests of two lists of texts: the lists are equal or two texts of them collide.\<close>

lemma map_sha256_eq:
  assumes "map sha256 xs = map sha256 ys"
  shows "xs = ys \<or> (\<exists>a \<in> set xs. \<exists>b \<in> set ys. sha_collision a b)"
  using assms
proof (induction xs arbitrary: ys)
  case (Cons x xs)
  then obtain y ys' where "ys = y # ys'" "sha256 x = sha256 y" "map sha256 xs = map sha256 ys'" by auto
  then show ?case using Cons.IH [of ys'] sha256_eqD [of x y] by auto
qed simp

lemma loop_binds:
  assumes "digests ns" "digests ms" "length ns = length ms" "merkle_loop ns = merkle_loop ms"
  shows "ns = ms \<or> (\<exists>a \<in> set (merkle_texts ns). \<exists>b \<in> set (merkle_texts ms). sha_collision a b)"
  using assms
proof (induction ns arbitrary: ms rule: merkle_loop.induct)
  case (1 ns)
  show ?case
  proof (cases "1 < length ns")
    case True
    then have "merkle_loop (next_level ns) = merkle_loop (next_level ms)"
      using 1(4,5) merkle_loop.simps [of ns] merkle_loop.simps [of ms] by simp
    with 1(1) [OF True, of "next_level ms"] 1(4) have
      "next_level ns = next_level ms
       \<or> (\<exists>a \<in> set (merkle_texts (next_level ns)). \<exists>b \<in> set (merkle_texts (next_level ms)). sha_collision a b)"
      by simp
    then show ?thesis
    proof
      assume "next_level ns = next_level ms"
      then have "level_texts ns = level_texts ms
          \<or> (\<exists>a \<in> set (level_texts ns). \<exists>b \<in> set (level_texts ms). sha_collision a b)"
        unfolding next_level_def by (rule map_sha256_eq)
      then show ?thesis
        using level_texts_inj [OF 1(2,3,4)] True 1(4) merkle_texts.simps [of ns] merkle_texts.simps [of ms] by auto
    next
      assume "\<exists>a \<in> set (merkle_texts (next_level ns)). \<exists>b \<in> set (merkle_texts (next_level ms)). sha_collision a b"
      then show ?thesis
        using True 1(4) merkle_texts.simps [of ns] merkle_texts.simps [of ms] by auto
    qed
  next
    case False
    then show ?thesis using 1(4,5) merkle_loop.simps [of ns] merkle_loop.simps [of ms] by simp
  qed
qed

lemma length_loop: "ns \<noteq> [] \<Longrightarrow> length (merkle_loop ns) = 1"
proof (induction ns rule: merkle_loop.induct)
  case (1 ns)
  show ?case
  proof (cases "1 < length ns")
    case True
    then have "1 \<le> (length ns + 1) div 2" by linarith
    then have "next_level ns \<noteq> []" using length_next_level [of ns] by (metis list.size(3) not_one_le_zero)
    then show ?thesis using 1 True merkle_loop.simps [of ns] by simp
  next
    case False
    then show ?thesis using 1(2) merkle_loop.simps [of ns] by (cases ns) auto
  qed
qed

lemma merkleRoot_loop: "ns \<noteq> [] \<Longrightarrow> merkle_loop ns = [merkleRoot ns]"
  using length_loop [of ns] merkle_loop.simps [of ns]
  by (cases ns rule: remdups_adj.cases) (auto simp: merkleRoot_def length_Suc_conv)

section \<open>Chunks\<close>

lemma hex_value_lower: "is_any_hex c \<Longrightarrow> hex_value (lower_u16 c) = hex_value c"
proof -
  assume h: "is_any_hex c"
  show ?thesis
  proof (cases "is_lower_hex c")
    case False
    with h have b: "0x41 \<le> c" "c \<le> 0x46" by (auto simp: is_any_hex_def)
    then have n: "0x41 \<le> unat c" "unat c \<le> 0x46" by (simp_all add: word_le_nat_alt)
    have l: "lower_u16 c = c + 0x20" using b by (auto simp: lower_u16_def is_upper_letter_def word_le_nat_alt)
    have u: "unat (c + 0x20) = unat c + 0x20" using n by (simp add: unat_plus_if')
    show ?thesis
      unfolding l using n u by (auto simp: hex_value_def is_digit_u16_def word_le_nat_alt)
  qed (simp add: lower_u16_id)
qed

lemma hex_to_bytes_lower: "list_all is_any_hex s \<Longrightarrow> hex_to_bytes (to_lower s) = hex_to_bytes s"
  by (induction s rule: hex_to_bytes.induct) (auto simp: to_lower_def hex_value_lower split: option.splits)

lemma hex64_round: "re_any_hex 64 s \<Longrightarrow> bytes_to_hex (hex_to_bytes s) = to_lower s"
  using hex_to_bytes_lower [of s] to_lower_hex [of 64 s] hex_bytes_round [of "to_lower s"]
  by (simp add: re_any_hex_def re_lower_hex_def)

lemma length_hex64_octets: "re_any_hex 64 s \<Longrightarrow> length (hex_to_bytes s) = 32"
  using hex64_round [of s] length_bytes_to_hex [of "hex_to_bytes s"] by (simp add: re_any_hex_def)

text \<open>The digest a chunk states, in its canonical spelling.\<close>

definition chunk_digest :: "json \<Rightarrow> jsstring option" where
  "chunk_digest c =
     (case chunk_sha256 c of
        Some (JStr raw) \<Rightarrow> if re_any_hex 64 (stripHexPrefix raw) then Some (to_lower (stripHexPrefix raw)) else None
      | _ \<Rightarrow> None)"

lemma chunk_leaf_digest:
  "chunk_leaf i c = Inr l \<longleftrightarrow> length l = 32 \<and> chunk_digest c = Some (bytes_to_hex l)"
proof (cases "\<exists>raw. chunk_sha256 c = Some (JStr raw) \<and> re_any_hex 64 (stripHexPrefix raw)")
  case True
  then obtain raw where r: "chunk_sha256 c = Some (JStr raw)" "re_any_hex 64 (stripHexPrefix raw)" by blast
  then have "chunk_leaf i c = Inr (hex_to_bytes (stripHexPrefix raw))"
    "chunk_digest c = Some (bytes_to_hex (hex_to_bytes (stripHexPrefix raw)))"
    by (simp_all add: chunk_leaf_def chunk_digest_def isHex64_def Let_def hex64_round)
  then show ?thesis using length_hex64_octets [OF r(2)] by (auto simp: bytes_to_hex_inj)
next
  case False
  then show ?thesis
    by (auto simp: chunk_leaf_def chunk_digest_def isHex64_def Let_def split: option.splits json.splits)
qed

lemma chunk_leaves_digests:
  "chunk_leaves i cs = Inr ls \<longleftrightarrow> digests ls \<and> map chunk_digest cs = map (\<lambda>l. Some (bytes_to_hex l)) ls"
  by (induction cs arbitrary: i ls) (auto simp: and_then_Inr_iff chunk_leaf_digest)

section \<open>Properties\<close>

lemma merkleRoot_length: "digests ls \<Longrightarrow> length (merkleRoot ls) = 32"
proof (induction ls rule: merkle_loop.induct)
  case (1 ls)
  show ?case
  proof (cases "1 < length ls")
    case True
    then have "1 \<le> (length ls + 1) div 2" by linarith
    then have ne: "next_level ls \<noteq> []" "ls \<noteq> []"
      using length_next_level [of ls] True by (metis list.size(3) not_one_le_zero, auto)
    then have "merkleRoot ls = merkleRoot (next_level ls)"
      using True merkleRoot_loop [OF ne(1)] merkleRoot_loop [OF ne(2)] merkle_loop.simps [of ls] by simp
    then show ?thesis using 1 True by simp
  next
    case False
    with 1(2) show ?thesis by (cases ls rule: remdups_adj.cases) (auto simp: merkleRoot_def)
  qed
qed

text \<open>Two lists of equally many digests with one root are equal, or name a collision.\<close>

lemma loop_root_binds:
  assumes "digests ls" "digests ms" "length ls = length ms" "merkleRoot ls = merkleRoot ms"
  shows "ls = ms \<or> (\<exists>a \<in> set (merkle_texts ls). \<exists>b \<in> set (merkle_texts ms). sha_collision a b)"
proof (cases "ls = []")
  case False
  then have "ms \<noteq> []" using assms(3) by auto
  with False assms(4) have "merkle_loop ls = merkle_loop ms" by (simp add: merkleRoot_loop)
  with assms show ?thesis by (intro loop_binds)
qed (use assms in simp)

text \<open>The number of leaves is not determined: repeating the last of an odd number of leaves, and
  replacing all leaves by the root itself, keep the root.  A verifier has to know the count.\<close>

theorem merkle_root_count:
  "(odd (length ls) \<and> 1 < length ls \<longrightarrow> merkleRoot (ls @ [last ls]) = merkleRoot ls)
   \<and> merkleRoot [merkleRoot ls] = merkleRoot ls"
proof -
  have "merkle_loop (ls @ [last ls]) = merkle_loop ls" if "odd (length ls)" "1 < length ls"
  proof -
    have "ls \<noteq> []" using that by auto
    then have "next_level (ls @ [last ls]) = next_level ls"
      using that by (simp add: next_level_def level_texts_def pad_level_def)
    moreover have "1 < length (ls @ [last ls])" using that by (cases ls) auto
    ultimately show ?thesis
      using that by (subst (1 2) merkle_loop.simps) (simp only: if_True)
  qed
  then have "merkleRoot (ls @ [last ls]) = merkleRoot ls" if "odd (length ls)" "1 < length ls"
    using that merkleRoot_loop [of ls] merkleRoot_loop [of "ls @ [last ls]"] by (cases ls) auto
  moreover have "merkleRoot [l] = l" for l by (simp add: merkleRoot_def)
  ultimately show ?thesis by blast
qed

theorem merkle_root_count_witness:
  "merkleRoot [replicate 32 1, replicate 32 2, replicate 32 3, replicate 32 3] =
     merkleRoot [replicate 32 1, replicate 32 2, replicate 32 3]"
  using merkle_root_count [of "[replicate 32 1, replicate 32 2, replicate 32 3]"] by simp

definition manifest_leaves :: "json list \<Rightarrow> bytes list" where
  "manifest_leaves cs = map (\<lambda>c. hex_to_bytes (the (chunk_digest c))) cs"

lemma chunk_leaves_Inr:
  "chunk_leaves i cs = Inr ls \<Longrightarrow>
     digests ls \<and> ls = manifest_leaves cs \<and> map chunk_digest cs = map (\<lambda>l. Some (bytes_to_hex l)) ls"
proof -
  assume "chunk_leaves i cs = Inr ls"
  then have l: "digests ls" "map chunk_digest cs = map (\<lambda>l. Some (bytes_to_hex l)) ls"
    by (simp_all add: chunk_leaves_digests)
  have "manifest_leaves cs = map (\<lambda>d. hex_to_bytes (the d)) (map chunk_digest cs)"
    by (simp add: manifest_leaves_def)
  then have "manifest_leaves cs = ls" unfolding l(2) by (simp add: comp_def)
  with l show ?thesis by simp
qed

lemma chunk_leaves_total: "(\<exists>ls. chunk_leaves i cs = Inr ls) \<longleftrightarrow> (\<forall>c \<in> set cs. chunk_digest c \<noteq> None)"
proof (induction cs arbitrary: i)
  case (Cons c cs)
  have "(\<exists>l. chunk_leaf i c = Inr l) \<longleftrightarrow> chunk_digest c \<noteq> None"
  proof
    assume "chunk_digest c \<noteq> None"
    then obtain raw where r: "chunk_sha256 c = Some (JStr raw)" "re_any_hex 64 (stripHexPrefix raw)"
      by (auto simp: chunk_digest_def split: option.splits json.splits if_splits)
    then show "\<exists>l. chunk_leaf i c = Inr l" by (simp add: chunk_leaf_def isHex64_def Let_def)
  qed (auto simp: chunk_leaf_digest)
  then show ?case using Cons.IH [of "Suc i"] by (auto simp: and_then_Inr_iff)
qed simp

text \<open>The root of a manifest is computed exactly when every chunk states a digest of 64
  hexadecimal digits, and is 64 lower-case ones; manifests of equally many chunks with one
  root state the same digests, however spelled, or two texts hashed for it collide.\<close>

theorem manifest_root_binds:
  assumes "computeRootHashFromChunks cs = Inr h"
  shows "re_lower_hex 64 h \<and> (\<forall>c \<in> set cs. chunk_digest c \<noteq> None)
    \<and> (computeRootHashFromChunks ds = Inr h \<and> length ds = length cs \<longrightarrow>
         map chunk_digest ds = map chunk_digest cs
         \<or> (\<exists>a \<in> set (merkle_texts (manifest_leaves ds)). \<exists>b \<in> set (merkle_texts (manifest_leaves cs)). sha_collision a b))"
proof (intro conjI impI)
  obtain ls where ls: "chunk_leaves 0 cs = Inr ls" "h = bytes_to_hex (merkleRoot ls)"
    using assms by (auto simp: computeRootHashFromChunks_def and_then_Inr_iff)
  note l = chunk_leaves_Inr [OF ls(1)]
  show "\<forall>c \<in> set cs. chunk_digest c \<noteq> None" using ls(1) chunk_leaves_total by blast
  have "length (merkleRoot ls) = 32" using l merkleRoot_length by blast
  then show "re_lower_hex 64 h" using bytes_to_hex_lower [of "merkleRoot ls"] ls(2) by simp
  assume d: "computeRootHashFromChunks ds = Inr h \<and> length ds = length cs"
  then obtain ms where ms: "chunk_leaves 0 ds = Inr ms" "h = bytes_to_hex (merkleRoot ms)"
    by (auto simp: computeRootHashFromChunks_def and_then_Inr_iff)
  note m = chunk_leaves_Inr [OF ms(1)]
  have "merkleRoot ms = merkleRoot ls" using ls(2) ms(2) by (simp add: bytes_to_hex_inj)
  moreover have "length ms = length ls"
    using l m d by (simp add: manifest_leaves_def)
  ultimately show "map chunk_digest ds = map chunk_digest cs
         \<or> (\<exists>a \<in> set (merkle_texts (manifest_leaves ds)). \<exists>b \<in> set (merkle_texts (manifest_leaves cs)). sha_collision a b)"
    using loop_root_binds [of ms ls] l m by metis
qed

definition one_chunk :: "json list" where
  "one_chunk = [JObj [(js ''sha256'', JStr (js ''0X'' @ replicate 64 0x41))]]"

theorem manifest_root_binds_witness:
  "\<exists>h. computeRootHashFromChunks one_chunk = Inr h \<and> re_lower_hex 64 h \<and> (\<forall>c \<in> set one_chunk. chunk_digest c \<noteq> None)"
proof -
  have d: "chunk_digest (JObj [(js ''sha256'', JStr (js ''0X'' @ replicate 64 0x41))]) \<noteq> None"
    by (simp add: chunk_digest_def chunk_sha256_def get_prop_def stripHexPrefix_def js_eval re_any_hex_def
        list_all_iff)
  then obtain ls where "chunk_leaves 0 one_chunk = Inr ls"
    using chunk_leaves_total [of 0 one_chunk] by (auto simp: one_chunk_def)
  then obtain h where h: "computeRootHashFromChunks one_chunk = Inr h"
    by (simp add: computeRootHashFromChunks_def)
  from manifest_root_binds [OF h] h show ?thesis by blast
qed

end
