(* ===== verification/BlobStore.thy ===== *)
theory BlobStore
  imports Merkle "HOL-Library.AList"
begin

text \<open>
  The receipt directories of \<open>storage.ts\<close> and their expiry in \<open>cleanup.ts\<close>.  A directory is a
  record of the files the code puts there; the directories and the receipt index are maps
  from names.  A function of the code is what it does when nothing comes between its file
  operations; \<open>saveChunk\<close> is composed of its steps, which \<open>BlobRuns\<close> interleaves.  File operations
  succeed here, except that reading an absent file fails as in the code.
\<close>

section \<open>Identifiers\<close>

datatype storage_error = NotHexId

definition stripHexPrefix_storage :: "jsstring \<Rightarrow> jsstring" where
  "stripHexPrefix_storage hex = (if starts_with hex (js ''0x'') then drop 2 hex else hex)"

definition isHexId :: "jsstring \<Rightarrow> bool" where
  "isHexId v \<longleftrightarrow> re_any_hex 64 (stripHexPrefix_storage v)"

definition hexId :: "jsstring \<Rightarrow> storage_error + jsstring" where
  "hexId v = (if isHexId v then Inr (stripHexPrefix_storage v) else Inl NotHexId)"

definition computeReceiptId :: "jsstring \<Rightarrow> jsstring" where
  "computeReceiptId contentHash = js ''0x'' @ sha256_hex (hex_to_bytes (stripHexPrefix_storage contentHash))"

section \<open>Directories\<close>

record receipt_meta =
  createdAt :: int
  certifiedAt :: "int option"
  uploaderAddress :: jsstring
  lastReceiptCheck :: "int option"
  receiptOnChain :: "bool option"

record receipt_dir =
  manifest_json :: "json option"
  receipt_meta_json :: "receipt_meta option"
  chunk_files :: "(nat \<times> bytes) list"
  complete_flag :: bool
  raw_bin :: "bytes option"
  deleting_flag :: bool

definition new_dir :: receipt_dir where
  "new_dir = \<lparr>manifest_json = None, receipt_meta_json = None, chunk_files = [], complete_flag = False,
     raw_bin = None, deleting_flag = False\<rparr>"

text \<open>\<open>receipt_index\<close> is \<open>index/receipt-to-content\<close>; \<open>daemon_log\<close> the calls of \<open>notifyDaemon\<close>.\<close>

record blob_fs =
  receipts :: "jsstring \<rightharpoonup> receipt_dir"
  receipt_index :: "jsstring \<rightharpoonup> jsstring"
  daemon_log :: "(jsstring \<times> jsstring) list"

definition dir_of :: "jsstring \<Rightarrow> blob_fs \<Rightarrow> receipt_dir" where
  "dir_of d fs = (case receipts fs d of None \<Rightarrow> new_dir | Some r \<Rightarrow> r)"

definition put_dir :: "jsstring \<Rightarrow> receipt_dir \<Rightarrow> blob_fs \<Rightarrow> blob_fs" where
  "put_dir d r fs = fs\<lparr>receipts := (receipts fs)(d \<mapsto> r)\<rparr>"

text \<open>
  What a value is after \<open>JSON.stringify\<close> and \<open>JSON.parse\<close>: a number that is not finite becomes
  null and the negative zero loses its sign.
\<close>

fun json_reparse :: "json \<Rightarrow> json" where
  "json_reparse (JNum x) =
     (if \<not> f64_finite x then JNull else if f64_to_int x = Some 0 then JNum (f64_zero False) else JNum x)"
| "json_reparse (JArr vs) = JArr (map json_reparse vs)"
| "json_reparse (JObj ps) = JObj (map (\<lambda>(k, v). (k, json_reparse v)) ps)"
| "json_reparse v = v"

text \<open>
  \<open>manifest.chunks\<close> when it is an array.  The routes store no manifest whose \<open>chunks\<close> is
  neither an array nor null or absent.
\<close>

definition manifest_chunks :: "json \<Rightarrow> json list option" where
  "manifest_chunks m =
     (case m of JObj ps \<Rightarrow> (case get_prop (js ''chunks'') ps of Some (JArr cs) \<Rightarrow> Some cs | _ \<Rightarrow> None) | _ \<Rightarrow> None)"

section \<open>Manifests and raw bytes\<close>

definition saveManifest :: "jsstring \<Rightarrow> json \<Rightarrow> int \<Rightarrow> blob_fs \<Rightarrow> storage_error + blob_fs" where
  "saveManifest contentHash manifest now fs =
     and_then (hexId contentHash) (\<lambda>d.
     let fs1 = put_dir d ((dir_of d fs)
           \<lparr>manifest_json := Some (json_reparse manifest),
            receipt_meta_json := Some \<lparr>createdAt = now, certifiedAt = None, uploaderAddress = [],
                                       lastReceiptCheck = None, receiptOnChain = None\<rparr>\<rparr>) fs
     in Inr (fs1\<lparr>receipt_index := (receipt_index fs1)
                 (stripHexPrefix_storage (computeReceiptId contentHash) \<mapsto> stripHexPrefix_storage contentHash)\<rparr>))"

definition getManifest :: "jsstring \<Rightarrow> blob_fs \<Rightarrow> storage_error + json option" where
  "getManifest contentHash fs =
     and_then (hexId contentHash) (\<lambda>d. Inr (case receipts fs d of None \<Rightarrow> None | Some r \<Rightarrow> manifest_json r))"

definition saveRawBytes :: "jsstring \<Rightarrow> bytes \<Rightarrow> blob_fs \<Rightarrow> storage_error + blob_fs" where
  "saveRawBytes contentHash b fs =
     and_then (hexId contentHash) (\<lambda>d. Inr (put_dir d ((dir_of d fs)\<lparr>raw_bin := Some b\<rparr>) fs))"

definition getRawBytes :: "jsstring \<Rightarrow> blob_fs \<Rightarrow> storage_error + bytes option" where
  "getRawBytes contentHash fs =
     and_then (hexId contentHash) (\<lambda>d. Inr (case receipts fs d of None \<Rightarrow> None | Some r \<Rightarrow> raw_bin r))"

section \<open>Chunks\<close>

definition countUploadedChunks :: "receipt_dir \<Rightarrow> nat" where
  "countUploadedChunks r = length (chunk_files r)"

text \<open>
  \<open>saveChunk\<close> awaits four times, and other requests run in between: opening the file, which
  creates or truncates it (the directory is made first); one or more writes at the position
  the file handle has reached, whatever others did to the file since, a gap reading as zeros;
  reading the manifest; counting the files; and writing \<open>.complete\<close>, after which the daemon is
  notified.  Each is a definition of its own, and \<open>saveChunk\<close> is what they do when nothing
  comes between.
\<close>

definition open_chunk :: "jsstring \<Rightarrow> nat \<Rightarrow> blob_fs \<Rightarrow> blob_fs" where
  "open_chunk d i fs =
     put_dir d ((dir_of d fs)\<lparr>chunk_files := AList.update i [] (chunk_files (dir_of d fs))\<rparr>) fs"

definition write_at :: "nat \<Rightarrow> bytes \<Rightarrow> bytes \<Rightarrow> bytes" where
  "write_at off piece content =
     take off (content @ replicate (off - length content) 0) @ piece @ drop (off + length piece) content"

text \<open>A file that was removed since it was opened is in no directory.\<close>

definition write_chunk :: "jsstring \<Rightarrow> nat \<Rightarrow> nat \<Rightarrow> bytes \<Rightarrow> blob_fs \<Rightarrow> blob_fs" where
  "write_chunk d i off piece fs =
     (case map_of (chunk_files (dir_of d fs)) i of
        None \<Rightarrow> fs
      | Some content \<Rightarrow>
          put_dir d ((dir_of d fs)\<lparr>chunk_files :=
            AList.update i (write_at off piece content) (chunk_files (dir_of d fs))\<rparr>) fs)"

text \<open>\<open>manifest.chunks.length\<close>; \<open>None\<close> when there is no manifest or it has no chunks property.\<close>

definition expected_chunks :: "jsstring \<Rightarrow> blob_fs \<Rightarrow> nat option" where
  "expected_chunks d fs = Option.bind (manifest_json (dir_of d fs)) (\<lambda>m. map_option length (manifest_chunks m))"

definition mark_complete :: "jsstring \<Rightarrow> jsstring \<Rightarrow> blob_fs \<Rightarrow> blob_fs" where
  "mark_complete contentHash d fs =
     (put_dir d ((dir_of d fs)\<lparr>complete_flag := True\<rparr>) fs)
       \<lparr>daemon_log := daemon_log fs @ [(contentHash, computeReceiptId contentHash)]\<rparr>"

definition saveChunk :: "jsstring \<Rightarrow> nat \<Rightarrow> bytes \<Rightarrow> blob_fs \<Rightarrow> storage_error + blob_fs" where
  "saveChunk contentHash i data fs =
     and_then (hexId contentHash) (\<lambda>d.
     let fs1 = write_chunk d i 0 data (open_chunk d i fs)
     in Inr (case expected_chunks d fs1 of
               None \<Rightarrow> fs1
             | Some k \<Rightarrow> if k \<le> countUploadedChunks (dir_of d fs1) then mark_complete contentHash d fs1 else fs1))"

definition getChunk :: "jsstring \<Rightarrow> nat \<Rightarrow> blob_fs \<Rightarrow> storage_error + bytes option" where
  "getChunk contentHash i fs =
     and_then (hexId contentHash) (\<lambda>d. Inr (map_of (chunk_files (dir_of d fs)) i))"

record blob_status =
  st_exists :: bool
  st_complete :: bool
  st_chunkCount :: nat
  st_chunksUploaded :: nat

definition getStatus :: "jsstring \<Rightarrow> blob_fs \<Rightarrow> storage_error + blob_status" where
  "getStatus contentHash fs =
     and_then (hexId contentHash) (\<lambda>d.
     let r = dir_of d fs
     in Inr (case manifest_json r of
               None \<Rightarrow> \<lparr>st_exists = False, st_complete = False, st_chunkCount = 0, st_chunksUploaded = 0\<rparr>
             | Some m \<Rightarrow> \<lparr>st_exists = True, st_complete = complete_flag r,
                 st_chunkCount = (case manifest_chunks m of None \<Rightarrow> 0 | Some cs \<Rightarrow> length cs),
                 st_chunksUploaded = countUploadedChunks r\<rparr>))"

definition resolveReceiptId :: "jsstring \<Rightarrow> blob_fs \<Rightarrow> jsstring option" where
  "resolveReceiptId receiptId fs =
     (if \<not> isHexId receiptId then None else receipt_index fs (stripHexPrefix_storage receiptId))"

section \<open>Metadata\<close>

definition change_meta ::
  "(receipt_meta \<Rightarrow> receipt_meta) \<Rightarrow> jsstring \<Rightarrow> blob_fs \<Rightarrow> storage_error + bool \<times> blob_fs" where
  "change_meta f contentHash fs =
     and_then (hexId contentHash) (\<lambda>d.
     Inr (case receipt_meta_json (dir_of d fs) of
            None \<Rightarrow> (False, fs)
          | Some m \<Rightarrow> (True, put_dir d ((dir_of d fs)\<lparr>receipt_meta_json := Some (f m)\<rparr>) fs)))"

definition markCertified :: "jsstring \<Rightarrow> int \<Rightarrow> blob_fs \<Rightarrow> storage_error + bool \<times> blob_fs" where
  "markCertified contentHash now = change_meta (certifiedAt_update (\<lambda>_. Some now)) contentHash"

text \<open>The fields of an update that are given.\<close>

record meta_updates =
  u_certifiedAt :: "int option"
  u_uploaderAddress :: "jsstring option"
  u_lastReceiptCheck :: "int option"
  u_receiptOnChain :: "bool option"

definition no_updates :: meta_updates where
  "no_updates = \<lparr>u_certifiedAt = None, u_uploaderAddress = None, u_lastReceiptCheck = None, u_receiptOnChain = None\<rparr>"

definition apply_updates :: "meta_updates \<Rightarrow> receipt_meta \<Rightarrow> receipt_meta" where
  "apply_updates u m =
     m\<lparr>certifiedAt := (case u_certifiedAt u of None \<Rightarrow> certifiedAt m | c \<Rightarrow> c),
       uploaderAddress := (case u_uploaderAddress u of None \<Rightarrow> uploaderAddress m | Some a \<Rightarrow> a),
       lastReceiptCheck := (case u_lastReceiptCheck u of None \<Rightarrow> lastReceiptCheck m | c \<Rightarrow> c),
       receiptOnChain := (case u_receiptOnChain u of None \<Rightarrow> receiptOnChain m | c \<Rightarrow> c)\<rparr>"

definition updateReceiptMeta :: "jsstring \<Rightarrow> meta_updates \<Rightarrow> blob_fs \<Rightarrow> storage_error + bool \<times> blob_fs" where
  "updateReceiptMeta contentHash u = change_meta (apply_updates u) contentHash"

section \<open>Expiry\<close>

record cleanup_config =
  blobTtlAfterCertDays :: int
  blobTtlMaxDays :: int
  receiptGraceHours :: int

datatype receipt_status = StatusNotFound | StatusPending | StatusCertified | StatusRpcError

text \<open>
  \<open>order\<close> is the listing of the index directory; the first entry that names the receipt goes.
\<close>

definition deleteReceipt :: "jsstring list \<Rightarrow> jsstring \<Rightarrow> blob_fs \<Rightarrow> blob_fs" where
  "deleteReceipt order d fs =
     fs\<lparr>receipt_index :=
          (case find (\<lambda>k. receipt_index fs k = Some d) order of
             None \<Rightarrow> receipt_index fs
           | Some k \<Rightarrow> (receipt_index fs)(k := None)),
        receipts := (receipts fs)(d := None)\<rparr>"

definition past_ttl :: "cleanup_config \<Rightarrow> int \<Rightarrow> receipt_meta \<Rightarrow> bool" where
  "past_ttl cfg now m \<longleftrightarrow>
     (case certifiedAt m of
        None \<Rightarrow> False
      | Some c \<Rightarrow> c \<noteq> 0 \<and> blobTtlAfterCertDays cfg * 86400000 < now - c)
     \<or> blobTtlMaxDays cfg * 86400000 < now - createdAt m"

definition sweep_receipt :: "cleanup_config \<Rightarrow> int \<Rightarrow> jsstring list \<Rightarrow> jsstring \<Rightarrow> blob_fs \<Rightarrow> blob_fs" where
  "sweep_receipt cfg now order d fs =
     (case receipts fs d of
        None \<Rightarrow> fs
      | Some r \<Rightarrow>
          if deleting_flag r then deleteReceipt order d fs
          else (case receipt_meta_json r of
                  None \<Rightarrow> fs
                | Some m \<Rightarrow> if past_ttl cfg now m then deleteReceipt order d fs else fs))"

text \<open>\<open>chain\<close> is \<open>checkReceiptStatus\<close>, the state of a receipt on the chain.\<close>

definition check_receipt ::
  "cleanup_config \<Rightarrow> int \<Rightarrow> (jsstring \<Rightarrow> receipt_status) \<Rightarrow> jsstring list \<Rightarrow> jsstring \<Rightarrow> blob_fs \<Rightarrow> blob_fs" where
  "check_receipt cfg now chain order d fs =
     (case receipts fs d of
        None \<Rightarrow> fs
      | Some r \<Rightarrow>
          (case receipt_meta_json r of
             None \<Rightarrow> fs
           | Some m \<Rightarrow>
               if certifiedAt m \<noteq> None \<or> receiptOnChain m = Some True then fs
               else if now - createdAt m < receiptGraceHours cfg * 3600000 then fs
               else if (case lastReceiptCheck m of None \<Rightarrow> False | Some l \<Rightarrow> now - l < 3600000) then fs
               else (case chain (computeReceiptId d) of
                       StatusRpcError \<Rightarrow> fs
                     | StatusNotFound \<Rightarrow> deleteReceipt order d fs
                     | StatusCertified \<Rightarrow>
                         (case updateReceiptMeta d (no_updates\<lparr>u_certifiedAt := Some now,
                                 u_receiptOnChain := Some True, u_lastReceiptCheck := Some now\<rparr>) fs of
                            Inl _ \<Rightarrow> fs | Inr (_, fs') \<Rightarrow> fs')
                     | StatusPending \<Rightarrow>
                         (case updateReceiptMeta d (no_updates\<lparr>u_receiptOnChain := Some True,
                                 u_lastReceiptCheck := Some now\<rparr>) fs of
                            Inl _ \<Rightarrow> fs | Inr (_, fs') \<Rightarrow> fs'))))"

definition runReceiptExistsCheck ::
  "cleanup_config \<Rightarrow> int \<Rightarrow> (jsstring \<Rightarrow> receipt_status) \<Rightarrow> jsstring list \<Rightarrow> jsstring list \<Rightarrow> blob_fs \<Rightarrow> blob_fs" where
  "runReceiptExistsCheck cfg now chain order entries fs = fold (check_receipt cfg now chain order) entries fs"

text \<open>\<open>entries\<close> and \<open>entries'\<close> are the two listings of the receipts directory.\<close>

definition runCleanup ::
  "cleanup_config \<Rightarrow> int \<Rightarrow> (jsstring \<Rightarrow> receipt_status) \<Rightarrow> jsstring list \<Rightarrow> jsstring list \<Rightarrow> jsstring list
   \<Rightarrow> blob_fs \<Rightarrow> blob_fs" where
  "runCleanup cfg now chain order entries entries' fs =
     runReceiptExistsCheck cfg now chain order entries' (fold (sweep_receipt cfg now order) entries fs)"

section \<open>What the sweep removes\<close>

text \<open>A receipt no chain knows, past its grace period and not checked within the hour.\<close>

definition orphaned ::
  "cleanup_config \<Rightarrow> int \<Rightarrow> (jsstring \<Rightarrow> receipt_status) \<Rightarrow> jsstring \<Rightarrow> receipt_meta \<Rightarrow> bool" where
  "orphaned cfg now chain d m \<longleftrightarrow>
     certifiedAt m = None \<and> receiptOnChain m \<noteq> Some True
     \<and> receiptGraceHours cfg * 3600000 \<le> now - createdAt m
     \<and> (\<forall>l. lastReceiptCheck m = Some l \<longrightarrow> 3600000 \<le> now - l)
     \<and> chain (computeReceiptId d) = StatusNotFound"

text \<open>A step on one directory that leaves the others alone, and does nothing the second time.\<close>

lemma fold_local:
  assumes "\<And>e fs. e \<in> set es \<Longrightarrow> receipts (step e fs) d = (if e = d then g (receipts fs d) else receipts fs d)"
    and "\<And>r. g (g r) = g r"
  shows "receipts (fold step es fs) d = (if d \<in> set es then g (receipts fs d) else receipts fs d)"
  using assms(1) by (induction es arbitrary: fs) (auto simp: assms(2))

definition sweep_dir :: "cleanup_config \<Rightarrow> int \<Rightarrow> receipt_dir option \<Rightarrow> receipt_dir option" where
  "sweep_dir cfg now x =
     (case x of
        None \<Rightarrow> None
      | Some r \<Rightarrow>
          if deleting_flag r \<or> (\<exists>m. receipt_meta_json r = Some m \<and> past_ttl cfg now m) then None else Some r)"

lemma sweep_receipt_local:
  "receipts (sweep_receipt cfg now order e fs) d = (if e = d then sweep_dir cfg now (receipts fs d) else receipts fs d)"
  by (auto simp: sweep_receipt_def sweep_dir_def deleteReceipt_def split: option.splits)

definition plain_name :: "jsstring \<Rightarrow> bool" where
  "plain_name d \<longleftrightarrow> stripHexPrefix_storage d = d"

definition check_dir ::
  "cleanup_config \<Rightarrow> int \<Rightarrow> (jsstring \<Rightarrow> receipt_status) \<Rightarrow> jsstring \<Rightarrow> receipt_dir option \<Rightarrow> receipt_dir option" where
  "check_dir cfg now chain d x =
     receipts (check_receipt cfg now chain [] d \<lparr>receipts = (\<lambda>_. x), receipt_index = Map.empty, daemon_log = []\<rparr>) d"

lemma update_meta_local:
  assumes "plain_name e"
  shows "receipts (case updateReceiptMeta e u fs of Inl _ \<Rightarrow> fs | Inr (_, fs') \<Rightarrow> fs') d =
    (if e = d then (case receipts fs d of
         None \<Rightarrow> None
       | Some r \<Rightarrow> (case receipt_meta_json r of
            None \<Rightarrow> Some r
          | Some m \<Rightarrow> Some (if isHexId d then r\<lparr>receipt_meta_json := Some (apply_updates u m)\<rparr> else r)))
     else receipts fs d)"
  using assms
  by (auto simp: updateReceiptMeta_def change_meta_def hexId_def put_dir_def dir_of_def plain_name_def new_dir_def
      split: option.splits)

lemma check_receipt_local:
  assumes "plain_name e"
  shows "receipts (check_receipt cfg now chain order e fs) d =
     (if e = d then check_dir cfg now chain d (receipts fs d) else receipts fs d)"
proof (cases "e = d")
  case True
  then show ?thesis
    using assms
    by (cases "receipts fs d")
      (simp_all add: check_receipt_def check_dir_def deleteReceipt_def update_meta_local
        split: option.split receipt_status.split)
next
  case False
  then show ?thesis
    using assms
    by (simp add: check_receipt_def deleteReceipt_def update_meta_local split: option.split receipt_status.split)
qed

lemma check_dir_None: "check_dir cfg now chain d None = None"
  by (simp add: check_dir_def check_receipt_def)

lemma check_dir_no_meta: "receipt_meta_json r = None \<Longrightarrow> check_dir cfg now chain d (Some r) = Some r"
  by (simp add: check_dir_def check_receipt_def)

lemma check_dir_Some:
  assumes "receipt_meta_json r = Some m" "plain_name d"
  shows "orphaned cfg now chain d m \<Longrightarrow> check_dir cfg now chain d (Some r) = None"
    and "\<not> orphaned cfg now chain d m \<Longrightarrow>
     check_dir cfg now chain d (Some r) = Some r
     \<or> (\<exists>m'. check_dir cfg now chain d (Some r) = Some (r\<lparr>receipt_meta_json := Some m'\<rparr>) \<and> receiptOnChain m' = Some True)"
  using assms
  by (auto simp: check_dir_def check_receipt_def orphaned_def deleteReceipt_def update_meta_local
      apply_updates_def no_updates_def split: option.split receipt_status.split)

lemma check_dir_known:
  "receipt_meta_json r = Some m \<Longrightarrow> receiptOnChain m = Some True \<Longrightarrow> check_dir cfg now chain d (Some r) = Some r"
  by (simp add: check_dir_def check_receipt_def)

lemma sweep_dir_idem: "sweep_dir cfg now (sweep_dir cfg now x) = sweep_dir cfg now x"
  by (cases x) (auto simp: sweep_dir_def)

lemma check_dir_idem:
  assumes "plain_name d"
  shows "check_dir cfg now chain d (check_dir cfg now chain d x) = check_dir cfg now chain d x"
proof (cases x)
  case (Some r)
  show ?thesis
  proof (cases "receipt_meta_json r")
    case None
    then show ?thesis by (simp add: Some check_dir_no_meta)
  next
    case m: (Some m)
    show ?thesis
    proof (cases "orphaned cfg now chain d m")
      case True
      then show ?thesis using check_dir_Some(1) [OF m assms True] by (simp add: Some check_dir_None)
    next
      case False
      from check_dir_Some(2) [OF m assms False] show ?thesis
      proof
        assume "\<exists>m'. check_dir cfg now chain d (Some r) = Some (r\<lparr>receipt_meta_json := Some m'\<rparr>) \<and> receiptOnChain m' = Some True"
        then obtain m' where "check_dir cfg now chain d (Some r) = Some (r\<lparr>receipt_meta_json := Some m'\<rparr>)"
          "receiptOnChain m' = Some True" by blast
        then show ?thesis
          using check_dir_known [of "r\<lparr>receipt_meta_json := Some m'\<rparr>" m' cfg now chain d] Some by simp
      qed (simp add: Some)
    qed
  qed
qed (simp add: check_dir_None)

lemma cleanup_dir:
  assumes "dom (receipts fs) \<subseteq> set entries" "dom (receipts fs) \<subseteq> set entries'" "\<forall>e \<in> set entries'. plain_name e"
    and "plain_name d"
  shows "receipts (runCleanup cfg now chain order entries entries' fs) d =
    check_dir cfg now chain d (sweep_dir cfg now (receipts fs d))"
proof -
  have s: "receipts (fold (sweep_receipt cfg now order) entries fs) d = sweep_dir cfg now (receipts fs d)"
    using fold_local [of entries "sweep_receipt cfg now order" d "sweep_dir cfg now" fs,
        OF sweep_receipt_local sweep_dir_idem] assms(1) by (cases "receipts fs d") (auto simp: sweep_dir_def)
  have c: "receipts (fold (check_receipt cfg now chain order) entries' fs') d =
      (if d \<in> set entries' then check_dir cfg now chain d (receipts fs' d) else receipts fs' d)" for fs'
    using assms(3,4) by (intro fold_local check_receipt_local check_dir_idem) auto
  show ?thesis
    unfolding runCleanup_def runReceiptExistsCheck_def c s
    using assms(2) by (cases "receipts fs d") (auto simp: sweep_dir_def check_dir_None)
qed

text \<open>C30: One run of the cleanup removes exactly the receipts it should: those whose deletion was
  interrupted, those past their time to live, and those no chain knows after the grace period.
  A receipt on chain, one the chain could not be asked about, one without metadata and one
  still in time stays, with all its files.\<close>

theorem cleanup_exact:
  assumes "dom (receipts fs) \<subseteq> set entries" "dom (receipts fs) \<subseteq> set entries'" "\<forall>e \<in> set entries'. plain_name e"
    and "plain_name d" and "receipts fs d = Some r"
  shows "case receipts (runCleanup cfg now chain order entries entries' fs) d of
     None \<Rightarrow> deleting_flag r
       \<or> (\<exists>m. receipt_meta_json r = Some m \<and> (past_ttl cfg now m \<or> orphaned cfg now chain d m))
   | Some r' \<Rightarrow> \<not> deleting_flag r
       \<and> (\<forall>m. receipt_meta_json r = Some m \<longrightarrow> \<not> past_ttl cfg now m \<and> \<not> orphaned cfg now chain d m)
       \<and> manifest_json r' = manifest_json r \<and> chunk_files r' = chunk_files r
       \<and> complete_flag r' = complete_flag r \<and> raw_bin r' = raw_bin r"
proof (cases "sweep_dir cfg now (Some r)")
  case None
  then show ?thesis
    unfolding cleanup_dir [OF assms(1-4)] assms(5) by (auto simp: check_dir_None sweep_dir_def split: if_splits)
next
  case (Some r')
  then have r: "r' = r" "\<not> deleting_flag r" "\<And>m. receipt_meta_json r = Some m \<Longrightarrow> \<not> past_ttl cfg now m"
    by (auto simp: sweep_dir_def split: if_splits)
  show ?thesis
  proof (cases "receipt_meta_json r")
    case None
    then show ?thesis unfolding cleanup_dir [OF assms(1-4)] assms(5) Some using r by (simp add: check_dir_no_meta)
  next
    case m: (Some m)
    show ?thesis
      unfolding cleanup_dir [OF assms(1-4)] assms(5) Some
      using check_dir_Some [OF m assms(4), of cfg now chain] r m
      by (cases "orphaned cfg now chain d m") auto
  qed
qed

definition sample_meta :: receipt_meta where
  "sample_meta = \<lparr>createdAt = 0, certifiedAt = None, uploaderAddress = [], lastReceiptCheck = None, receiptOnChain = None\<rparr>"

definition sample_fs :: blob_fs where
  "sample_fs = \<lparr>receipts = [js ''ab'' \<mapsto> new_dir\<lparr>receipt_meta_json := Some sample_meta\<rparr>], receipt_index = Map.empty, daemon_log = []\<rparr>"

theorem cleanup_exact_witness:
  "receipts (runCleanup \<lparr>blobTtlAfterCertDays = 30, blobTtlMaxDays = 90, receiptGraceHours = 24\<rparr> 90000000
      (\<lambda>_. StatusNotFound) [] [js ''ab''] [js ''ab''] sample_fs) (js ''ab'') = None
   \<and> (\<exists>r. receipts (runCleanup \<lparr>blobTtlAfterCertDays = 30, blobTtlMaxDays = 90, receiptGraceHours = 24\<rparr> 90000000
      (\<lambda>_. StatusRpcError) [] [js ''ab''] [js ''ab''] sample_fs) (js ''ab'') = Some r)"
proof -
  have p: "plain_name (js ''ab'')" by (simp add: plain_name_def stripHexPrefix_storage_def js_eval)
  have d: "dom (receipts sample_fs) \<subseteq> set [js ''ab'']" by (simp add: sample_fs_def)
  have s: "receipts sample_fs (js ''ab'') = Some (new_dir\<lparr>receipt_meta_json := Some sample_meta\<rparr>)"
    by (simp add: sample_fs_def)
  note ex = cleanup_exact [OF d d _ p s, of "\<lparr>blobTtlAfterCertDays = 30, blobTtlMaxDays = 90, receiptGraceHours = 24\<rparr>" 90000000 _ "[]"]
  have "\<forall>e \<in> set [js ''ab'']. plain_name e" using p by simp
  note nf = ex [OF this, of "\<lambda>_. StatusNotFound"] and rpc = ex [OF this, of "\<lambda>_. StatusRpcError"]
  show ?thesis
    using nf rpc by (auto simp: new_dir_def sample_meta_def past_ttl_def orphaned_def split: option.splits)
qed

end
