(* ===== verification/BlobRoutes.thy ===== *)
theory BlobRoutes
  imports JsText BlobStore Auth MeteringRoute
begin

text \<open>
  Uploading a blob: \<open>routes/blobs.ts\<close> and \<open>routes/chunks.ts\<close>, with the guard of
  \<open>routes/id-param.ts\<close>.  A handler that awaits its file writes is two parts, the checks with
  the quota and the writes; between them, and between the writes of a chunk, other requests run
  (\<open>BlobRuns\<close>).  The conversions between numbers
  and their decimal text are arguments, as is what the awaited balance check lets other
  requests do.  The body parsers have run: a manifest is parsed JSON, a chunk the octets of the
  request.
\<close>

section \<open>Values of a manifest\<close>

definition MAX_MANIFEST_DEPTH :: nat where "MAX_MANIFEST_DEPTH = 32"

fun json_children :: "json \<Rightarrow> json list" where
  "json_children (JArr vs) = vs"
| "json_children (JObj ps) = map snd ps"
| "json_children _ = []"

fun is_container :: "json \<Rightarrow> bool" where
  "is_container (JArr vs) = True"
| "is_container (JObj ps) = True"
| "is_container _ = False"

text \<open>The stack with its top first: the last child is popped first.\<close>

definition stack_size :: "(json \<times> nat) list \<Rightarrow> nat" where
  "stack_size st = sum_list (map (\<lambda>e. Suc (size (fst e))) st)"

lemma stack_size_simps [simp]:
  "stack_size [] = 0" "stack_size ((v, n) # st) = Suc (size v) + stack_size st"
  "stack_size (xs @ ys) = stack_size xs + stack_size ys"
  by (simp_all add: stack_size_def)

lemma stack_size_children: "stack_size (rev (map (\<lambda>c. (c, n)) vs)) = sum_list (map (\<lambda>c. Suc (size c)) vs)"
  by (induction vs) simp_all

lemma size_children: "is_container v \<Longrightarrow> sum_list (map (\<lambda>c. Suc (size c)) (json_children v)) \<le> size v"
proof (cases v)
  case (JArr vs)
  have "sum_list (map (\<lambda>c. Suc (size c)) vs) \<le> size_list size vs" by (induction vs) auto
  with JArr show ?thesis by simp
next
  case (JObj ps)
  have "sum_list (map (\<lambda>x. Suc (size (snd x))) ps) \<le> size_list (size_prod (\<lambda>x. 0) size) ps" by (induction ps) auto
  with JObj show ?thesis by (simp add: comp_def)
qed auto

function exceeds_loop :: "nat \<Rightarrow> (json \<times> nat) list \<Rightarrow> bool" where
  "exceeds_loop bound [] = False"
| "exceeds_loop bound ((value, depth) # stack) =
     (if \<not> is_container value then exceeds_loop bound stack
      else if bound < depth then True
      else exceeds_loop bound (rev (map (\<lambda>child. (child, depth + 1)) (json_children value)) @ stack))"
  by pat_completeness auto
termination
  by (relation "measure (\<lambda>(m, st). stack_size st)")
    (auto simp: stack_size_children size_children less_Suc_eq_le)

declare exceeds_loop.simps(2) [simp del]

definition nestingExceeds :: "json \<Rightarrow> nat \<Rightarrow> bool" where
  "nestingExceeds v bound = exceeds_loop bound [(v, 1)]"

text \<open>The nesting as a recursion, which the loop computes without one.\<close>

fun json_depth :: "json \<Rightarrow> nat" where
  "json_depth (JArr vs) = Suc (foldr max (map json_depth vs) 0)"
| "json_depth (JObj ps) = Suc (foldr max (map (\<lambda>p. json_depth (snd p)) ps) 0)"
| "json_depth _ = 0"

lemma depth_children:
  "json_depth v = (if is_container v then Suc (foldr max (map json_depth (json_children v)) 0) else 0)"
  by (cases v) (simp_all add: comp_def)

lemma foldr_max_less: "n < foldr max xs (0 :: nat) \<longleftrightarrow> (\<exists>x \<in> set xs. n < x)"
  by (induction xs) auto

lemma exceeds_loop_depth:
  "(\<forall>e \<in> set st. 0 < snd e) \<Longrightarrow>
   exceeds_loop bound st \<longleftrightarrow> (\<exists>(v, k) \<in> set st. is_container v \<and> Suc bound < k + json_depth v)"
proof (induction bound st rule: exceeds_loop.induct)
  case (2 bound v k st)
  consider "\<not> is_container v" | "is_container v" "bound < k" | "is_container v" "\<not> bound < k" by blast
  then show ?case
  proof cases
    case 1
    then show ?thesis using 2 by (simp add: exceeds_loop.simps(2))
  next
    case 2
    then have "Suc bound < k + json_depth v" by (subst depth_children) simp
    with 2 show ?thesis by (simp add: exceeds_loop.simps(2))
  next
    case 3
    have "Suc bound < k + json_depth v \<longleftrightarrow> bound - k < foldr max (map json_depth (json_children v)) 0"
      using 3 by (subst depth_children) (auto simp: not_less)
    also have "\<dots> \<longleftrightarrow> (\<exists>c \<in> set (json_children v). bound < k + json_depth c)"
      using 3 by (auto simp: foldr_max_less less_diff_conv2 not_less add.commute)
    also have "\<dots> \<longleftrightarrow> (\<exists>c \<in> set (json_children v). is_container c \<and> Suc bound < k + 1 + json_depth c)"
      using 3 depth_children by (auto simp: not_less)
    finally have "Suc bound < k + json_depth v \<longleftrightarrow>
      (\<exists>c \<in> set (json_children v). is_container c \<and> Suc bound < k + 1 + json_depth c)" .
    moreover have "exceeds_loop bound ((v, k) # st) \<longleftrightarrow>
        (\<exists>(v, k) \<in> set (rev (map (\<lambda>c. (c, k + 1)) (json_children v)) @ st). is_container v \<and> Suc bound < k + json_depth v)"
    proof -
      have "\<forall>e \<in> set (rev (map (\<lambda>c. (c, k + 1)) (json_children v)) @ st). 0 < snd e" using "2.prems" by auto
      moreover have "exceeds_loop bound ((v, k) # st) =
          exceeds_loop bound (rev (map (\<lambda>c. (c, k + 1)) (json_children v)) @ st)"
        using 3 by (simp add: exceeds_loop.simps(2))
      ultimately show ?thesis using "2.IH"(2) 3 by blast
    qed
    moreover have "(\<exists>(v, k) \<in> set (rev (map (\<lambda>c. (c, k + 1)) (json_children v)) @ st). is_container v \<and> Suc bound < k + json_depth v)
        \<longleftrightarrow> (\<exists>c \<in> set (json_children v). is_container c \<and> Suc bound < k + 1 + json_depth c)
          \<or> (\<exists>(v, k) \<in> set st. is_container v \<and> Suc bound < k + json_depth v)"
      unfolding set_append bex_Un by auto
    ultimately show ?thesis using 3 by simp
  qed
qed simp

text \<open>The stack loop that bounds the depth of a manifest returns on every value and computes
  exactly whether its containers nest deeper than the bound, so nothing deeper than 32 levels
  is stored and a manifest within the bound is not refused for its depth.\<close>

theorem nesting_exact: "nestingExceeds v bound \<longleftrightarrow> bound < json_depth v"
proof -
  have "nestingExceeds v bound \<longleftrightarrow> is_container v \<and> Suc bound < 1 + json_depth v"
    using exceeds_loop_depth [of "[(v, 1)]" bound] by (simp add: nestingExceeds_def)
  then show ?thesis using depth_children [of v] by auto
qed

section \<open>Handlers\<close>

text \<open>
  \<open>parseInt(s, 10)\<close> of a request's text.  Beyond \<open>2\<^sup>5\<^sup>3\<close> the code's number is rounded, which no
  comparison with a chunk count or size limit notices.
\<close>

definition parseInt10 :: "jsstring \<Rightarrow> int option" where
  "parseInt10 s =
     (let t = drop_space s;
          neg = (t \<noteq> [] \<and> hd t = 0x2D);
          u = (if t \<noteq> [] \<and> (hd t = 0x2D \<or> hd t = 0x2B) then tl t else t);
          ds = takeWhile is_digit_u16 u
      in if ds = [] then None
         else Some ((if neg then -1 else 1) * fold (\<lambda>c n. n * 10 + (int (unat c) - 0x30)) ds 0))"

section \<open>Configuration and state\<close>

record blob_config =
  maxChunksPerManifest :: int
  maxBlobBytesPerManifest :: int
  maxChunkBytes :: int
  sponsoredReceiptSubmitterToken :: jsstring
  submitter_url_set :: bool

record blob_env =
  env_polkadot :: polkadot
  env_sr25519 :: sr25519
  env_upload :: upload_config
  env_start :: int
  env_quota :: quota_config
  env_blob :: blob_config
  env_text :: js_text

text \<open>
  What one request meets: its clock readings, the balances, and the other requests that run
  while the balance is awaited.
\<close>

record moment =
  at_auth :: int
  at_spend :: int
  at_ms :: int
  at_funded :: "jsstring \<Rightarrow> bool"
  at_others :: "quota_db \<Rightarrow> quota_db"

record blob_server =
  s_tokens :: "token_db option"
  s_quota :: quota_db
  s_fs :: blob_fs
  s_outbox :: "notification list"

datatype refusal =
    NotAHexId
  | NoManifestObject
  | TooDeep
  | ChunksNotArray
  | TooManyChunks nat
  | BlobTooLarge
  | ChunkTooLarge
  | InvalidChunkIndex
  | NoManifest
  | IndexOutOfRange int nat
  | EmptyChunk
  | Sha256Mismatch jsstring jsstring

datatype blob_reply =
    Refused refusal
  | Unauthenticated auth_error
  | NoIdentity
  | BelowBalance
  | TooManyRequests quota_error int int
  | NotFound
  | AlreadyExists int
  | Thrown
  | ManifestCreated
  | ManifestIs json
  | ChunkStored int
  | ChunkIs bytes
  | StatusIs blob_status
  | CertifiedAt int

text \<open>\<open>resolveAuth\<close> as the handlers call it, with the balance refusal apart.\<close>

definition authenticate ::
  "blob_env \<Rightarrow> moment \<Rightarrow> request \<Rightarrow> jsstring \<Rightarrow> blob_server \<Rightarrow> (blob_reply + auth_ok) \<times> blob_server" where
  "authenticate env m req h s =
     (let (r, t, q) = resolveAuth (env_polkadot env) (env_sr25519 env) (at_funded m) (env_upload env)
            (env_start env) (at_auth m) (at_spend m) (at_others m) req (Some h) (s_tokens s) (s_quota s)
      in (case r of
            Inr a \<Rightarrow> Inr a
          | Inl BelowMinimumBalance \<Rightarrow> Inl BelowBalance
          | Inl e \<Rightarrow> Inl (Unauthenticated e), s\<lparr>s_tokens := t, s_quota := q\<rparr>))"

text \<open>The key whose quota a request uses; none means the quota of the account.\<close>

definition keyed_quota :: "auth_ok \<Rightarrow> key_info option" where
  "keyed_quota a = (if auth_tier a \<in> {BearerTier, ApiKeyTier} then auth_keyInfo a else None)"

section \<open>POST manifest\<close>

text \<open>\<open>c.size\<close>: only an object has it; the property of null throws.\<close>

definition chunk_size :: "json \<Rightarrow> json option" where
  "chunk_size c =
     (case c of
        JNull \<Rightarrow> None
      | JObj ps \<Rightarrow> Some (case get_prop (js ''size'') ps of None \<Rightarrow> JNull | Some v \<Rightarrow> v)
      | _ \<Rightarrow> Some JNull)"

text \<open>The sum of \<open>c.size || 0\<close>; \<open>None\<close> when it throws.\<close>

fun total_size :: "js_text \<Rightarrow> js_prim \<Rightarrow> json list \<Rightarrow> js_prim option" where
  "total_size T acc [] = Some acc"
| "total_size T acc (c # cs) =
     (case chunk_size c of
        None \<Rightarrow> None
      | Some v \<Rightarrow>
          (case to_primitive T (if truthy v then v else JNum (num 0)) of
             None \<Rightarrow> None
           | Some p \<Rightarrow> total_size T (js_plus T acc p) cs))"

definition exceeds :: "js_text \<Rightarrow> js_prim \<Rightarrow> int \<Rightarrow> bool" where
  "exceeds T p bound \<longleftrightarrow> f64_lt (num bound) (prim_number T p)"

definition chunk_too_large :: "js_text \<Rightarrow> int \<Rightarrow> json \<Rightarrow> bool" where
  "chunk_too_large T bound c \<longleftrightarrow>
     (case chunk_size c of
        None \<Rightarrow> False
      | Some v \<Rightarrow> truthy v \<and> (case to_primitive T v of None \<Rightarrow> False | Some p \<Rightarrow> exceeds T p bound))"

text \<open>\<open>manifest.chunks\<close>, absent for an array.\<close>

definition chunks_prop :: "json \<Rightarrow> json" where
  "chunks_prop m =
     (case m of JObj ps \<Rightarrow> (case get_prop (js ''chunks'') ps of None \<Rightarrow> JNull | Some v \<Rightarrow> v) | _ \<Rightarrow> JNull)"

definition content_limits :: "blob_env \<Rightarrow> json \<Rightarrow> blob_reply + unit" where
  "content_limits env m =
     (let T = env_text env; cfg = env_blob env
      in case chunks_prop m of
           JNull \<Rightarrow> Inr ()
         | JArr cs \<Rightarrow>
             if maxChunksPerManifest cfg < int (length cs) then Inl (Refused (TooManyChunks (length cs)))
             else (case total_size T (PNum (num 0)) cs of
                     None \<Rightarrow> Inl Thrown
                   | Some t \<Rightarrow>
                       if exceeds T t (maxBlobBytesPerManifest cfg) then Inl (Refused BlobTooLarge)
                       else if list_ex (chunk_too_large T (maxChunkBytes cfg)) cs then Inl (Refused ChunkTooLarge)
                       else Inr ())
         | _ \<Rightarrow> Inl (Refused ChunksNotArray))"

text \<open>The root hash the manifest is stored with.\<close>

definition with_root :: "json \<Rightarrow> json" where
  "with_root m =
     (case (m, manifest_chunks m) of
        (JObj ps, Some (c # cs)) \<Rightarrow>
          if isValidRootHash (get_prop (js ''rootHash'') ps) then m
          else (case computeRootHashFromChunks (c # cs) of
                  Inl _ \<Rightarrow> m
                | Inr h \<Rightarrow> JObj (AList.update (js ''rootHash'') (JStr h) ps))
      | _ \<Rightarrow> m)"

record post_pending =
  pp_hash :: jsstring
  pp_manifest :: json
  pp_uploader :: "jsstring option"

definition charge_manifest ::
  "blob_env \<Rightarrow> moment \<Rightarrow> auth_ok \<Rightarrow> jsstring \<Rightarrow> json \<Rightarrow> quota_db \<Rightarrow> (blob_reply + jsstring option) \<times> quota_db" where
  "charge_manifest env m a h manifest q =
     (let now = at_ms m;
          chunkless = (manifest_chunks manifest = None \<or> manifest_chunks manifest = Some []);
          n = (if chunkless then int (length (utf8_encode (json_stringify (env_text env) manifest))) else 0)
      in case keyed_quota a of
           Some ki \<Rightarrow>
             (case if chunkless then chargeManifestBytes ki n now q else startUpload ki h now q of
                (Denied e l c, q) \<Rightarrow> (Inl (TooManyRequests e l c), q)
              | (Allowed, q) \<Rightarrow> (Inr None, recordUsage (keyHash ki) n 1 now q))
         | None \<Rightarrow>
             if auth_identity a = [] then (Inl NoIdentity, q)
             else (case if chunkless then chargeAccountManifestBytes (env_quota env) (auth_identity a) n now q
                        else startAccountUpload (env_quota env) (auth_identity a) h now q of
                     (Denied e l c, q) \<Rightarrow> (Inl (TooManyRequests e l c), q)
                   | (Allowed, q) \<Rightarrow>
                       (Inr (if auth_tier a \<in> {SigOnlyTier, RegisteredValidatorTier}
                             then Some (auth_identity a) else None), q)))"

definition postManifest ::
  "blob_env \<Rightarrow> moment \<Rightarrow> request \<Rightarrow> jsstring \<Rightarrow> json \<Rightarrow> blob_server \<Rightarrow> (blob_reply + post_pending) \<times> blob_server" where
  "postManifest env m req h manifest s =
     (if \<not> isHexId h then (Inl (Refused NotAHexId), s)
      else if \<not> is_container manifest then (Inl (Refused NoManifestObject), s)
      else case authenticate env m req h s of
        (Inl e, s) \<Rightarrow> (Inl e, s)
      | (Inr a, s) \<Rightarrow>
          if nestingExceeds manifest MAX_MANIFEST_DEPTH then (Inl (Refused TooDeep), s)
          else (case content_limits env manifest of
                  Inl e \<Rightarrow> (Inl e, s)
                | Inr _ \<Rightarrow>
                    (case charge_manifest env m a h manifest (s_quota s) of
                       (Inl e, q) \<Rightarrow> (Inl e, s\<lparr>s_quota := q\<rparr>)
                     | (Inr u, q) \<Rightarrow>
                         (Inr \<lparr>pp_hash = h, pp_manifest = with_root manifest, pp_uploader = u\<rparr>,
                          s\<lparr>s_quota := q\<rparr>))))"

definition commitManifest :: "int \<Rightarrow> post_pending \<Rightarrow> blob_server \<Rightarrow> blob_reply \<times> blob_server" where
  "commitManifest now p s =
     (case saveManifest (pp_hash p) (pp_manifest p) now (s_fs s) of
        Inl _ \<Rightarrow> (Thrown, s)
      | Inr fs \<Rightarrow>
          (case pp_uploader p of
             None \<Rightarrow> (ManifestCreated, s\<lparr>s_fs := fs\<rparr>)
           | Some u \<Rightarrow>
               (case updateReceiptMeta (pp_hash p) (no_updates\<lparr>u_uploaderAddress := Some u\<rparr>) fs of
                  Inl _ \<Rightarrow> (Thrown, s\<lparr>s_fs := fs\<rparr>)
                | Inr (_, fs') \<Rightarrow> (ManifestCreated, s\<lparr>s_fs := fs'\<rparr>))))"

section \<open>GET manifest\<close>

definition isSponsoredReceiptSubmitterToken :: "blob_config \<Rightarrow> request \<Rightarrow> bool" where
  "isSponsoredReceiptSubmitterToken cfg req =
     (let expected = js_trim (sponsoredReceiptSubmitterToken cfg)
      in if expected = [] then False
         else (case bearer_token req of
                 None \<Rightarrow> False
               | Some supplied \<Rightarrow>
                   if supplied = [] then False
                   else if length (utf8_encode supplied) \<noteq> length (utf8_encode expected) then False
                   else utf8_encode supplied = utf8_encode expected))"

definition manifestReply :: "jsstring \<Rightarrow> blob_server \<Rightarrow> blob_reply" where
  "manifestReply h s =
     (case getManifest h (s_fs s) of
        Inl _ \<Rightarrow> Thrown
      | Inr None \<Rightarrow> NotFound
      | Inr (Some m) \<Rightarrow> ManifestIs m)"

definition getManifestRoute ::
  "blob_env \<Rightarrow> moment \<Rightarrow> request \<Rightarrow> jsstring \<Rightarrow> blob_server \<Rightarrow> blob_reply \<times> blob_server" where
  "getManifestRoute env m req h s =
     (if \<not> isHexId h then (Refused NotAHexId, s)
      else if isSponsoredReceiptSubmitterToken (env_blob env) req then (manifestReply h s, s)
      else case authenticate env m req h s of
        (Inl e, s) \<Rightarrow> (e, s)
      | (Inr _, s) \<Rightarrow> (manifestReply h s, s))"

section \<open>PUT chunk\<close>

text \<open>The check against the manifest's entry; a digest that is neither text nor falsy throws.\<close>

definition check_sha256 :: "json \<Rightarrow> bytes \<Rightarrow> blob_reply + unit" where
  "check_sha256 c data =
     (case c of
        JNull \<Rightarrow> Inl Thrown
      | _ \<Rightarrow>
          (case chunk_sha256 c of
             None \<Rightarrow> Inr ()
           | Some v \<Rightarrow>
               if \<not> truthy v then Inr ()
               else (case v of
                       JStr stated \<Rightarrow>
                         let expected = (if starts_with stated (js ''0x'') then drop 2 stated else stated)
                         in if sha256_hex data \<noteq> expected
                            then Inl (Refused (Sha256Mismatch expected (sha256_hex data))) else Inr ()
                     | _ \<Rightarrow> Inl Thrown)))"

record put_pending =
  up_hash :: jsstring
  up_index :: int
  up_data :: bytes
  up_manifest :: json
  up_auth :: "auth_ok option"

definition charge_chunk ::
  "blob_env \<Rightarrow> moment \<Rightarrow> auth_ok option \<Rightarrow> jsstring \<Rightarrow> int \<Rightarrow> quota_db \<Rightarrow> (blob_reply + unit) \<times> quota_db" where
  "charge_chunk env m auth h n q =
     (let charged = (\<lambda>(c, q). (case c of Denied e l cur \<Rightarrow> Inl (TooManyRequests e l cur) | Allowed \<Rightarrow> Inr (), q))
      in case auth of
           None \<Rightarrow> (Inr (), q)
         | Some a \<Rightarrow>
             (case keyed_quota a of
                Some ki \<Rightarrow> charged (recordChunkBytes ki h n (at_ms m) q)
              | None \<Rightarrow>
                  if auth_identity a = [] then (Inr (), q)
                  else charged (recordAccountChunkBytes (env_quota env) (auth_identity a) h n (at_ms m) q)))"

text \<open>The checks before the request's credentials are read.\<close>

definition put_admit ::
  "blob_config \<Rightarrow> jsstring \<Rightarrow> jsstring \<Rightarrow> jsstring option \<Rightarrow> bytes \<Rightarrow> blob_fs \<Rightarrow> blob_reply + int \<times> json \<times> json" where
  "put_admit cfg h i contentLength data fs =
     (case parseInt10 i of
        None \<Rightarrow> Inl (Refused InvalidChunkIndex)
      | Some n \<Rightarrow>
          if n < 0 then Inl (Refused InvalidChunkIndex)
          else (case getManifest h fs of
                  Inl _ \<Rightarrow> Inl Thrown
                | Inr None \<Rightarrow> Inl (Refused NoManifest)
                | Inr (Some manifest) \<Rightarrow>
                    (case manifest_chunks manifest of
                       None \<Rightarrow> Inl (Refused (IndexOutOfRange n 0))
                     | Some cs \<Rightarrow>
                         if int (length cs) \<le> n then Inl (Refused (IndexOutOfRange n (length cs)))
                         else (case getChunk h (nat n) fs of
                                 Inl _ \<Rightarrow> Inl Thrown
                               | Inr (Some _) \<Rightarrow> Inl (AlreadyExists n)
                               | Inr None \<Rightarrow>
                                   if data = [] then Inl (Refused EmptyChunk)
                                   else (case parseInt10 (case present contentLength of None \<Rightarrow> js ''0'' | Some l \<Rightarrow> l) of
                                           None \<Rightarrow> Inr (n, manifest, cs ! nat n)
                                         | Some l \<Rightarrow> if maxChunkBytes cfg < l then Inl (Refused ChunkTooLarge)
                                                     else Inr (n, manifest, cs ! nat n))))))"

definition putChunk ::
  "blob_env \<Rightarrow> moment \<Rightarrow> request \<Rightarrow> jsstring \<Rightarrow> jsstring \<Rightarrow> jsstring option \<Rightarrow> blob_server
   \<Rightarrow> (blob_reply + put_pending) \<times> blob_server" where
  "putChunk env m req h i contentLength s =
     (let data = req_rawBody req
      in if \<not> isHexId h then (Inl (Refused NotAHexId), s)
         else case put_admit (env_blob env) h i contentLength data (s_fs s) of
           Inl e \<Rightarrow> (Inl e, s)
         | Inr (n, manifest, c) \<Rightarrow>
             (let hasAuthHeader = (h_authorization req \<noteq> None \<or> h_api_key req \<noteq> None \<or> hasUploadSignature req)
              in case (if hasAuthHeader
                       then (case authenticate env m req h s of (Inl e, s) \<Rightarrow> (Inl e, s) | (Inr a, s) \<Rightarrow> (Inr (Some a), s))
                       else (Inr None, s)) of
                   (Inl e, s) \<Rightarrow> (Inl e, s)
                 | (Inr auth, s) \<Rightarrow>
                     (case charge_chunk env m auth h (int (length data)) (s_quota s) of
                        (Inl e, q) \<Rightarrow> (Inl e, s\<lparr>s_quota := q\<rparr>)
                      | (Inr _, q) \<Rightarrow>
                          (case check_sha256 c data of
                             Inl e \<Rightarrow> (Inl e, s\<lparr>s_quota := q\<rparr>)
                           | Inr _ \<Rightarrow>
                               (Inr \<lparr>up_hash = h, up_index = n, up_data = data, up_manifest = manifest, up_auth = auth\<rparr>,
                                s\<lparr>s_quota := q\<rparr>)))))"

definition finalize_quota :: "blob_env \<Rightarrow> int \<Rightarrow> auth_ok option \<Rightarrow> jsstring \<Rightarrow> quota_db \<Rightarrow> quota_db" where
  "finalize_quota env now auth h q =
     (case auth of
        None \<Rightarrow> q
      | Some a \<Rightarrow>
          (case keyed_quota a of
             Some ki \<Rightarrow> snd (finalizeUpload ki h now q)
           | None \<Rightarrow> if auth_identity a = [] then q
                     else snd (finalizeAccountUpload (env_quota env) (auth_identity a) h now q)))"

definition tier_name :: "auth_tier \<Rightarrow> jsstring" where
  "tier_name t =
     (case t of BearerTier \<Rightarrow> js ''bearer'' | SigOnlyTier \<Rightarrow> js ''sig-only'' | ApiKeyTier \<Rightarrow> js ''api-key''
      | RegisteredValidatorTier \<Rightarrow> js ''registered-validator'')"

text \<open>The hand-off of a complete sponsored upload.\<close>

definition hand_off :: "blob_env \<Rightarrow> put_pending \<Rightarrow> notification list \<Rightarrow> notification list" where
  "hand_off env p outbox =
     (case up_auth p of
        None \<Rightarrow> outbox
      | Some a \<Rightarrow>
          if isSponsoredTier (Some (tier_name (auth_tier a))) \<and> auth_identity a \<noteq> []
          then notifySponsoredReceiptSubmitter (submitter_url_set (env_blob env))
                 \<lparr>n_contentHash = up_hash p, n_operator = auth_identity a, n_authTier = tier_name (auth_tier a),
                  n_rootHash = (case raw_prop (js ''rootHash'') (up_manifest p) of
                                  Some (JStr r) \<Rightarrow> Some (if starts_with r (js ''0x'') then drop 2 r else r)
                                | _ \<Rightarrow> None),
                  n_manifestHash = Some (sha256_hex (utf8_encode (json_stringify (env_text env) (up_manifest p)))),
                  n_source = None, n_schemaHash = None\<rparr> outbox
          else outbox)"

text \<open>After \<open>saveChunk\<close>: usage, and the quota and hand-off of an upload that is complete by then.\<close>

definition finishChunk :: "blob_env \<Rightarrow> int \<Rightarrow> put_pending \<Rightarrow> blob_server \<Rightarrow> blob_reply \<times> blob_server" where
  "finishChunk env now p s =
     (let q = (case up_auth p of
                 None \<Rightarrow> s_quota s
               | Some a \<Rightarrow>
                   (case keyed_quota a of
                      Some ki \<Rightarrow> recordUsage (keyHash ki) (int (length (up_data p))) 0 now (s_quota s)
                    | None \<Rightarrow> s_quota s));
          s1 = s\<lparr>s_quota := q\<rparr>
      in case getStatus (up_hash p) (s_fs s) of
           Inl _ \<Rightarrow> (Thrown, s1)
         | Inr st \<Rightarrow>
             (ChunkStored (up_index p),
              if st_complete st
              then s1\<lparr>s_quota := finalize_quota env now (up_auth p) (up_hash p) q,
                      s_outbox := hand_off env p (s_outbox s)\<rparr>
              else s1))"

text \<open>All of it, when nothing comes between.\<close>

definition commitChunk :: "blob_env \<Rightarrow> int \<Rightarrow> put_pending \<Rightarrow> blob_server \<Rightarrow> blob_reply \<times> blob_server" where
  "commitChunk env now p s =
     (case saveChunk (up_hash p) (nat (up_index p)) (up_data p) (s_fs s) of
        Inl _ \<Rightarrow> (Thrown, s)
      | Inr fs \<Rightarrow> finishChunk env now p (s\<lparr>s_fs := fs\<rparr>))"

section \<open>Status, certification, download\<close>

definition getStatusRoute :: "jsstring \<Rightarrow> blob_server \<Rightarrow> blob_reply" where
  "getStatusRoute h s =
     (if \<not> isHexId h then Refused NotAHexId
      else case getStatus h (s_fs s) of Inl _ \<Rightarrow> Thrown | Inr st \<Rightarrow> StatusIs st)"

definition patchCertified ::
  "blob_env \<Rightarrow> moment \<Rightarrow> request \<Rightarrow> jsstring \<Rightarrow> blob_server \<Rightarrow> blob_reply \<times> blob_server" where
  "patchCertified env m req h s =
     (if \<not> isHexId h then (Refused NotAHexId, s)
      else let (r, t, q) = resolveAuth (env_polkadot env) (env_sr25519 env) (at_funded m) (env_upload env)
                 (env_start env) (at_auth m) (at_spend m) (at_others m) req (Some h) (s_tokens s) (s_quota s);
               s1 = s\<lparr>s_tokens := t, s_quota := q\<rparr>
           in case r of
                Inl e \<Rightarrow> (Unauthenticated e, s1)
              | Inr _ \<Rightarrow>
                  (case markCertified h (at_ms m) (s_fs s) of
                     Inl _ \<Rightarrow> (Thrown, s1)
                   | Inr (True, fs) \<Rightarrow> (CertifiedAt (at_ms m), s1\<lparr>s_fs := fs\<rparr>)
                   | Inr (False, fs) \<Rightarrow> (NotFound, s1\<lparr>s_fs := fs\<rparr>)))"

definition getChunkRoute :: "jsstring \<Rightarrow> jsstring \<Rightarrow> blob_server \<Rightarrow> blob_reply" where
  "getChunkRoute receiptId i s =
     (if \<not> isHexId receiptId then Refused NotAHexId
      else case parseInt10 i of
        None \<Rightarrow> Refused InvalidChunkIndex
      | Some n \<Rightarrow>
          if n < 0 then Refused InvalidChunkIndex
          else let contentHash = (case resolveReceiptId receiptId (s_fs s) of
                     Some h \<Rightarrow> if h \<noteq> [] then h else stripHexPrefix_storage receiptId
                   | None \<Rightarrow> stripHexPrefix_storage receiptId)
               in case getChunk contentHash (nat n) (s_fs s) of
                    Inl _ \<Rightarrow> Thrown
                  | Inr None \<Rightarrow> NotFound
                  | Inr (Some d) \<Rightarrow> ChunkIs d)"

section \<open>What the steps do to a directory\<close>

text \<open>The files that make an upload: a step that keeps them or removes the directory.\<close>

definition upload_files :: "receipt_dir \<Rightarrow> json option \<times> (nat \<times> bytes) list \<times> bool" where
  "upload_files r = (manifest_json r, chunk_files r, complete_flag r)"

lemma upload_files_simps [simp]:
  "upload_files (r\<lparr>receipt_meta_json := m\<rparr>) = upload_files r"
  "upload_files (r\<lparr>raw_bin := b\<rparr>) = upload_files r"
  "upload_files (r\<lparr>manifest_json := j\<rparr>) = (j, snd (upload_files r))"
  "upload_files (r\<lparr>chunk_files := c\<rparr>) = (manifest_json r, c, complete_flag r)"
  "upload_files (r\<lparr>complete_flag := f\<rparr>) = (manifest_json r, chunk_files r, f)"
  by (simp_all add: upload_files_def)

lemma dir_of_simps [simp]:
  "dir_of d (put_dir e r fs) = (if d = e then r else dir_of d fs)"
  "dir_of d (fs\<lparr>receipt_index := i\<rparr>) = dir_of d fs"
  "dir_of d (fs\<lparr>daemon_log := l\<rparr>) = dir_of d fs"
  by (simp_all add: dir_of_def put_dir_def)

definition keeps_or_removes :: "jsstring \<Rightarrow> blob_fs \<Rightarrow> blob_fs \<Rightarrow> bool" where
  "keeps_or_removes d fs fs' \<longleftrightarrow>
     upload_files (dir_of d fs') = upload_files (dir_of d fs) \<or> upload_files (dir_of d fs') = upload_files new_dir"

lemma keeps_trans:
  "keeps_or_removes d fs fs1 \<Longrightarrow> keeps_or_removes d fs1 fs2 \<Longrightarrow> keeps_or_removes d fs fs2"
  by (auto simp: keeps_or_removes_def)

lemma keeps_refl [simp]: "keeps_or_removes d fs fs"
  by (simp add: keeps_or_removes_def)

lemma keeps_fold: "(\<And>e fs. keeps_or_removes d fs (step e fs)) \<Longrightarrow> keeps_or_removes d fs (fold step es fs)"
  by (induction es arbitrary: fs) (auto intro: keeps_trans)

lemma keeps_delete [simp]: "keeps_or_removes d fs (deleteReceipt order e fs)"
  by (auto simp: keeps_or_removes_def deleteReceipt_def dir_of_def)

lemma keeps_change_meta: "change_meta f h fs = Inr (b, fs') \<Longrightarrow> keeps_or_removes d fs fs'"
  by (auto simp: change_meta_def and_then_Inr_iff keeps_or_removes_def split: option.splits)

lemma keeps_sweep: "keeps_or_removes d fs (sweep_receipt cfg now order e fs)"
  by (simp add: sweep_receipt_def split: option.split)

lemma keeps_check: "keeps_or_removes d fs (check_receipt cfg now chain order e fs)"
  by (auto simp: check_receipt_def updateReceiptMeta_def split: option.split receipt_status.split sum.split
      intro: keeps_change_meta)

lemma keeps_cleanup: "keeps_or_removes d fs (runCleanup cfg now chain order entries entries' fs)"
  unfolding runCleanup_def runReceiptExistsCheck_def
  by (intro keeps_trans [OF keeps_fold keeps_fold] keeps_sweep keeps_check)

lemma keeps_raw: "saveRawBytes h b fs = Inr fs' \<Longrightarrow> keeps_or_removes d fs fs'"
  by (auto simp: saveRawBytes_def and_then_Inr_iff keeps_or_removes_def)

lemma hexId_dir: "hexId h = Inr d \<longleftrightarrow> isHexId h \<and> d = stripHexPrefix_storage h"
  by (auto simp: hexId_def)

lemma keeps_certify:
  "patchCertified env m req h s = (reply, s') \<Longrightarrow> keeps_or_removes d (s_fs s) (s_fs s')"
  by (auto simp: patchCertified_def markCertified_def Let_def intro: keeps_change_meta
      split: if_splits prod.splits sum.splits bool.splits)

text \<open>The writes of a manifest and of a chunk.\<close>

lemma commit_manifest_files:
  assumes "commitManifest now p s = (reply, s')" "isHexId (pp_hash p)"
  shows "upload_files (dir_of d (s_fs s')) =
    (if d = stripHexPrefix_storage (pp_hash p)
     then (Some (json_reparse (pp_manifest p)), snd (upload_files (dir_of d (s_fs s))))
     else upload_files (dir_of d (s_fs s)))"
  using assms
  by (auto simp: commitManifest_def saveManifest_def hexId_def updateReceiptMeta_def change_meta_def Let_def
      split: option.splits)

lemma update_again [simp]: "AList.update k v (AList.update k w al) = AList.update k v al"
  by (induction al) auto

lemma chunk_step_files [simp]:
  "upload_files (dir_of e (open_chunk d i fs)) =
     (if e = d then (manifest_json (dir_of d fs), AList.update i [] (chunk_files (dir_of d fs)), complete_flag (dir_of d fs))
      else upload_files (dir_of e fs))"
  "upload_files (dir_of e (write_chunk d i off piece fs)) =
     (if e = d
      then (manifest_json (dir_of d fs),
            case map_of (chunk_files (dir_of d fs)) i of
              None \<Rightarrow> chunk_files (dir_of d fs)
            | Some content \<Rightarrow> AList.update i (write_at off piece content) (chunk_files (dir_of d fs)),
            complete_flag (dir_of d fs))
      else upload_files (dir_of e fs))"
  "upload_files (dir_of e (mark_complete h d fs)) =
     (if e = d then (manifest_json (dir_of d fs), chunk_files (dir_of d fs), True) else upload_files (dir_of e fs))"
  by (auto simp: open_chunk_def write_chunk_def mark_complete_def upload_files_def split: option.split)

lemma write_chunk_open: "write_chunk d i 0 data (open_chunk d i fs) =
    put_dir d ((dir_of d fs)\<lparr>chunk_files := AList.update i data (chunk_files (dir_of d fs))\<rparr>) fs"
  by (simp add: write_chunk_def open_chunk_def write_at_def update_conv' put_dir_def dir_of_def)

lemma save_chunk_files:
  assumes "saveChunk h i data fs = Inr fs'"
  shows "upload_files (dir_of d fs') =
    (let r = dir_of d fs; files = AList.update i data (chunk_files r)
     in if d = stripHexPrefix_storage h
        then (manifest_json r, files,
              complete_flag r \<or> (\<exists>m cs. manifest_json r = Some m \<and> manifest_chunks m = Some cs \<and> length cs \<le> length files))
        else upload_files r)"
  using assms
  by (auto simp: saveChunk_def write_chunk_open and_then_Inr_iff hexId_dir Let_def countUploadedChunks_def expected_chunks_def
      mark_complete_def bind_eq_None_conv bind_eq_Some_conv split: option.splits if_splits)

section \<open>One upload\<close>

definition sample_env :: blob_env where
  "sample_env = \<lparr>env_polkadot = polkadot_strict, env_sr25519 = sr_any, env_upload = sample_cfg, env_start = 0,
     env_quota = \<lparr>sigOnlyMaxReceiptsPerDay = 10, sigOnlyMaxBytesPerDay = 1000, sigOnlyMaxConcurrentUploads = 2\<rparr>,
     env_blob = \<lparr>maxChunksPerManifest = 256, maxBlobBytesPerManifest = 1000, maxChunkBytes = 100,
                 sponsoredReceiptSubmitterToken = [], submitter_url_set = True\<rparr>,
     env_text = \<lparr>number_text = (\<lambda>_. js ''0''), text_number = (\<lambda>_. num 0)\<rparr>\<rparr>"

definition sample_moment :: moment where
  "sample_moment = \<lparr>at_auth = 1200, at_spend = 1200, at_ms = 1200000, at_funded = (\<lambda>_. False), at_others = (\<lambda>d. d)\<rparr>"

definition sample_hash :: jsstring where "sample_hash = replicate 64 0x61"

definition sample_manifest :: "bytes \<Rightarrow> json" where
  "sample_manifest data = JObj [(js ''chunks'', JArr [JObj [(js ''sha256'', JStr (sha256_hex data))]]),
     (js ''rootHash'', JStr (replicate 64 0x62))]"

definition sample_server :: "quota_db \<Rightarrow> blob_fs \<Rightarrow> blob_server" where
  "sample_server q fs = \<lparr>s_tokens = None, s_quota = q, s_fs = fs, s_outbox = []\<rparr>"

definition empty_fs :: blob_fs where
  "empty_fs = \<lparr>receipts = Map.empty, receipt_index = Map.empty, daemon_log = []\<rparr>"

definition sample_post :: "bytes \<Rightarrow> post_pending" where
  "sample_post data = \<lparr>pp_hash = sample_hash, pp_manifest = sample_manifest data, pp_uploader = None\<rparr>"

definition plain_put :: "bytes \<Rightarrow> request" where
  "plain_put data = no_creds_req\<lparr>h_api_key := None, h_upload_sig_v2 := None, req_rawBody := data\<rparr>"

lemma sample_hash_hex: "isHexId sample_hash" "stripHexPrefix_storage sample_hash = sample_hash"
  by (simp_all add: isHexId_def sample_hash_def stripHexPrefix_storage_def re_any_hex_def list_all_iff
      starts_with_replicate js_eval)

lemma sample_chunks: "manifest_chunks (sample_manifest data) = Some [JObj [(js ''sha256'', JStr (sha256_hex data))]]"
  by (simp add: manifest_chunks_def sample_manifest_def get_prop_def)

lemma sample_limits: "content_limits sample_env (sample_manifest data) = Inr ()"
  by (simp add: content_limits_def chunks_prop_def sample_manifest_def get_prop_def sample_env_def chunk_size_def
      to_primitive_def js_plus_def exceeds_def chunk_too_large_def js_eval num_def f64_eval)

lemma sample_auth:
  "\<exists>ki. authenticate sample_env sample_moment no_creds_req sample_hash (sample_server keyed_db fs) =
     (Inr \<lparr>auth_tier = ApiKeyTier, auth_identity = ki_name ki, auth_keyInfo = Some ki, auth_sigVersion = None\<rparr>,
      sample_server keyed_db fs) \<and> 0 < maxConcurrentUploads ki"
proof -
  have "bearer_priority 1200 no_creds_req None keyed_db = (None, None)"
    by (simp add: bearer_priority_def bearer_token_def no_creds_req_def sample_req_def)
  moreover have "\<not> isAccountAddress polkadot_strict (js ''secret'')"
    by (simp add: isAccountAddress_def SS58_SHAPE_def js_def normalizeSs58_def decodeAccountId_def
        polkadot_strict_def)
  moreover have "present (h_api_key no_creds_req) = Some (js ''secret'')"
    by (simp add: no_creds_req_def present_def js_def)
  moreover obtain ki where "resolveKey (js ''secret'') keyed_db = Some ki" "0 < maxConcurrentUploads ki"
    by (simp add: resolveKey_def keyed_db_def new_key_row_def sql_get_def row_info_def)
  ultimately show ?thesis
    by (intro exI [of _ ki])
      (simp add: authenticate_def sample_env_def sample_moment_def sample_server_def resolveAuth_def
        api_key_priority_def)
qed

lemma sample_posted:
  "\<exists>q. postManifest sample_env sample_moment no_creds_req sample_hash (sample_manifest data)
     (sample_server keyed_db fs) = (Inr (sample_post data), sample_server q fs)"
proof -
  obtain ki where a: "authenticate sample_env sample_moment no_creds_req sample_hash (sample_server keyed_db fs) =
     (Inr \<lparr>auth_tier = ApiKeyTier, auth_identity = ki_name ki, auth_keyInfo = Some ki, auth_sigVersion = None\<rparr>,
      sample_server keyed_db fs)" "0 < maxConcurrentUploads ki"
    using sample_auth by blast
  have "uploads_inflight keyed_db = []" by (simp add: keyed_db_def empty_quota_db_def)
  then obtain q where "startUpload ki sample_hash 1200000 keyed_db = (Allowed, q)"
    using a(2) by (auto simp: startUpload_def cleanStaleInflight_def clean_stale_def active_count_def sql_delete_def
        sql_count_def Let_def)
  moreover have "with_root (sample_manifest data) = sample_manifest data"
    by (simp add: with_root_def sample_chunks) (simp add: sample_manifest_def get_prop_def js_eval isValidRootHash_def
        stripHexPrefix_def starts_with_replicate isHex64_def re_any_hex_def list_all_iff)
  moreover have "\<not> nestingExceeds (sample_manifest data) MAX_MANIFEST_DEPTH"
    by (simp add: nesting_exact sample_manifest_def MAX_MANIFEST_DEPTH_def)
  ultimately show ?thesis
    using a(1) sample_limits [of data] sample_hash_hex
    by (simp add: postManifest_def charge_manifest_def keyed_quota_def sample_chunks sample_moment_def
        sample_post_def sample_server_def)
      (simp add: sample_manifest_def)
qed

lemma getManifest_dir: "isHexId h \<Longrightarrow> getManifest h fs = Inr (manifest_json (dir_of (stripHexPrefix_storage h) fs))"
  by (simp add: getManifest_def hexId_def dir_of_def new_dir_def split: option.split)

definition sample_put :: "bytes \<Rightarrow> put_pending" where
  "sample_put data = \<lparr>up_hash = sample_hash, up_index = 0, up_data = data, up_manifest = sample_manifest data,
     up_auth = None\<rparr>"

lemma sample_committed:
  assumes "upload_files (dir_of sample_hash fs0) = (j, [], False)"
  shows "\<exists>fs. commitManifest 1200000 (sample_post data) (sample_server q fs0) = (ManifestCreated, sample_server q fs)
     \<and> upload_files (dir_of sample_hash fs) = (Some (sample_manifest data), [], False)"
proof -
  obtain s' reply where c: "commitManifest 1200000 (sample_post data) (sample_server q fs0) = (reply, s')"
    by fastforce
  have r: "json_reparse (sample_manifest data) = sample_manifest data" by (simp add: sample_manifest_def)
  have "upload_files (dir_of sample_hash (s_fs s')) = (Some (sample_manifest data), [], False)"
    using commit_manifest_files [OF c, of sample_hash] sample_hash_hex r assms
    by (simp add: sample_post_def sample_server_def)
  moreover have "reply = ManifestCreated" "s' = sample_server q (s_fs s')"
    using c sample_hash_hex(1)
    by (auto simp: commitManifest_def sample_post_def sample_server_def saveManifest_def hexId_def Let_def)
  ultimately show ?thesis using c by metis
qed

lemma empty_files: "upload_files (dir_of d empty_fs) = (None, [], False)"
  by (simp add: dir_of_def empty_fs_def new_dir_def upload_files_def)

lemma sample_put_ok:
  assumes "upload_files (dir_of sample_hash fs) = (Some (sample_manifest data), [], False)" "data \<noteq> []"
  shows "putChunk sample_env sample_moment (plain_put data) sample_hash (js ''0'') None (sample_server q fs) =
    (Inr (sample_put data), sample_server q fs)"
proof -
  have d: "manifest_json (dir_of sample_hash fs) = Some (sample_manifest data)" "chunk_files (dir_of sample_hash fs) = []"
    using assms(1) by (simp_all add: upload_files_def)
  have i: "parseInt10 (js ''0'') = Some 0"
    by (simp add: parseInt10_def js_eval is_js_space_def is_digit_u16_def)
  have "put_admit (env_blob sample_env) sample_hash (js ''0'') None data fs =
      Inr (0, sample_manifest data, JObj [(js ''sha256'', JStr (sha256_hex data))])"
    using assms(2) sample_hash_hex d i
    by (simp add: put_admit_def getManifest_dir getChunk_def hexId_def sample_chunks present_def sample_env_def)
  moreover have "check_sha256 (JObj [(js ''sha256'', JStr (sha256_hex data))]) data = Inr ()"
  proof -
    have "\<not> starts_with (sha256_hex data) (js ''0x'')"
      using sha256_hex_shape [of data]
      by (cases "sha256_hex data" rule: remdups_adj.cases) (auto simp: js_eval re_lower_hex_def is_lower_hex_def is_digit_u16_def)
    then show ?thesis by (simp add: check_sha256_def chunk_sha256_def get_prop_def Let_def)
  qed
  ultimately show ?thesis
    using sample_hash_hex
    by (simp add: putChunk_def plain_put_def no_creds_req_def sample_req_def hasUploadSignature_def
        charge_chunk_def sample_put_def sample_server_def)
qed

text \<open>The same upload when nothing comes between its steps.\<close>

lemma sample_stored:
  "\<exists>fs. upload_files (dir_of sample_hash fs) = (Some (sample_manifest data), [(0, data)], True)"
proof -
  obtain fs where f: "upload_files (dir_of sample_hash fs) = (Some (sample_manifest data), [], False)"
    using sample_committed [OF empty_files] by blast
  have "saveChunk sample_hash 0 data fs \<noteq> Inl NotHexId" using sample_hash_hex by (simp add: saveChunk_def hexId_def Let_def)
  then obtain fs' where s: "saveChunk sample_hash 0 data fs = Inr fs'"
    by (cases "saveChunk sample_hash 0 data fs") (auto intro: storage_error.exhaust)
  have "upload_files (dir_of sample_hash fs') = (Some (sample_manifest data), [(0, data)], True)"
    using save_chunk_files [OF s, of sample_hash] f sample_hash_hex sample_chunks [of data]
    by (simp add: upload_files_def)
  then show ?thesis ..
qed

text \<open>C25: A manifest of a directory is replaced by any authenticated request for its content hash,
  whoever uploaded it, and nothing else of the upload is reset: the status keeps saying
  complete and the chunks of the earlier manifest are served, whatever digests the new one
  states, and putting a chunk of the new manifest is refused as a duplicate.  The recorded
  uploader and certification are lost.\<close>

theorem repost_keeps_complete:
  assumes "postManifest env m req h manifest s0 = (Inr p, s)" "commitManifest now p s = (reply, s')"
    and "getStatus h (s_fs s) = Inr st" "st_complete st"
  shows "getManifest h (s_fs s') = Inr (Some (json_reparse (with_root manifest)))
    \<and> (\<exists>st'. getStatus h (s_fs s') = Inr st' \<and> st_complete st')
    \<and> (\<forall>i. getChunk h i (s_fs s') = getChunk h i (s_fs s))
    \<and> (\<forall>i n l data old cs. parseInt10 i = Some n \<and> 0 \<le> n \<and> getChunk h (nat n) (s_fs s) = Inr (Some old)
         \<and> manifest_chunks (json_reparse (with_root manifest)) = Some cs \<and> n < int (length cs)
         \<longrightarrow> put_admit cfg h i l data (s_fs s') = Inl (AlreadyExists n))
    \<and> (\<exists>meta. receipt_meta_json (dir_of (stripHexPrefix_storage h) (s_fs s')) = Some meta
         \<and> certifiedAt meta = None \<and> uploaderAddress meta = (case pp_uploader p of None \<Rightarrow> [] | Some a \<Rightarrow> a))"
proof -
  let ?d = "stripHexPrefix_storage h"
  have p: "pp_hash p = h" "pp_manifest p = with_root manifest" "isHexId h"
    using assms(1) by (auto simp: postManifest_def split: if_splits prod.splits sum.splits)
  have f: "upload_files (dir_of ?d (s_fs s')) = (Some (json_reparse (with_root manifest)), snd (upload_files (dir_of ?d (s_fs s))))"
    using commit_manifest_files [OF assms(2), of ?d] p by simp
  then have man: "getManifest h (s_fs s') = Inr (Some (json_reparse (with_root manifest)))"
    using p(3) by (simp add: getManifest_dir upload_files_def)
  have ch: "getChunk h i (s_fs s') = getChunk h i (s_fs s)" for i
    using f p(3) by (simp add: getChunk_def hexId_def upload_files_def)
  have "complete_flag (dir_of ?d (s_fs s))"
    using assms(3,4) p(3) by (auto simp: getStatus_def hexId_def Let_def split: option.splits)
  then have st: "\<exists>st'. getStatus h (s_fs s') = Inr st' \<and> st_complete st'"
    using f p(3) by (simp add: getStatus_def hexId_def Let_def upload_files_def)
  have "\<exists>meta. receipt_meta_json (dir_of ?d (s_fs s')) = Some meta
         \<and> certifiedAt meta = None \<and> uploaderAddress meta = (case pp_uploader p of None \<Rightarrow> [] | Some a \<Rightarrow> a)"
    using assms(2) p
    by (auto simp: commitManifest_def saveManifest_def updateReceiptMeta_def change_meta_def hexId_def Let_def
        apply_updates_def no_updates_def split: option.splits)
  then show ?thesis using man ch st by (auto simp: put_admit_def)
qed

theorem repost_keeps_complete_witness:
  "\<exists>s' :: blob_server. getManifest sample_hash (s_fs s') = Inr (Some (sample_manifest [2]))
     \<and> (\<exists>st. getStatus sample_hash (s_fs s') = Inr st \<and> st_complete st)
     \<and> getChunk sample_hash 0 (s_fs s') = Inr (Some [1])
     \<and> put_admit (env_blob sample_env) sample_hash (js ''0'') None [2] (s_fs s') = Inl (AlreadyExists 0)"
proof -
  obtain fs where f: "upload_files (dir_of sample_hash fs) = (Some (sample_manifest [1]), [(0, [1])], True)"
    using sample_stored [of "[1]"] by auto
  obtain q where p: "postManifest sample_env sample_moment no_creds_req sample_hash (sample_manifest [2])
      (sample_server keyed_db fs) = (Inr (sample_post [2]), sample_server q fs)"
    using sample_posted by blast
  obtain reply s' where c: "commitManifest 0 (sample_post [2]) (sample_server q fs) = (reply, s')" by fastforce
  have st: "getStatus sample_hash (s_fs (sample_server q fs)) =
      Inr \<lparr>st_exists = True, st_complete = True, st_chunkCount = 1, st_chunksUploaded = 1\<rparr>"
    using f sample_hash_hex
    by (simp add: getStatus_def hexId_def Let_def upload_files_def sample_chunks countUploadedChunks_def sample_server_def)
  have ch: "getChunk sample_hash 0 (s_fs (sample_server q fs)) = Inr (Some [1])"
    using f sample_hash_hex by (simp add: getChunk_def hexId_def upload_files_def sample_server_def)
  have w: "json_reparse (with_root (sample_manifest [2])) = sample_manifest [2]"
    using sample_posted [of "[2]" fs] p
    by (auto simp: sample_post_def postManifest_def sample_manifest_def split: if_splits prod.splits sum.splits)
  have i: "parseInt10 (js ''0'') = Some 0"
    by (simp add: parseInt10_def js_eval is_js_space_def is_digit_u16_def)
  have "st_complete \<lparr>st_exists = True, st_complete = True, st_chunkCount = 1, st_chunksUploaded = 1\<rparr>" by simp
  note r = repost_keeps_complete [OF p c st this, of "env_blob sample_env", unfolded w]
  have "put_admit (env_blob sample_env) sample_hash (js ''0'') None [2] (s_fs s') = Inl (AlreadyExists 0)"
    using r i ch sample_chunks [of "[2]"] by fastforce
  then show ?thesis using r ch by (intro exI [of _ s']) auto
qed

section \<open>Digests no chunk matches\<close>

text \<open>
  A digest spelled with upper-case letters is a leaf of the root computed when the manifest is
  posted, and is compared as it stands when a chunk is put: no octets pass.
\<close>

lemma upper_case_digest_unmatchable:
  assumes "chunk_sha256 c = Some (JStr raw)" "re_any_hex 64 raw" "\<not> list_all is_lower_hex raw"
  shows "\<exists>l. chunk_leaf i c = Inr l" "check_sha256 c data \<noteq> Inr ()"
proof -
  have x: "\<not> starts_with raw (js ''0x'')" "\<not> starts_with raw (js ''0X'')"
    using assms(2) by (cases raw rule: remdups_adj.cases;
        auto simp: js_eval re_any_hex_def is_any_hex_def is_lower_hex_def is_digit_u16_def)+
  then have "stripHexPrefix raw = raw" by (simp add: stripHexPrefix_def)
  then show "\<exists>l. chunk_leaf i c = Inr l"
    using assms(1,2) by (simp add: chunk_leaf_def isHex64_def Let_def)
  have "raw \<noteq> []" using assms(2) by (auto simp: re_any_hex_def)
  moreover have "sha256_hex data \<noteq> raw" using assms(3) sha256_hex_shape [of data] by (auto simp: re_lower_hex_def)
  ultimately show "check_sha256 c data \<noteq> Inr ()"
    using assms(1) x by (auto simp: check_sha256_def chunk_sha256_def split: json.splits)
qed

end
