(* ===== verification/TextOrder.thy ===== *)
theory TextOrder
  imports CanonicalCbor
begin

text \<open>
  The two orders of text the gateway sorts by: SQLite compares by UTF-8 octets, JavaScript's
  \<open><\<close> by code units.
\<close>

definition cmp_text :: "jsstring \<Rightarrow> jsstring \<Rightarrow> int" where
  "cmp_text a b = cmpBytes (utf8_encode a) (utf8_encode b)"

interpretation text_order: comparator cmp_text
  unfolding cmp_text_def by unfold_locales (rule bytes_order.cmp_flip, rule cmpBytes_trans)

fun cmp_units :: "jsstring \<Rightarrow> jsstring \<Rightarrow> int" where
  "cmp_units (x # xs) (y # ys) = (if x \<noteq> y then uint x - uint y else cmp_units xs ys)"
| "cmp_units xs ys = int (length xs) - int (length ys)"

lemma cmp_units_flip: "cmp_units ys xs = - cmp_units xs ys"
  by (induction xs ys rule: cmp_units.induct) auto

lemma cmp_units_zero: "cmp_units xs ys = 0 \<longleftrightarrow> xs = ys"
  by (induction xs ys rule: cmp_units.induct) (auto simp: word_uint_eq_iff)

lemma cmp_units_Cons_le:
  "cmp_units (x # xs) (y # ys) \<le> 0 \<longleftrightarrow> x < y \<or> x = y \<and> cmp_units xs ys \<le> 0"
  by (auto simp: word_less_def word_uint_eq_iff)

lemma cmp_units_trans: "cmp_units xs ys \<le> 0 \<Longrightarrow> cmp_units ys zs \<le> 0 \<Longrightarrow> cmp_units xs zs \<le> 0"
proof (induction xs arbitrary: ys zs)
  case (Cons x xs)
  from Cons.prems(1) obtain y ys' where ys: "ys = y # ys'" by (cases ys) auto
  with Cons.prems(2) obtain z zs' where zs: "zs = z # zs'" by (cases zs) auto
  show ?case
    using Cons.prems Cons.IH [of ys' zs'] less_trans [of x y z]
    unfolding ys zs cmp_units_Cons_le by auto
qed simp

interpretation units_order: comparator cmp_units
proof
  show "cmp_units x y \<le> 0 \<longleftrightarrow> 0 \<le> cmp_units y x" for x y
    by (simp add: cmp_units_flip [of x y])
qed (rule cmp_units_trans)

text \<open>An order by one projection, and then by a second.\<close>

definition cmp_then :: "('a \<Rightarrow> 'a \<Rightarrow> int) \<Rightarrow> ('a \<Rightarrow> 'a \<Rightarrow> int) \<Rightarrow> 'a \<Rightarrow> 'a \<Rightarrow> int" where
  "cmp_then f g a b = (if f a b \<noteq> 0 then f a b else g a b)"

lemma comparator_on: "comparator c \<Longrightarrow> comparator (\<lambda>a b. c (p a) (p b))"
  by (auto simp: comparator_def)

lemma comparator_then:
  assumes "comparator f" "comparator g"
  shows "comparator (cmp_then f g)"
proof -
  note zero = comparator.cmp_zero_flip [OF assms(1)] and flip = comparator.cmp_flip [OF assms(1)] comparator.cmp_flip [OF assms(2)]
  note trans = comparator.cmp_trans [OF assms(1)] comparator.cmp_trans [OF assms(2)]
  show ?thesis
  proof
    show "cmp_then f g x y \<le> 0 \<longleftrightarrow> 0 \<le> cmp_then f g y x" for x y
      using zero [of x y] flip(1) [of x y] flip(2) [of x y] by (auto simp: cmp_then_def)
    show "cmp_then f g x z \<le> 0" if "cmp_then f g x y \<le> 0" "cmp_then f g y z \<le> 0" for x y z
    proof -
      have fxz: "f x z \<le> 0" using that trans(1) [of x y z] by (auto simp: cmp_then_def split: if_splits)
      show ?thesis
      proof (cases "f x z = 0")
        case True
        have "f x y \<le> 0" "f y z \<le> 0" using that by (auto simp: cmp_then_def split: if_splits)
        moreover have "f z x = 0" using True zero [of x z] by simp
        ultimately have "f y x \<le> 0" "f z y \<le> 0" using trans(1) [of y z x] trans(1) [of z x y] by auto
        then have "f x y = 0" "f y z = 0"
          using \<open>f x y \<le> 0\<close> \<open>f y z \<le> 0\<close> flip(1) [of y x] flip(1) [of z y] by auto
        then show ?thesis using that True trans(2) [of x y z] by (simp add: cmp_then_def)
      qed (use fxz in \<open>simp add: cmp_then_def\<close>)
    qed
  qed
qed

end
