(* ===== verification/Multisig.thy ===== *)
theory Multisig
  imports TextOrder UploadAuth
begin

text \<open>
  The bulletin board for committee signatures: \<open>multisig_sigs_store.ts\<close> and its two routes in
  \<open>routes/multisig_sigs.ts\<close>.  One table holds the published signatures; a row is stored only
  with a signature that verifies, keeps its first time stamp when it is published again, and
  goes a day after it.  Instants are Unix seconds.
\<close>

section \<open>Store\<close>

record multisig_row =
  ms_kind :: jsstring
  ms_key_hex :: jsstring
  ms_digest_hex :: jsstring
  ms_pubkey_hex :: jsstring
  ms_sig_hex :: jsstring
  ms_created_at :: int

definition MULTISIG_KINDS :: "jsstring list" where
  "MULTISIG_KINDS = [js ''settle'', js ''expire'', js ''slash'']"

definition isMultisigKind :: "jsstring \<Rightarrow> bool" where
  "isMultisigKind s \<longleftrightarrow> s \<in> set MULTISIG_KINDS"

text \<open>The primary key.\<close>

definition multisig_id :: "multisig_row \<Rightarrow> jsstring \<times> jsstring \<times> jsstring \<times> jsstring" where
  "multisig_id r = (ms_kind r, ms_key_hex r, ms_digest_hex r, ms_pubkey_hex r)"

definition normalizeHex_multisig :: "json option \<Rightarrow> nat \<Rightarrow> jsstring option" where
  "normalizeHex_multisig input expectedBytes =
     (case input of
        Some (JStr s) \<Rightarrow>
          let raw = (if starts_with s (js ''0x'') then drop 2 s else s)
          in if length raw \<noteq> expectedBytes * 2 then None
             else if raw = [] \<or> \<not> list_all is_any_hex raw then None
             else Some (to_lower raw)
      | _ \<Rightarrow> None)"

text \<open>\<open>row\<close> without its time stamp, which is set here.\<close>

definition upsertMultisigSig :: "multisig_row \<Rightarrow> int \<Rightarrow> multisig_row list \<Rightarrow> int \<times> multisig_row list" where
  "upsertMultisigSig row now t =
     (case sql_get (\<lambda>r. multisig_id r = multisig_id row) t of
        Some existing \<Rightarrow>
          (ms_created_at existing,
           sql_update (\<lambda>r. multisig_id r = multisig_id row) (ms_sig_hex_update (\<lambda>_. ms_sig_hex row)) t)
      | None \<Rightarrow> (now, t @ [row\<lparr>ms_created_at := now\<rparr>]))"

definition cmp_pubkey :: "multisig_row \<Rightarrow> multisig_row \<Rightarrow> int" where
  "cmp_pubkey a b = cmp_text (ms_pubkey_hex a) (ms_pubkey_hex b)"

definition cmp_digest :: "multisig_row \<Rightarrow> multisig_row \<Rightarrow> int" where
  "cmp_digest a b = cmp_text (ms_digest_hex a) (ms_digest_hex b)"

definition listMultisigSigs ::
  "jsstring \<Rightarrow> jsstring \<Rightarrow> jsstring option \<Rightarrow> multisig_row list \<Rightarrow> multisig_row list" where
  "listMultisigSigs kind key digest t =
     (case digest of
        Some d \<Rightarrow> js_sort cmp_pubkey (filter (\<lambda>r. ms_kind r = kind \<and> ms_key_hex r = key \<and> ms_digest_hex r = d) t)
      | None \<Rightarrow> js_sort (cmp_then cmp_digest cmp_pubkey) (filter (\<lambda>r. ms_kind r = kind \<and> ms_key_hex r = key) t))"

definition cleanupMultisigSigs :: "int \<Rightarrow> int \<Rightarrow> multisig_row list \<Rightarrow> multisig_row list" where
  "cleanupMultisigSigs maxAgeSeconds now t = sql_delete (\<lambda>r. ms_created_at r < now - maxAgeSeconds) t"

section \<open>Routes\<close>

datatype multisig_refusal =
    BodyNotObject | PubkeyNotHex | SigNotHex | DigestNotHex | UnknownKind | KeyNotHex | DigestQueryNotHex

definition body_prop :: "jsstring \<Rightarrow> json \<Rightarrow> json option" where
  "body_prop k b = (case b of JObj ps \<Rightarrow> get_prop k ps | _ \<Rightarrow> None)"

definition parseAndValidatePayload ::
  "json option \<Rightarrow> multisig_refusal + jsstring \<times> jsstring \<times> jsstring" where
  "parseAndValidatePayload body =
     (case body of
        Some b \<Rightarrow>
          (case b of
             JArr _ \<Rightarrow> Inl PubkeyNotHex
           | JObj _ \<Rightarrow>
               (case normalizeHex_multisig (body_prop (js ''pubkey'') b) 32 of
                  None \<Rightarrow> Inl PubkeyNotHex
                | Some pubkey \<Rightarrow>
                    (case normalizeHex_multisig (body_prop (js ''sig'') b) 64 of
                       None \<Rightarrow> Inl SigNotHex
                     | Some sig \<Rightarrow>
                         (case normalizeHex_multisig (body_prop (js ''digest'') b) 32 of
                            None \<Rightarrow> Inl DigestNotHex
                          | Some digest \<Rightarrow> Inr (pubkey, sig, digest))))
           | _ \<Rightarrow> Inl BodyNotObject)
      | None \<Rightarrow> Inl BodyNotObject)"

definition parsePathSegments :: "jsstring \<Rightarrow> jsstring \<Rightarrow> multisig_refusal + jsstring \<times> jsstring" where
  "parsePathSegments kindRaw keyRaw =
     (if \<not> isMultisigKind kindRaw then Inl UnknownKind
      else case normalizeHex_multisig (Some (JStr keyRaw)) 32 of
             None \<Rightarrow> Inl KeyNotHex
           | Some key \<Rightarrow> Inr (kindRaw, key))"

datatype multisig_reply =
    MultisigRefused multisig_refusal
  | InvalidSig
  | Stored int
  | SigList jsstring jsstring "multisig_row list"

text \<open>The three conversions and the verification; whatever throws counts as invalid.\<close>

definition sig_verifies :: "polkadot \<Rightarrow> sr25519 \<Rightarrow> jsstring \<Rightarrow> jsstring \<Rightarrow> jsstring \<Rightarrow> bool" where
  "sig_verifies P sr digest sig pubkey =
     (case (hexToU8a P (js ''0x'' @ digest), hexToU8a P (js ''0x'' @ sig), hexToU8a P (js ''0x'' @ pubkey)) of
        (Some d, Some s, Some p) \<Rightarrow> sr d s p = Some True
      | _ \<Rightarrow> False)"

definition postMultisigSig ::
  "polkadot \<Rightarrow> sr25519 \<Rightarrow> int \<Rightarrow> jsstring \<Rightarrow> jsstring \<Rightarrow> json option \<Rightarrow> multisig_row list
   \<Rightarrow> multisig_reply \<times> multisig_row list" where
  "postMultisigSig P sr now kindRaw keyRaw body t =
     (case parsePathSegments kindRaw keyRaw of
        Inl e \<Rightarrow> (MultisigRefused e, t)
      | Inr (kind, key) \<Rightarrow>
          (case parseAndValidatePayload body of
             Inl e \<Rightarrow> (MultisigRefused e, t)
           | Inr (pubkey, sig, digest) \<Rightarrow>
               if \<not> sig_verifies P sr digest sig pubkey then (InvalidSig, t)
               else (let (created, t') = upsertMultisigSig
                           \<lparr>ms_kind = kind, ms_key_hex = key, ms_digest_hex = digest, ms_pubkey_hex = pubkey,
                            ms_sig_hex = sig, ms_created_at = now\<rparr> now t
                     in (Stored (created + 86400), t'))))"

definition getMultisigSigs ::
  "jsstring \<Rightarrow> jsstring \<Rightarrow> jsstring option \<Rightarrow> multisig_row list \<Rightarrow> multisig_reply" where
  "getMultisigSigs kindRaw keyRaw digestQ t =
     (case parsePathSegments kindRaw keyRaw of
        Inl e \<Rightarrow> MultisigRefused e
      | Inr (kind, key) \<Rightarrow>
          (case present digestQ of
             None \<Rightarrow> SigList kind key (listMultisigSigs kind key None t)
           | Some q \<Rightarrow>
               let raw = (if starts_with q (js ''0x'') then drop 2 q else q)
               in if re_any_hex 64 raw then SigList kind key (listMultisigSigs kind key (Some (to_lower raw)) t)
                  else MultisigRefused DigestQueryNotHex))"

section \<open>What the board promises\<close>

datatype multisig_op = PostSig int jsstring jsstring "json option" | CleanupSigs int

fun multisig_step :: "polkadot \<Rightarrow> sr25519 \<Rightarrow> multisig_op \<Rightarrow> multisig_row list \<Rightarrow> multisig_row list" where
  "multisig_step P sr (PostSig now kind key body) t = snd (postMultisigSig P sr now kind key body t)"
| "multisig_step P sr (CleanupSigs now) t = cleanupMultisigSigs 86400 now t"

fun multisig_time :: "multisig_op \<Rightarrow> int" where
  "multisig_time (PostSig now kind key body) = now"
| "multisig_time (CleanupSigs now) = now"

definition multisig_run :: "polkadot \<Rightarrow> sr25519 \<Rightarrow> multisig_op list \<Rightarrow> multisig_row list \<Rightarrow> multisig_row list" where
  "multisig_run P sr ops t = fold (multisig_step P sr) ops t"

definition authentic :: "polkadot \<Rightarrow> sr25519 \<Rightarrow> multisig_row \<Rightarrow> bool" where
  "authentic P sr r \<longleftrightarrow> isMultisigKind (ms_kind r) \<and> re_lower_hex 64 (ms_key_hex r)
     \<and> re_lower_hex 64 (ms_digest_hex r) \<and> re_lower_hex 64 (ms_pubkey_hex r) \<and> re_lower_hex 128 (ms_sig_hex r)
     \<and> sig_verifies P sr (ms_digest_hex r) (ms_sig_hex r) (ms_pubkey_hex r)"

lemma normalize_multisig_shape: "normalizeHex_multisig j n = Some s \<Longrightarrow> re_lower_hex (n * 2) s"
  by (auto simp: normalizeHex_multisig_def Let_def re_any_hex_def intro!: to_lower_hex
      split: option.splits json.splits if_splits)

lemma payload_shape:
  "parseAndValidatePayload body = Inr (pubkey, sig, digest)
   \<Longrightarrow> re_lower_hex 64 pubkey \<and> re_lower_hex 128 sig \<and> re_lower_hex 64 digest"
  using normalize_multisig_shape [of _ 32] normalize_multisig_shape [of _ 64]
  by (fastforce simp: parseAndValidatePayload_def split: option.splits json.splits)

lemma path_shape:
  "parsePathSegments kindRaw keyRaw = Inr (kind, key) \<Longrightarrow> kind = kindRaw \<and> isMultisigKind kind \<and> re_lower_hex 64 key"
  using normalize_multisig_shape [of "Some (JStr keyRaw)" 32]
  by (auto simp: parsePathSegments_def split: option.splits if_splits)

text \<open>What a request that is not refused stores.\<close>

lemma post_cases:
  assumes "postMultisigSig P sr now kindRaw keyRaw body t = (reply, t')"
  obtains (refused) "t' = t" "\<And>e. reply \<noteq> Stored e"
  | (stored) row c where "authentic P sr row" "upsertMultisigSig row now t = (c, t')" "reply = Stored (c + 86400)"
      "parsePathSegments kindRaw keyRaw = Inr (ms_kind row, ms_key_hex row)"
      "parseAndValidatePayload body = Inr (ms_pubkey_hex row, ms_sig_hex row, ms_digest_hex row)"
proof (cases "parsePathSegments kindRaw keyRaw")
  case (Inr kk)
  then obtain kind key where k: "parsePathSegments kindRaw keyRaw = Inr (kind, key)" by (cases kk) auto
  show ?thesis
  proof (cases "parseAndValidatePayload body")
    case (Inr ps)
    then obtain pubkey sig digest where p: "parseAndValidatePayload body = Inr (pubkey, sig, digest)" by (cases ps) auto
    show ?thesis
    proof (cases "sig_verifies P sr digest sig pubkey")
      case True
      let ?row = "\<lparr>ms_kind = kind, ms_key_hex = key, ms_digest_hex = digest, ms_pubkey_hex = pubkey,
                   ms_sig_hex = sig, ms_created_at = now\<rparr>"
      obtain c where "upsertMultisigSig ?row now t = (c, t')" "reply = Stored (c + 86400)"
        using assms k p True by (auto simp: postMultisigSig_def split: prod.splits)
      moreover have "authentic P sr ?row" using payload_shape [OF p] path_shape [OF k] True by (auto simp: authentic_def)
      ultimately show ?thesis using that(2) [of ?row] k p by simp
    qed (use assms k p that(1) in \<open>auto simp: postMultisigSig_def\<close>)
  qed (use assms k that(1) in \<open>auto simp: postMultisigSig_def\<close>)
qed (use assms that(1) in \<open>auto simp: postMultisigSig_def\<close>)

lemma upsert_id: "multisig_id (r\<lparr>ms_sig_hex := s\<rparr>) = multisig_id r" "multisig_id (r\<lparr>ms_created_at := n\<rparr>) = multisig_id r"
  by (simp_all add: multisig_id_def)

lemma upsert_rows:
  assumes "upsertMultisigSig row now t = (c, t')"
  shows "unique_key multisig_id t \<Longrightarrow> unique_key multisig_id t'"
    and "authentic P sr row \<Longrightarrow> list_all (authentic P sr) t \<Longrightarrow> list_all (authentic P sr) t'"
    and "r \<in> set t \<Longrightarrow> \<exists>r' \<in> set t'. multisig_id r' = multisig_id r \<and> ms_created_at r' = ms_created_at r"
    and "\<exists>r' \<in> set t'. multisig_id r' = multisig_id row \<and> ms_created_at r' = c"
proof -
  have "(unique_key multisig_id t \<longrightarrow> unique_key multisig_id t')
    \<and> (authentic P sr row \<longrightarrow> list_all (authentic P sr) t \<longrightarrow> list_all (authentic P sr) t')
    \<and> (r \<in> set t \<longrightarrow> (\<exists>r' \<in> set t'. multisig_id r' = multisig_id r \<and> ms_created_at r' = ms_created_at r))
    \<and> (\<exists>r' \<in> set t'. multisig_id r' = multisig_id row \<and> ms_created_at r' = c)"
  proof (cases "sql_get (\<lambda>r. multisig_id r = multisig_id row) t")
    case None
    then have t': "t' = t @ [row\<lparr>ms_created_at := now\<rparr>]" "c = now" using assms by (auto simp: upsertMultisigSig_def)
    have "authentic P sr row \<longrightarrow> authentic P sr (row\<lparr>ms_created_at := now\<rparr>)" by (simp add: authentic_def)
    then show ?thesis using None by (auto simp: t' sql_get_None unique_key_def upsert_id)
  next
    case (Some e)
    then have t': "t' = sql_update (\<lambda>r. multisig_id r = multisig_id row) (ms_sig_hex_update (\<lambda>_. ms_sig_hex row)) t"
      "c = ms_created_at e" using assms by (simp_all add: upsertMultisigSig_def)
    have "authentic P sr row \<Longrightarrow> authentic P sr x \<Longrightarrow> multisig_id x = multisig_id row
        \<Longrightarrow> authentic P sr (x\<lparr>ms_sig_hex := ms_sig_hex row\<rparr>)" for x
      by (simp add: authentic_def multisig_id_def)
    then have "authentic P sr row \<longrightarrow> list_all (authentic P sr) t \<longrightarrow> list_all (authentic P sr) t'"
      by (auto simp: t' set_sql_update list_all_iff)
    moreover have "unique_key multisig_id t \<longrightarrow> unique_key multisig_id t'" by (auto simp: t' upsert_id)
    moreover have f: "\<exists>r' \<in> set t'. multisig_id r' = multisig_id x \<and> ms_created_at r' = ms_created_at x" if "x \<in> set t" for x
    proof -
      let ?x = "if multisig_id x = multisig_id row then x\<lparr>ms_sig_hex := ms_sig_hex row\<rparr> else x"
      have "?x \<in> set t'" unfolding t' set_sql_update by (rule imageI [OF that])
      moreover have "multisig_id ?x = multisig_id x" "ms_created_at ?x = ms_created_at x" by (simp_all add: upsert_id)
      ultimately show ?thesis by blast
    qed
    moreover have "e \<in> set t" "multisig_id e = multisig_id row" using sql_get_SomeD [OF Some] by auto
    ultimately show ?thesis using f [of e] t'(2) by auto
  qed
  then show "unique_key multisig_id t \<Longrightarrow> unique_key multisig_id t'"
    and "authentic P sr row \<Longrightarrow> list_all (authentic P sr) t \<Longrightarrow> list_all (authentic P sr) t'"
    and "r \<in> set t \<Longrightarrow> \<exists>r' \<in> set t'. multisig_id r' = multisig_id r \<and> ms_created_at r' = ms_created_at r"
    and "\<exists>r' \<in> set t'. multisig_id r' = multisig_id row \<and> ms_created_at r' = c" by blast+
qed

lemma step_rows:
  "unique_key multisig_id t \<Longrightarrow> unique_key multisig_id (multisig_step P sr op t)"
  "list_all (authentic P sr) t \<Longrightarrow> list_all (authentic P sr) (multisig_step P sr op t)"
proof -
  have "(unique_key multisig_id t \<longrightarrow> unique_key multisig_id (multisig_step P sr op t))
    \<and> (list_all (authentic P sr) t \<longrightarrow> list_all (authentic P sr) (multisig_step P sr op t))"
  proof (cases op)
    case (PostSig now kind key body)
    obtain reply t' where p: "postMultisigSig P sr now kind key body t = (reply, t')" by fastforce
    then show ?thesis using post_cases [OF p] upsert_rows(1,2) PostSig by (metis multisig_step.simps(1) snd_conv)
  qed (auto simp: cleanupMultisigSigs_def list_all_iff set_sql_delete)
  then show "unique_key multisig_id t \<Longrightarrow> unique_key multisig_id (multisig_step P sr op t)"
    "list_all (authentic P sr) t \<Longrightarrow> list_all (authentic P sr) (multisig_step P sr op t)" by blast+
qed

lemma run_rows:
  "unique_key multisig_id t \<Longrightarrow> unique_key multisig_id (multisig_run P sr ops t)"
  "list_all (authentic P sr) t \<Longrightarrow> list_all (authentic P sr) (multisig_run P sr ops t)"
  by (induction ops arbitrary: t) (auto simp: multisig_run_def step_rows)

text \<open>C12: Every row of the board, after any sequence of requests and cleanups, is well formed and
  authentic: a known kind, lower-case hex of the right lengths, one row per kind, key, digest
  and signer, and a signature of the signer over exactly the digest it is listed under.\<close>

theorem multisig_rows_authentic:
  "unique_key multisig_id (multisig_run P sr ops []) \<and> list_all (authentic P sr) (multisig_run P sr ops [])"
  using run_rows [where t = "[]"] by (simp add: unique_key_def)

text \<open>A row stays, under its time stamp, as long as no cleanup comes a day after it.\<close>

lemma step_keeps:
  assumes "r \<in> set t" "multisig_time op \<le> ms_created_at r + 86400"
  shows "\<exists>r' \<in> set (multisig_step P sr op t). multisig_id r' = multisig_id r \<and> ms_created_at r' = ms_created_at r"
proof (cases op)
  case (PostSig now kind key body)
  obtain reply t' where p: "postMultisigSig P sr now kind key body t = (reply, t')" by fastforce
  from p show ?thesis
  proof (cases rule: post_cases)
    case (stored x c)
    then show ?thesis using upsert_rows(3) [OF stored(2) assms(1)] p PostSig by simp
  qed (use assms(1) p PostSig in auto)
next
  case (CleanupSigs now)
  then show ?thesis using assms by (auto simp: cleanupMultisigSigs_def set_sql_delete)
qed

lemma run_keeps:
  assumes "r \<in> set t" "\<forall>op \<in> set ops. multisig_time op \<le> ms_created_at r + 86400"
  shows "\<exists>r' \<in> set (multisig_run P sr ops t). multisig_id r' = multisig_id r \<and> ms_created_at r' = ms_created_at r"
  using assms
proof (induction ops arbitrary: t r)
  case (Cons op ops)
  then obtain r' where "r' \<in> set (multisig_step P sr op t)" "multisig_id r' = multisig_id r" "ms_created_at r' = ms_created_at r"
    using step_keeps [of r t op P sr] by auto
  then show ?case using Cons.IH [of r'] Cons.prems by (simp add: multisig_run_def)
qed (auto simp: multisig_run_def)

lemma post_stored:
  assumes "postMultisigSig P sr now kindRaw keyRaw body t = (Stored e, t')"
  shows "\<exists>row. authentic P sr row \<and> upsertMultisigSig row now t = (e - 86400, t')
    \<and> parsePathSegments kindRaw keyRaw = Inr (ms_kind row, ms_key_hex row)
    \<and> parseAndValidatePayload body = Inr (ms_pubkey_hex row, ms_sig_hex row, ms_digest_hex row)"
  using assms by (cases rule: post_cases) auto

text \<open>C19: A signature whose publication was answered with an expiry time is listed for its kind and key
  until then, whatever else is posted or cleaned up: with a signature of the same signer that
  verifies over the same digest, and with the time stamp of its first publication, so posting
  again does not move the expiry.  After that time the next cleanup removes it.\<close>

theorem multisig_listed_until_expiry:
  assumes "postMultisigSig P sr now kindRaw keyRaw body (multisig_run P sr ops0 []) = (Stored e, t)"
    and "\<forall>op \<in> set ops. multisig_time op \<le> e"
    and "parsePathSegments kindRaw keyRaw = Inr (kind, key)" "parseAndValidatePayload body = Inr (pubkey, sig, digest)"
  shows "(\<exists>rs. getMultisigSigs kindRaw keyRaw None (multisig_run P sr ops t) = SigList kind key rs
      \<and> (\<exists>r \<in> set rs. ms_pubkey_hex r = pubkey \<and> ms_digest_hex r = digest \<and> ms_created_at r = e - 86400
           \<and> sig_verifies P sr digest (ms_sig_hex r) pubkey))
    \<and> (e < later \<longrightarrow> (\<forall>r \<in> set (cleanupMultisigSigs 86400 later (multisig_run P sr ops t)).
           multisig_id r \<noteq> (kind, key, digest, pubkey)))"
proof -
  let ?old = "multisig_run P sr ops0 []" and ?t = "multisig_run P sr ops t"
  obtain row where row: "authentic P sr row" "upsertMultisigSig row now ?old = (e - 86400, t)"
    "kind = ms_kind row" "key = ms_key_hex row" "pubkey = ms_pubkey_hex row" "digest = ms_digest_hex row"
    using post_stored [OF assms(1)] assms(3,4) by auto
  have id: "multisig_id row = (kind, key, digest, pubkey)" using row by (simp add: multisig_id_def)
  have "unique_key multisig_id ?old" "list_all (authentic P sr) ?old"
    using run_rows [where t = "[]"] by (simp_all add: unique_key_def)
  then have t: "unique_key multisig_id ?t" "list_all (authentic P sr) ?t"
    using upsert_rows(1,2) [OF row(2)] row(1) run_rows [where t = t] by blast+
  obtain r0 where "r0 \<in> set t" "multisig_id r0 = multisig_id row" "ms_created_at r0 = e - 86400"
    using upsert_rows(4) [OF row(2)] by blast
  then obtain r where r: "r \<in> set ?t" "multisig_id r = multisig_id row" "ms_created_at r = e - 86400"
    using run_keeps [of r0 t ops P sr] assms(2) by auto
  have auth: "authentic P sr r" using t(2) r(1) by (simp add: list_all_iff)
  have g: "getMultisigSigs kindRaw keyRaw None ?t = SigList kind key (listMultisigSigs kind key None ?t)"
    using assms(3) by (simp add: getMultisigSigs_def present_def)
  have f: "ms_kind r = kind" "ms_key_hex r = key" "ms_digest_hex r = digest" "ms_pubkey_hex r = pubkey"
    using r(2) id by (simp_all add: multisig_id_def)
  have l: "r \<in> set (listMultisigSigs kind key None ?t)" using f r(1) by (simp add: listMultisigSigs_def)
  have v: "sig_verifies P sr digest (ms_sig_hex r) pubkey" using auth f by (simp add: authentic_def)
  have u: "x = r" if "x \<in> set ?t" "multisig_id x = multisig_id r" for x
    using that r(1) t(1) by (auto simp: unique_key_def distinct_map dest: inj_onD)
  have "multisig_id x \<noteq> (kind, key, digest, pubkey)" if "e < later" "x \<in> set (cleanupMultisigSigs 86400 later ?t)" for x
    using that u [of x] r(2,3) id by (auto simp: cleanupMultisigSigs_def set_sql_delete)
  moreover have "\<exists>x \<in> set (listMultisigSigs kind key None ?t). ms_pubkey_hex x = pubkey \<and> ms_digest_hex x = digest
      \<and> ms_created_at x = e - 86400 \<and> sig_verifies P sr digest (ms_sig_hex x) pubkey"
    using l f(3,4) r(3) v by (intro bexI [of _ r]) simp_all
  ultimately show ?thesis unfolding g by simp
qed

definition sample_payload :: json where
  "sample_payload = JObj [(js ''pubkey'', JStr (replicate 64 0x61)), (js ''sig'', JStr (replicate 128 0x62)),
     (js ''digest'', JStr (js ''0x'' @ replicate 64 0x63))]"

lemma normalize_replicate:
  assumes "is_lower_hex c" "0 < n" "c \<noteq> 0x30"
  shows "normalizeHex_multisig (Some (JStr (replicate (2 * n) c))) n = Some (replicate (2 * n) c)"
    and "normalizeHex_multisig (Some (JStr (js ''0x'' @ replicate (2 * n) c))) n = Some (replicate (2 * n) c)"
proof -
  have c: "is_any_hex c" "\<not> starts_with (replicate (2 * n) c) (js ''0x'')"
    using assms starts_with_replicate [of c "js ''0x''" "2 * n"] by (simp_all add: is_any_hex_def js_eval)
  have l: "to_lower (replicate (2 * n) c) = replicate (2 * n) c"
    using re_lower_hex_replicate [OF assms(1)] by (rule to_lower_hex_id)
  show "normalizeHex_multisig (Some (JStr (replicate (2 * n) c))) n = Some (replicate (2 * n) c)"
    "normalizeHex_multisig (Some (JStr (js ''0x'' @ replicate (2 * n) c))) n = Some (replicate (2 * n) c)"
    using c l assms(2) by (simp_all add: normalizeHex_multisig_def list_all_iff js_eval)
qed

lemma sample_payload_parses:
  "parseAndValidatePayload (Some sample_payload) = Inr (replicate 64 0x61, replicate 128 0x62, replicate 64 0x63)"
  using normalize_replicate [where c = "0x61" and n = 32] normalize_replicate [where c = "0x62" and n = 64] normalize_replicate [where c = "0x63" and n = 32]
  by (simp add: parseAndValidatePayload_def sample_payload_def body_prop_def get_prop_def js_eq_iff is_lower_hex_def)

lemma sample_path: "parsePathSegments (js ''slash'') (replicate 64 0x64) = Inr (js ''slash'', replicate 64 0x64)"
  using normalize_replicate [where c = "0x64" and n = 32]
  by (simp add: parsePathSegments_def isMultisigKind_def MULTISIG_KINDS_def is_lower_hex_def)

theorem multisig_listed_until_expiry_witness:
  "\<exists>t rs. postMultisigSig polkadot_sample sr_any 100 (js ''slash'') (replicate 64 0x64) (Some sample_payload) [] = (Stored 86500, t)
     \<and> getMultisigSigs (js ''slash'') (replicate 64 0x64) None
         (multisig_run polkadot_sample sr_any [CleanupSigs 86500, PostSig 86500 (js ''slash'') (replicate 64 0x64) (Some sample_payload)] t)
       = SigList (js ''slash'') (replicate 64 0x64) rs
     \<and> (\<exists>r \<in> set rs. ms_pubkey_hex r = replicate 64 0x61 \<and> ms_created_at r = 100)"
proof -
  have v: "sig_verifies polkadot_sample sr_any d s p" for d s p
    by (simp add: sig_verifies_def polkadot_sample_def sr_any_def)
  obtain t where p: "postMultisigSig polkadot_sample sr_any 100 (js ''slash'') (replicate 64 0x64) (Some sample_payload)
      (multisig_run polkadot_sample sr_any [] []) = (Stored 86500, t)"
    by (simp add: postMultisigSig_def sample_path sample_payload_parses v upsertMultisigSig_def multisig_run_def sql_get_def)
  have "\<forall>op \<in> set [CleanupSigs 86500, PostSig 86500 (js ''slash'') (replicate 64 0x64) (Some sample_payload)]. multisig_time op \<le> 86500"
    by simp
  note l = multisig_listed_until_expiry [OF p this sample_path sample_payload_parses, of 0]
  have "postMultisigSig polkadot_sample sr_any 100 (js ''slash'') (replicate 64 0x64) (Some sample_payload) [] = (Stored 86500, t)"
    using p by (simp add: multisig_run_def)
  moreover from l obtain rs r where "getMultisigSigs (js ''slash'') (replicate 64 0x64) None
         (multisig_run polkadot_sample sr_any [CleanupSigs 86500, PostSig 86500 (js ''slash'') (replicate 64 0x64) (Some sample_payload)] t)
       = SigList (js ''slash'') (replicate 64 0x64) rs" "r \<in> set rs" "ms_pubkey_hex r = replicate 64 0x61" "ms_created_at r = 86500 - 86400"
    by blast
  moreover have "(86500 :: int) - 86400 = 100" by simp
  ultimately show ?thesis by metis
qed

end
