(* ===== verification/JsonText.thy ===== *)
theory JsonText
  imports JsText UploadAuth EvidencePayload BlobStore
begin

text \<open>
  \<open>JSON.parse\<close>, base64 and the decoding of buffers, as the billing cursor and the readers of
  stored files use them.  A text is split into tokens, and the tokens are reduced with a stack.
  What Node makes of text that is no base64, or of octets that are not ASCII, is an argument.
\<close>

section \<open>Tokens\<close>

datatype jtoken = TLBrace | TRBrace | TLBracket | TRBracket | TColon | TComma | TStr jsstring | TVal json

definition is_json_space :: "u16 \<Rightarrow> bool" where
  "is_json_space c \<longleftrightarrow> c = 0x20 \<or> c = 0x09 \<or> c = 0x0A \<or> c = 0x0D"

text \<open>The characters of numbers; in JSON text none of them can follow a number directly.\<close>

definition is_number_unit :: "u16 \<Rightarrow> bool" where
  "is_number_unit c \<longleftrightarrow> is_digit_u16 c \<or> c = 0x2D \<or> c = 0x2B \<or> c = 0x2E \<or> c = 0x65 \<or> c = 0x45"

text \<open>\<open>-?(0|[1-9][0-9]*)([.][0-9]+)?([eE][+-]?[0-9]+)?\<close>\<close>

definition exponent_ok :: "jsstring \<Rightarrow> bool" where
  "exponent_ok s =
     (case s of
        [] \<Rightarrow> True
      | e # r \<Rightarrow>
          (e = 0x65 \<or> e = 0x45)
          \<and> (let ds = (case r of [] \<Rightarrow> [] | d # r' \<Rightarrow> if d = 0x2B \<or> d = 0x2D then r' else r)
             in ds \<noteq> [] \<and> list_all is_digit_u16 ds))"

definition fraction_ok :: "jsstring \<Rightarrow> bool" where
  "fraction_ok s =
     (case s of
        [] \<Rightarrow> True
      | c # r \<Rightarrow>
          if c = 0x2E then takeWhile is_digit_u16 r \<noteq> [] \<and> exponent_ok (dropWhile is_digit_u16 r)
          else exponent_ok s)"

definition is_json_number :: "jsstring \<Rightarrow> bool" where
  "is_json_number s =
     (let u = (if s \<noteq> [] \<and> hd s = 0x2D then tl s else s);
          ds = takeWhile is_digit_u16 u
      in ds \<noteq> [] \<and> (hd ds = 0x30 \<longrightarrow> length ds = 1) \<and> fraction_ok (dropWhile is_digit_u16 u))"

definition hex_unit :: "u16 \<Rightarrow> nat option" where
  "hex_unit c =
     (if is_digit_u16 c then Some (unat c - 0x30)
      else if 0x61 \<le> c \<and> c \<le> 0x66 then Some (unat c - 0x57)
      else if 0x41 \<le> c \<and> c \<le> 0x46 then Some (unat c - 0x37) else None)"

definition short_escape :: "u16 \<Rightarrow> u16 option" where
  "short_escape c =
     map_of [(0x22, 0x22), (0x5C, 0x5C), (0x2F, 0x2F), (0x62, 0x08), (0x66, 0x0C), (0x6E, 0x0A), (0x72, 0x0D),
             (0x74, 0x09)] c"

text \<open>The rest of a string after its opening quote, and what follows the closing one.\<close>

fun lex_string :: "jsstring \<Rightarrow> (jsstring \<times> jsstring) option" where
  "lex_string [] = None"
| "lex_string (c # s) =
     (if c = 0x22 then Some ([], s)
      else if c < 0x20 then None
      else if c = 0x5C then
        (case s of
           [] \<Rightarrow> None
         | e # r \<Rightarrow>
             if e = 0x75 then
               (case r of
                  h1 # h2 # h3 # h4 # r' \<Rightarrow>
                    (case (hex_unit h1, hex_unit h2, hex_unit h3, hex_unit h4) of
                       (Some a, Some b, Some d, Some f) \<Rightarrow>
                         map_option (apfst (Cons (of_nat (((a * 16 + b) * 16 + d) * 16 + f)))) (lex_string r')
                     | _ \<Rightarrow> None)
                | _ \<Rightarrow> None)
             else (case short_escape e of
                     None \<Rightarrow> None
                   | Some x \<Rightarrow> map_option (apfst (Cons x)) (lex_string r)))
      else map_option (apfst (Cons c)) (lex_string s))"

lemma lex_string_shorter: "lex_string s = Some (x, r) \<Longrightarrow> length r < length s"
proof (induction s arbitrary: x rule: lex_string.induct)
  case (2 c s)
  then show ?case
    by (fastforce split: if_splits list.splits option.splits)
qed simp

definition punctuation :: "u16 \<Rightarrow> jtoken option" where
  "punctuation c =
     map_of [(0x7B, TLBrace), (0x7D, TRBrace), (0x5B, TLBracket), (0x5D, TRBracket), (0x3A, TColon), (0x2C, TComma)] c"

definition literal :: "jsstring \<Rightarrow> (json \<times> nat) option" where
  "literal s =
     (if starts_with s (js ''null'') then Some (JNull, 4)
      else if starts_with s (js ''true'') then Some (JBool True, 4)
      else if starts_with s (js ''false'') then Some (JBool False, 5) else None)"

function lex_json :: "js_text \<Rightarrow> jsstring \<Rightarrow> jtoken list option" where
  "lex_json T [] = Some []"
| "lex_json T (c # s) =
     (if is_json_space c then lex_json T s
      else case punctuation c of
        Some t \<Rightarrow> map_option (Cons t) (lex_json T s)
      | None \<Rightarrow>
          if c = 0x22 then
            (case lex_string s of
               None \<Rightarrow> None
             | Some (x, r) \<Rightarrow> map_option (Cons (TStr x)) (lex_json T r))
          else if is_digit_u16 c \<or> c = 0x2D then
            (let n = takeWhile is_number_unit (c # s)
             in if is_json_number n
                then map_option (Cons (TVal (JNum (text_number T n)))) (lex_json T (dropWhile is_number_unit s))
                else None)
          else (case literal (c # s) of
                  None \<Rightarrow> None
                | Some (v, k) \<Rightarrow> map_option (Cons (TVal v)) (lex_json T (drop (k - 1) s))))"
  by pat_completeness auto
termination
  by (relation "measure (\<lambda>(T, s). length s)")
    (auto dest: lex_string_shorter simp: literal_def le_imp_less_Suc length_dropWhile_le split: if_splits)

declare lex_json.simps [simp del]

section \<open>Values\<close>

text \<open>Whether a property name is an array index: such names come first, in the order of their numbers.\<close>

definition array_index :: "jsstring \<Rightarrow> nat option" where
  "array_index k =
     (if k \<noteq> [] \<and> list_all is_digit_u16 k \<and> (hd k = 0x30 \<longrightarrow> length k = 1)
      then (let n = nat (fold (\<lambda>c n. n * 10 + (int (unat c) - 0x30)) k 0) in if n < 4294967295 then Some n else None)
      else None)"

fun insert_prop :: "jsstring \<Rightarrow> json \<Rightarrow> (jsstring \<times> json) list \<Rightarrow> (jsstring \<times> json) list" where
  "insert_prop k v [] = [(k, v)]"
| "insert_prop k v ((k', v') # ps) =
     (case (array_index k, array_index k') of
        (Some m, Some n) \<Rightarrow> if m < n then (k, v) # (k', v') # ps else (k', v') # insert_prop k v ps
      | (Some m, None) \<Rightarrow> (k, v) # (k', v') # ps
      | _ \<Rightarrow> (k', v') # insert_prop k v ps)"

text \<open>A second property of the same name takes the place of the first.\<close>

definition put_prop :: "jsstring \<Rightarrow> json \<Rightarrow> (jsstring \<times> json) list \<Rightarrow> (jsstring \<times> json) list" where
  "put_prop k v ps =
     (if k \<in> fst ` set ps then map (\<lambda>(k', v'). (k', if k' = k then v else v')) ps else insert_prop k v ps)"

datatype frame = InArray "json list" | InObject "(jsstring \<times> json) list" jsstring

datatype mode =
    WantValue
  | WantValueOrEnd
  | WantKey "(jsstring \<times> json) list"
  | WantKeyOrEnd
  | WantColon "(jsstring \<times> json) list" jsstring
  | Have json

fun json_step :: "frame list \<times> mode \<Rightarrow> jtoken \<Rightarrow> (frame list \<times> mode) option" where
  "json_step (st, WantValue) (TVal v) = Some (st, Have v)"
| "json_step (st, WantValue) (TStr s) = Some (st, Have (JStr s))"
| "json_step (st, WantValue) TLBracket = Some (st, WantValueOrEnd)"
| "json_step (st, WantValue) TLBrace = Some (st, WantKeyOrEnd)"
| "json_step (st, WantValueOrEnd) TRBracket = Some (st, Have (JArr []))"
| "json_step (st, WantValueOrEnd) (TVal v) = Some (InArray [] # st, Have v)"
| "json_step (st, WantValueOrEnd) (TStr s) = Some (InArray [] # st, Have (JStr s))"
| "json_step (st, WantValueOrEnd) TLBracket = Some (InArray [] # st, WantValueOrEnd)"
| "json_step (st, WantValueOrEnd) TLBrace = Some (InArray [] # st, WantKeyOrEnd)"
| "json_step (st, WantKeyOrEnd) TRBrace = Some (st, Have (JObj []))"
| "json_step (st, WantKeyOrEnd) (TStr k) = Some (st, WantColon [] k)"
| "json_step (st, WantKey ps) (TStr k) = Some (st, WantColon ps k)"
| "json_step (st, WantColon ps k) TColon = Some (InObject ps k # st, WantValue)"
| "json_step (InArray vs # st, Have v) TComma = Some (InArray (vs @ [v]) # st, WantValue)"
| "json_step (InArray vs # st, Have v) TRBracket = Some (st, Have (JArr (vs @ [v])))"
| "json_step (InObject ps k # st, Have v) TComma = Some (st, WantKey (put_prop k v ps))"
| "json_step (InObject ps k # st, Have v) TRBrace = Some (st, Have (JObj (put_prop k v ps)))"
| "json_step _ _ = None"

fun json_run :: "frame list \<times> mode \<Rightarrow> jtoken list \<Rightarrow> json option" where
  "json_run (st, m) [] = (case (st, m) of ([], Have v) \<Rightarrow> Some v | _ \<Rightarrow> None)"
| "json_run s (t # ts) = (case json_step s t of None \<Rightarrow> None | Some s' \<Rightarrow> json_run s' ts)"

text \<open>\<open>JSON.parse\<close>; \<open>None\<close> where it throws.\<close>

definition json_parse :: "js_text \<Rightarrow> jsstring \<Rightarrow> json option" where
  "json_parse T s = (case lex_json T s of None \<Rightarrow> None | Some ts \<Rightarrow> json_run ([], WantValue) ts)"

section \<open>Base64 and buffers\<close>

record js_host =
  other_base64 :: "jsstring \<Rightarrow> bytes"
  other_utf8 :: "bytes \<Rightarrow> jsstring"

definition sextet_unit :: "nat \<Rightarrow> u16" where
  "sextet_unit n =
     (if n < 26 then of_nat (0x41 + n) else if n < 52 then of_nat (0x61 + (n - 26))
      else if n < 62 then of_nat (0x30 + (n - 52)) else if n = 62 then 0x2B else 0x2F)"

fun to_sextets :: "bytes \<Rightarrow> nat list" where
  "to_sextets (a # b # c # r) =
     (unat a div 4) # (unat a mod 4 * 16 + unat b div 16) # (unat b mod 16 * 4 + unat c div 64) # (unat c mod 64)
     # to_sextets r"
| "to_sextets [a, b] = [unat a div 4, unat a mod 4 * 16 + unat b div 16, unat b mod 16 * 4]"
| "to_sextets [a] = [unat a div 4, unat a mod 4 * 16]"
| "to_sextets [] = []"

text \<open>\<open>toString("base64")\<close>: padded with \<open>=\<close> to a multiple of four.\<close>

definition base64_text :: "bytes \<Rightarrow> jsstring" where
  "base64_text bs =
     (let s = map sextet_unit (to_sextets bs) in s @ replicate ((4 - length s mod 4) mod 4) 0x3D)"

definition base64_octets :: "js_host \<Rightarrow> jsstring \<Rightarrow> bytes" where
  "base64_octets H s =
     (if BASE64_REGEX s then from_sextets (List.map_filter sextet s) else other_base64 H s)"

text \<open>\<open>toString("utf-8")\<close>\<close>

definition utf8_text :: "js_host \<Rightarrow> bytes \<Rightarrow> jsstring" where
  "utf8_text H bs = (if list_all (\<lambda>b. b < 0x80) bs then map ucast bs else other_utf8 H bs)"

section \<open>Base64 can be read back\<close>

lemma sextet_of_unit: "n < 64 \<Longrightarrow> sextet (sextet_unit n) = Some n"
proof -
  have "list_all (\<lambda>n. sextet (sextet_unit n) = Some n) [0..<64]" by code_simp
  then show "n < 64 \<Longrightarrow> sextet (sextet_unit n) = Some n" by (simp add: list_all_iff)
qed

lemma octet_bound: "unat (b :: u8) < 256"
  proof -
  have "unat b < 2 ^ LENGTH(8)" by (rule unsigned_less)
  then show ?thesis by simp
qed

lemma octet_div: "unat (b :: u8) div 4 < 64" "unat b div 16 < 16" "unat b div 64 < 4"
  using octet_bound [of b] by (simp_all add: less_mult_imp_div_less)

lemma to_sextets_less: "list_all (\<lambda>n. n < 64) (to_sextets bs)"
proof (induction bs rule: to_sextets.induct)
  case (1 a b c r)
  have "unat a mod 4 * 16 + unat b div 16 < 64" "unat b mod 16 * 4 + unat c div 64 < 64"
    using octet_div(2) [of b] octet_div(3) [of c] mod_less_divisor [of 4 "unat a"] mod_less_divisor [of 16 "unat b"] by linarith+
  then show ?case using 1 octet_div(1) by simp
next
  case (2 a b)
  have "unat a mod 4 * 16 + unat b div 16 < 64" "unat b mod 16 * 4 < 64"
    using octet_div(2) [of b] mod_less_divisor [of 4 "unat a"] mod_less_divisor [of 16 "unat b"] by linarith+
  then show ?case using octet_div(1) by simp
next
  case (3 a)
  have "unat a mod 4 * 16 < 64" using mod_less_divisor [of 4 "unat a"] by linarith
  then show ?case using octet_div(1) by simp
qed simp

lemma octet_parts:
  fixes a b c :: u8
  shows "of_nat (4 * (unat a div 4) + (unat a mod 4 * 16 + unat b div 16) div 16) = a"
    and "of_nat (16 * ((unat a mod 4 * 16 + unat b div 16) mod 16) + (unat b mod 16 * 4 + unat c div 64) div 4) = b"
    and "of_nat (64 * ((unat b mod 16 * 4 + unat c div 64) mod 4) + unat c mod 64) = c"
    and "of_nat (4 * (unat a div 4) + unat a mod 4 * 16 div 16) = a"
    and "of_nat (16 * ((unat a mod 4 * 16 + unat b div 16) mod 16) + unat b mod 16 * 4 div 4) = b"
proof -
  have b: "unat b div 16 < 16" "unat c div 64 < 4"
    by (rule octet_div)+
  show "of_nat (4 * (unat a div 4) + (unat a mod 4 * 16 + unat b div 16) div 16) = a"
    "of_nat (16 * ((unat a mod 4 * 16 + unat b div 16) mod 16) + (unat b mod 16 * 4 + unat c div 64) div 4) = b"
    "of_nat (64 * ((unat b mod 16 * 4 + unat c div 64) mod 4) + unat c mod 64) = c"
    "of_nat (4 * (unat a div 4) + unat a mod 4 * 16 div 16) = a"
    "of_nat (16 * ((unat a mod 4 * 16 + unat b div 16) mod 16) + unat b mod 16 * 4 div 4) = b"
    using b by (simp_all del: of_nat_add of_nat_mult)
qed

lemma from_to_sextets: "from_sextets (to_sextets bs) = bs"
  by (induction bs rule: to_sextets.induct) (simp_all only: to_sextets.simps from_sextets.simps octet_parts)

lemma map_filter_sextets: "list_all (\<lambda>n. n < 64) ns \<Longrightarrow> List.map_filter sextet (map sextet_unit ns @ replicate k 0x3D) = ns"
proof -
  assume "list_all (\<lambda>n. n < 64) ns"
  moreover have "sextet 0x3D = None" by code_simp
  ultimately show ?thesis
    by (induction ns) (auto simp: map_filter_simps sextet_of_unit map_filter_def)
qed

lemma base64_regex:
  assumes "list_all (\<lambda>n. n < 64) ns" "k \<le> 2"
  shows "BASE64_REGEX (map sextet_unit ns @ replicate k 0x3D)"
proof -
  have "sextet 0x3D = None" by code_simp
  then have "dropWhile (\<lambda>c. sextet c \<noteq> None) (replicate k 0x3D) = replicate k 0x3D" by (cases k) simp_all
  then have "dropWhile (\<lambda>c. sextet c \<noteq> None) (map sextet_unit ns @ replicate k 0x3D) = replicate k 0x3D"
    using assms(1) by (induction ns) (auto simp: sextet_of_unit)
  then show ?thesis using assms(2) by (simp add: BASE64_REGEX_def list_all_iff)
qed

lemma length_to_sextets: "length (to_sextets bs) mod 4 \<noteq> 1"
  by (induction bs rule: to_sextets.induct) simp_all

section \<open>Parsing what was printed\<close>

text \<open>What is relied on for numbers: the text of a finite number is one of JSON, and denotes it.\<close>

definition numbers_documented :: "js_text \<Rightarrow> bool" where
  "numbers_documented T \<longleftrightarrow>
     (\<forall>x. f64_finite x \<longrightarrow> is_json_number (number_text T x) \<and> list_all is_number_unit (number_text T x)
        \<and> JNum (text_number T (number_text T x)) = json_reparse (JNum x))"

definition key_before :: "jsstring \<Rightarrow> jsstring \<Rightarrow> bool" where
  "key_before k k' \<longleftrightarrow> k \<noteq> k' \<and>
     (case (array_index k, array_index k') of (Some m, Some n) \<Rightarrow> \<not> n < m | (None, Some _) \<Rightarrow> False | _ \<Rightarrow> True)"

fun json_wf :: "json \<Rightarrow> bool" where
  "json_wf (JArr vs) = list_all json_wf vs"
| "json_wf (JObj ps) = (sorted_wrt key_before (map fst ps) \<and> list_all (\<lambda>(k, v). json_wf v) ps)"
| "json_wf _ = True"

fun json_tokens :: "json \<Rightarrow> jtoken list"
  and elem_tokens :: "json list \<Rightarrow> jtoken list"
  and member_tokens :: "(jsstring \<times> json) list \<Rightarrow> jtoken list" where
  "json_tokens (JStr s) = [TStr s]"
| "json_tokens (JArr vs) = TLBracket # elem_tokens vs @ [TRBracket]"
| "json_tokens (JObj ps) = TLBrace # member_tokens ps @ [TRBrace]"
| "json_tokens v = [TVal (json_reparse v)]"
| "elem_tokens [] = []"
| "elem_tokens (v # vs) = json_tokens v @ (if vs = [] then [] else TComma # elem_tokens vs)"
| "member_tokens [] = []"
| "member_tokens ((k, v) # ps) =
     TStr k # TColon # json_tokens v @ (if ps = [] then [] else TComma # member_tokens ps)"

lemma insert_prop_last:
  "\<forall>p \<in> set ps. key_before (fst p) k \<Longrightarrow> insert_prop k v ps = ps @ [(k, v)]"
  by (induction ps) (auto simp: key_before_def split: option.splits prod.splits)

lemma put_prop_last: "\<forall>p \<in> set ps. key_before (fst p) k \<Longrightarrow> put_prop k v ps = ps @ [(k, v)]"
proof -
  assume a: "\<forall>p \<in> set ps. key_before (fst p) k"
  then have "k \<notin> fst ` set ps" by (auto simp: key_before_def)
  then show ?thesis using insert_prop_last [OF a] by (simp add: put_prop_def)
qed

lemma run_value_or_end:
  "t \<noteq> TRBracket \<Longrightarrow> json_run (st, WantValueOrEnd) (t # ts) = json_run (InArray [] # st, WantValue) (t # ts)"
  by (cases t) simp_all

lemma json_tokens_first: "\<exists>t ts. json_tokens v = t # ts \<and> t \<noteq> TRBracket"
  by (cases v) auto

lemma run_tokens:
  "json_wf v \<Longrightarrow> json_run (st, WantValue) (json_tokens v @ ts) = json_run (st, Have (json_reparse v)) ts"
  "vs \<noteq> [] \<Longrightarrow> list_all json_wf vs \<Longrightarrow> json_run (InArray acc # st, WantValue) (elem_tokens vs @ TRBracket # ts)
     = json_run (st, Have (JArr (acc @ map json_reparse vs))) ts"
  "ps \<noteq> [] \<Longrightarrow> list_all (\<lambda>(k, v). json_wf v) ps \<Longrightarrow> sorted_wrt key_before (map fst (pre @ ps))
     \<Longrightarrow> m = WantKey pre \<or> m = WantKeyOrEnd \<and> pre = []
     \<Longrightarrow> json_run (st, m) (member_tokens ps @ TRBrace # ts)
     = json_run (st, Have (JObj (pre @ map (\<lambda>(k, v). (k, json_reparse v)) ps))) ts"
proof (induction v and vs and ps arbitrary: st ts and acc st ts and pre m st ts
    rule: json_tokens_elem_tokens_member_tokens.induct)
  case (2 vs)
  show ?case
  proof (cases vs)
    case (Cons v vs')
    obtain t rest where t: "elem_tokens vs = t # rest" "t \<noteq> TRBracket"
      using json_tokens_first [of v] by (auto simp: Cons)
    have "json_run (st, WantValueOrEnd) (elem_tokens vs @ TRBracket # ts)
        = json_run (InArray [] # st, WantValue) (elem_tokens vs @ TRBracket # ts)"
      unfolding t(1) append_Cons by (rule run_value_or_end [OF t(2)])
    also have "\<dots> = json_run (st, Have (JArr ([] @ map json_reparse vs))) ts" using 2 Cons by (intro "2.IH") simp_all
    finally show ?thesis by simp
  qed simp
next
  case (3 ps)
  then show ?case
  proof (cases "ps = []")
    case False
    then show ?thesis using "3.IH" [where pre = "[]" and m = WantKeyOrEnd and st = st and ts = ts] "3.prems" by simp
  qed simp
next
  case (6 v vs)
  then show ?case by (cases "vs = []") auto
next
  case (8 k v ps)
  have put: "put_prop k w pre = pre @ [(k, w)]" for w
    using "8.prems"(3) by (intro put_prop_last) (auto simp: sorted_wrt_append)
  show ?case
  proof (cases "ps = []")
    case True
    then show ?thesis using 8 put by auto
  next
    case False
    have "json_run (st, WantKey (pre @ [(k, json_reparse v)])) (member_tokens ps @ TRBrace # ts)
      = json_run (st, Have (JObj ((pre @ [(k, json_reparse v)]) @ map (\<lambda>(k, v). (k, json_reparse v)) ps))) ts"
      using False "8.prems" by (intro "8.IH"(2)) auto
    then show ?thesis using 8 False put by auto
  qed
qed simp_all

lemma hex_unit_digit: "n < 16 \<Longrightarrow> hex_unit (hex_digit n) = Some n"
proof -
  have "list_all (\<lambda>n. hex_unit (hex_digit n) = Some n) [0..<16]" by code_simp
  then show "n < 16 \<Longrightarrow> hex_unit (hex_digit n) = Some n" by (simp add: list_all_iff)
qed

lemma nibbles:
  fixes n :: nat
  assumes "n < 65536"
  shows "((n div 4096 mod 16 * 16 + n div 256 mod 16) * 16 + n div 16 mod 16) * 16 + n mod 16 = n"
proof -
  have d: "n div 256 = n div 16 div 16" "n div 4096 = n div 16 div 16 div 16"
    by (simp_all flip: div_mult2_eq)
  have "n div 4096 < 16" using assms by (simp add: less_mult_imp_div_less)
  then have "n div 4096 mod 16 = n div 4096" by (rule mod_less)
  then have "n div 4096 mod 16 * 16 + n div 256 mod 16 = n div 256"
    using div_mult_mod_eq [of "n div 16 div 16" 16] by (simp only: d)
  then show ?thesis
    using div_mult_mod_eq [of n 16] div_mult_mod_eq [of "n div 16" 16] by (simp only: d)
qed

lemma unit_bound: "unat (c :: u16) < 65536"
proof -
  have "unat c < 2 ^ LENGTH(16)" by (rule unsigned_less)
  then show ?thesis by simp
qed

lemma lex_unicode_escape: "lex_string (unicode_escape c @ rest) = map_option (apfst (Cons c)) (lex_string rest)"
proof -
  have "(of_nat (((unat c div 4096 mod 16 * 16 + unat c div 256 mod 16) * 16 + unat c div 16 mod 16) * 16 + unat c mod 16) :: u16) = c"
    by (simp only: nibbles [OF unit_bound]) simp
  then show ?thesis
    by (simp add: unicode_escape_def hex_unit_digit del: of_nat_add of_nat_mult)
qed

lemma lex_quote_unit: "lex_string (quote_unit c @ rest) = map_option (apfst (Cons c)) (lex_string rest)"
proof -
  have s: "short_escape 0x22 = Some 0x22" "short_escape 0x5C = Some 0x5C" "short_escape 0x62 = Some 0x08"
    "short_escape 0x74 = Some 0x09" "short_escape 0x6E = Some 0x0A" "short_escape 0x66 = Some 0x0C"
    "short_escape 0x72 = Some 0x0D"
    by code_simp+
  show ?thesis
    using lex_unicode_escape [of c rest] by (auto simp: quote_unit_def s)
qed

lemma lex_quote_units: "lex_string (quote_units s @ 0x22 # r) = Some (s, r)"
proof (induction s rule: quote_units.induct)
  case (3 c d s)
  have "\<not> is_high_surrogate 0x22" "\<not> is_high_surrogate 0x5C" "\<not> is_low_surrogate 0x22" "\<not> is_low_surrogate 0x5C" by code_simp+
  then have raw: "x \<noteq> 0x22 \<and> \<not> x < 0x20 \<and> x \<noteq> 0x5C" if "is_high_surrogate x \<or> is_low_surrogate x" for x
    using that by (auto simp: is_high_surrogate_def is_low_surrogate_def word_le_nat_alt word_less_nat_alt)
  show ?case
  proof (cases "is_high_surrogate c \<and> is_low_surrogate d")
    case True
    then show ?thesis using 3(1) raw [of c] raw [of d] by simp
  next
    case False
    then have "quote_units (c # d # s) = quote_unit c @ quote_units (d # s)" by auto
    then show ?thesis using 3(2) [OF False] by (simp only: append_assoc lex_quote_unit) simp
  qed
qed (simp_all add: lex_quote_unit)

definition no_number_head :: "jsstring \<Rightarrow> bool" where
  "no_number_head s \<longleftrightarrow> s = [] \<or> \<not> is_number_unit (hd s)"

lemma lex_number:
  assumes "is_json_number n" "list_all is_number_unit n" "no_number_head rest"
  shows "lex_json T (n @ rest) = map_option (Cons (TVal (JNum (text_number T n)))) (lex_json T rest)"
proof -
  obtain c n' where n: "n = c # n'" "is_digit_u16 c \<or> c = 0x2D"
    using assms(1) by (cases n) (auto simp: is_json_number_def Let_def split: if_splits)
  have c: "\<not> is_json_space c" "punctuation c = None" "c \<noteq> 0x22"
    using n(2) by (auto simp: is_digit_u16_def is_json_space_def punctuation_def word_le_nat_alt)
  have t: "takeWhile is_number_unit (c # n' @ rest) = c # n'" "dropWhile is_number_unit (n' @ rest) = rest"
    using assms(2,3) n(1) by (cases rest; auto simp: no_number_head_def list_all_iff takeWhile_append2 dropWhile_append2)+
  show ?thesis
    using c t n assms(1) by (simp add: lex_json.simps Let_def)
qed

lemma lex_literals:
  "lex_json T (js ''null'' @ rest) = map_option (Cons (TVal JNull)) (lex_json T rest)"
  "lex_json T (js ''true'' @ rest) = map_option (Cons (TVal (JBool True))) (lex_json T rest)"
  "lex_json T (js ''false'' @ rest) = map_option (Cons (TVal (JBool False))) (lex_json T rest)"
  by (simp_all add: js_eval lex_json.simps literal_def is_json_space_def punctuation_def is_digit_u16_def)

lemma lex_bool: "lex_json T (bool_text b @ rest) = map_option (Cons (TVal (JBool b))) (lex_json T rest)"
  by (cases b) (simp_all add: bool_text_def lex_literals)

lemma lex_stringify_num:
  assumes "numbers_documented T" "no_number_head rest"
  shows "lex_json T (json_stringify T (JNum x) @ rest) = map_option (Cons (TVal (json_reparse (JNum x)))) (lex_json T rest)"
proof (cases "f64_finite x")
  case True
  with assms(1) have n: "is_json_number (number_text T x)" "list_all is_number_unit (number_text T x)"
    "JNum (text_number T (number_text T x)) = json_reparse (JNum x)" by (simp_all only: numbers_documented_def)
  show ?thesis using lex_number [OF n(1,2) assms(2)] n(3) True by simp
next
  case False
  then show ?thesis by (simp add: lex_literals)
qed

lemma lex_punctuation:
  "lex_json T (0x7B # r) = map_option (Cons TLBrace) (lex_json T r)" "lex_json T (0x7D # r) = map_option (Cons TRBrace) (lex_json T r)"
  "lex_json T (0x5B # r) = map_option (Cons TLBracket) (lex_json T r)" "lex_json T (0x5D # r) = map_option (Cons TRBracket) (lex_json T r)"
  "lex_json T (0x3A # r) = map_option (Cons TColon) (lex_json T r)" "lex_json T (0x2C # r) = map_option (Cons TComma) (lex_json T r)"
  by (simp_all add: lex_json.simps is_json_space_def punctuation_def)

lemma lex_quoted: "lex_json T (json_quote s @ r) = map_option (Cons (TStr s)) (lex_json T r)"
  by (simp add: json_quote_def lex_json.simps is_json_space_def punctuation_def lex_quote_units)

lemma punctuation_head: "no_number_head (0x2C # r)" "no_number_head (0x5D # r)" "no_number_head (0x7D # r)" "no_number_head (0x3A # r)"
  by (simp_all add: no_number_head_def is_number_unit_def is_digit_u16_def)

lemma join_with_Cons: "join_with c (s # ss) = s @ (if ss = [] then [] else c # join_with c ss)"
  by (cases ss) simp_all

lemma lex_stringify:
  assumes T: "numbers_documented T"
  shows "no_number_head rest \<Longrightarrow> lex_json T (json_stringify T v @ rest) = map_option ((@) (json_tokens v)) (lex_json T rest)"
    and "lex_json T (join_with 0x2C (map (json_stringify T) vs) @ 0x5D # rest)
      = map_option (\<lambda>ts. elem_tokens vs @ TRBracket # ts) (lex_json T rest)"
    and "lex_json T (join_with 0x2C (map (\<lambda>(k, v). json_quote k @ 0x3A # json_stringify T v) ps) @ 0x7D # rest)
      = map_option (\<lambda>ts. member_tokens ps @ TRBrace # ts) (lex_json T rest)"
proof (induction v and vs and ps arbitrary: rest and rest and rest rule: json_tokens_elem_tokens_member_tokens.induct)
  case (1 s)
  show ?case by (simp add: lex_quoted)
next
  case (2 vs)
  show ?case using 2(1) [of rest] by (simp add: lex_punctuation option.map_comp o_def)
next
  case (3 ps)
  show ?case using 3(1) [of rest] by (simp add: lex_punctuation option.map_comp o_def)
next
  case "4_1"
  show ?case by (simp add: lex_literals)
next
  case "4_2"
  show ?case by (simp add: lex_bool)
next
  case "4_3"
  then show ?case by (simp add: lex_stringify_num [OF T] del: json_stringify.simps)
next
  case 5
  show ?case by (simp add: lex_punctuation)
next
  case (6 v vs)
  show ?case
  proof (cases "vs = []")
    case True
    then show ?thesis using 6(1) punctuation_head by (simp add: lex_punctuation option.map_comp o_def)
  next
    case False
    then show ?thesis using 6(1) 6(2) [of rest] punctuation_head
      by (simp add: join_with_Cons lex_punctuation option.map_comp o_def)
  qed
next
  case 7
  show ?case by (simp add: lex_punctuation)
next
  case (8 k v ps)
  show ?case
  proof (cases "ps = []")
    case True
    then show ?thesis using 8(1) punctuation_head by (simp add: lex_quoted lex_punctuation option.map_comp o_def)
  next
    case False
    then show ?thesis using 8(1) 8(2) [of rest] punctuation_head
      by (simp add: join_with_Cons lex_quoted lex_punctuation option.map_comp o_def)
  qed
qed

text \<open>
  Parsing what \<open>JSON.stringify\<close> printed gives the value back, up to numbers that are not finite
  and the sign of zero; object keys must be in the order JavaScript keeps them in.
\<close>

lemma parse_stringify:
  assumes "numbers_documented T" "json_wf v"
  shows "json_parse T (json_stringify T v) = Some (json_reparse v)"
  using lex_stringify(1) [OF assms(1), of "[]" v] run_tokens(1) [OF assms(2), of "[]" "[]"]
  by (simp add: json_parse_def no_number_head_def lex_json.simps(1))

section \<open>Hexadecimal text\<close>

lemma no_hex_prefix:
  "list_all is_any_hex s \<Longrightarrow> \<not> starts_with s (js ''0x'') \<and> \<not> starts_with s (js ''0X'')"
  by (cases s rule: remdups_adj.cases) (auto simp: js_eval is_any_hex_def is_lower_hex_def is_digit_u16_def)

lemma lower_hex_any: "list_all is_lower_hex s \<Longrightarrow> list_all is_any_hex s"
  by (auto simp: list_all_iff is_any_hex_def)

end
