(* ===== verification/EvidenceStore.thy ===== *)
theory EvidenceStore
  imports TextOrder JsonText Registries BlobRoutes
begin

text \<open>
  Device evidence of receipts: the table of \<open>receipt_attestation_evidence.ts\<close> and the routes
  \<open>routes/attestation_evidence.ts\<close>, which takes evidence from attestors, and
  \<open>routes/attestation_evidence_submission.ts\<close>, by which a daemon carries it to the chain.  The
  manifests come from \<open>BlobStore\<close>, the attestors from \<open>Registries\<close>; the three signature schemes
  are arguments (\<open>None\<close> when a verifier throws).
\<close>

section \<open>The table\<close>

record evidence_row =
  er_id :: nat
  er_receipt_id :: jsstring
  er_evidence_type :: jsstring
  er_nonce_hex :: jsstring
  er_payload :: json
  er_attestor_pubkey_hex :: jsstring
  er_signature_hex :: jsstring
  er_submitted_at_ms :: int
  er_submitted_to_chain_at :: "int option"
  er_chain_extrinsic_hash :: "jsstring option"

type_synonym evidence_db = "evidence_row table option"

definition triple :: "evidence_row \<Rightarrow> jsstring \<times> jsstring \<times> jsstring" where
  "triple r = (er_receipt_id r, er_attestor_pubkey_hex r, er_evidence_type r)"

definition normalizeHex_evidence :: "jsstring \<Rightarrow> jsstring" where
  "normalizeHex_evidence input =
     to_lower (if starts_with input (js ''0x'') \<or> starts_with input (js ''0X'') then drop 2 input else input)"

definition normalizeReceiptId :: "jsstring \<Rightarrow> jsstring" where
  "normalizeReceiptId input =
     to_lower (if starts_with input (js ''0x'') \<or> starts_with input (js ''0X'') then drop 2 input else input)"

text \<open>The arguments of an insertion; the payload is stored as its JSON text.\<close>

record evidence_input =
  ei_receipt_id :: jsstring
  ei_evidence_type :: jsstring
  ei_nonce_hex :: jsstring
  ei_payload :: json
  ei_attestor_pubkey_hex :: jsstring
  ei_signature_hex :: jsstring

datatype evidence_outcome = EvidenceInserted evidence_row | EvidenceReplay evidence_row

definition insertReceiptEvidence ::
  "evidence_input \<Rightarrow> int \<Rightarrow> evidence_db \<Rightarrow> (evidence_outcome \<times> evidence_db) option" where
  "insertReceiptEvidence i now db =
     (case db of
        None \<Rightarrow> None
      | Some t \<Rightarrow>
          let receipt_id = normalizeReceiptId (ei_receipt_id i);
              attestor = normalizeHex_evidence (ei_attestor_pubkey_hex i)
          in (case sql_get (\<lambda>r. triple r = (receipt_id, attestor, ei_evidence_type i)) (rows t) of
                Some existing \<Rightarrow> Some (EvidenceReplay existing, db)
              | None \<Rightarrow>
                  let r = \<lparr>er_id = next_id t, er_receipt_id = receipt_id, er_evidence_type = ei_evidence_type i,
                        er_nonce_hex = normalizeHex_evidence (ei_nonce_hex i), er_payload = json_reparse (ei_payload i),
                        er_attestor_pubkey_hex = attestor,
                        er_signature_hex = normalizeHex_evidence (ei_signature_hex i), er_submitted_at_ms = now,
                        er_submitted_to_chain_at = None, er_chain_extrinsic_hash = None\<rparr>
                  in Some (EvidenceInserted r, Some \<lparr>rows = rows t @ [r], next_id = Suc (next_id t)\<rparr>)))"

text \<open>The query's order, then the order of the code; a difference that is not a number counts as 0.\<close>

definition cmp_evidence_sql :: "evidence_row \<Rightarrow> evidence_row \<Rightarrow> int" where
  "cmp_evidence_sql =
     cmp_then (\<lambda>a b. cmp_text (er_evidence_type a) (er_evidence_type b))
       (\<lambda>a b. cmp_text (er_attestor_pubkey_hex a) (er_attestor_pubkey_hex b))"

definition cmp_evidence_rows :: "evidence_row \<Rightarrow> evidence_row \<Rightarrow> int" where
  "cmp_evidence_rows a b =
     (case (EVIDENCE_TYPE_DISCRIMINANT (er_evidence_type a), EVIDENCE_TYPE_DISCRIMINANT (er_evidence_type b)) of
        (Some x, Some y) \<Rightarrow>
          if x - y \<noteq> 0 then x - y else cmp_units (er_attestor_pubkey_hex a) (er_attestor_pubkey_hex b)
      | _ \<Rightarrow> 0)"

definition listReceiptEvidence :: "jsstring \<Rightarrow> evidence_db \<Rightarrow> evidence_row list" where
  "listReceiptEvidence receipt_id db =
     (case db of
        None \<Rightarrow> []
      | Some t \<Rightarrow>
          js_sort cmp_evidence_rows
            (js_sort cmp_evidence_sql (filter (\<lambda>r. er_receipt_id r = normalizeReceiptId receipt_id) (rows t))))"

definition row_entry :: "evidence_row \<Rightarrow> evidence_entry" where
  "row_entry r = \<lparr>ev_type = er_evidence_type r, ev_nonce = JStr (er_nonce_hex r), ev_payload = er_payload r\<rparr>"

definition recomputeReceiptEvidenceHash ::
  "polkadot \<Rightarrow> jsstring \<Rightarrow> evidence_db \<Rightarrow> type_error + jsstring \<times> nat \<times> jsstring list" where
  "recomputeReceiptEvidenceHash P receipt_id db =
     (let rs = listReceiptEvidence receipt_id db
      in and_then (attestationEvidenceHash P (map row_entry rs)) (\<lambda>h.
         Inr (h, length rs, map er_evidence_type rs)))"

section \<open>Submission to the chain\<close>

text \<open>\<open>since\<close> and \<open>limit\<close> are integers here; the caller passes no others.\<close>

definition cmp_id :: "evidence_row \<Rightarrow> evidence_row \<Rightarrow> int" where
  "cmp_id a b = int (er_id a) - int (er_id b)"

definition listReceiptEvidencePendingChainSubmission :: "int \<Rightarrow> int \<Rightarrow> evidence_db \<Rightarrow> evidence_row list" where
  "listReceiptEvidencePendingChainSubmission since0 limit0 db =
     (case db of
        None \<Rightarrow> []
      | Some t \<Rightarrow>
          let since = max 0 since0; bound = max 1 (min 1000 limit0)
          in take (nat bound)
               (js_sort cmp_id (filter (\<lambda>r. since < int (er_id r) \<and> er_submitted_to_chain_at r = None) (rows t))))"

datatype mark_outcome = Marked evidence_row | AlreadyMarked evidence_row

definition markReceiptEvidenceSubmittedToChain ::
  "nat \<Rightarrow> jsstring \<Rightarrow> int \<Rightarrow> evidence_db \<Rightarrow> mark_outcome option \<times> evidence_db" where
  "markReceiptEvidenceSubmittedToChain rid tx now db =
     (case db of
        None \<Rightarrow> (None, db)
      | Some t \<Rightarrow>
          (case sql_get (\<lambda>r. er_id r = rid) (rows t) of
             None \<Rightarrow> (None, db)
           | Some existing \<Rightarrow>
               if er_submitted_to_chain_at existing \<noteq> None then (Some (AlreadyMarked existing), db)
               else let rs = sql_update (\<lambda>r. er_id r = rid \<and> er_submitted_to_chain_at r = None)
                          (\<lambda>r. r\<lparr>er_submitted_to_chain_at := Some now,
                                 er_chain_extrinsic_hash := Some (normalizeHex_evidence tx)\<rparr>) (rows t)
                    in (map_option Marked (sql_get (\<lambda>r. er_id r = rid) rs), Some (t\<lparr>rows := rs\<rparr>))))"

definition listReceiptsForAttestorSince :: "jsstring \<Rightarrow> int \<Rightarrow> int \<Rightarrow> evidence_db \<Rightarrow> jsstring list" where
  "listReceiptsForAttestorSince attestor nowMs windowMs db =
     (case db of
        None \<Rightarrow> []
      | Some t \<Rightarrow>
          let normalized = to_lower (if starts_with attestor (js ''0x'') then drop 2 attestor else attestor)
          in remdups (map er_receipt_id (filter (\<lambda>r. er_attestor_pubkey_hex r = normalized
                 \<and> nowMs - windowMs < er_submitted_at_ms r) (rows t))))"

section \<open>POST evidence\<close>

record verifiers =
  v_sr25519 :: sr25519
  v_ed25519 :: sr25519
  v_p256 :: sr25519

datatype evidence_code =
    EvInvalidJson | EvMissingField | EvWrongType | EvHexFormat | EvTypeInvalid | EvReceiptNotFound
  | EvNonceMismatch | EvAttestorUnknown | EvAlgoUnknown | EvSignatureInvalid | EvInternal

datatype evidence_reply =
    EvUnauthorized auth_error
  | EvRejected nat evidence_code "jsstring option"
  | EvStored bool jsstring jsstring nat "jsstring list"

text \<open>\<open>/^(0x)?[0-9a-fA-F]{n}$/\<close>\<close>

definition hex_loose :: "nat \<Rightarrow> jsstring \<Rightarrow> bool" where
  "hex_loose n s \<longleftrightarrow> re_any_hex n s \<or> starts_with s (js ''0x'') \<and> re_any_hex n (drop 2 s)"

definition string_where :: "(jsstring \<Rightarrow> bool) \<Rightarrow> json option \<Rightarrow> jsstring option" where
  "string_where ok j = (case j of Some (JStr s) \<Rightarrow> if ok s then Some s else None | _ \<Rightarrow> None)"

record evidence_post =
  ep_receipt_id :: jsstring
  ep_evidence_type :: jsstring
  ep_nonce :: jsstring
  ep_payload :: json
  ep_attestor :: jsstring
  ep_signature :: jsstring

definition EVIDENCE_FIELDS :: "jsstring list" where
  "EVIDENCE_FIELDS = [js ''receipt_id'', js ''evidence_type'', js ''nonce'', js ''payload'',
     js ''attestor_pubkey'', js ''signature'']"

definition parse_evidence :: "json option \<Rightarrow> evidence_reply + evidence_post" where
  "parse_evidence body =
     (let bad = (\<lambda>code f. Inl (EvRejected 400 code (Some (js f))))
      in case body of
        Some (JObj ps) \<Rightarrow>
          (case find (\<lambda>k. get_prop k ps = None) EVIDENCE_FIELDS of
             Some k \<Rightarrow> Inl (EvRejected 400 EvMissingField (Some k))
           | None \<Rightarrow>
               (case string_where (hex_loose 64) (get_prop (js ''receipt_id'') ps) of
                  None \<Rightarrow> bad EvHexFormat ''receipt_id''
                | Some receipt_id \<Rightarrow>
               (case string_where (\<lambda>s. s \<in> set EVIDENCE_TYPES) (get_prop (js ''evidence_type'') ps) of
                  None \<Rightarrow> bad EvTypeInvalid ''evidence_type''
                | Some evidence_type \<Rightarrow>
               (case string_where (hex_loose 64) (get_prop (js ''nonce'') ps) of
                  None \<Rightarrow> bad EvHexFormat ''nonce''
                | Some nonce \<Rightarrow>
               (case get_prop (js ''payload'') ps of
                  Some (JObj payload) \<Rightarrow>
               (case string_where (\<lambda>s. hex_loose 64 s \<or> hex_loose 66 s) (get_prop (js ''attestor_pubkey'') ps) of
                  None \<Rightarrow> bad EvHexFormat ''attestor_pubkey''
                | Some attestor \<Rightarrow>
               (case string_where (hex_loose 128) (get_prop (js ''signature'') ps) of
                  None \<Rightarrow> bad EvHexFormat ''signature''
                | Some signature \<Rightarrow>
                    Inr \<lparr>ep_receipt_id = normalizeHex_evidence receipt_id, ep_evidence_type = evidence_type,
                         ep_nonce = normalizeHex_evidence nonce, ep_payload = JObj payload,
                         ep_attestor = normalizeHex_evidence attestor,
                         ep_signature = normalizeHex_evidence signature\<rparr>))
                | _ \<Rightarrow> bad EvWrongType ''payload'')))))
      | _ \<Rightarrow> Inl (EvRejected 400 EvInvalidJson None))"

text \<open>\<open>true\<close> when a stored manifest says it is a version 2 record.\<close>

definition lookupV2Manifest :: "jsstring \<Rightarrow> blob_fs \<Rightarrow> storage_error + bool" where
  "lookupV2Manifest h fs =
     and_then (getManifest h fs) (\<lambda>m.
     Inr (case m of
            Some (JObj ps) \<Rightarrow>
              get_prop (js ''schema'') ps \<in> {Some (JStr (js ''compute_metering_v2'')), Some (JStr (js ''compute_metering_v2.1''))}
          | _ \<Rightarrow> False))"

definition lookupContentHashForReceiptId :: "jsstring \<Rightarrow> blob_fs \<Rightarrow> jsstring option" where
  "lookupContentHashForReceiptId receiptId fs =
     (case receipt_index fs (normalizeHex_evidence receiptId) of
        None \<Rightarrow> None
      | Some content \<Rightarrow> if re_lower_hex 64 (js_trim content) then Some (js_trim content) else None)"

text \<open>The content hash the evidence is about; a throw is an internal error.\<close>

definition resolve_receipt :: "jsstring \<Rightarrow> blob_fs \<Rightarrow> evidence_reply + jsstring" where
  "resolve_receipt receiptId fs =
     (let notFound = Inl (EvRejected 404 EvReceiptNotFound (Some (js ''receipt_id'')));
          h = (case lookupContentHashForReceiptId receiptId fs of Some c \<Rightarrow> c | None \<Rightarrow> receiptId)
      in case lookupV2Manifest h fs of
           Inl _ \<Rightarrow> Inl (EvRejected 500 EvInternal None)
         | Inr True \<Rightarrow> Inr h
         | Inr False \<Rightarrow> notFound)"

definition verifyAttestorSig ::
  "polkadot \<Rightarrow> verifiers \<Rightarrow> bytes \<Rightarrow> jsstring \<Rightarrow> jsstring \<Rightarrow> jsstring \<Rightarrow> bool" where
  "verifyAttestorSig P V preimage pubkeyHex sigHex algo =
     (case (hexToU8a P (js ''0x'' @ pubkeyHex), hexToU8a P (js ''0x'' @ sigHex)) of
        (Some pub, Some sig) \<Rightarrow>
          if algo = js ''sr25519''
          then length pub = 32 \<and> length sig = 64 \<and> v_sr25519 V preimage sig pub = Some True
          else if algo = js ''ed25519''
          then length pub = 32 \<and> length sig = 64 \<and> v_ed25519 V preimage sig pub = Some True
          else if algo = js ''secp256r1''
          then length pub = 33 \<and> length sig = 64 \<and> v_p256 V preimage sig pub = Some True
          else False
      | _ \<Rightarrow> False)"

text \<open>The canonical octets of the payload alone, which is what the attestor signs.\<close>

definition payload_preimage :: "polkadot \<Rightarrow> evidence_post \<Rightarrow> bytes option" where
  "payload_preimage P e =
     (case evidenceEntryToCborValue P
             \<lparr>ev_type = ep_evidence_type e, ev_nonce = JStr (ep_nonce e), ev_payload = ep_payload e\<rparr> of
        Inr (CMap kvs) \<Rightarrow>
          (case map_of kvs (js ''payload'') of
             None \<Rightarrow> None
           | Some v \<Rightarrow> (case encodeCbor v of Inl _ \<Rightarrow> None | Inr b \<Rightarrow> Some b))
      | _ \<Rightarrow> None)"

definition check_evidence ::
  "polkadot \<Rightarrow> verifiers \<Rightarrow> attestors \<Rightarrow> jsstring \<Rightarrow> evidence_post \<Rightarrow> evidence_reply + unit" where
  "check_evidence P V attestors contentHash e =
     (case hexToU8a P (js ''0x'' @ contentHash) of
        None \<Rightarrow> Inl (EvRejected 500 EvInternal None)
      | Some h \<Rightarrow>
          if sha256_hex (h @ evidenceVendorTagBytes (ep_evidence_type e)) \<noteq> ep_nonce e
          then Inl (EvRejected 422 EvNonceMismatch (Some (js ''nonce'')))
          else (case getActiveAttestorSigAlgo (ep_attestor e) attestors of
                  None \<Rightarrow>
                    Inl (EvRejected 403
                      (if isAttestationEvidenceAttestorActive (ep_attestor e) attestors then EvAlgoUnknown
                       else EvAttestorUnknown) (Some (js ''attestor_pubkey'')))
                | Some algo \<Rightarrow>
                    (case payload_preimage P e of
                       None \<Rightarrow> Inl (EvRejected 400 EvWrongType (Some (js ''payload'')))
                     | Some b \<Rightarrow>
                         if verifyAttestorSig P V b (ep_attestor e) (ep_signature e) algo then Inr ()
                         else Inl (EvRejected 401 EvSignatureInvalid (Some (js ''signature''))))))"

definition store_evidence ::
  "polkadot \<Rightarrow> int \<Rightarrow> jsstring \<Rightarrow> evidence_post \<Rightarrow> evidence_db \<Rightarrow> evidence_reply \<times> evidence_db" where
  "store_evidence P now contentHash e db =
     (let receiptId = normalizeHex_evidence (computeReceiptId contentHash)
      in case insertReceiptEvidence
            \<lparr>ei_receipt_id = receiptId, ei_evidence_type = ep_evidence_type e, ei_nonce_hex = ep_nonce e,
             ei_payload = ep_payload e, ei_attestor_pubkey_hex = ep_attestor e,
             ei_signature_hex = ep_signature e\<rparr> now db of
           None \<Rightarrow> (EvRejected 500 EvInternal None, db)
         | Some (outcome, db') \<Rightarrow>
             (case recomputeReceiptEvidenceHash P receiptId db' of
                Inl _ \<Rightarrow> (EvRejected 500 EvInternal None, db')
              | Inr (h, n, types) \<Rightarrow>
                  (EvStored (case outcome of EvidenceInserted _ \<Rightarrow> True | EvidenceReplay _ \<Rightarrow> False) receiptId h n types,
                   db')))"

definition postAttestationEvidence ::
  "polkadot \<Rightarrow> verifiers \<Rightarrow> attestors \<Rightarrow> blob_fs \<Rightarrow> int \<Rightarrow> json option \<Rightarrow> evidence_db \<Rightarrow> evidence_reply \<times> evidence_db" where
  "postAttestationEvidence P V attestors fs now body db =
     (case parse_evidence body of
        Inl e \<Rightarrow> (e, db)
      | Inr e \<Rightarrow>
          (case resolve_receipt (ep_receipt_id e) fs of
             Inl r \<Rightarrow> (r, db)
           | Inr contentHash \<Rightarrow>
               (case check_evidence P V attestors contentHash e of
                  Inl r \<Rightarrow> (r, db)
                | Inr _ \<Rightarrow> store_evidence P now contentHash e db)))"

text \<open>The route with its middleware.\<close>

definition attestationEvidenceRoute ::
  "polkadot \<Rightarrow> verifiers \<Rightarrow> int \<Rightarrow> int \<Rightarrow> request \<Rightarrow> token_db \<Rightarrow> quota_db \<Rightarrow> attestors \<Rightarrow> blob_fs \<Rightarrow> json option
   \<Rightarrow> evidence_db \<Rightarrow> evidence_reply \<times> token_db \<times> evidence_db" where
  "attestationEvidenceRoute P V authNow now req tokens quota attestors fs body db =
     (case bearerAuth P True authNow req tokens quota of
        (Unauthorized e, tokens') \<Rightarrow> (EvUnauthorized e, tokens', db)
      | (Proceed _, tokens') \<Rightarrow>
          (let (r, db') = postAttestationEvidence P V attestors fs now body db in (r, tokens', db')))"

section \<open>Routes of the submitting daemon\<close>

definition isAuthorizedSubmitter :: "jsstring \<Rightarrow> request \<Rightarrow> bool" where
  "isAuthorizedSubmitter evidenceSubmitterToken req =
     (let expected = js_trim evidenceSubmitterToken
      in if expected = [] then False
         else (case bearer_token req of
                 None \<Rightarrow> False
               | Some supplied \<Rightarrow>
                   if supplied = [] then False
                   else if length (utf8_encode supplied) \<noteq> length (utf8_encode expected) then False
                   else utf8_encode supplied = utf8_encode expected))"

datatype submission_reply =
    SubUnauthorized
  | SubBadSince
  | SubBadLimit
  | SubBadRowId
  | SubBadHash
  | SubNotFound
  | PendingPage "evidence_row list" int
  | MarkedReply mark_outcome

definition MAX_PENDING_PAGE :: int where "MAX_PENDING_PAGE = 500"

definition pendingRoute ::
  "jsstring \<Rightarrow> request \<Rightarrow> jsstring option \<Rightarrow> jsstring option \<Rightarrow> evidence_db \<Rightarrow> submission_reply" where
  "pendingRoute token req sinceQ limitQ db =
     (if \<not> isAuthorizedSubmitter token req then SubUnauthorized
      else case (case present sinceQ of None \<Rightarrow> Some 0 | Some s \<Rightarrow> parseInt10 s) of
        None \<Rightarrow> SubBadSince
      | Some since \<Rightarrow>
          if since < 0 \<or> js_safe_int < since then SubBadSince
          else (case (case present limitQ of None \<Rightarrow> Some 100 | Some s \<Rightarrow> parseInt10 s) of
                  None \<Rightarrow> SubBadLimit
                | Some bound \<Rightarrow>
                    if bound \<le> 0 \<or> MAX_PENDING_PAGE < bound then SubBadLimit
                    else let rs = listReceiptEvidencePendingChainSubmission since bound db
                         in PendingPage rs (if rs = [] then since else fold max (map (\<lambda>r. int (er_id r)) rs) 0)))"

text \<open>A row number beyond \<open>2\<^sup>53\<close>, which no table reaches, is answered as unknown.\<close>

definition markSubmittedRoute ::
  "jsstring \<Rightarrow> request \<Rightarrow> jsstring \<Rightarrow> json option \<Rightarrow> int \<Rightarrow> evidence_db \<Rightarrow> submission_reply \<times> evidence_db" where
  "markSubmittedRoute token req idRaw body now db =
     (if \<not> isAuthorizedSubmitter token req then (SubUnauthorized, db)
      else case parseInt10 idRaw of
        None \<Rightarrow> (SubBadRowId, db)
      | Some n \<Rightarrow>
          if n \<le> 0 \<or> decimal (nat n) \<noteq> idRaw then (SubBadRowId, db)
          else (case string_where (hex_loose 64)
                       (case body of Some (JObj ps) \<Rightarrow> get_prop (js ''chain_extrinsic_hash'') ps | _ \<Rightarrow> None) of
                  None \<Rightarrow> (SubBadHash, db)
                | Some tx \<Rightarrow>
                    (case markReceiptEvidenceSubmittedToChain (nat n) tx now db of
                       (None, db') \<Rightarrow> (SubNotFound, db')
                     | (Some outcome, db') \<Rightarrow> (MarkedReply outcome, db'))))"

section \<open>What the table holds\<close>

datatype evidence_op =
    PostEvidence attestors blob_fs int "json option"
  | MarkEvidence nat jsstring int

fun evidence_step :: "polkadot \<Rightarrow> verifiers \<Rightarrow> evidence_op \<Rightarrow> evidence_db \<Rightarrow> evidence_db" where
  "evidence_step P V (PostEvidence attestors fs now body) db = snd (postAttestationEvidence P V attestors fs now body db)"
| "evidence_step P V (MarkEvidence rid tx now) db = snd (markReceiptEvidenceSubmittedToChain rid tx now db)"

definition evidence_run :: "polkadot \<Rightarrow> verifiers \<Rightarrow> evidence_op list \<Rightarrow> evidence_db \<Rightarrow> evidence_db" where
  "evidence_run P V ops db = fold (evidence_step P V) ops db"

fun op_registry :: "evidence_op \<Rightarrow> attestors" where
  "op_registry (PostEvidence attestors fs now body) = attestors"
| "op_registry (MarkEvidence rid tx now) = None"

text \<open>
  A row is backed when it names the receipt of some content hash its nonce was derived from, and
  its signature is that of an attestor, active in the registry of the time, over the payload.
\<close>

definition evidence_backed :: "polkadot \<Rightarrow> verifiers \<Rightarrow> attestors list \<Rightarrow> evidence_row \<Rightarrow> bool" where
  "evidence_backed P V registries r \<longleftrightarrow>
     (\<exists>contentHash h payload b attestors algo.
        hexToU8a P (js ''0x'' @ contentHash) = Some h
        \<and> er_nonce_hex r = sha256_hex (h @ evidenceVendorTagBytes (er_evidence_type r))
        \<and> js ''0x'' @ er_receipt_id r = computeReceiptId contentHash
        \<and> er_payload r = json_reparse payload
        \<and> payload_preimage P \<lparr>ep_receipt_id = [], ep_evidence_type = er_evidence_type r, ep_nonce = er_nonce_hex r,
             ep_payload = payload, ep_attestor = [], ep_signature = []\<rparr> = Some b
        \<and> attestors \<in> set registries \<and> getActiveAttestorSigAlgo (er_attestor_pubkey_hex r) attestors = Some algo
        \<and> verifyAttestorSig P V b (er_attestor_pubkey_hex r) (er_signature_hex r) algo)"

lemma normalize_lower_hex:
  "re_lower_hex n s \<Longrightarrow> normalizeHex_evidence s = s" "re_lower_hex n s \<Longrightarrow> normalizeReceiptId s = s"
  using no_hex_prefix [OF lower_hex_any, of s] to_lower_hex_id [of n s]
  by (auto simp: normalizeHex_evidence_def normalizeReceiptId_def re_lower_hex_def)

lemma normalize_hex_loose: "hex_loose n s \<Longrightarrow> re_lower_hex n (normalizeHex_evidence s)"
  using no_hex_prefix [of s] no_hex_prefix [of "drop 2 s"] to_lower_hex [of n s] to_lower_hex [of n "drop 2 s"]
  by (auto simp: hex_loose_def normalizeHex_evidence_def re_any_hex_def)

lemma normalize_receipt: "js ''0x'' @ normalizeHex_evidence (computeReceiptId h) = computeReceiptId h"
proof -
  have "normalizeHex_evidence (computeReceiptId h) = to_lower (sha256_hex (hex_to_bytes (stripHexPrefix_storage h)))"
    by (simp add: normalizeHex_evidence_def computeReceiptId_def js_eval)
  then show ?thesis using to_lower_hex_id [OF sha256_hex_shape] by (simp add: computeReceiptId_def)
qed

lemma receipt_shape: "re_lower_hex 64 (normalizeHex_evidence (computeReceiptId h))"
  using normalize_receipt [of h] sha256_hex_shape [of "hex_to_bytes (stripHexPrefix_storage h)"]
  by (simp add: computeReceiptId_def)

lemma string_where_Some: "string_where ok j = Some s \<longleftrightarrow> j = Some (JStr s) \<and> ok s"
  by (auto simp: string_where_def split: option.splits json.splits if_splits)

text \<open>What a parsed submission looks like.\<close>

definition evidence_shape :: "evidence_post \<Rightarrow> bool" where
  "evidence_shape e \<longleftrightarrow> re_lower_hex 64 (ep_receipt_id e) \<and> ep_evidence_type e \<in> set EVIDENCE_TYPES
     \<and> re_lower_hex 64 (ep_nonce e) \<and> is_plain_object (ep_payload e)
     \<and> (re_lower_hex 64 (ep_attestor e) \<or> re_lower_hex 66 (ep_attestor e)) \<and> re_lower_hex 128 (ep_signature e)"

lemma parse_evidence_shape: "parse_evidence body = Inr e \<Longrightarrow> evidence_shape e"
  by (auto simp: parse_evidence_def evidence_shape_def Let_def string_where_Some
      intro: normalize_hex_loose split: option.splits json.splits)

lemma check_evidence_Inr:
  "check_evidence P V attestors ch e = Inr () \<longleftrightarrow>
     (\<exists>h algo b. hexToU8a P (js ''0x'' @ ch) = Some h
        \<and> sha256_hex (h @ evidenceVendorTagBytes (ep_evidence_type e)) = ep_nonce e
        \<and> getActiveAttestorSigAlgo (ep_attestor e) attestors = Some algo \<and> payload_preimage P e = Some b
        \<and> verifyAttestorSig P V b (ep_attestor e) (ep_signature e) algo)"
  by (auto simp: check_evidence_def split: option.splits if_splits)

lemma payload_preimage_fields:
  "ep_evidence_type e = ep_evidence_type e' \<Longrightarrow> ep_nonce e = ep_nonce e' \<Longrightarrow> ep_payload e = ep_payload e'
   \<Longrightarrow> payload_preimage P e = payload_preimage P e'"
  by (simp add: payload_preimage_def)

text \<open>The row an insertion adds, or none.\<close>

lemma insert_cases:
  assumes "insertReceiptEvidence i now (Some t) = Some (out, db)"
  obtains (replay) r where "out = EvidenceReplay r" "db = Some t" "r \<in> set (rows t)"
  | (inserted) r where "out = EvidenceInserted r" "db = Some \<lparr>rows = rows t @ [r], next_id = Suc (next_id t)\<rparr>"
      "er_id r = next_id t" "triple r \<notin> triple ` set (rows t)"
      "er_receipt_id r = normalizeReceiptId (ei_receipt_id i)" "er_evidence_type r = ei_evidence_type i"
      "er_nonce_hex r = normalizeHex_evidence (ei_nonce_hex i)" "er_payload r = json_reparse (ei_payload i)"
      "er_attestor_pubkey_hex r = normalizeHex_evidence (ei_attestor_pubkey_hex i)"
      "er_signature_hex r = normalizeHex_evidence (ei_signature_hex i)"
      "er_submitted_to_chain_at r = None"
proof (cases "sql_get (\<lambda>r. triple r = (normalizeReceiptId (ei_receipt_id i), normalizeHex_evidence (ei_attestor_pubkey_hex i),
    ei_evidence_type i)) (rows t)")
  case None
  let ?r = "\<lparr>er_id = next_id t, er_receipt_id = normalizeReceiptId (ei_receipt_id i),
      er_evidence_type = ei_evidence_type i, er_nonce_hex = normalizeHex_evidence (ei_nonce_hex i),
      er_payload = json_reparse (ei_payload i),
      er_attestor_pubkey_hex = normalizeHex_evidence (ei_attestor_pubkey_hex i),
      er_signature_hex = normalizeHex_evidence (ei_signature_hex i), er_submitted_at_ms = now,
      er_submitted_to_chain_at = None, er_chain_extrinsic_hash = None\<rparr>"
  have out: "out = EvidenceInserted ?r" "db = Some \<lparr>rows = rows t @ [?r], next_id = Suc (next_id t)\<rparr>"
    using assms None by (auto simp: insertReceiptEvidence_def Let_def)
  have "triple ?r \<notin> triple ` set (rows t)"
    using None by (fastforce simp: sql_get_None triple_def)
  then show ?thesis by (intro inserted [OF out]) simp_all
next
  case (Some r)
  then show ?thesis using assms replay [of r] sql_get_SomeD [OF Some] by (simp add: insertReceiptEvidence_def Let_def)
qed

definition evidence_inv :: "polkadot \<Rightarrow> verifiers \<Rightarrow> attestors list \<Rightarrow> evidence_row table \<Rightarrow> bool" where
  "evidence_inv P V regs t \<longleftrightarrow> unique_key triple (rows t) \<and> list_all (evidence_backed P V regs) (rows t)
     \<and> sorted_wrt (<) (map er_id (rows t)) \<and> list_all (\<lambda>r. er_id r < next_id t) (rows t)
     \<and> list_all (\<lambda>r. er_evidence_type r \<in> set EVIDENCE_TYPES) (rows t)"

lemma store_inv:
  assumes "evidence_inv P V regs t" "evidence_shape e" "check_evidence P V attestors ch e = Inr ()" "attestors \<in> set regs"
    and "store_evidence P now ch e (Some t) = (reply, db)"
  shows "\<exists>t'. db = Some t' \<and> evidence_inv P V regs t'"
proof -
  let ?i = "\<lparr>ei_receipt_id = normalizeHex_evidence (computeReceiptId ch), ei_evidence_type = ep_evidence_type e,
      ei_nonce_hex = ep_nonce e, ei_payload = ep_payload e, ei_attestor_pubkey_hex = ep_attestor e,
      ei_signature_hex = ep_signature e\<rparr>"
  obtain out db' where i: "insertReceiptEvidence ?i now (Some t) = Some (out, db')"
    by (cases "insertReceiptEvidence ?i now (Some t)") (auto simp: insertReceiptEvidence_def Let_def split: option.splits)
  then have db: "db = db'"
    using assms(5) by (auto simp: store_evidence_def Let_def split: sum.splits)
  from i show ?thesis
  proof (cases rule: insert_cases)
    case (replay r)
    then show ?thesis using assms(1) db by simp
  next
    case (inserted r)
    obtain h algo b where c: "hexToU8a P (js ''0x'' @ ch) = Some h"
        "sha256_hex (h @ evidenceVendorTagBytes (ep_evidence_type e)) = ep_nonce e"
        "getActiveAttestorSigAlgo (ep_attestor e) attestors = Some algo" "payload_preimage P e = Some b"
        "verifyAttestorSig P V b (ep_attestor e) (ep_signature e) algo"
      using assms(3) by (auto simp: check_evidence_Inr)
    have n: "er_nonce_hex r = ep_nonce e" "er_attestor_pubkey_hex r = ep_attestor e" "er_signature_hex r = ep_signature e"
      "er_receipt_id r = normalizeHex_evidence (computeReceiptId ch)"
      using inserted(5,7,9,10) assms(2) normalize_lower_hex(2) [OF receipt_shape [of ch]]
        normalize_lower_hex(1) [of 64 "ep_nonce e"] normalize_lower_hex(1) [of 64 "ep_attestor e"]
        normalize_lower_hex(1) [of 66 "ep_attestor e"] normalize_lower_hex(1) [of 128 "ep_signature e"]
      by (auto simp: evidence_shape_def)
    have "evidence_backed P V regs r"
      unfolding evidence_backed_def n using c assms(4) inserted(6,8) normalize_receipt
      by (intro exI [of _ ch] exI [of _ h] exI [of _ "ep_payload e"] exI [of _ b] exI [of _ attestors] exI [of _ algo])
        (simp add: payload_preimage_def)
    moreover have "er_evidence_type r \<in> set EVIDENCE_TYPES" using assms(2) inserted(6) by (simp add: evidence_shape_def)
    ultimately show ?thesis
      using assms(1) inserted(2,3,4) db
      by (auto simp: evidence_inv_def unique_key_def sorted_wrt_append list_all_iff)
  qed
qed

lemma mark_inv:
  assumes "evidence_inv P V regs t" "markReceiptEvidenceSubmittedToChain rid tx now (Some t) = (reply, db)"
  shows "\<exists>t'. db = Some t' \<and> evidence_inv P V regs t'"
proof -
  let ?f = "\<lambda>r. r\<lparr>er_submitted_to_chain_at := Some now, er_chain_extrinsic_hash := Some (normalizeHex_evidence tx)\<rparr>"
  have "db = Some t \<or> (\<exists>p. db = Some (t\<lparr>rows := sql_update p ?f (rows t)\<rparr>))"
    using assms(2) by (auto simp: markReceiptEvidenceSubmittedToChain_def Let_def split: option.splits if_splits)
  moreover have "evidence_inv P V regs (t\<lparr>rows := sql_update p ?f (rows t)\<rparr>)" for p
  proof -
    have f: "evidence_backed P V regs (?f r) = evidence_backed P V regs r" "triple (?f r) = triple r"
      "er_id (?f r) = er_id r" "er_evidence_type (?f r) = er_evidence_type r" for r
      by (simp_all add: evidence_backed_def triple_def)
    have all: "list_all Q (sql_update p ?f (rows t)) = list_all Q (rows t)" if "\<And>r. Q (?f r) = Q r" for Q
      using that by (simp add: sql_update_def list.pred_map o_def if_distrib [of Q] cong: if_cong)
    show ?thesis
      using assms(1) unfolding evidence_inv_def
      by (simp add: all f unique_key_def sql_update_key [of p er_id ?f] sql_update_key [of p triple ?f])
  qed
  ultimately show ?thesis using assms(1) by blast
qed

lemma step_evidence_inv:
  assumes "evidence_inv P V regs t" "op_registry op \<in> set regs"
  shows "\<exists>t'. evidence_step P V op (Some t) = Some t' \<and> evidence_inv P V regs t'"
proof (cases op)
  case (PostEvidence attestors fs now body)
  obtain reply db where p: "postAttestationEvidence P V attestors fs now body (Some t) = (reply, db)" by fastforce
  then consider "db = Some t"
    | e ch where "parse_evidence body = Inr e" "check_evidence P V attestors ch e = Inr ()"
        "store_evidence P now ch e (Some t) = (reply, db)"
    by (auto simp: postAttestationEvidence_def split: sum.splits)
  then have "\<exists>t'. db = Some t' \<and> evidence_inv P V regs t'"
  proof cases
    case (2 e ch)
    then show ?thesis
      using store_inv [OF assms(1) parse_evidence_shape] assms(2) PostEvidence by simp
  qed (use assms in simp)
  then show ?thesis using p PostEvidence by simp
next
  case (MarkEvidence rid tx now)
  then show ?thesis using mark_inv [OF assms(1)] by (metis evidence_step.simps(2) prod.exhaust_sel)
qed

lemma run_evidence_inv:
  assumes "evidence_inv P V regs t" "op_registry ` set ops \<subseteq> set regs"
  shows "\<exists>t'. evidence_run P V ops (Some t) = Some t' \<and> evidence_inv P V regs t'"
  using assms
proof (induction ops arbitrary: t)
  case (Cons op ops)
  then obtain t1 where "evidence_step P V op (Some t) = Some t1" "evidence_inv P V regs t1"
    using step_evidence_inv [of P V regs t op] by auto
  then show ?case using Cons by (simp add: evidence_run_def)
qed (simp add: evidence_run_def)

text \<open>C1: Whatever is posted and marked, every stored piece of evidence is backed: its receipt and nonce
  come from one content hash, its type is known, and its signature is that of an attestor that
  was active in the registry when it was posted, over the canonical octets of the payload.  A
  receipt has one row per attestor and type, and row numbers grow.\<close>

theorem stored_evidence_backed:
  "case evidence_run P V ops (Some empty_table) of
     None \<Rightarrow> False
   | Some t \<Rightarrow> unique_key triple (rows t) \<and> list_all (evidence_backed P V (map op_registry ops)) (rows t)
       \<and> list_all (\<lambda>r. er_evidence_type r \<in> set EVIDENCE_TYPES) (rows t) \<and> sorted_wrt (<) (map er_id (rows t))"
proof -
  have "evidence_inv P V (map op_registry ops) empty_table"
    by (simp add: evidence_inv_def empty_table_def unique_key_def)
  from run_evidence_inv [OF this, of ops] show ?thesis by (auto simp: evidence_inv_def)
qed

section \<open>The receipt's evidence hash\<close>

text \<open>What the hash is made of: not the row's number, times or chain fields.\<close>

definition row_content :: "evidence_row \<Rightarrow> (jsstring \<times> jsstring \<times> jsstring) \<times> jsstring \<times> json" where
  "row_content r = (triple r, er_nonce_hex r, er_payload r)"

definition type_rank :: "jsstring \<Rightarrow> int" where
  "type_rank t = (case EVIDENCE_TYPE_DISCRIMINANT t of Some x \<Rightarrow> x | None \<Rightarrow> - 1)"

definition cmp_content ::
  "(jsstring \<times> jsstring \<times> jsstring) \<times> jsstring \<times> json \<Rightarrow> (jsstring \<times> jsstring \<times> jsstring) \<times> jsstring \<times> json \<Rightarrow> int" where
  "cmp_content = cmp_then (\<lambda>a b. type_rank (snd (snd (fst a))) - type_rank (snd (snd (fst b))))
     (\<lambda>a b. cmp_units (fst (snd (fst a))) (fst (snd (fst b))))"

interpretation content_order: comparator cmp_content
  unfolding cmp_content_def
  by (rule comparator_then comparator_on [OF int_cmp.comparator_axioms]
      comparator_on [OF units_order.comparator_axioms])+

interpretation row_order: comparator "\<lambda>a b. cmp_content (row_content a) (row_content b)"
  by (rule comparator_on [OF content_order.comparator_axioms])

definition known_rows :: "evidence_row list \<Rightarrow> bool" where
  "known_rows rs \<longleftrightarrow> list_all (\<lambda>r. er_evidence_type r \<in> set EVIDENCE_TYPES) rs"

lemma known_rank:
  "t \<in> set EVIDENCE_TYPES \<Longrightarrow> EVIDENCE_TYPE_DISCRIMINANT t = Some (type_rank t)"
  by (auto simp: EVIDENCE_TYPES_def EVIDENCE_TYPE_DISCRIMINANT_def type_rank_def)

lemma type_rank_inj:
  "s \<in> set EVIDENCE_TYPES \<Longrightarrow> t \<in> set EVIDENCE_TYPES \<Longrightarrow> type_rank s = type_rank t \<Longrightarrow> s = t"
  by (auto simp: EVIDENCE_TYPES_def EVIDENCE_TYPE_DISCRIMINANT_def type_rank_def js_eq_iff)

lemma cmp_rows_content:
  "er_evidence_type a \<in> set EVIDENCE_TYPES \<Longrightarrow> er_evidence_type b \<in> set EVIDENCE_TYPES
   \<Longrightarrow> cmp_evidence_rows a b = cmp_content (row_content a) (row_content b)"
  by (simp add: cmp_evidence_rows_def known_rank cmp_content_def cmp_then_def row_content_def triple_def)

lemma listed_content:
  assumes "unique_key triple (rows t)" "known_rows (rows t)"
  shows "mset (map row_content (listReceiptEvidence rid (Some t)))
      = mset (map row_content (filter (\<lambda>r. er_receipt_id r = normalizeReceiptId rid) (rows t)))"
    and "sorted_wrt (\<lambda>a b. cmp_content a b \<le> 0) (map row_content (listReceiptEvidence rid (Some t)))"
    and "a \<in> set (listReceiptEvidence rid (Some t)) \<Longrightarrow> b \<in> set (listReceiptEvidence rid (Some t))
      \<Longrightarrow> cmp_content (row_content a) (row_content b) = 0 \<Longrightarrow> row_content a = row_content b"
proof -
  let ?f = "filter (\<lambda>r. er_receipt_id r = normalizeReceiptId rid) (rows t)"
  have eq: "listReceiptEvidence rid (Some t)
      = js_sort (\<lambda>a b. cmp_content (row_content a) (row_content b)) (js_sort cmp_evidence_sql ?f)"
    unfolding listReceiptEvidence_def option.case
    using assms(2) by (intro js_sort_cong cmp_rows_content) (auto simp: known_rows_def list_all_iff)
  show "mset (map row_content (listReceiptEvidence rid (Some t))) = mset (map row_content ?f)"
    by (simp add: eq)
  show "sorted_wrt (\<lambda>a b. cmp_content a b \<le> 0) (map row_content (listReceiptEvidence rid (Some t)))"
    using row_order.sorted_sort by (simp add: eq sorted_wrt_map)
  assume ab: "a \<in> set (listReceiptEvidence rid (Some t))" "b \<in> set (listReceiptEvidence rid (Some t))"
    and zero: "cmp_content (row_content a) (row_content b) = 0"
  have in_t: "a \<in> set (rows t)" "b \<in> set (rows t)" "er_receipt_id a = er_receipt_id b"
    using ab by (auto simp: eq)
  then have "er_evidence_type a = er_evidence_type b"
    using zero assms(2) by (intro type_rank_inj)
      (auto simp: known_rows_def list_all_iff cmp_content_def cmp_then_def row_content_def triple_def split: if_splits)
  moreover have "er_attestor_pubkey_hex a = er_attestor_pubkey_hex b"
    using zero by (auto simp: cmp_content_def cmp_then_def row_content_def triple_def cmp_units_zero split: if_splits)
  ultimately have "triple a = triple b" using in_t(3) by (simp add: triple_def)
  then have "a = b" using assms(1) in_t by (auto simp: unique_key_def distinct_map dest: inj_onD)
  then show "row_content a = row_content b" by simp
qed

text \<open>C13: The evidence hash of a receipt is a function of its evidence: two tables whose rows for
  the receipt have the same attestors, types, nonces and payloads give the same hash, the same
  count and the same list of types, in whatever order and whenever the rows were posted.\<close>

theorem evidence_hash_deterministic:
  assumes "unique_key triple (rows t)" "known_rows (rows t)" "unique_key triple (rows t')" "known_rows (rows t')"
    and "mset (map row_content (filter (\<lambda>r. er_receipt_id r = normalizeReceiptId rid) (rows t)))
       = mset (map row_content (filter (\<lambda>r. er_receipt_id r = normalizeReceiptId rid) (rows t')))"
  shows "recomputeReceiptEvidenceHash P rid (Some t) = recomputeReceiptEvidenceHash P rid (Some t')"
proof -
  let ?l = "listReceiptEvidence rid (Some t)" and ?l' = "listReceiptEvidence rid (Some t')"
  have same: "map row_content ?l = map row_content ?l'"
  proof (rule content_order.sorted_unique)
    show "sorted_wrt (\<lambda>a b. cmp_content a b \<le> 0) (map row_content ?l)" by (rule listed_content(2) [OF assms(1,2)])
    show "sorted_wrt (\<lambda>a b. cmp_content a b \<le> 0) (map row_content ?l')" by (rule listed_content(2) [OF assms(3,4)])
    show "mset (map row_content ?l) = mset (map row_content ?l')"
      using assms(5) by (simp only: listed_content(1) [OF assms(1,2)] listed_content(1) [OF assms(3,4)])
    show "x = y" if "x \<in> set (map row_content ?l)" "y \<in> set (map row_content ?l)" "cmp_content x y = 0" for x y
      using that listed_content(3) [OF assms(1,2)] by auto
  qed
  let ?e = "\<lambda>c. \<lparr>ev_type = snd (snd (fst c)), ev_nonce = JStr (fst (snd c)), ev_payload = snd (snd c)\<rparr>"
  have "map row_entry rs = map ?e (map row_content rs)" "map er_evidence_type rs = map (\<lambda>c. snd (snd (fst c))) (map row_content rs)"
    "length rs = length (map row_content rs)" for rs
    by (simp_all add: row_entry_def row_content_def triple_def)
  then have "map row_entry ?l = map row_entry ?l'" "map er_evidence_type ?l = map er_evidence_type ?l'" "length ?l = length ?l'"
    by (simp_all only: same)
  then show ?thesis by (simp add: recomputeReceiptEvidenceHash_def Let_def)
qed

definition sample_evidence_row :: "nat \<Rightarrow> jsstring \<Rightarrow> evidence_row" where
  "sample_evidence_row n tag =
     \<lparr>er_id = n, er_receipt_id = sample_hash, er_evidence_type = tag, er_nonce_hex = sample_hash,
      er_payload = JObj [], er_attestor_pubkey_hex = sample_hash, er_signature_hex = [], er_submitted_at_ms = int n,
      er_submitted_to_chain_at = None, er_chain_extrinsic_hash = None\<rparr>"

theorem evidence_hash_deterministic_witness:
  "recomputeReceiptEvidenceHash polkadot_sample sample_hash
     (Some \<lparr>rows = [sample_evidence_row 1 (js ''intel_tdx''), sample_evidence_row 2 (js ''amd_sev_snp'')], next_id = 3\<rparr>)
   = recomputeReceiptEvidenceHash polkadot_sample sample_hash
     (Some \<lparr>rows = [sample_evidence_row 7 (js ''amd_sev_snp''), sample_evidence_row 9 (js ''intel_tdx'')], next_id = 10\<rparr>)"
  by (rule evidence_hash_deterministic)
    (simp_all add: sample_evidence_row_def unique_key_def triple_def known_rows_def EVIDENCE_TYPES_def js_eq_iff
      row_content_def)

section \<open>Paging through what is not on the chain\<close>

lemma parseInt10_decimal: "parseInt10 (decimal n) = Some (int n)"
proof -
  have d: "list_all is_digit_u16 (decimal n)" "decimal n \<noteq> []" using decimal_digits by auto
  then obtain c cs where cs: "decimal n = c # cs" "is_digit_u16 c" by (cases "decimal n") auto
  have "fold (\<lambda>c n. n * 10 + (int (unat c) - 0x30)) (decimal n) 0 = int n"
    using parse_decimal [of n] by (simp add: parse_ts_def d)
  moreover have "takeWhile is_digit_u16 (decimal n) = decimal n" using d(1) by (simp add: takeWhile_eq_all_conv list_all_iff)
  moreover have "drop_space (decimal n) = decimal n" "c \<noteq> 0x2D" "c \<noteq> 0x2B"
    using cs(2) by (auto simp: cs(1) is_digit_u16_def is_js_space_def word_le_nat_alt)
  ultimately show ?thesis using d(2) by (simp add: parseInt10_def cs(1) Let_def)
qed

text \<open>A daemon that asks again with \<open>since\<close> set to the last reply's \<open>next_since\<close>.\<close>

fun drain :: "nat \<Rightarrow> jsstring \<Rightarrow> request \<Rightarrow> jsstring \<Rightarrow> jsstring option \<Rightarrow> evidence_db \<Rightarrow> evidence_row list" where
  "drain 0 token req since limitQ db = []"
| "drain (Suc k) token req since limitQ db =
     (case pendingRoute token req (Some since) limitQ db of
        PendingPage rs next \<Rightarrow> if rs = [] then [] else rs @ drain k token req (decimal (nat next)) limitQ db
      | _ \<Rightarrow> [])"

definition pending_after :: "nat \<Rightarrow> evidence_row table \<Rightarrow> evidence_row list" where
  "pending_after n t = filter (\<lambda>r. n < er_id r \<and> er_submitted_to_chain_at r = None) (rows t)"

lemma max_of_sorted:
  fixes f :: "'a \<Rightarrow> nat"
  assumes "sorted_wrt (<) (map f xs)" "xs \<noteq> []"
  shows "fold max (map (\<lambda>r. int (f r)) xs) (0::int) = int (f (last xs))"
proof -
  have "fold max (map (\<lambda>r. int (f r)) xs) (int m) = int (max m (f (last xs)))"
    if "sorted_wrt (<) (map f xs)" "xs \<noteq> []" for m
    using that
  proof (induction xs arbitrary: m)
    case (Cons x xs)
    show ?case
    proof (cases "xs = []")
      case False
      then have "f x < f (last xs)" using Cons.prems by simp
      moreover from this have "max (max m (f x)) (f (last xs)) = max m (f (last xs))" by simp
      ultimately show ?thesis using Cons.IH [of "max (f x) m"] Cons.prems False by (simp add: ac_simps of_nat_max)
    qed (simp add: max.commute of_nat_max)
  qed simp
  from this [OF assms, of 0] show ?thesis by simp
qed

lemma after_last_of_page:
  fixes f :: "'a \<Rightarrow> nat"
  assumes "sorted_wrt (<) (map f xs)" "0 < n" "xs \<noteq> []"
  shows "filter (\<lambda>r. f (last (take n xs)) < f r) xs = drop n xs"
proof -
  let ?p = "take n xs"
  have s: "sorted_wrt (<) (map f ?p @ map f (drop n xs))" using assms(1) by (simp flip: map_append)
  have ne: "?p \<noteq> []" using assms(2,3) by simp
  have "\<not> f (last ?p) < f r" if "r \<in> set ?p" for r
    using s that ne by (cases ?p rule: rev_cases) (fastforce simp: sorted_wrt_append)+
  moreover have "f (last ?p) < f r" if "r \<in> set (drop n xs)" for r
    using s that last_in_set [OF ne] by (auto simp: sorted_wrt_append)
  ultimately have "filter (\<lambda>r. f (last ?p) < f r) ?p = []"
      "filter (\<lambda>r. f (last ?p) < f r) (drop n xs) = drop n xs"
    by (auto simp: filter_empty_conv)
  then show ?thesis using filter_append [of "\<lambda>r. f (last ?p) < f r" ?p "drop n xs"] by simp
qed

lemma pending_page:
  assumes "isAuthorizedSubmitter token req" "present limitQ = Some l" "parseInt10 l = Some b" "1 \<le> b" "b \<le> 500"
    and "sorted_wrt (<) (map er_id (rows t))" "int n \<le> js_safe_int"
  shows "pendingRoute token req (Some (decimal n)) limitQ (Some t)
    = PendingPage (take (nat b) (pending_after n t))
        (if pending_after n t = [] then int n else int (er_id (last (take (nat b) (pending_after n t)))))"
proof -
  let ?x = "pending_after n t"
  have sorted: "sorted_wrt (<) (map er_id ?x)"
    using assms(6) by (simp add: pending_after_def sorted_wrt_map sorted_wrt_filter)
  have cmp: "comparator cmp_id"
    unfolding cmp_id_def by (rule comparator_on [OF int_cmp.comparator_axioms])
  have "sorted_wrt (\<lambda>a b. cmp_id a b \<le> 0) ?x"
    using sorted by (auto simp: sorted_wrt_map cmp_id_def elim: sorted_wrt_mono_rel [rotated])
  then have "js_sort cmp_id ?x = ?x" by (rule comparator.sort_of_sorted [OF cmp])
  then have page: "listReceiptEvidencePendingChainSubmission (int n) b (Some t) = take (nat b) ?x"
    using assms(4,5) by (simp add: listReceiptEvidencePendingChainSubmission_def pending_after_def)
  have last: "fold max (map (\<lambda>r. int (er_id r)) (take (nat b) ?x)) 0 = int (er_id (last (take (nat b) ?x)))"
    if "?x \<noteq> []"
    using that assms(4) sorted by (intro max_of_sorted) (auto simp: sorted_wrt_take simp flip: take_map)
  have nb: "nat b \<noteq> 0" using assms(4) by simp
  have "decimal n \<noteq> []" using decimal_digits by simp
  then have "present (Some (decimal n)) = Some (decimal n)" by (simp add: present_def)
  then show ?thesis
    using assms(1-5,7) last nb
    by (auto simp: pendingRoute_def parseInt10_decimal page MAX_PENDING_PAGE_def Let_def)
qed

text \<open>C17: Paging loses and repeats nothing: a daemon that follows \<open>next_since\<close> until a page is empty
  has received exactly the rows after its starting point that carry no chain mark, each once, in
  the order of their numbers, whatever page size it asks for.\<close>

theorem pending_pages_complete:
  assumes "isAuthorizedSubmitter token req" "present limitQ = Some l" "parseInt10 l = Some b" "1 \<le> b" "b \<le> 500"
    and "sorted_wrt (<) (map er_id (rows t))" "int n \<le> js_safe_int"
    and "list_all (\<lambda>r. int (er_id r) \<le> js_safe_int) (rows t)" "length (pending_after n t) < k"
  shows "drain k token req (decimal n) limitQ (Some t) = pending_after n t"
  using assms(7,9)
proof (induction k arbitrary: n)
  case (Suc k)
  let ?x = "pending_after n t"
  note page = pending_page [OF assms(1-6) Suc.prems(1)]
  show ?case
  proof (cases "?x = []")
    case False
    let ?m = "er_id (last (take (nat b) ?x))"
    have ne: "take (nat b) ?x \<noteq> []" using False assms(4) by simp
    have mem: "last (take (nat b) ?x) \<in> set ?x" using last_in_set [OF ne] by (rule in_set_takeD)
    then have m: "n < ?m" "int ?m \<le> js_safe_int"
      using assms(8) by (auto simp: pending_after_def list_all_iff)
    have sorted: "sorted_wrt (<) (map er_id ?x)"
      using assms(6) by (simp add: pending_after_def sorted_wrt_map sorted_wrt_filter)
    have "pending_after ?m t = filter (\<lambda>r. ?m < er_id r) ?x"
      using m(1) by (auto simp: pending_after_def intro: filter_cong)
    also have "\<dots> = drop (nat b) ?x" using assms(4) False by (intro after_last_of_page [OF sorted]) auto
    finally have rest: "pending_after ?m t = drop (nat b) ?x" .
    have "0 < length ?x" "0 < nat b" using assms(4) False by auto
    then have "length (pending_after ?m t) < k" using Suc.prems(2) by (simp only: rest length_drop)
    then have "drain k token req (decimal ?m) limitQ (Some t) = drop (nat b) ?x" using Suc.IH [OF m(2)] rest by simp
    then show ?thesis using page False ne by simp
  qed (use page in simp)
qed simp

definition daemon_req :: request where
  "daemon_req = no_creds_req\<lparr>h_authorization := Some (js ''Bearer token'')\<rparr>"

lemma daemon_authorized: "isAuthorizedSubmitter (js ''token'') daemon_req"
  by (simp add: isAuthorizedSubmitter_def bearer_token_def daemon_req_def js_eval js_trim_def is_js_space_def)

definition pending_sample :: "evidence_row table" where
  "pending_sample = \<lparr>rows = [sample_evidence_row 1 (js ''amd_sev_snp''),
     (sample_evidence_row 2 (js ''intel_tdx''))\<lparr>er_submitted_to_chain_at := Some 5\<rparr>,
     sample_evidence_row 3 (js ''arm_trustzone''), sample_evidence_row 4 (js ''zkvm_execution'')], next_id = 5\<rparr>"

theorem pending_pages_complete_witness:
  "map er_id (drain 9 (js ''token'') daemon_req (decimal 0) (Some (decimal 2)) (Some pending_sample)) = [1, 3, 4]"
proof -
  have "drain 9 (js ''token'') daemon_req (decimal 0) (Some (decimal 2)) (Some pending_sample)
      = pending_after 0 pending_sample"
    by (rule pending_pages_complete [OF daemon_authorized, where l = "decimal 2" and b = 2])
      (use decimal_digits [of 2] in \<open>simp_all add: present_def parseInt10_decimal pending_sample_def sample_evidence_row_def
        js_safe_int_def pending_after_def\<close>)
  then show ?thesis by (simp add: pending_after_def pending_sample_def sample_evidence_row_def)
qed

section \<open>Nothing is lost or rewritten\<close>

definition grown :: "evidence_row table \<Rightarrow> evidence_db \<Rightarrow> bool" where
  "grown t db \<longleftrightarrow> (case db of
     None \<Rightarrow> False
   | Some t' \<Rightarrow> (\<exists>new. map row_content (rows t') = map row_content (rows t) @ new)
       \<and> list_all (\<lambda>r. r \<in> set (rows t')) (filter (\<lambda>r. er_submitted_to_chain_at r \<noteq> None) (rows t)))"

lemma grown_refl: "grown t (Some t)"
  by (simp add: grown_def list_all_iff)

lemma grown_trans: "grown t (Some t1) \<Longrightarrow> grown t1 db \<Longrightarrow> grown t db"
  by (auto simp: grown_def list_all_iff split: option.splits)

lemma store_grown: "grown t (snd (store_evidence P now ch e (Some t)))"
proof -
  let ?i = "\<lparr>ei_receipt_id = normalizeHex_evidence (computeReceiptId ch), ei_evidence_type = ep_evidence_type e,
      ei_nonce_hex = ep_nonce e, ei_payload = ep_payload e, ei_attestor_pubkey_hex = ep_attestor e,
      ei_signature_hex = ep_signature e\<rparr>"
  obtain out db where i: "insertReceiptEvidence ?i now (Some t) = Some (out, db)"
    by (cases "insertReceiptEvidence ?i now (Some t)") (auto simp: insertReceiptEvidence_def Let_def split: option.splits)
  then have "snd (store_evidence P now ch e (Some t)) = db"
    by (auto simp: store_evidence_def Let_def split: sum.splits)
  moreover from i have "grown t db"
    by (cases rule: insert_cases) (auto simp: grown_def list_all_iff)
  ultimately show ?thesis by simp
qed

lemma mark_grown: "grown t (snd (markReceiptEvidenceSubmittedToChain rid tx now (Some t)))"
proof -
  let ?p = "\<lambda>r. er_id r = rid \<and> er_submitted_to_chain_at r = None"
  let ?f = "\<lambda>r. r\<lparr>er_submitted_to_chain_at := Some now, er_chain_extrinsic_hash := Some (normalizeHex_evidence tx)\<rparr>"
  have "map row_content (sql_update ?p ?f (rows t)) = map row_content (rows t)"
    by (rule sql_update_key) (simp add: row_content_def triple_def)
  moreover have "r \<in> set (sql_update ?p ?f (rows t))" if "r \<in> set (rows t)" "er_submitted_to_chain_at r \<noteq> None" for r
    using that by (force simp: set_sql_update image_iff)
  ultimately have "grown t (Some (t\<lparr>rows := sql_update ?p ?f (rows t)\<rparr>))"
    by (auto simp: grown_def list_all_iff)
  then show ?thesis
    using grown_refl by (auto simp: markReceiptEvidenceSubmittedToChain_def Let_def split: option.splits)
qed

lemma step_grown: "grown t (evidence_step P V op (Some t))"
proof (cases op)
  case (PostEvidence attestors fs now body)
  then show ?thesis
    using grown_refl store_grown by (auto simp: postAttestationEvidence_def split: sum.splits)
qed (use mark_grown in simp)

text \<open>Evidence is never lost or rewritten: whatever is posted and marked, the rows of before are
  still there in their order with their attestor, type, nonce and payload, new ones come after
  them, and a row that carries a chain mark keeps it, with the extrinsic hash of the first mark.\<close>

theorem evidence_append_only:
  "case evidence_run P V ops (Some t) of
     None \<Rightarrow> False
   | Some t' \<Rightarrow> (\<exists>new. map row_content (rows t') = map row_content (rows t) @ new)
       \<and> list_all (\<lambda>r. r \<in> set (rows t')) (filter (\<lambda>r. er_submitted_to_chain_at r \<noteq> None) (rows t))"
proof -
  have "grown t (evidence_run P V ops (Some t))"
  proof (induction ops arbitrary: t)
    case (Cons op ops)
    have g: "grown t (evidence_step P V op (Some t))" by (rule step_grown)
    then obtain t1 where "evidence_step P V op (Some t) = Some t1"
      by (auto simp: grown_def split: option.splits)
    then show ?case using g Cons.IH [of t1] grown_trans by (auto simp: evidence_run_def)
  qed (simp add: evidence_run_def grown_refl)
  then show ?thesis by (simp add: grown_def split: option.splits)
qed

end
