(* ===== verification/Billing.thy ===== *)
theory Billing
  imports JsonText WorkerBounds Auth
begin

text \<open>
  What a billing query is computed from: the aggregation and the cursor (\<open>billing/aggregate.ts\<close>),
  the chain's answers (\<open>billing/chain_query.ts\<close>) and the Cardano anchors found in two files
  (\<open>billing/anchor_resolver.ts\<close>).  The answers of the node and the contents of the files are
  arguments.
\<close>

section \<open>Aggregation\<close>

datatype attestation_status = StCertified | StPending | StUnknown

record billing_record =
  bl_worker_id :: jsstring
  bl_tenant_id :: jsstring
  bl_period_start_ms :: int
  bl_period_end_ms :: int
  bl_cpu_seconds :: f64
  bl_ram_gb_hours :: f64
  bl_disk_gb_hours :: f64
  bl_net_bytes_in :: f64
  bl_net_bytes_out :: f64
  bl_gpu_seconds :: f64
  bl_status :: attestation_status
  bl_anchor_tx :: "jsstring option"
  bl_trust_score :: "int option"

record billing_aggregate =
  ba_record_count :: nat
  ba_certified_count :: nat
  ba_anchored_count :: nat
  ba_tee_attested_count :: nat
  ba_cpu_seconds :: f64
  ba_ram_gb_hours :: f64
  ba_disk_gb_hours :: f64
  ba_net_bytes_in :: f64
  ba_net_bytes_out :: f64
  ba_gpu_seconds :: f64
  ba_first_ms :: "int option"
  ba_last_ms :: "int option"
  ba_unique_workers :: nat

definition zero_aggregate :: billing_aggregate where
  "zero_aggregate =
     \<lparr>ba_record_count = 0, ba_certified_count = 0, ba_anchored_count = 0, ba_tee_attested_count = 0,
      ba_cpu_seconds = num 0, ba_ram_gb_hours = num 0, ba_disk_gb_hours = num 0, ba_net_bytes_in = num 0,
      ba_net_bytes_out = num 0, ba_gpu_seconds = num 0, ba_first_ms = None, ba_last_ms = None, ba_unique_workers = 0\<rparr>"

text \<open>One turn of the loop, with the set of workers seen.\<close>

definition add_record :: "billing_record \<Rightarrow> billing_aggregate \<times> jsstring set \<Rightarrow> billing_aggregate \<times> jsstring set" where
  "add_record r = (\<lambda>(a, workers).
     (a\<lparr>ba_record_count := ba_record_count a + 1,
        ba_certified_count := ba_certified_count a + (if bl_status r = StCertified then 1 else 0),
        ba_anchored_count := ba_anchored_count a + (if bl_anchor_tx r \<noteq> None then 1 else 0),
        ba_tee_attested_count := ba_tee_attested_count a
          + (case bl_trust_score r of Some s \<Rightarrow> if 1 \<le> s then 1 else 0 | None \<Rightarrow> 0),
        ba_cpu_seconds := f64_add (ba_cpu_seconds a) (bl_cpu_seconds r),
        ba_ram_gb_hours := f64_add (ba_ram_gb_hours a) (bl_ram_gb_hours r),
        ba_disk_gb_hours := f64_add (ba_disk_gb_hours a) (bl_disk_gb_hours r),
        ba_net_bytes_in := f64_add (ba_net_bytes_in a) (bl_net_bytes_in r),
        ba_net_bytes_out := f64_add (ba_net_bytes_out a) (bl_net_bytes_out r),
        ba_gpu_seconds := f64_add (ba_gpu_seconds a) (bl_gpu_seconds r),
        ba_first_ms := (case ba_first_ms a of
            None \<Rightarrow> Some (bl_period_start_ms r)
          | Some m \<Rightarrow> if bl_period_start_ms r < m then Some (bl_period_start_ms r) else Some m),
        ba_last_ms := (case ba_last_ms a of
            None \<Rightarrow> Some (bl_period_start_ms r)
          | Some m \<Rightarrow> if m < bl_period_start_ms r then Some (bl_period_start_ms r) else Some m)\<rparr>,
      insert (bl_worker_id r) workers))"

definition aggregateRecords :: "billing_record list \<Rightarrow> billing_aggregate" where
  "aggregateRecords rs =
     (let (a, workers) = fold add_record rs (zero_aggregate, {}) in a\<lparr>ba_unique_workers := card workers\<rparr>)"

section \<open>The cursor\<close>

definition buildNextCursor :: "js_text \<Rightarrow> (int \<times> jsstring) list \<Rightarrow> nat \<Rightarrow> bool \<Rightarrow> jsstring option" where
  "buildNextCursor T records pageSize is_final =
     (if is_final \<or> length records < pageSize then None
      else if records = [] then None
      else let r = last records;
               payload = json_stringify T (JObj [(js ''p'', JNum (num (fst r))), (js ''h'', JStr (snd r))]);
               plain = map (\<lambda>c. if c = 0x2B then 0x2D else if c = 0x2F then 0x5F else c)
                 (base64_text (utf8_encode payload))
           in Some (rev (dropWhile (\<lambda>c. c = 0x3D) (rev plain))))"

definition decodeCursor :: "js_text \<Rightarrow> js_host \<Rightarrow> jsstring \<Rightarrow> (int \<times> jsstring) option" where
  "decodeCursor T H cursor =
     (let pad = length cursor mod 4;
          restored = cursor @ (if pad \<noteq> 0 then replicate (4 - pad) 0x3D else []);
          standard = map (\<lambda>c. if c = 0x2D then 0x2B else if c = 0x5F then 0x2F else c) restored
      in case json_parse T (utf8_text H (base64_octets H standard)) of
           Some (JObj ps) \<Rightarrow>
             (case (get_prop (js ''p'') ps, get_prop (js ''h'') ps) of
                (Some (JNum p), Some (JStr h)) \<Rightarrow>
                  if f64_is_integer p \<and> re_lower_hex 64 h then Some (f64_int p, h) else None
              | _ \<Rightarrow> None)
         | _ \<Rightarrow> None)"

section \<open>Answers of the chain\<close>

definition receiptIdFromContentHash :: "jsstring \<Rightarrow> jsstring" where
  "receiptIdFromContentHash contentHash =
     js ''0x'' @ sha256_hex (hex_to_bytes
       (if starts_with contentHash (js ''0x'') then drop 2 contentHash else contentHash))"

text \<open>A query finds nothing, a record (its \<open>toJSON\<close>), or fails.\<close>

datatype chain_answer = NoReceipt | ReceiptRecord json | QueryThrows

record chain_status =
  cs_content_hash :: jsstring
  cs_receipt_id :: jsstring
  cs_status :: attestation_status
  cs_cert_hash :: "jsstring option"

text \<open>\<open>x ?? y\<close> on a property of a record: null counts as absent.\<close>

definition prop_value :: "jsstring \<Rightarrow> json \<Rightarrow> json option" where
  "prop_value k v =
     (case v of JObj ps \<Rightarrow> (case get_prop k ps of Some JNull \<Rightarrow> None | x \<Rightarrow> x) | _ \<Rightarrow> None)"

definition or_else :: "'a option \<Rightarrow> 'a option \<Rightarrow> 'a option" where
  "or_else a b = (case a of None \<Rightarrow> b | Some _ \<Rightarrow> a)"

definition ZERO_HASH_NO_PREFIX :: jsstring where
  "ZERO_HASH_NO_PREFIX = replicate 64 0x30"

definition status_of_answer :: "js_text \<Rightarrow> jsstring \<Rightarrow> chain_answer \<Rightarrow> chain_status" where
  "status_of_answer T contentHash answer =
     (let r = \<lparr>cs_content_hash = contentHash, cs_receipt_id = receiptIdFromContentHash contentHash,
            cs_status = StUnknown, cs_cert_hash = None\<rparr>
      in case answer of
           NoReceipt \<Rightarrow> r
         | QueryThrows \<Rightarrow> r
         | ReceiptRecord v \<Rightarrow>
             if v = JNull then r
             else (case (case or_else (prop_value (js ''availability_cert_hash'') v)
                               (prop_value (js ''availabilityCertHash'') v) of
                           None \<Rightarrow> Some []
                         | Some x \<Rightarrow> js_string T x) of
                     None \<Rightarrow> r
                   | Some raw \<Rightarrow>
                       let cert = (if starts_with raw (js ''0x'') then drop 2 raw else raw)
                       in if cert = [] \<or> cert = ZERO_HASH_NO_PREFIX then r\<lparr>cs_status := StPending\<rparr>
                          else r\<lparr>cs_status := StCertified, cs_cert_hash := Some (js ''0x'' @ cert)\<rparr>))"

text \<open>\<open>None\<close> for the connection when there is none; every answer is then unknown.\<close>

definition queryReceiptStatuses ::
  "js_text \<Rightarrow> (jsstring \<Rightarrow> chain_answer) option \<Rightarrow> jsstring list \<Rightarrow> chain_status list" where
  "queryReceiptStatuses T api contentHashes =
     map (\<lambda>h. status_of_answer T h
            (case api of None \<Rightarrow> QueryThrows | Some q \<Rightarrow> q (receiptIdFromContentHash h)))
       (js_unique contentHashes)"

text \<open>
  The answer of the score query: \<open>toJSON()\<close> of the value, which is not null, and what its
  \<open>toNumber\<close> returns if it has one.
\<close>

datatype trust_answer = NoPallet | TrustEmpty | TrustThrows | TrustValue json "f64 option"

definition score_candidate :: "json \<Rightarrow> f64 option" where
  "score_candidate v =
     (case v of
        JNum x \<Rightarrow> Some x
      | JObj ps \<Rightarrow>
          (case or_else (prop_value (js ''value'') v) (prop_value (js ''0'') v) of Some (JNum x) \<Rightarrow> Some x | _ \<Rightarrow> None)
      | JArr (JNum x # vs) \<Rightarrow> Some x
      | _ \<Rightarrow> None)"

text \<open>\<open>Math.trunc\<close> of a number whose integral part is within 0 and 4.\<close>

definition trunc_score :: "f64 \<Rightarrow> int option" where
  "trunc_score x =
     (if f64_lt (num (-1)) x \<and> f64_lt x (num 1) then Some 0
      else find (\<lambda>k. f64_le (num k) x \<and> f64_lt x (num (k + 1))) [1, 2, 3, 4])"

definition queryOneCompositeTrustScore :: "trust_answer \<Rightarrow> int option" where
  "queryOneCompositeTrustScore answer =
     (case answer of
        NoPallet \<Rightarrow> None
      | TrustThrows \<Rightarrow> None
      | TrustEmpty \<Rightarrow> Some 0
      | TrustValue v n \<Rightarrow>
          (case or_else (score_candidate v) n of
             None \<Rightarrow> None
           | Some x \<Rightarrow> if f64_finite x then trunc_score x else None))"

definition queryCompositeTrustScores ::
  "(jsstring \<Rightarrow> trust_answer) option \<Rightarrow> jsstring list \<Rightarrow> (jsstring \<times> int option) list" where
  "queryCompositeTrustScores api contentHashes =
     map (\<lambda>h. (h, case api of None \<Rightarrow> None | Some q \<Rightarrow> queryOneCompositeTrustScore (q (receiptIdFromContentHash h))))
       (js_unique contentHashes)"

section \<open>Anchors\<close>

definition clean_hash :: "jsstring \<Rightarrow> jsstring" where
  "clean_hash hex = to_lower (if starts_with hex (js ''0x'') \<or> starts_with hex (js ''0X'') then drop 2 hex else hex)"

text \<open>The pieces of \<open>/anchored\s+root=([0-9a-f]{20})\.{3}\s+as\s+tx\s+([0-9a-f]{64})/\<close>.\<close>

definition read_text :: "string \<Rightarrow> jsstring \<Rightarrow> jsstring option" where
  "read_text p s = (if starts_with s (js p) then Some (drop (length (js p)) s) else None)"

definition read_spaces :: "jsstring \<Rightarrow> jsstring option" where
  "read_spaces s = (if s \<noteq> [] \<and> is_js_space (hd s) then Some (drop_space s) else None)"

definition read_hex :: "nat \<Rightarrow> jsstring \<Rightarrow> (jsstring \<times> jsstring) option" where
  "read_hex n s = (if re_lower_hex n (take n s) then Some (take n s, drop n s) else None)"

definition match_anchor :: "jsstring \<Rightarrow> (jsstring \<times> jsstring \<times> jsstring) option" where
  "match_anchor s0 =
     Option.bind (Option.bind (read_text ''anchored'' s0) read_spaces) (\<lambda>s1.
     Option.bind (Option.bind (read_text ''root='' s1) (read_hex 20)) (\<lambda>(root20, s2).
     Option.bind (Option.bind (read_text ''...'' s2) read_spaces) (\<lambda>s3.
     Option.bind (Option.bind (read_text ''as'' s3) read_spaces) (\<lambda>s4.
     Option.bind (Option.bind (read_text ''tx'' s4) read_spaces) (\<lambda>s5.
     Option.bind (read_hex 64 s5) (\<lambda>(tx, rest). Some (root20, tx, rest)))))))"

lemma read_shorter:
  "read_text p s = Some r \<Longrightarrow> length r \<le> length s" "read_spaces s = Some r \<Longrightarrow> length r \<le> length s"
  "read_hex n s = Some (x, r) \<Longrightarrow> length r \<le> length s"
proof -
  have d: "length (drop_space t) \<le> length t" for t by (induction t) auto
  show "read_text p s = Some r \<Longrightarrow> length r \<le> length s" "read_spaces s = Some r \<Longrightarrow> length r \<le> length s"
    "read_hex n s = Some (x, r) \<Longrightarrow> length r \<le> length s"
    using d by (auto simp: read_text_def read_spaces_def read_hex_def split: if_splits)
qed

lemma read_anchored: "read_text ''anchored'' s = Some r \<Longrightarrow> length r < length s"
  by (cases s) (auto simp: read_text_def js_eval split: if_splits)

lemma match_anchor_shorter: "match_anchor s = Some (a, b, r) \<Longrightarrow> length r < length s"
  unfolding match_anchor_def
  by (auto simp: bind_eq_Some_conv) (drule read_anchored, (drule read_shorter)+, simp)

text \<open>All matches from left to right; of two lines with one root the later one counts.\<close>

function anchor_lines :: "jsstring \<Rightarrow> (jsstring \<times> jsstring) list" where
  "anchor_lines [] = []"
| "anchor_lines (c # s) =
     (case match_anchor (c # s) of
        None \<Rightarrow> anchor_lines s
      | Some (root20, tx, rest) \<Rightarrow> (root20, tx) # anchor_lines rest)"
  by pat_completeness auto
termination by (relation "measure length") (auto dest: match_anchor_shorter)

declare anchor_lines.simps [simp del]

definition parseAnchorWorkerLog :: "jsstring \<Rightarrow> jsstring \<Rightarrow> jsstring option" where
  "parseAnchorWorkerLog text = map_of (rev (anchor_lines text))"

text \<open>\<open>String(x ?? "")\<close>\<close>

definition text_or_empty :: "js_text \<Rightarrow> json option \<Rightarrow> jsstring option" where
  "text_or_empty T x = (case x of None \<Rightarrow> Some [] | Some v \<Rightarrow> js_string T v)"

type_synonym resolve_map = "(jsstring \<times> jsstring option) list"

text \<open>The first entry of a certificate wins; a leaf that is an array has no hash and is skipped too.  \<open>None\<close> when a conversion to text throws.\<close>

fun add_leaves :: "js_text \<Rightarrow> jsstring option \<Rightarrow> json list \<Rightarrow> resolve_map \<Rightarrow> resolve_map option" where
  "add_leaves T tx [] m = Some m"
| "add_leaves T tx (leaf # leaves) m =
     (if \<not> is_plain_object leaf then add_leaves T tx leaves m
      else Option.bind (text_or_empty T (prop_value (js ''cert_hash'') leaf)) (\<lambda>s.
        let cert = clean_hash s
        in if \<not> re_lower_hex 64 cert \<or> cert \<in> fst ` set m then add_leaves T tx leaves m
           else add_leaves T tx leaves (m @ [(cert, tx)])))"

fun add_checkpoints :: "js_text \<Rightarrow> (jsstring \<Rightarrow> jsstring option) \<Rightarrow> json list \<Rightarrow> resolve_map \<Rightarrow> resolve_map option" where
  "add_checkpoints T rootToTx [] m = Some m"
| "add_checkpoints T rootToTx (ck # cks) m =
     (case prop_value (js ''leaves'') ck of
        Some (JArr leaves) \<Rightarrow>
          Option.bind (text_or_empty T (prop_value (js ''root_hash'') ck)) (\<lambda>s.
            let root = clean_hash s
            in if \<not> re_lower_hex 64 root then add_checkpoints T rootToTx cks m
               else Option.bind (add_leaves T (rootToTx (take 20 root)) leaves m) (add_checkpoints T rootToTx cks))
      | _ \<Rightarrow> add_checkpoints T rootToTx cks m)"

text \<open>The two files: the parsed history if it could be read and parsed, and the log's text.\<close>

record anchor_files =
  af_history :: "json option"
  af_log :: "jsstring option"

definition buildResolveMap :: "js_text \<Rightarrow> anchor_files \<Rightarrow> resolve_map option" where
  "buildResolveMap T files =
     (case af_history files of
        Some (JArr history) \<Rightarrow>
          add_checkpoints T (case af_log files of None \<Rightarrow> (\<lambda>_. None) | Some t \<Rightarrow> parseAnchorWorkerLog t) history []
      | _ \<Rightarrow> Some [])"

record anchor_cache =
  ac_map :: resolve_map
  ac_built_at_ms :: int

definition resolve_anchor :: "resolve_map \<Rightarrow> jsstring option \<Rightarrow> jsstring option" where
  "resolve_anchor m h =
     (case h of
        None \<Rightarrow> None
      | Some s \<Rightarrow>
          if s = [] then None
          else let c = clean_hash s
               in if \<not> re_lower_hex 64 c then None
                  else (case map_of m c of Some (Some tx) \<Rightarrow> Some tx | _ \<Rightarrow> None))"

definition resolveAnchorTxs ::
  "js_text \<Rightarrow> int \<Rightarrow> anchor_files \<Rightarrow> jsstring option list \<Rightarrow> anchor_cache option
   \<Rightarrow> (jsstring option list \<times> anchor_cache option) option" where
  "resolveAnchorTxs T now files certHashes cache =
     (if certHashes = [] then Some ([], cache)
      else case (case cache of Some c \<Rightarrow> if 30000 < now - ac_built_at_ms c then None else Some c | None \<Rightarrow> None) of
             Some c \<Rightarrow> Some (map (resolve_anchor (ac_map c)) certHashes, cache)
           | None \<Rightarrow>
               (case buildResolveMap T files of
                  None \<Rightarrow> None
                | Some m \<Rightarrow> Some (map (resolve_anchor m) certHashes, Some \<lparr>ac_map = m, ac_built_at_ms = now\<rparr>)))"

section \<open>The cursor can be read back\<close>

lemma url_units:
  "n < 64 \<Longrightarrow> sextet_unit n \<noteq> 0x3D \<and> sextet_unit n \<noteq> 0x2D \<and> sextet_unit n \<noteq> 0x5F"
proof -
  have "list_all (\<lambda>n. sextet_unit n \<noteq> 0x3D \<and> sextet_unit n \<noteq> 0x2D \<and> sextet_unit n \<noteq> 0x5F) [0..<64]" by code_simp
  then show "n < 64 \<Longrightarrow> sextet_unit n \<noteq> 0x3D \<and> sextet_unit n \<noteq> 0x2D \<and> sextet_unit n \<noteq> 0x5F"
    by (simp add: list_all_iff)
qed

lemma strip_padding:
  "c \<notin> set s \<Longrightarrow> rev (dropWhile (\<lambda>x. x = c) (rev (s @ replicate k c))) = s"
proof -
  assume "c \<notin> set s"
  then have "dropWhile (\<lambda>x. x = c) (rev s) = rev s" by (cases "rev s") (auto simp: dropWhile_eq_self_iff)
  then have "dropWhile (\<lambda>x. x = c) (replicate k c @ rev s) = rev s" by (induction k) simp_all
  then show ?thesis by simp
qed

lemma padding_amount: "m mod 4 \<noteq> 1 \<Longrightarrow> (4 - m mod 4) mod 4 \<le> (2::nat)"
proof -
  assume "m mod 4 \<noteq> 1"
  moreover have "m mod 4 < 4" by simp
  ultimately have "m mod 4 = 0 \<or> m mod 4 = 2 \<or> m mod 4 = 3" by linarith
  then show ?thesis by auto
qed

definition url_text :: "bytes \<Rightarrow> jsstring" where
  "url_text bs = map (\<lambda>n. let c = sextet_unit n in if c = 0x2B then 0x2D else if c = 0x2F then 0x5F else c) (to_sextets bs)"

lemma url_text_round:
  fixes bs
  defines "c \<equiv> url_text bs"
  shows "base64_octets H (map (\<lambda>c. if c = 0x2D then 0x2B else if c = 0x5F then 0x2F else c)
      (c @ (if length c mod 4 \<noteq> 0 then replicate (4 - length c mod 4) 0x3D else []))) = bs"
    and "rev (dropWhile (\<lambda>c. c = 0x3D) (rev (map (\<lambda>c. if c = 0x2B then 0x2D else if c = 0x2F then 0x5F else c)
      (base64_text bs)))) = c"
proof -
  let ?ss = "to_sextets bs" and ?k = "(4 - length (to_sextets bs) mod 4) mod 4"
  have less: "n < 64" if "n \<in> set ?ss" for n using to_sextets_less [of bs] that by (simp add: list_all_iff)
  have len: "length c = length ?ss" by (simp add: c_def url_text_def)
  have pad: "(if length c mod 4 \<noteq> 0 then replicate (4 - length c mod 4) (0x3D :: u16) else []) = replicate ?k 0x3D"
    by (simp add: len)
  have "map (\<lambda>c. if c = 0x2D then 0x2B else if c = 0x5F then 0x2F else c) c = map sextet_unit ?ss"
    using url_units less by (auto simp: c_def url_text_def Let_def)
  then have "map (\<lambda>c. if c = 0x2D then 0x2B else if c = 0x5F then 0x2F else c)
      (c @ (if length c mod 4 \<noteq> 0 then replicate (4 - length c mod 4) 0x3D else [])) = map sextet_unit ?ss @ replicate ?k 0x3D"
    unfolding pad by simp
  moreover have "base64_octets H (map sextet_unit ?ss @ replicate ?k 0x3D) = bs"
    unfolding base64_octets_def
    using base64_regex [OF to_sextets_less padding_amount [OF length_to_sextets]] map_filter_sextets [OF to_sextets_less]
    by (simp add: from_to_sextets)
  ultimately show "base64_octets H (map (\<lambda>c. if c = 0x2D then 0x2B else if c = 0x5F then 0x2F else c)
      (c @ (if length c mod 4 \<noteq> 0 then replicate (4 - length c mod 4) 0x3D else []))) = bs" by simp
  have "0x3D \<notin> set c" using url_units less by (force simp: c_def url_text_def Let_def)
  moreover have "map (\<lambda>c. if c = 0x2B then 0x2D else if c = 0x2F then 0x5F else c) (base64_text bs) = c @ replicate ?k 0x3D"
    by (simp add: base64_text_def c_def url_text_def Let_def)
  ultimately show "rev (dropWhile (\<lambda>c. c = 0x3D) (rev (map (\<lambda>c. if c = 0x2B then 0x2D else if c = 0x2F then 0x5F else c)
      (base64_text bs)))) = c"
    by (simp only:) (rule strip_padding)
qed

lemma quote_units_hex: "list_all is_lower_hex s \<Longrightarrow> quote_units s = s"
proof (induction s rule: quote_units.induct)
  case (2 c)
  then show ?case
    by (auto simp: quote_unit_def is_lower_hex_def is_digit_u16_def is_high_surrogate_def is_low_surrogate_def
        word_le_nat_alt word_less_nat_alt)
next
  case (3 c d s)
  have "quote_unit c = [c]" "\<not> is_high_surrogate c"
    using 3(3) by (auto simp: quote_unit_def is_lower_hex_def is_digit_u16_def is_high_surrogate_def
        is_low_surrogate_def word_le_nat_alt word_less_nat_alt)
  then show ?case using 3 by simp
qed simp

lemma cursor_payload:
  assumes "numbers_documented T" "\<bar>p\<bar> \<le> 2 ^ 53" "re_lower_hex 64 h"
  defines "s \<equiv> json_stringify T (JObj [(js ''p'', JNum (num p)), (js ''h'', JStr h)])"
  shows "list_all (\<lambda>c. c < 0x80) s"
    and "\<exists>x. json_parse T s = Some (JObj [(js ''p'', JNum x), (js ''h'', JStr h)]) \<and> f64_to_int x = Some p"
proof -
  have fin: "f64_finite (num p)" "f64_to_int (num p) = Some p" using num_finite num_to_int assms(2) by auto
  have "list_all is_number_unit (number_text T (num p))" using assms(1) fin by (simp add: numbers_documented_def)
  then have n: "list_all (\<lambda>c. c < 0x80) (number_text T (num p))"
    by (auto simp: list_all_iff is_number_unit_def is_digit_u16_def word_le_nat_alt word_less_nat_alt)
  have "list_all (\<lambda>c. c < 0x80) h"
    using assms(3) by (auto simp: re_lower_hex_def list_all_iff is_lower_hex_def is_digit_u16_def word_le_nat_alt word_less_nat_alt)
  then show "list_all (\<lambda>c. c < 0x80) s"
    using n fin quote_units_hex [of h] assms(3)
    by (simp add: s_def json_quote_def re_lower_hex_def js_eval quote_unit_def is_high_surrogate_def is_low_surrogate_def)
  have "array_index (js ''p'') = None" "array_index (js ''h'') = None"
    by (simp_all add: array_index_def js_eval is_digit_u16_def)
  then have "json_wf (JObj [(js ''p'', JNum (num p)), (js ''h'', JStr h)])"
    by (simp add: key_before_def js_eq_iff)
  from parse_stringify [OF assms(1) this]
  show "\<exists>x. json_parse T s = Some (JObj [(js ''p'', JNum x), (js ''h'', JStr h)]) \<and> f64_to_int x = Some p"
    using fin f64_zero_int by (auto simp: s_def)
qed

lemma url_unit:
  "n < 64 \<Longrightarrow> (let c = sextet_unit n in let u = if c = 0x2B then 0x2D else if c = 0x2F then 0x5F else c
     in is_upper_letter u \<or> is_lower_letter u \<or> is_digit_u16 u \<or> u = 0x2D \<or> u = 0x5F)"
proof -
  have "list_all (\<lambda>n. let c = sextet_unit n in let u = if c = 0x2B then 0x2D else if c = 0x2F then 0x5F else c
     in is_upper_letter u \<or> is_lower_letter u \<or> is_digit_u16 u \<or> u = 0x2D \<or> u = 0x5F) [0..<64]" by code_simp
  then show "n < 64 \<Longrightarrow> (let c = sextet_unit n in let u = if c = 0x2B then 0x2D else if c = 0x2F then 0x5F else c
     in is_upper_letter u \<or> is_lower_letter u \<or> is_digit_u16 u \<or> u = 0x2D \<or> u = 0x5F)"
    by (simp add: list_all_iff)
qed

lemma url_text_units:
  "list_all (\<lambda>u. is_upper_letter u \<or> is_lower_letter u \<or> is_digit_u16 u \<or> u = 0x2D \<or> u = 0x5F) (url_text bs)"
  unfolding url_text_def list.pred_map
  by (rule list.pred_mono_strong [OF to_sextets_less]) (use url_unit in \<open>simp only: o_def Let_def\<close>)

lemma to_sextets_empty: "to_sextets bs = [] \<longleftrightarrow> bs = []"
  by (induction bs rule: to_sextets.induct) simp_all

text \<open>Every cursor the billing route hands out can be read back: it is made of URL-safe characters
  only and decodes to the period start and the content hash of the last row of its page.\<close>

lemma cursor_decodes:
  assumes "numbers_documented T" "rs \<noteq> []" "pageSize \<le> length rs" "last rs = (p, h)"
    and "\<bar>p\<bar> \<le> 2 ^ 53" "re_lower_hex 64 h"
  shows "\<exists>c. buildNextCursor T rs pageSize False = Some c \<and> decodeCursor T H c = Some (p, h)
    \<and> c \<noteq> [] \<and> list_all (\<lambda>u. is_upper_letter u \<or> is_lower_letter u \<or> is_digit_u16 u \<or> u = 0x2D \<or> u = 0x5F) c"
proof -
  let ?s = "json_stringify T (JObj [(js ''p'', JNum (num p)), (js ''h'', JStr h)])"
  let ?c = "url_text (utf8_encode ?s)"
  note payload = cursor_payload [OF assms(1,5,6)]
  have low: "c < 0x80 \<Longrightarrow> (of_nat (unat c) :: u8) < 0x80 \<and> ucast (of_nat (unat c) :: u8) = c" for c :: u16
    by (auto simp: word_less_nat_alt unat_byte word_unat_eq_iff unsigned_ucast_eq unsigned_take_bit_eq take_bit_nat_eq_self)
  have utf8: "utf8_encode ?s = map (\<lambda>c. of_nat (unat c)) ?s" by (rule utf8_encode_ascii [OF payload(1)])
  have plain: "utf8_text H (utf8_encode ?s) = ?s"
  proof -
    have "map ucast (utf8_encode ?s) = ?s"
      unfolding utf8 map_map by (rule map_idI) (use payload(1) low in \<open>auto simp: list_all_iff\<close>)
    moreover have "list_all (\<lambda>b. b < 0x80) (utf8_encode ?s)"
      unfolding utf8 using payload(1) low by (auto simp: list_all_iff)
    ultimately show ?thesis by (simp add: utf8_text_def)
  qed
  obtain x where x: "json_parse T ?s = Some (JObj [(js ''p'', JNum x), (js ''h'', JStr h)])" "f64_to_int x = Some p"
    using payload(2) by blast
  have dec: "decodeCursor T H ?c = Some (p, h)"
    unfolding decodeCursor_def Let_def url_text_round(1) plain
    using x assms(6) by (simp add: get_prop_def js_eq_iff f64_is_integer_def)
  have build: "buildNextCursor T rs pageSize False = Some ?c"
    unfolding buildNextCursor_def Let_def assms(4) fst_conv snd_conv url_text_round(2) using assms(2,3) by simp
  have "utf8_encode ?s \<noteq> []" unfolding utf8 by simp
  then have "?c \<noteq> []" by (simp only: url_text_def to_sextets_empty map_is_Nil_conv simp_thms)
  moreover have "list_all (\<lambda>u. is_upper_letter u \<or> is_lower_letter u \<or> is_digit_u16 u \<or> u = 0x2D \<or> u = 0x5F) ?c"
    by (rule url_text_units)
  ultimately show ?thesis using dec build by blast
qed

text \<open>
  An instance of the number texts: the decimal of a number's bits.  (What JavaScript prints is
  the shortest decimal of its value; only the documented round trip is used.)
\<close>

definition bits_text :: js_text where
  "bits_text = \<lparr>number_text = (\<lambda>x. decimal (unat (f64_bits (if f64_to_int x = Some 0 then f64_zero False else x)))),
     text_number = (\<lambda>s. F64 (of_int (fold (\<lambda>c n. n * 10 + (int (unat c) - 0x30)) s 0)))\<rparr>"

lemma decimal_no_leading_zero: "0 < n \<Longrightarrow> hd (decimal n) \<noteq> 0x30"
proof (induction n rule: decimal.induct)
  case (1 n)
  show ?case
  proof (cases "n < 10")
    case True
    then have "of_nat (0x30 + n) \<noteq> (0x30 :: u16)" using 1(2) by (auto simp: word_unat_eq_iff unat_unit simp del: of_nat_add)
    then show ?thesis using True by (simp add: decimal.simps [of n])
  next
    case False
    then show ?thesis using 1(1) decimal_digits [of "n div 10"] by (simp add: decimal.simps [of n] hd_append)
  qed
qed

lemma decimal_json_number: "is_json_number (decimal n) \<and> list_all is_number_unit (decimal n)"
proof -
  have d: "list_all is_digit_u16 (decimal n)" "decimal n \<noteq> []" using decimal_digits by auto
  then have "is_digit_u16 (hd (decimal n))" by (cases "decimal n") auto
  then have h: "hd (decimal n) \<noteq> 0x2D" by (auto simp: is_digit_u16_def word_le_nat_alt)
  have t: "takeWhile is_digit_u16 (decimal n) = decimal n" "dropWhile is_digit_u16 (decimal n) = []"
    using d by (simp_all add: takeWhile_eq_all_conv dropWhile_eq_Nil_conv list_all_iff)
  have "hd (decimal n) = 0x30 \<longrightarrow> length (decimal n) = 1"
    using decimal_no_leading_zero [of n] by (cases "n = 0") (auto simp: decimal.simps [of 0])
  then have "is_json_number (decimal n)" using d(2) h by (simp add: is_json_number_def Let_def t fraction_ok_def)
  then show ?thesis using d(1) by (auto simp: list_all_iff is_number_unit_def)
qed

lemma bits_text_documented: "numbers_documented bits_text"
  unfolding numbers_documented_def
proof (intro allI impI conjI)
  fix x
  assume x: "f64_finite x"
  let ?y = "if f64_to_int x = Some 0 then f64_zero False else x"
  show "is_json_number (number_text bits_text x)" "list_all is_number_unit (number_text bits_text x)"
    using decimal_json_number by (simp_all add: bits_text_def)
  have "fold (\<lambda>c n. n * 10 + (int (unat c) - 0x30)) (decimal n) 0 = int n" for n
    using parse_decimal [of n] by (simp add: parse_ts_def decimal_digits)
  then have "text_number bits_text (number_text bits_text x) = F64 (of_int (int (unat (f64_bits ?y))))"
    by (simp add: bits_text_def)
  also have "\<dots> = ?y" by (cases ?y) simp
  finally show "JNum (text_number bits_text (number_text bits_text x)) = json_reparse (JNum x)"
    using x by simp
qed

lemma cursor_decodes_sample:
  "\<exists>c. buildNextCursor bits_text [(10, replicate 64 0x61), (30, replicate 64 0x62)] 2 False = Some c
     \<and> decodeCursor bits_text H c = Some (30, replicate 64 0x62)"
proof -
  have "re_lower_hex 64 (replicate 64 0x62)" by (rule re_lower_hex_replicate) (simp add: char_class_defs)
  from cursor_decodes [OF bits_text_documented _ _ _ _ this, of "[(10, replicate 64 0x61), (30, replicate 64 0x62)]" 2 30 H]
  show ?thesis by auto
qed

section \<open>What the aggregate is\<close>

definition f64_total :: "('a \<Rightarrow> f64) \<Rightarrow> 'a list \<Rightarrow> f64" where
  "f64_total f rs = foldl (\<lambda>a r. f64_add a (f r)) (num 0) rs"

lemma fold_add_record:
  fixes rs
  defines "a \<equiv> fst (fold add_record rs (zero_aggregate, {}))"
  shows "ba_record_count a = length rs \<and> ba_certified_count a = length (filter (\<lambda>r. bl_status r = StCertified) rs)
    \<and> ba_anchored_count a = length (filter (\<lambda>r. bl_anchor_tx r \<noteq> None) rs)
    \<and> ba_tee_attested_count a = length (filter (\<lambda>r. case bl_trust_score r of Some s \<Rightarrow> 1 \<le> s | None \<Rightarrow> False) rs)
    \<and> ba_cpu_seconds a = f64_total bl_cpu_seconds rs \<and> ba_ram_gb_hours a = f64_total bl_ram_gb_hours rs
    \<and> ba_disk_gb_hours a = f64_total bl_disk_gb_hours rs \<and> ba_net_bytes_in a = f64_total bl_net_bytes_in rs
    \<and> ba_net_bytes_out a = f64_total bl_net_bytes_out rs \<and> ba_gpu_seconds a = f64_total bl_gpu_seconds rs
    \<and> ba_first_ms a = (if rs = [] then None else Some (Min (bl_period_start_ms ` set rs)))
    \<and> ba_last_ms a = (if rs = [] then None else Some (Max (bl_period_start_ms ` set rs)))
    \<and> snd (fold add_record rs (zero_aggregate, {})) = bl_worker_id ` set rs"
  unfolding a_def
proof (induction rs rule: rev_induct)
  case (snoc r rs)
  obtain a w where f: "fold add_record rs (zero_aggregate, {}) = (a, w)" by fastforce
  then have step: "fold add_record (rs @ [r]) (zero_aggregate, {}) = add_record r (a, w)" by simp
  show ?case
  proof (cases "rs = []")
    case True
    then show ?thesis by (simp add: add_record_def zero_aggregate_def f64_total_def split: option.split)
  next
    case False
    obtain lo hi where e: "Min (bl_period_start_ms ` set rs) = lo" "Max (bl_period_start_ms ` set rs) = hi" by blast
    with False have "Min (bl_period_start_ms ` set (rs @ [r])) = (if bl_period_start_ms r < lo then bl_period_start_ms r else lo)"
      "Max (bl_period_start_ms ` set (rs @ [r])) = (if hi < bl_period_start_ms r then bl_period_start_ms r else hi)"
      by (simp_all add: min_def max_def)
    then show ?thesis
      using snoc False unfolding step f fst_conv snd_conv e
      by (simp add: add_record_def f64_total_def split: option.split)
  qed
qed (simp add: zero_aggregate_def f64_total_def)

lemma aggregate_fields:
  "ba_record_count (aggregateRecords rs) = length rs"
  "ba_certified_count (aggregateRecords rs) = length (filter (\<lambda>r. bl_status r = StCertified) rs)"
  "ba_anchored_count (aggregateRecords rs) = length (filter (\<lambda>r. bl_anchor_tx r \<noteq> None) rs)"
  "ba_tee_attested_count (aggregateRecords rs)
     = length (filter (\<lambda>r. case bl_trust_score r of Some s \<Rightarrow> 1 \<le> s | None \<Rightarrow> False) rs)"
  "ba_cpu_seconds (aggregateRecords rs) = f64_total bl_cpu_seconds rs"
  "ba_ram_gb_hours (aggregateRecords rs) = f64_total bl_ram_gb_hours rs"
  "ba_disk_gb_hours (aggregateRecords rs) = f64_total bl_disk_gb_hours rs"
  "ba_net_bytes_in (aggregateRecords rs) = f64_total bl_net_bytes_in rs"
  "ba_net_bytes_out (aggregateRecords rs) = f64_total bl_net_bytes_out rs"
  "ba_gpu_seconds (aggregateRecords rs) = f64_total bl_gpu_seconds rs"
  "ba_first_ms (aggregateRecords rs) = (if rs = [] then None else Some (Min (bl_period_start_ms ` set rs)))"
  "ba_last_ms (aggregateRecords rs) = (if rs = [] then None else Some (Max (bl_period_start_ms ` set rs)))"
  "ba_unique_workers (aggregateRecords rs) = card (bl_worker_id ` set rs)"
  using fold_add_record [of rs] by (simp_all add: aggregateRecords_def case_prod_beta Let_def)

text \<open>Integral, non-negative summands are added without rounding while the sum stays within 2^53.\<close>

lemma f64_total_exact:
  "(\<And>r. r \<in> set rs \<Longrightarrow> f64_to_int (f r) = Some (i r) \<and> 0 \<le> i r) \<Longrightarrow> sum_list (map i rs) \<le> 2 ^ 53
   \<Longrightarrow> f64_to_int (f64_total f rs) = Some (sum_list (map i rs))"
proof (induction rs rule: rev_induct)
  case Nil
  show ?case by (simp add: f64_total_def num_to_int)
next
  case (snoc r rs)
  have pos: "0 \<le> sum_list (map i rs)" using snoc.prems(1) by (intro sum_list_nonneg) auto
  have "f64_to_int (f r) = Some (i r)" "0 \<le> i r" using snoc.prems(1) by auto
  moreover have "f64_to_int (f64_total f rs) = Some (sum_list (map i rs))"
  proof (rule snoc.IH)
    show "sum_list (map i rs) \<le> 2 ^ 53" using snoc.prems(2) \<open>0 \<le> i r\<close> by simp
  qed (use snoc.prems(1) in auto)
  ultimately show ?case
    using snoc.prems(2) pos f64_add_exact [of "f64_total f rs" _ "f r"] by (simp add: f64_total_def)
qed

section \<open>What an anchor is backed by\<close>

text \<open>
  A transaction anchors a certificate when the history has a checkpoint with the certificate as a
  leaf, and the log has a line for the first 20 digits of its root.
\<close>

definition anchored_in :: "js_text \<Rightarrow> anchor_files \<Rightarrow> jsstring \<Rightarrow> jsstring \<Rightarrow> bool" where
  "anchored_in T files cert tx \<longleftrightarrow>
     (\<exists>history ck leaves leaf s r log.
        af_history files = Some (JArr history) \<and> ck \<in> set history
        \<and> prop_value (js ''leaves'') ck = Some (JArr leaves) \<and> leaf \<in> set leaves
        \<and> text_or_empty T (prop_value (js ''cert_hash'') leaf) = Some s \<and> clean_hash s = cert
        \<and> text_or_empty T (prop_value (js ''root_hash'') ck) = Some r
        \<and> af_log files = Some log \<and> (take 20 (clean_hash r), tx) \<in> set (anchor_lines log))"

definition map_backed :: "js_text \<Rightarrow> anchor_files list \<Rightarrow> resolve_map \<Rightarrow> bool" where
  "map_backed T snaps m \<longleftrightarrow>
     (\<forall>cert tx. (cert, Some tx) \<in> set m \<longrightarrow> (\<exists>files \<in> set snaps. anchored_in T files cert tx))"

definition cache_backed :: "js_text \<Rightarrow> anchor_files list \<Rightarrow> anchor_cache option \<Rightarrow> bool" where
  "cache_backed T snaps cache \<longleftrightarrow> (case cache of None \<Rightarrow> True | Some c \<Rightarrow> map_backed T snaps (ac_map c))"

lemma add_leaves_entries:
  assumes "add_leaves T tx leaves m = Some m'" "(cert, Some t) \<in> set m'"
  shows "(cert, Some t) \<in> set m \<or> tx = Some t \<and>
    (\<exists>leaf \<in> set leaves. \<exists>s. text_or_empty T (prop_value (js ''cert_hash'') leaf) = Some s \<and> clean_hash s = cert)"
  using assms
proof (induction leaves arbitrary: m)
  case (Cons leaf leaves)
  then show ?case
    by (fastforce simp: bind_eq_Some_conv Let_def split: if_splits)
qed simp

lemma add_checkpoints_entries:
  assumes "add_checkpoints T R cks m = Some m'" "(cert, Some t) \<in> set m'"
  shows "(cert, Some t) \<in> set m \<or> (\<exists>ck \<in> set cks. \<exists>leaves leaf s r. prop_value (js ''leaves'') ck = Some (JArr leaves)
    \<and> leaf \<in> set leaves \<and> text_or_empty T (prop_value (js ''cert_hash'') leaf) = Some s \<and> clean_hash s = cert
    \<and> text_or_empty T (prop_value (js ''root_hash'') ck) = Some r \<and> R (take 20 (clean_hash r)) = Some t)"
  using assms
proof (induction cks arbitrary: m)
  case (Cons ck cks)
  show ?case
  proof (cases "\<exists>leaves. prop_value (js ''leaves'') ck = Some (JArr leaves)")
    case True
    then obtain leaves where leaves: "prop_value (js ''leaves'') ck = Some (JArr leaves)" by blast
    then obtain r where r: "text_or_empty T (prop_value (js ''root_hash'') ck) = Some r"
      using Cons.prems(1) by (auto simp: bind_eq_Some_conv)
    show ?thesis
    proof (cases "re_lower_hex 64 (clean_hash r)")
      case True
      then obtain m1 where m1: "add_leaves T (R (take 20 (clean_hash r))) leaves m = Some m1"
          "add_checkpoints T R cks m1 = Some m'"
        using Cons.prems(1) leaves r by (auto simp: bind_eq_Some_conv Let_def)
      show ?thesis
        using Cons.IH [OF m1(2) Cons.prems(2)] add_leaves_entries [OF m1(1), of cert t] leaves r
        unfolding set_simps by blast
    next
      case False
      then have "add_checkpoints T R cks m = Some m'" using Cons.prems(1) leaves r by (simp add: Let_def)
      from Cons.IH [OF this Cons.prems(2)] show ?thesis by auto
    qed
  next
    case False
    then have "add_checkpoints T R cks m = Some m'"
      using Cons.prems(1) by (auto split: option.splits json.splits)
    from Cons.IH [OF this Cons.prems(2)] show ?thesis by auto
  qed
qed simp

lemma build_map_backed: "buildResolveMap T files = Some m \<Longrightarrow> map_backed T [files] m"
proof -
  assume m: "buildResolveMap T files = Some m"
  show ?thesis
    unfolding map_backed_def
  proof (intro allI impI)
    fix cert tx
    assume e: "(cert, Some tx) \<in> set m"
    then obtain history where h: "af_history files = Some (JArr history)"
        "add_checkpoints T (case af_log files of None \<Rightarrow> (\<lambda>_. None) | Some t \<Rightarrow> parseAnchorWorkerLog t) history [] = Some m"
      using m by (auto simp: buildResolveMap_def split: option.splits json.splits)
    have "(case af_log files of None \<Rightarrow> (\<lambda>_. None) | Some t \<Rightarrow> parseAnchorWorkerLog t) x = Some tx
        \<Longrightarrow> \<exists>log. af_log files = Some log \<and> (x, tx) \<in> set (anchor_lines log)" for x
      using map_of_SomeD by (fastforce simp: parseAnchorWorkerLog_def split: option.splits)
    then show "\<exists>f \<in> set [files]. anchored_in T f cert tx"
      using add_checkpoints_entries [OF h(2) e] h(1) by (simp add: anchored_in_def) blast
  qed
qed

lemma anchor_lines_shape: "(r, t) \<in> set (anchor_lines s) \<Longrightarrow> re_lower_hex 20 r \<and> re_lower_hex 64 t"
proof (induction s rule: anchor_lines.induct)
  case (2 c s)
  have "re_lower_hex 20 a \<and> re_lower_hex 64 b" if "match_anchor (c # s) = Some (a, b, rest)" for a b rest
    using that by (auto simp: match_anchor_def bind_eq_Some_conv read_hex_def split: if_splits)
  then show ?case
    using 2 by (cases "match_anchor (c # s)") (auto simp: anchor_lines.simps)
qed (simp add: anchor_lines.simps)

lemma anchored_shape: "anchored_in T files cert tx \<Longrightarrow> re_lower_hex 64 tx"
  using anchor_lines_shape by (fastforce simp: anchored_in_def)

lemma map_backed_mono: "map_backed T snaps m \<Longrightarrow> set snaps \<subseteq> set snaps' \<Longrightarrow> map_backed T snaps' m"
  unfolding map_backed_def by blast

lemma resolve_backed:
  assumes "resolveAnchorTxs T now files hs cache = Some (txs, cache')" "cache_backed T snaps cache"
  shows "cache_backed T (files # snaps) cache'" and "length txs = length hs"
    and "\<exists>m. map_backed T (files # snaps) m \<and> txs = map (resolve_anchor m) hs"
proof -
  have old: "map_backed T (files # snaps) (ac_map c)" if "cache = Some c" for c
    using that assms(2) map_backed_mono [of T snaps "ac_map c" "files # snaps"] by (auto simp: cache_backed_def)
  have new: "map_backed T (files # snaps) m" if "buildResolveMap T files = Some m" for m
    using map_backed_mono [OF build_map_backed [OF that], of "files # snaps"] by simp
  have empty: "map_backed T (files # snaps) []" by (simp add: map_backed_def)
  show "cache_backed T (files # snaps) cache'" "length txs = length hs"
    "\<exists>m. map_backed T (files # snaps) m \<and> txs = map (resolve_anchor m) hs"
    using assms(1) old new empty
    by (auto simp: resolveAnchorTxs_def cache_backed_def split: if_splits option.splits)
qed

end
