(* ===== verification/BillingRoute.thy ===== *)
theory BillingRoute
  imports Billing
begin

text \<open>
  \<open>GET /billing/usage\<close> (\<open>routes/billing.ts\<close>): who may ask for which tenant, the window, one page of
  billing rows joined with the chain's answers and the anchors, and the cursor of the next page.
\<close>

section \<open>The request\<close>

text \<open>Query parameters that are single strings; \<open>None\<close> for absent or repeated ones.\<close>

record billing_request =
  br_request :: request
  br_tenant_id :: "jsstring option"
  br_start_ms :: "jsstring option"
  br_end_ms :: "jsstring option"
  br_include_records :: "jsstring option"
  br_page_size :: "jsstring option"
  br_cursor :: "jsstring option"

definition MAX_WINDOW_MS :: int where "MAX_WINDOW_MS = 90 * 24 * 60 * 60 * 1000"

definition DEFAULT_PAGE_SIZE :: nat where "DEFAULT_PAGE_SIZE = 100"

definition MAX_BILLING_PAGE :: int where "MAX_BILLING_PAGE = 500"

text \<open>\<open>/^-?\d+$/\<close>, then \<open>Number\<close>\<close>

definition parseIntStrict :: "js_text \<Rightarrow> jsstring \<Rightarrow> f64 option" where
  "parseIntStrict T s =
     (let ds = (if s \<noteq> [] \<and> hd s = 0x2D then tl s else s)
      in if ds = [] \<or> \<not> list_all is_digit_u16 ds then None
         else let n = text_number T s in if f64_is_integer n then Some n else None)"

datatype billing_refusal =
    NoBearer | BadBearer token_reason | MissingParam string | BadParam string | BadWindow | TokenTenantMismatch
  | InternalError

record usage_record =
  ur_worker_id :: jsstring
  ur_period_start_ms :: int
  ur_period_end_ms :: int
  ur_content_hash :: jsstring
  ur_receipt_id :: jsstring
  ur_schema_hash :: jsstring
  ur_cert_hash :: "jsstring option"
  ur_status :: attestation_status
  ur_anchor_tx :: "jsstring option"
  ur_trust_score :: "int option"
  ur_cpu_seconds :: f64
  ur_ram_gb_hours :: f64
  ur_disk_gb_hours :: f64
  ur_net_bytes_in :: f64
  ur_net_bytes_out :: f64
  ur_gpu_seconds :: f64

record usage_reply =
  us_tenant_id :: jsstring
  us_start_ms :: f64
  us_end_ms :: f64
  us_now_ms :: int
  us_aggregate :: billing_aggregate
  us_next_cursor :: "jsstring option"
  us_records :: "usage_record list option"

text \<open>
  The token of the request, if it verifies; verification stamps the token row.  A token store
  that was never opened throws.
\<close>

definition billing_token ::
  "int \<Rightarrow> request \<Rightarrow> token_db option \<Rightarrow> (billing_refusal + verified_token) \<times> token_db option" where
  "billing_token now req tokens =
     (case bearer_token req of
        None \<Rightarrow> (Inl NoBearer, tokens)
      | Some token \<Rightarrow>
          if \<not> starts_with token TOKEN_PREFIX then (Inl (BadBearer Malformed), tokens)
          else (case tokens of
                  None \<Rightarrow> (Inl InternalError, None)
                | Some t \<Rightarrow>
                    (case verifyToken token now t of
                       (Inl reason, t') \<Rightarrow> (Inl (BadBearer reason), Some t')
                     | (Inr v, t') \<Rightarrow> (Inr v, Some t'))))"

definition billing_tenant :: "billing_request \<Rightarrow> verified_token \<Rightarrow> billing_refusal + jsstring" where
  "billing_tenant q v =
     (case present (br_tenant_id q) of
        None \<Rightarrow> Inl (MissingParam ''tenant_id'')
      | Some t \<Rightarrow>
          if \<not> ID_REGEX t then Inl (BadParam ''tenant_id'')
          else (case vt_tenantId v of
                  Some bound \<Rightarrow> if bound \<noteq> t then Inl TokenTenantMismatch else Inr t
                | None \<Rightarrow> Inr t))"

definition non_negative_int :: "js_text \<Rightarrow> string \<Rightarrow> jsstring \<Rightarrow> billing_refusal + f64" where
  "non_negative_int T field s =
     (case parseIntStrict T s of
        None \<Rightarrow> Inl (BadParam field)
      | Some n \<Rightarrow> if f64_lt n (num 0) then Inl (BadParam field) else Inr n)"

definition billing_window :: "js_text \<Rightarrow> billing_request \<Rightarrow> billing_refusal + f64 \<times> f64" where
  "billing_window T q =
     (case br_start_ms q of
        None \<Rightarrow> Inl (MissingParam ''start_ms'')
      | Some s \<Rightarrow>
     (case br_end_ms q of
        None \<Rightarrow> Inl (MissingParam ''end_ms'')
      | Some e \<Rightarrow>
          and_then (non_negative_int T ''start_ms'' s) (\<lambda>start_ms.
          and_then (non_negative_int T ''end_ms'' e) (\<lambda>end_ms.
            if f64_le end_ms start_ms then Inl BadWindow
            else if f64_lt (num MAX_WINDOW_MS) (f64_sub end_ms start_ms) then Inl BadWindow
            else Inr (start_ms, end_ms)))))"

definition billing_page_size :: "js_text \<Rightarrow> billing_request \<Rightarrow> billing_refusal + nat" where
  "billing_page_size T q =
     (case br_page_size q of
        None \<Rightarrow> Inr DEFAULT_PAGE_SIZE
      | Some s \<Rightarrow>
          (case parseIntStrict T s of
             None \<Rightarrow> Inl (BadParam ''page_size'')
           | Some n \<Rightarrow>
               if f64_lt n (num 1) \<or> f64_lt (num MAX_BILLING_PAGE) n then Inl (BadParam ''page_size'')
               else Inr (nat (f64_int n))))"

definition billing_after :: "js_text \<Rightarrow> js_host \<Rightarrow> billing_request \<Rightarrow> billing_refusal + (int \<times> jsstring) option" where
  "billing_after T H q =
     (case present (br_cursor q) of
        None \<Rightarrow> Inr None
      | Some c \<Rightarrow>
          (case decodeCursor T H c of None \<Rightarrow> Inl (BadParam ''cursor'') | Some k \<Rightarrow> Inr (Some k)))"

section \<open>The join\<close>

text \<open>\<open>Map.set\<close> over the answers, then \<open>get\<close>; a content hash without an answer counts as unknown.\<close>

definition chain_of :: "chain_status list \<Rightarrow> jsstring \<Rightarrow> chain_status" where
  "chain_of statuses h =
     (case map_of (rev (map (\<lambda>cs. (cs_content_hash cs, cs)) statuses)) h of
        Some cs \<Rightarrow> cs
      | None \<Rightarrow> \<lparr>cs_content_hash = h, cs_receipt_id = receiptIdFromContentHash h, cs_status = StUnknown,
                 cs_cert_hash = None\<rparr>)"

definition anchor_of :: "chain_status list \<Rightarrow> jsstring option list \<Rightarrow> chain_status \<Rightarrow> jsstring option" where
  "anchor_of statuses txs chain =
     (case cs_cert_hash chain of
        Some c \<Rightarrow>
          if cs_status chain = StCertified \<and> c \<noteq> []
          then (case map_of (rev (concat (map (\<lambda>(cs, tx). case cs_cert_hash cs of
                         Some k \<Rightarrow> if k = [] then [] else [(k, tx)] | None \<Rightarrow> []) (zip statuses txs)))) c of
                  Some tx \<Rightarrow> tx | None \<Rightarrow> None)
          else None
      | None \<Rightarrow> None)"

definition trust_of :: "(jsstring \<times> int option) list \<Rightarrow> jsstring \<Rightarrow> int option" where
  "trust_of scores h = (case map_of (rev scores) h of Some s \<Rightarrow> s | None \<Rightarrow> None)"

definition merge_row ::
  "chain_status list \<Rightarrow> jsstring option list \<Rightarrow> (jsstring \<times> int option) list \<Rightarrow> metering_row \<Rightarrow> billing_record" where
  "merge_row statuses txs scores r =
     (let chain = chain_of statuses (m_content_hash r)
      in \<lparr>bl_worker_id = m_worker_id r, bl_tenant_id = m_tenant_id r, bl_period_start_ms = m_period_start_ms r,
          bl_period_end_ms = m_period_end_ms r, bl_cpu_seconds = m_cpu_seconds r, bl_ram_gb_hours = m_ram_gb_hours r,
          bl_disk_gb_hours = m_disk_gb_hours r, bl_net_bytes_in = m_net_bytes_in r,
          bl_net_bytes_out = m_net_bytes_out r, bl_gpu_seconds = m_gpu_seconds r, bl_status = cs_status chain,
          bl_anchor_tx = anchor_of statuses txs chain, bl_trust_score = trust_of scores (m_content_hash r)\<rparr>)"

definition rowToRecordResponse ::
  "metering_row \<Rightarrow> chain_status \<Rightarrow> jsstring option \<Rightarrow> int option \<Rightarrow> usage_record" where
  "rowToRecordResponse r chain anchorTx score =
     \<lparr>ur_worker_id = m_worker_id r, ur_period_start_ms = m_period_start_ms r, ur_period_end_ms = m_period_end_ms r,
      ur_content_hash = m_content_hash r, ur_receipt_id = cs_receipt_id chain, ur_schema_hash = SCHEMA_HASH_HEX_V1,
      ur_cert_hash = cs_cert_hash chain, ur_status = cs_status chain,
      ur_anchor_tx = (case present anchorTx of
          Some tx \<Rightarrow>
            if cs_status chain = StCertified \<and> cs_cert_hash chain \<noteq> None
            then Some (if starts_with tx (js ''0x'') then tx else js ''0x'' @ tx) else None
        | None \<Rightarrow> None),
      ur_trust_score = score, ur_cpu_seconds = m_cpu_seconds r, ur_ram_gb_hours = m_ram_gb_hours r,
      ur_disk_gb_hours = m_disk_gb_hours r, ur_net_bytes_in = m_net_bytes_in r, ur_net_bytes_out = m_net_bytes_out r,
      ur_gpu_seconds = m_gpu_seconds r\<rparr>"

section \<open>The route\<close>

record billing_env =
  be_text :: js_text
  be_host :: js_host
  be_receipts :: "(jsstring \<Rightarrow> chain_answer) option"
  be_scores :: "(jsstring \<Rightarrow> trust_answer) option"
  be_files :: anchor_files

record billing_state =
  bs_tokens :: "token_db option"
  bs_metering :: "metering_db option"
  bs_anchors :: "anchor_cache option"

definition usage_page ::
  "billing_env \<Rightarrow> int \<Rightarrow> jsstring \<Rightarrow> f64 \<times> f64 \<Rightarrow> bool \<Rightarrow> nat \<Rightarrow> (int \<times> jsstring) option
   \<Rightarrow> billing_state \<Rightarrow> (billing_refusal + usage_reply) \<times> anchor_cache option" where
  "usage_page E now tenant window include_records page_size after s =
     (let rs = getMeteringSubmissions \<lparr>q_tenant_id = tenant, q_start_ms = f64_int (fst window),
            q_end_ms = f64_int (snd window), q_limit = page_size, q_after = after\<rparr> (bs_metering s);
          statuses = queryReceiptStatuses (be_text E) (be_receipts E) (map m_content_hash rs);
          scores = queryCompositeTrustScores (be_scores E) (map m_content_hash rs)
      in case resolveAnchorTxs (be_text E) now (be_files E) (map cs_cert_hash statuses) (bs_anchors s) of
           None \<Rightarrow> (Inl InternalError, bs_anchors s)
         | Some (txs, cache) \<Rightarrow>
             (Inr \<lparr>us_tenant_id = tenant, us_start_ms = fst window, us_end_ms = snd window, us_now_ms = now,
                us_aggregate = aggregateRecords (map (merge_row statuses txs scores) rs),
                us_next_cursor = buildNextCursor (be_text E) (map (\<lambda>r. (m_period_start_ms r, m_content_hash r)) rs)
                  page_size False,
                us_records = (if include_records
                  then Some (map (\<lambda>r. let chain = chain_of statuses (m_content_hash r)
                                       in rowToRecordResponse r chain (anchor_of statuses txs chain)
                                            (trust_of scores (m_content_hash r))) rs)
                  else None)\<rparr>, cache))"

definition getBillingUsage ::
  "billing_env \<Rightarrow> int \<Rightarrow> billing_request \<Rightarrow> billing_state \<Rightarrow> (billing_refusal + usage_reply) \<times> billing_state" where
  "getBillingUsage E now q s =
     (case billing_token now (br_request q) (bs_tokens s) of
        (Inl e, tokens) \<Rightarrow> (Inl e, s\<lparr>bs_tokens := tokens\<rparr>)
      | (Inr v, tokens) \<Rightarrow>
          (let s' = s\<lparr>bs_tokens := tokens\<rparr>;
               include_records = (br_include_records q = Some (js ''true'') \<or> br_include_records q = Some (js ''1''))
           in case and_then (billing_tenant q v) (\<lambda>tenant.
                   and_then (billing_window (be_text E) q) (\<lambda>window.
                   and_then (billing_page_size (be_text E) q) (\<lambda>page_size.
                   and_then (billing_after (be_text E) (be_host E) q) (\<lambda>after.
                     Inr (tenant, window, page_size, after))))) of
                Inl e \<Rightarrow> (Inl e, s')
              | Inr (tenant, window, page_size, after) \<Rightarrow>
                  (let (reply, cache) = usage_page E now tenant window include_records page_size after s'
                   in (reply, s'\<lparr>bs_anchors := cache\<rparr>))))"

section \<open>The join, row by row\<close>

definition chain_for :: "billing_env \<Rightarrow> jsstring \<Rightarrow> chain_status" where
  "chain_for E h = status_of_answer (be_text E) h
     (case be_receipts E of None \<Rightarrow> QueryThrows | Some q \<Rightarrow> q (receiptIdFromContentHash h))"

definition anchor_for :: "billing_env \<Rightarrow> resolve_map \<Rightarrow> jsstring \<Rightarrow> jsstring option" where
  "anchor_for E m h =
     (if cs_status (chain_for E h) = StCertified then resolve_anchor m (cs_cert_hash (chain_for E h)) else None)"

definition score_for :: "billing_env \<Rightarrow> jsstring \<Rightarrow> int option" where
  "score_for E h =
     (case be_scores E of None \<Rightarrow> None | Some q \<Rightarrow> queryOneCompositeTrustScore (q (receiptIdFromContentHash h)))"

lemma map_of_graph: "k \<in> set ks \<Longrightarrow> map_of (map (\<lambda>k. (k, f k)) ks) k = Some (f k)"
  by (induction ks) auto

lemma map_of_pairs:
  "(\<And>p. p \<in> set xs \<Longrightarrow> snd p = g (fst p)) \<Longrightarrow> k \<in> fst ` set xs \<Longrightarrow> map_of xs k = Some (g k)"
  by (induction xs) auto

lemma status_hash: "cs_content_hash (status_of_answer T h a) = h"
  by (cases a) (auto simp: status_of_answer_def Let_def split: option.splits)

lemma chain_of_query:
  assumes "h \<in> set hs"
  shows "chain_of (queryReceiptStatuses (be_text E) (be_receipts E) hs) h = chain_for E h"
proof -
  have q: "queryReceiptStatuses (be_text E) (be_receipts E) hs = map (chain_for E) (js_unique hs)"
    by (simp add: queryReceiptStatuses_def chain_for_def)
  have "rev (map (\<lambda>cs. (cs_content_hash cs, cs)) (map (chain_for E) (js_unique hs)))
      = map (\<lambda>h. (h, chain_for E h)) (rev (js_unique hs))"
    by (simp add: rev_map chain_for_def status_hash)
  then have "map_of (rev (map (\<lambda>cs. (cs_content_hash cs, cs)) (map (chain_for E) (js_unique hs)))) h = Some (chain_for E h)"
    using assms by (simp add: map_of_graph)
  then show ?thesis unfolding chain_of_def q by simp
qed

lemma anchor_of_query:
  fixes E
  assumes "h \<in> set hs"
  defines "statuses \<equiv> queryReceiptStatuses (be_text E) (be_receipts E) hs"
  shows "anchor_of statuses (map (resolve_anchor m) (map cs_cert_hash statuses)) (chain_for E h) = anchor_for E m h"
proof (cases "cs_cert_hash (chain_for E h)")
  case (Some c)
  let ?xs = "rev (concat (map (\<lambda>(cs, tx). case cs_cert_hash cs of Some k \<Rightarrow> if k = [] then [] else [(k, tx)] | None \<Rightarrow> [])
      (zip statuses (map (resolve_anchor m) (map cs_cert_hash statuses)))))"
  have z: "zip statuses (map (resolve_anchor m) (map cs_cert_hash statuses))
      = map (\<lambda>cs. (cs, resolve_anchor m (cs_cert_hash cs))) statuses"
    by (simp add: zip_map2 zip_same_conv_map)
  have graph: "snd p = resolve_anchor m (Some (fst p))" if "p \<in> set ?xs" for p
    using that unfolding z by (auto split: option.splits if_splits)
  have "chain_for E h \<in> set statuses"
    using assms(1) by (auto simp: statuses_def queryReceiptStatuses_def chain_for_def)
  then have "c \<noteq> [] \<Longrightarrow> c \<in> fst ` set ?xs"
    using Some unfolding z by force
  then show ?thesis
    using Some map_of_pairs [OF graph, of ?xs c]
    by (auto simp: anchor_of_def anchor_for_def resolve_anchor_def simp del: set_rev set_concat)
qed (simp add: anchor_of_def anchor_for_def resolve_anchor_def)

lemma trust_of_query:
  assumes "h \<in> set hs"
  shows "trust_of (queryCompositeTrustScores (be_scores E) hs) h = score_for E h"
  using assms map_of_graph [of h "rev (js_unique hs)" "score_for E"]
  by (simp add: trust_of_def queryCompositeTrustScores_def rev_map score_for_def)

text \<open>A page of the reply as a function of its rows and of the anchors known.\<close>

definition page_record :: "billing_env \<Rightarrow> resolve_map \<Rightarrow> metering_row \<Rightarrow> usage_record" where
  "page_record E m r = rowToRecordResponse r (chain_for E (m_content_hash r)) (anchor_for E m (m_content_hash r))
     (score_for E (m_content_hash r))"

definition page_entry :: "billing_env \<Rightarrow> resolve_map \<Rightarrow> metering_row \<Rightarrow> billing_record" where
  "page_entry E m r =
     \<lparr>bl_worker_id = m_worker_id r, bl_tenant_id = m_tenant_id r, bl_period_start_ms = m_period_start_ms r,
      bl_period_end_ms = m_period_end_ms r, bl_cpu_seconds = m_cpu_seconds r, bl_ram_gb_hours = m_ram_gb_hours r,
      bl_disk_gb_hours = m_disk_gb_hours r, bl_net_bytes_in = m_net_bytes_in r,
      bl_net_bytes_out = m_net_bytes_out r, bl_gpu_seconds = m_gpu_seconds r,
      bl_status = cs_status (chain_for E (m_content_hash r)), bl_anchor_tx = anchor_for E m (m_content_hash r),
      bl_trust_score = score_for E (m_content_hash r)\<rparr>"

definition page_rows :: "jsstring \<Rightarrow> f64 \<times> f64 \<Rightarrow> nat \<Rightarrow> (int \<times> jsstring) option \<Rightarrow> metering_db option \<Rightarrow> metering_row list" where
  "page_rows tenant window n after db =
     getMeteringSubmissions \<lparr>q_tenant_id = tenant, q_start_ms = f64_int (fst window),
       q_end_ms = f64_int (snd window), q_limit = n, q_after = after\<rparr> db"

lemma usage_page_Inr:
  fixes tenant window n after s
  assumes "usage_page E now tenant window inc n after s = (Inr r, cache)" "cache_backed (be_text E) snaps (bs_anchors s)"
  defines "rs \<equiv> page_rows tenant window n after (bs_metering s)"
  shows "cache_backed (be_text E) (be_files E # snaps) cache"
    and "\<exists>m. map_backed (be_text E) (be_files E # snaps) m
      \<and> r = \<lparr>us_tenant_id = tenant, us_start_ms = fst window, us_end_ms = snd window, us_now_ms = now,
          us_aggregate = aggregateRecords (map (page_entry E m) rs),
          us_next_cursor = buildNextCursor (be_text E) (map row_cursor rs) n False,
          us_records = (if inc then Some (map (page_record E m) rs) else None)\<rparr>"
proof -
  let ?st = "queryReceiptStatuses (be_text E) (be_receipts E) (map m_content_hash rs)"
  let ?sc = "queryCompositeTrustScores (be_scores E) (map m_content_hash rs)"
  obtain txs where txs: "resolveAnchorTxs (be_text E) now (be_files E) (map cs_cert_hash ?st) (bs_anchors s) = Some (txs, cache)"
    using assms(1) by (auto simp: usage_page_def page_rows_def [symmetric] rs_def Let_def split: option.splits)
  note backed = resolve_backed [OF txs assms(2)]
  show "cache_backed (be_text E) (be_files E # snaps) cache" by (rule backed(1))
  obtain m where m: "map_backed (be_text E) (be_files E # snaps) m" "txs = map (resolve_anchor m) (map cs_cert_hash ?st)"
    using backed(3) by blast
  have join: "chain_of ?st (m_content_hash x) = chain_for E (m_content_hash x)"
      "anchor_of ?st txs (chain_for E (m_content_hash x)) = anchor_for E m (m_content_hash x)"
      "trust_of ?sc (m_content_hash x) = score_for E (m_content_hash x)" if "x \<in> set rs" for x
    using that chain_of_query trust_of_query anchor_of_query unfolding m(2) by simp_all
  have e1: "map (merge_row ?st txs ?sc) rs = map (page_entry E m) rs"
    by (rule map_cong [OF refl]) (simp add: merge_row_def page_entry_def join Let_def)
  have e2: "map (\<lambda>r. rowToRecordResponse r (chain_of ?st (m_content_hash r))
        (anchor_of ?st txs (chain_of ?st (m_content_hash r))) (trust_of ?sc (m_content_hash r))) rs = map (page_record E m) rs"
    by (rule map_cong [OF refl]) (simp add: page_record_def join)
  have e3: "map (\<lambda>r. (m_period_start_ms r, m_content_hash r)) rs = map row_cursor rs" by (simp add: row_cursor_def)
  have "r = \<lparr>us_tenant_id = tenant, us_start_ms = fst window, us_end_ms = snd window, us_now_ms = now,
      us_aggregate = aggregateRecords (map (merge_row ?st txs ?sc) rs),
      us_next_cursor = buildNextCursor (be_text E) (map (\<lambda>r. (m_period_start_ms r, m_content_hash r)) rs) n False,
      us_records = (if inc then Some (map (\<lambda>r. rowToRecordResponse r (chain_of ?st (m_content_hash r))
        (anchor_of ?st txs (chain_of ?st (m_content_hash r))) (trust_of ?sc (m_content_hash r))) rs) else None)\<rparr>"
    using assms(1) txs unfolding usage_page_def page_rows_def [symmetric] rs_def [symmetric] Let_def by simp
  then show "\<exists>m. map_backed (be_text E) (be_files E # snaps) m
      \<and> r = \<lparr>us_tenant_id = tenant, us_start_ms = fst window, us_end_ms = snd window, us_now_ms = now,
          us_aggregate = aggregateRecords (map (page_entry E m) rs),
          us_next_cursor = buildNextCursor (be_text E) (map row_cursor rs) n False,
          us_records = (if inc then Some (map (page_record E m) rs) else None)\<rparr>"
    unfolding e1 e2 e3 using m(1) by blast
qed

text \<open>What an answered request has passed.\<close>

lemma usage_Inr:
  assumes "getBillingUsage E now q s = (Inr r, s')"
  shows "\<exists>v tokens tenant window n after cache.
      billing_token now (br_request q) (bs_tokens s) = (Inr v, tokens) \<and> billing_tenant q v = Inr tenant
      \<and> billing_window (be_text E) q = Inr window \<and> billing_page_size (be_text E) q = Inr n
      \<and> billing_after (be_text E) (be_host E) q = Inr after
      \<and> usage_page E now tenant window (br_include_records q = Some (js ''true'') \<or> br_include_records q = Some (js ''1''))
          n after (s\<lparr>bs_tokens := tokens\<rparr>) = (Inr r, cache)
      \<and> s' = s\<lparr>bs_tokens := tokens, bs_anchors := cache\<rparr>"
  using assms by (auto simp: getBillingUsage_def Let_def and_then_Inr_iff split: sum.splits prod.splits)

section \<open>Tenants\<close>

lemma filter_within:
  assumes "filter P xs = filter P ys" "\<And>x. Q x \<Longrightarrow> P x"
  shows "filter Q xs = filter Q ys"
proof -
  have "filter Q zs = filter Q (filter P zs)" for zs
    unfolding filter_filter by (rule filter_cong) (use assms(2) in auto)
  then show ?thesis by (metis assms(1))
qed

lemma usage_page_cong:
  assumes "page_rows tenant window n after (bs_metering s) = page_rows tenant window n after (bs_metering s')"
    and "bs_anchors s = bs_anchors s'"
  shows "usage_page E now tenant window inc n after s = usage_page E now tenant window inc n after s'"
  using assms by (simp only: usage_page_def page_rows_def [symmetric] Let_def)

text \<open>C6: A token that is bound to a tenant never learns of another: of the stored billing rows, its
  answers depend on those of its own tenant only, whatever it asks for.  A token that is not
  bound may ask for any tenant.\<close>

theorem billing_tenant_isolation:
  assumes "billing_token now (br_request q) (bs_tokens s) = (Inr v, tokens)" "vt_tenantId v = Some tenant"
    and "filter (\<lambda>r. m_tenant_id r = tenant) (submissions d) = filter (\<lambda>r. m_tenant_id r = tenant) (submissions d')"
  shows "fst (getBillingUsage E now q (s\<lparr>bs_metering := Some d\<rparr>)) = fst (getBillingUsage E now q (s\<lparr>bs_metering := Some d'\<rparr>))"
proof -
  have same: "page_rows tenant window n after (Some d) = page_rows tenant window n after (Some d')" for window n after
    unfolding page_rows_def getMeteringSubmissions_def option.case
    by (simp, rule arg_cong [where f = "\<lambda>x. take n (js_sort cmp_row x)"], rule filter_within [OF assms(3)])
      (simp add: in_window_def)
  have "usage_page E now tenant window inc n after (s\<lparr>bs_metering := Some d, bs_tokens := tokens\<rparr>)
      = usage_page E now tenant window inc n after (s\<lparr>bs_metering := Some d', bs_tokens := tokens\<rparr>)" for window inc n after
    by (rule usage_page_cong) (simp_all add: same)
  moreover have "billing_tenant q v = Inr t \<Longrightarrow> t = tenant" for t
    using assms(2) by (auto simp: billing_tenant_def split: option.splits if_splits)
  ultimately show ?thesis
    using assms(1)
    by (auto simp: getBillingUsage_def Let_def and_then_Inr_iff case_prod_beta
        split: sum.splits)
qed

section \<open>The aggregate of a reply\<close>

lemma page_record_fields:
  "ur_worker_id (page_record E m r) = m_worker_id r" "ur_period_start_ms (page_record E m r) = m_period_start_ms r"
  "ur_content_hash (page_record E m r) = m_content_hash r"
  "ur_status (page_record E m r) = cs_status (chain_for E (m_content_hash r))"
  "ur_cert_hash (page_record E m r) = cs_cert_hash (chain_for E (m_content_hash r))"
  "ur_receipt_id (page_record E m r) = receiptIdFromContentHash (m_content_hash r)"
  "ur_trust_score (page_record E m r) = score_for E (m_content_hash r)"
  "ur_cpu_seconds (page_record E m r) = m_cpu_seconds r" "ur_ram_gb_hours (page_record E m r) = m_ram_gb_hours r"
  "ur_disk_gb_hours (page_record E m r) = m_disk_gb_hours r" "ur_net_bytes_in (page_record E m r) = m_net_bytes_in r"
  "ur_net_bytes_out (page_record E m r) = m_net_bytes_out r" "ur_gpu_seconds (page_record E m r) = m_gpu_seconds r"
proof -
  have "cs_receipt_id (status_of_answer T h a) = receiptIdFromContentHash h" for T h a
    by (cases a) (auto simp: status_of_answer_def Let_def split: option.splits)
  then show "ur_receipt_id (page_record E m r) = receiptIdFromContentHash (m_content_hash r)"
    by (simp add: page_record_def rowToRecordResponse_def chain_for_def)
qed (simp_all add: page_record_def rowToRecordResponse_def)

lemma anchor_for_Some:
  assumes "map_backed T snaps m" "anchor_for E m h = Some tx"
  shows "cs_status (chain_for E h) = StCertified"
    and "\<exists>cert files. cs_cert_hash (chain_for E h) = Some cert \<and> files \<in> set snaps \<and> anchored_in T files (clean_hash cert) tx"
    and "re_lower_hex 64 tx"
proof -
  show "cs_status (chain_for E h) = StCertified" using assms(2) by (simp add: anchor_for_def split: if_splits)
  obtain cert where c: "cs_cert_hash (chain_for E h) = Some cert" "map_of m (clean_hash cert) = Some (Some tx)"
    using assms(2)
    by (auto simp: anchor_for_def resolve_anchor_def Let_def split: if_splits option.splits)
  then obtain files where f: "files \<in> set snaps" "anchored_in T files (clean_hash cert) tx"
    using assms(1) map_of_SomeD [OF c(2)] by (auto simp: map_backed_def)
  then show "\<exists>cert files. cs_cert_hash (chain_for E h) = Some cert \<and> files \<in> set snaps \<and> anchored_in T files (clean_hash cert) tx"
    using c(1) by blast
  show "re_lower_hex 64 tx" by (rule anchored_shape [OF f(2)])
qed

lemma page_record_anchor:
  assumes "map_backed T snaps m"
  shows "ur_anchor_tx (page_record E m r) = map_option ((@) (js ''0x'')) (anchor_for E m (m_content_hash r))"
proof (cases "anchor_for E m (m_content_hash r)")
  case (Some tx)
  note a = anchor_for_Some [OF assms Some]
  have "tx \<noteq> []" "\<not> starts_with tx (js ''0x'')"
    using a(3) no_hex_prefix [OF lower_hex_any, of tx] by (auto simp: re_lower_hex_def)
  then show ?thesis using a(1,2) Some by (auto simp: page_record_def rowToRecordResponse_def present_def)
qed (simp add: page_record_def rowToRecordResponse_def present_def)

lemma length_filter_weaker: "(\<And>x. P x \<Longrightarrow> Q x) \<Longrightarrow> length (filter P xs) \<le> length (filter Q xs)"
  by (induction xs) (auto simp: le_SucI)

lemma f64_total_bytes:
  assumes "list_all (\<lambda>u. f64_is_integer (f u) \<and> 0 \<le> f64_int (f u)) us" "sum_list (map (\<lambda>u. f64_int (f u)) us) \<le> 2 ^ 53"
  shows "f64_to_int (f64_total f us) = Some (sum_list (map (\<lambda>u. f64_int (f u)) us))"
proof (rule f64_total_exact [OF _ assms(2)])
  fix u assume "u \<in> set us"
  with assms(1) have "f64_is_integer (f u)" "0 \<le> f64_int (f u)" by (simp_all add: list_all_iff)
  then show "f64_to_int (f u) = Some (f64_int (f u)) \<and> 0 \<le> f64_int (f u)" using f64_is_integer_int by blast
qed

text \<open>C9: The totals of a reply are those of the records it lists: the counts of records, of
  certified, anchored and evidenced ones, with every anchored record certified; the workers;
  the first and last period; and the sums of the six metrics in the order of the records.  The
  totals of octets received and of octets sent are each exact as long as they stay within 2^53.\<close>

theorem billing_aggregate_exact:
  assumes "getBillingUsage E now q s = (Inr r, s')" "us_records r = Some us"
    and "cache_backed (be_text E) snaps (bs_anchors s)"
  defines "a \<equiv> us_aggregate r"
  shows "ba_record_count a = length us
    \<and> ba_certified_count a = length (filter (\<lambda>u. ur_status u = StCertified) us)
    \<and> ba_anchored_count a = length (filter (\<lambda>u. ur_anchor_tx u \<noteq> None) us)
    \<and> ba_anchored_count a \<le> ba_certified_count a \<and> ba_certified_count a \<le> ba_record_count a
    \<and> ba_tee_attested_count a = length (filter (\<lambda>u. case ur_trust_score u of Some k \<Rightarrow> 1 \<le> k | None \<Rightarrow> False) us)
    \<and> ba_unique_workers a = card (ur_worker_id ` set us)
    \<and> ba_first_ms a = (if us = [] then None else Some (Min (ur_period_start_ms ` set us)))
    \<and> ba_last_ms a = (if us = [] then None else Some (Max (ur_period_start_ms ` set us)))
    \<and> ba_cpu_seconds a = f64_total ur_cpu_seconds us \<and> ba_ram_gb_hours a = f64_total ur_ram_gb_hours us
    \<and> ba_disk_gb_hours a = f64_total ur_disk_gb_hours us \<and> ba_gpu_seconds a = f64_total ur_gpu_seconds us
    \<and> ba_net_bytes_in a = f64_total ur_net_bytes_in us \<and> ba_net_bytes_out a = f64_total ur_net_bytes_out us
    \<and> (list_all (\<lambda>u. f64_is_integer (ur_net_bytes_in u) \<and> 0 \<le> f64_int (ur_net_bytes_in u)) us
        \<and> sum_list (map (\<lambda>u. f64_int (ur_net_bytes_in u)) us) \<le> 2 ^ 53
      \<longrightarrow> f64_to_int (ba_net_bytes_in a) = Some (sum_list (map (\<lambda>u. f64_int (ur_net_bytes_in u)) us)))
    \<and> (list_all (\<lambda>u. f64_is_integer (ur_net_bytes_out u) \<and> 0 \<le> f64_int (ur_net_bytes_out u)) us
        \<and> sum_list (map (\<lambda>u. f64_int (ur_net_bytes_out u)) us) \<le> 2 ^ 53
      \<longrightarrow> f64_to_int (ba_net_bytes_out a) = Some (sum_list (map (\<lambda>u. f64_int (ur_net_bytes_out u)) us)))"
proof -
  obtain tenant window n after tokens cache where
    "usage_page E now tenant window (br_include_records q = Some (js ''true'') \<or> br_include_records q = Some (js ''1''))
       n after (s\<lparr>bs_tokens := tokens\<rparr>) = (Inr r, cache)"
    using usage_Inr [OF assms(1)] by blast
  from usage_page_Inr(2) [OF this] assms(3) obtain m rs where
    m: "map_backed (be_text E) (be_files E # snaps) m" and a: "a = aggregateRecords (map (page_entry E m) rs)"
    and "us_records r \<noteq> None \<Longrightarrow> us_records r = Some (map (page_record E m) rs)"
    unfolding a_def by fastforce
  then have us: "us = map (page_record E m) rs" using assms(2) by simp
  note sums = page_record_fields page_record_anchor [OF m]
  have total: "f64_total f (map g xs) = f64_total (\<lambda>x. f (g x)) xs" for f :: "'b \<Rightarrow> f64" and g :: "'a \<Rightarrow> 'b" and xs
    by (induction xs rule: rev_induct) (simp_all add: f64_total_def)
  have anch: "length (filter (\<lambda>x. anchor_for E m (m_content_hash x) \<noteq> None) rs)
      \<le> length (filter (\<lambda>x. cs_status (chain_for E (m_content_hash x)) = StCertified) rs)"
    by (rule length_filter_weaker) (use anchor_for_Some(1) [OF m] in auto)
  have counts: "ba_record_count a = length us" "ba_certified_count a = length (filter (\<lambda>u. ur_status u = StCertified) us)"
    "ba_anchored_count a = length (filter (\<lambda>u. ur_anchor_tx u \<noteq> None) us)"
    "ba_tee_attested_count a = length (filter (\<lambda>u. case ur_trust_score u of Some k \<Rightarrow> 1 \<le> k | None \<Rightarrow> False) us)"
    by (simp_all add: a us aggregate_fields o_def page_entry_def sums del: not_None_eq)
  have sets: "ba_unique_workers a = card (ur_worker_id ` set us)"
    "ba_first_ms a = (if us = [] then None else Some (Min (ur_period_start_ms ` set us)))"
    "ba_last_ms a = (if us = [] then None else Some (Max (ur_period_start_ms ` set us)))"
    by (simp_all add: a us aggregate_fields page_entry_def sums image_image)
  have totals: "ba_cpu_seconds a = f64_total ur_cpu_seconds us" "ba_ram_gb_hours a = f64_total ur_ram_gb_hours us"
    "ba_disk_gb_hours a = f64_total ur_disk_gb_hours us" "ba_gpu_seconds a = f64_total ur_gpu_seconds us"
    "ba_net_bytes_in a = f64_total ur_net_bytes_in us" "ba_net_bytes_out a = f64_total ur_net_bytes_out us"
    by (simp_all add: a us aggregate_fields total page_entry_def sums)
  have "ba_anchored_count a \<le> ba_certified_count a"
    using anch by (simp add: a aggregate_fields o_def page_entry_def)
  moreover have "ba_certified_count a \<le> ba_record_count a" by (simp add: counts)
  ultimately show ?thesis
    using counts sets totals f64_total_bytes [of ur_net_bytes_in us, folded totals(5)]
      f64_total_bytes [of ur_net_bytes_out us, folded totals(6)] by blast
qed

section \<open>Anchors\<close>

definition billing_run :: "(billing_env \<times> int \<times> billing_request) list \<Rightarrow> billing_state \<Rightarrow> billing_state" where
  "billing_run reqs s = fold (\<lambda>(E, now, q) s. snd (getBillingUsage E now q s)) reqs s"

lemma usage_cache:
  assumes "cache_backed (be_text E) snaps (bs_anchors s)"
  shows "cache_backed (be_text E) (be_files E # snaps) (bs_anchors (snd (getBillingUsage E now q s)))"
proof -
  have mono: "cache_backed (be_text E) (be_files E # snaps) (bs_anchors s)"
    using assms by (auto simp: cache_backed_def intro: map_backed_mono split: option.splits)
  have "cache_backed (be_text E) (be_files E # snaps) cache"
    if "usage_page E now tenant window inc n after (s\<lparr>bs_tokens := t\<rparr>) = (reply, cache)" for tenant window inc n after t reply cache
  proof (cases reply)
    case (Inr r)
    then show ?thesis using usage_page_Inr(1) [where s = "s\<lparr>bs_tokens := t\<rparr>"] that assms by simp
  next
    case (Inl e)
    then have "cache = bs_anchors s"
      using that by (auto simp: usage_page_def Let_def split: option.splits prod.splits)
    then show ?thesis using mono by simp
  qed
  then show ?thesis
    using mono by (auto simp: getBillingUsage_def Let_def split: sum.splits prod.splits)
qed

lemma run_cache:
  assumes "cache_backed T snaps (bs_anchors s)" "\<forall>x \<in> set reqs. be_text (fst x) = T"
  shows "\<exists>snaps'. set snaps' \<subseteq> set snaps \<union> (be_files \<circ> fst) ` set reqs \<and> cache_backed T snaps' (bs_anchors (billing_run reqs s))"
  using assms
proof (induction reqs arbitrary: s snaps)
  case (Cons x reqs)
  obtain E now q where x: "x = (E, now, q)" by (cases x)
  have "cache_backed T (be_files E # snaps) (bs_anchors (snd (getBillingUsage E now q s)))"
    using usage_cache [of E snaps s] Cons.prems x by auto
  from Cons.IH [OF this] Cons.prems(2) obtain snaps' where
    "set snaps' \<subseteq> set (be_files E # snaps) \<union> (be_files \<circ> fst) ` set reqs"
    "cache_backed T snaps' (bs_anchors (billing_run reqs (snd (getBillingUsage E now q s))))" by auto
  then show ?case by (intro exI [of _ snaps']) (auto simp: x billing_run_def)
qed (auto simp: billing_run_def)

text \<open>C7: No anchor is made up, whatever requests filled the cache before: a record is listed with a
  Cardano transaction only if the chain answered for its receipt with a certificate, and in one
  version of the two files the certificate is a leaf of a checkpoint whose root the log says
  was anchored by that transaction.\<close>

theorem billing_anchor_backed:
  assumes "bs_anchors s0 = None" "list_all (\<lambda>x. be_text (fst x) = be_text E) reqs"
    and "getBillingUsage E now q (billing_run reqs s0) = (Inr r, s')" "us_records r = Some us"
    and "u \<in> set us" "ur_anchor_tx u = Some a"
  shows "\<exists>answers v cert tx files. be_receipts E = Some answers \<and> answers (ur_receipt_id u) = ReceiptRecord v
    \<and> cs_cert_hash (status_of_answer (be_text E) (ur_content_hash u) (ReceiptRecord v)) = Some cert
    \<and> ur_status u = StCertified \<and> ur_cert_hash u = Some cert \<and> a = js ''0x'' @ tx
    \<and> files \<in> insert (be_files E) ((be_files \<circ> fst) ` set reqs) \<and> anchored_in (be_text E) files (clean_hash cert) tx"
proof -
  have "cache_backed (be_text E) [] (bs_anchors s0)" using assms(1) by (simp add: cache_backed_def)
  from run_cache [OF this, of reqs] assms(2) obtain snaps where
    snaps: "set snaps \<subseteq> (be_files \<circ> fst) ` set reqs" "cache_backed (be_text E) snaps (bs_anchors (billing_run reqs s0))"
    by (auto simp: list_all_iff)
  obtain tenant window n after tokens cache where
    "usage_page E now tenant window (br_include_records q = Some (js ''true'') \<or> br_include_records q = Some (js ''1''))
       n after ((billing_run reqs s0)\<lparr>bs_tokens := tokens\<rparr>) = (Inr r, cache)"
    using usage_Inr [OF assms(3)] by blast
  from usage_page_Inr(2) [OF this, of snaps] snaps(2) assms(4) obtain m rs where
    m: "map_backed (be_text E) (be_files E # snaps) m" and us: "us = map (page_record E m) rs"
    by (auto split: if_splits)
  then obtain x where x: "u = page_record E m x" using assms(5) by auto
  let ?h = "m_content_hash x"
  obtain tx where tx: "anchor_for E m ?h = Some tx" "a = js ''0x'' @ tx"
    using assms(6) page_record_anchor [OF m] x by auto
  obtain cert files where c: "cs_cert_hash (chain_for E ?h) = Some cert" "files \<in> set (be_files E # snaps)"
      "anchored_in (be_text E) files (clean_hash cert) tx"
    using anchor_for_Some(2) [OF m tx(1)] by blast
  obtain answers v where v: "be_receipts E = Some answers" "answers (receiptIdFromContentHash ?h) = ReceiptRecord v"
    using c(1)
    by (auto simp: chain_for_def status_of_answer_def Let_def split: option.splits chain_answer.splits)
  then have "chain_for E ?h = status_of_answer (be_text E) ?h (ReceiptRecord v)" by (simp add: chain_for_def)
  then show ?thesis
    using v c tx snaps(1) anchor_for_Some(1) [OF m tx(1)] x
    by (intro exI [of _ answers] exI [of _ v] exI [of _ cert] exI [of _ tx] exI [of _ files])
      (auto simp: page_record_fields)
qed

section \<open>Paging with the cursor\<close>











section \<open>A sample\<close>

text \<open>
  One token of tenant \<open>acme\<close>, three billing rows of which two start in the window, a node that
  has one certificate for every receipt, and files that anchor it.
\<close>

definition bill_token :: jsstring where "bill_token = js ''matra_token''"

definition bill_tokens :: token_db where
  "bill_tokens = [\<lparr>token_hash = hashToken bill_token, token_account = js ''5A'', token_label = None,
     token_created_at = 0, token_last_used_at = None, token_revoked_at = None, token_revoked_reason = None,
     token_tenant = Some (js ''acme'')\<rparr>]"

definition bill_state :: billing_state where
  "bill_state = \<lparr>bs_tokens = Some bill_tokens, bs_metering = Some sample_db, bs_anchors = None\<rparr>"

definition shown :: "int \<Rightarrow> jsstring" where "shown n = number_text bits_text (num n)"

definition bill_query :: billing_request where
  "bill_query = \<lparr>br_request = no_creds_req\<lparr>h_authorization := Some (js ''Bearer '' @ bill_token)\<rparr>,
     br_tenant_id = Some (js ''acme''), br_start_ms = Some (shown 0), br_end_ms = Some (shown 50),
     br_include_records = Some (js ''true''), br_page_size = Some (shown 1), br_cursor = None\<rparr>"

definition bill_cert :: json where
  "bill_cert = JObj [(js ''availability_cert_hash'', JStr (js ''0x'' @ replicate 64 0x62))]"

definition bill_files :: anchor_files where
  "bill_files = \<lparr>af_history = Some (JArr [JObj [(js ''root_hash'', JStr (replicate 64 0x63)),
       (js ''leaves'', JArr [JObj [(js ''cert_hash'', JStr (replicate 64 0x62))]])]]),
     af_log = Some (js ''anchored root='' @ replicate 20 0x63 @ js ''... as tx '' @ replicate 64 0x64)\<rparr>"

definition bill_env :: billing_env where
  "bill_env = \<lparr>be_text = bits_text, be_host = \<lparr>other_base64 = (\<lambda>_. []), other_utf8 = (\<lambda>_. [])\<rparr>,
     be_receipts = Some (\<lambda>_. ReceiptRecord bill_cert), be_scores = None, be_files = bill_files\<rparr>"

lemma parse_shown: "0 \<le> n \<Longrightarrow> n \<le> 2 ^ 53 \<Longrightarrow> parseIntStrict bits_text (shown n) = Some (num n)"
proof -
  assume n: "0 \<le> n" "n \<le> 2 ^ 53"
  obtain m where m: "shown n = decimal m" by (simp add: shown_def bits_text_def)
  have "JNum (text_number bits_text (shown n)) = json_reparse (JNum (num n))"
    using bits_text_documented num_finite [of n] n unfolding numbers_documented_def shown_def by auto
  moreover have "f64_finite (num n)" using n by (simp add: num_finite)
  moreover have "num 0 = f64_zero False" by code_simp
  ultimately have "text_number bits_text (shown n) = num n"
    using num_to_int [of n] n by (auto split: if_splits)
  moreover have "list_all is_digit_u16 (decimal m)" "decimal m \<noteq> []" using decimal_digits by auto
  moreover have "hd (decimal m) \<noteq> 0x2D"
    using calculation(2,3) by (cases "decimal m") (auto simp: is_digit_u16_def word_le_nat_alt)
  moreover have "f64_is_integer (num n)" using num_to_int [of n] n by (simp add: f64_is_integer_def)
  ultimately show ?thesis by (simp add: parseIntStrict_def m)
qed

lemma bill_token_ok:
  "\<exists>v tokens. billing_token now (br_request bill_query) (bs_tokens bill_state) = (Inr v, tokens)
     \<and> vt_tenantId v = Some (js ''acme'')"
proof -
  have "bearer_token (br_request bill_query) = Some bill_token"
    by (simp add: bearer_token_def bill_query_def no_creds_req_def sample_req_def bill_token_def) code_simp
  moreover have "starts_with bill_token TOKEN_PREFIX" by code_simp
  ultimately show ?thesis
    by (simp add: billing_token_def bill_state_def verifyToken_def bill_tokens_def sql_get_def Let_def)
qed

lemma bill_asks:
  "vt_tenantId v = Some (js ''acme'') \<Longrightarrow> billing_tenant bill_query v = Inr (js ''acme'')"
  "billing_window bits_text bill_query = Inr (num 0, num 50)" "billing_page_size bits_text bill_query = Inr 1"
  "billing_after bits_text H bill_query = Inr None"
proof -
  have "ID_REGEX (js ''acme'')" by code_simp
  then show "vt_tenantId v = Some (js ''acme'') \<Longrightarrow> billing_tenant bill_query v = Inr (js ''acme'')"
    by (simp add: billing_tenant_def bill_query_def present_def js_eval)
  have l: "f64_lt (num a) (num b) = (a < b)" "f64_le (num a) (num b) = (a \<le> b)"
    if "\<bar>a\<bar> \<le> 2 ^ 53" "\<bar>b\<bar> \<le> 2 ^ 53" for a b
    using f64_lt_ints [OF num_to_int num_to_int] f64_le_ints [OF num_to_int num_to_int] that by auto
  have "f64_to_int (f64_sub (num 50) (num 0)) = Some 50"
    using f64_sub_exact [OF num_to_int [of 50] num_to_int [of 0]] by simp
  then have "f64_lt (num MAX_WINDOW_MS) (f64_sub (num 50) (num 0)) = (MAX_WINDOW_MS < 50)"
    using f64_lt_ints [OF num_to_int [of MAX_WINDOW_MS]] by (simp add: MAX_WINDOW_MS_def)
  then show "billing_window bits_text bill_query = Inr (num 0, num 50)"
    by (simp add: billing_window_def bill_query_def non_negative_int_def parse_shown l MAX_WINDOW_MS_def)
  show "billing_page_size bits_text bill_query = Inr 1"
    by (simp add: billing_page_size_def bill_query_def parse_shown l MAX_BILLING_PAGE_def f64_int_def num_to_int)
  show "billing_after bits_text H bill_query = Inr None" by (simp add: billing_after_def bill_query_def present_def)
qed


lemma bill_page_rows:
  "page_rows (js ''acme'') (num 0, num 50) 1 None (Some sample_db) = [sample_row (replicate 64 0x61) 10]"
  by (simp add: page_rows_def getMeteringSubmissions_def sample_db_def sample_row_def in_window_def num_to_int
    f64_int_def after_cursor_def cmp_row_def cmp_cursor_def row_cursor_def)

lemma bill_lines:
  "anchor_lines (js ''anchored root='' @ replicate 20 0x63 @ js ''... as tx '' @ replicate 64 0x64)
     = [(replicate 20 0x63, replicate 64 0x64)]"
  by code_simp

lemma bill_map: "buildResolveMap bits_text bill_files = Some [(replicate 64 0x62, Some (replicate 64 0x64))]"
proof -
  have hex: "re_lower_hex 64 (replicate 64 0x62)" "re_lower_hex 64 (replicate 64 0x63)"
    by (rule re_lower_hex_replicate, simp add: char_class_defs)+
  then have "clean_hash (replicate 64 0x62) = replicate 64 0x62" "clean_hash (replicate 64 0x63) = replicate 64 0x63"
    by (simp_all add: clean_hash_def to_lower_hex_id starts_with_replicate js_eval)
  then show ?thesis
    using hex by (simp add: buildResolveMap_def bill_files_def parseAnchorWorkerLog_def bill_lines prop_value_def get_prop_def
      js_eq_iff text_or_empty_def)
qed

lemma bill_chain: "chain_for bill_env h = \<lparr>cs_content_hash = h, cs_receipt_id = receiptIdFromContentHash h,
    cs_status = StCertified, cs_cert_hash = Some (js ''0x'' @ replicate 64 0x62)\<rparr>"
  by (simp add: chain_for_def bill_env_def status_of_answer_def bill_cert_def or_else_def prop_value_def get_prop_def
    js_eq_iff ZERO_HASH_NO_PREFIX_def)

lemma bill_reply:
  "\<exists>r s' u. getBillingUsage bill_env 40000 bill_query bill_state = (Inr r, s')
     \<and> us_tenant_id r = js ''acme'' \<and> us_start_ms r = num 0 \<and> us_end_ms r = num 50
     \<and> us_records r = Some [u] \<and> ur_anchor_tx u = Some (js ''0x'' @ replicate 64 0x64)"
proof -
  obtain v tokens where v: "billing_token 40000 (br_request bill_query) (bs_tokens bill_state) = (Inr v, tokens)"
      "vt_tenantId v = Some (js ''acme'')"
    using bill_token_ok by blast
  let ?row = "sample_row (replicate 64 0x61) 10" and ?cert = "js ''0x'' @ replicate 64 0x62"
  have st: "queryReceiptStatuses (be_text bill_env) (be_receipts bill_env) (map m_content_hash [?row])
      = [chain_for bill_env (m_content_hash ?row)]"
    by (simp add: queryReceiptStatuses_def js_unique_def chain_for_def)
  have hex: "re_lower_hex 64 (replicate 64 0x62)" by (rule re_lower_hex_replicate) (simp add: char_class_defs)
  then have clean: "clean_hash ?cert = replicate 64 0x62" by (simp add: clean_hash_def js_eval to_lower_hex_id)
  have tx: "resolve_anchor [(replicate 64 0x62, Some (replicate 64 0x64))] (Some ?cert) = Some (replicate 64 0x64)"
    using clean hex by (simp add: resolve_anchor_def js_eval)
  have an: "resolveAnchorTxs (be_text bill_env) 40000 (be_files bill_env) (map cs_cert_hash [chain_for bill_env (m_content_hash ?row)]) None
      = Some ([Some (replicate 64 0x64)], Some \<lparr>ac_map = [(replicate 64 0x62, Some (replicate 64 0x64))], ac_built_at_ms = 40000\<rparr>)"
    using bill_map tx by (simp add: resolveAnchorTxs_def bill_chain) (simp add: bill_env_def)
  have page: "\<exists>r c u. usage_page bill_env 40000 (js ''acme'') (num 0, num 50) True 1 None (bill_state\<lparr>bs_tokens := tokens\<rparr>)
      = (Inr r, c) \<and> us_tenant_id r = js ''acme'' \<and> us_start_ms r = num 0 \<and> us_end_ms r = num 50
     \<and> us_records r = Some [u] \<and> ur_anchor_tx u = Some (js ''0x'' @ replicate 64 0x64)"
    unfolding usage_page_def bill_state_def billing_state.select_convs billing_state.update_convs
      bill_page_rows [unfolded page_rows_def] st an Let_def option.case prod.case
    by (simp add: chain_of_def anchor_of_def rowToRecordResponse_def bill_chain present_def js_eval starts_with_replicate)
  have "br_include_records bill_query = Some (js ''true'')" by (simp add: bill_query_def)
  moreover have "be_text bill_env = bits_text" by (simp add: bill_env_def)
  ultimately show ?thesis
    using v page bill_asks by (auto simp: getBillingUsage_def Let_def)
qed


lemma bill_no_cache: "cache_backed T [] (bs_anchors bill_state)"
  by (simp add: cache_backed_def bill_state_def)

theorem billing_tenant_isolation_witness:
  "fst (getBillingUsage bill_env 40000 bill_query (bill_state\<lparr>bs_metering := Some sample_db\<rparr>))
     = fst (getBillingUsage bill_env 40000 bill_query (bill_state\<lparr>bs_metering :=
         Some (sample_db\<lparr>submissions := (sample_row (replicate 64 0x64) 20)\<lparr>m_tenant_id := js ''other''\<rparr> # submissions sample_db\<rparr>)\<rparr>))"
proof -
  obtain v tokens where v: "billing_token 40000 (br_request bill_query) (bs_tokens bill_state) = (Inr v, tokens)"
      "vt_tenantId v = Some (js ''acme'')"
    using bill_token_ok by blast
  show ?thesis by (rule billing_tenant_isolation [OF v]) (simp add: sample_db_def js_eq_iff)
qed

theorem billing_aggregate_exact_witness:
  "\<exists>r s'. getBillingUsage bill_env 40000 bill_query bill_state = (Inr r, s')
     \<and> ba_record_count (us_aggregate r) = 1 \<and> ba_anchored_count (us_aggregate r) = 1"
proof -
  obtain r s' u where r: "getBillingUsage bill_env 40000 bill_query bill_state = (Inr r, s')" "us_records r = Some [u]"
      "ur_anchor_tx u = Some (js ''0x'' @ replicate 64 0x64)"
    using bill_reply by blast
  from billing_aggregate_exact [OF r(1,2), where snaps = "[]"] show ?thesis
    using r bill_no_cache by auto
qed

theorem billing_anchor_backed_witness:
  "\<exists>cert. anchored_in bits_text bill_files (clean_hash cert) (replicate 64 0x64)"
proof -
  obtain r s' u where r: "getBillingUsage bill_env 40000 bill_query bill_state = (Inr r, s')" "us_records r = Some [u]"
      "ur_anchor_tx u = Some (js ''0x'' @ replicate 64 0x64)"
    using bill_reply by blast
  have "bs_anchors bill_state = None" "getBillingUsage bill_env 40000 bill_query (billing_run [] bill_state) = (Inr r, s')"
    using r(1) by (simp_all add: bill_state_def billing_run_def)
  from billing_anchor_backed [OF this(1) _ this(2) r(2) _ r(3)] obtain cert tx files where
    "js ''0x'' @ replicate 64 0x64 = js ''0x'' @ tx" "files \<in> insert (be_files bill_env) ((be_files \<circ> fst) ` set [])"
    "anchored_in (be_text bill_env) files (clean_hash cert) tx" by force
  then show ?thesis by (auto simp: bill_env_def)
qed


end
