(* ===== verification/Billing402.thy ===== *)
theory Billing402
  imports BillingRoute "HOL-Library.AList"
begin

text \<open>
  Admission by payment (\<open>middleware/billing-402.ts\<close>, \<open>middleware/warn-throttle.ts\<close>, the pallet
  reads of \<open>billing/chain_query.ts\<close>): the class of a request, who pays, the price and the balance,
  and the reply 402.  The node's answers and the request identifier are arguments.
\<close>

section \<open>Warnings\<close>

text \<open>The map \<open>lastEmitted\<close>; the first component says whether the line is written.\<close>

type_synonym warn_map = "(jsstring \<times> int) list"

definition THROTTLE_MS :: int where "THROTTLE_MS = 60000"

definition warnThrottled :: "jsstring \<Rightarrow> int \<Rightarrow> warn_map \<Rightarrow> bool \<times> warn_map" where
  "warnThrottled key now warned =
     (case map_of warned key of
        Some prev \<Rightarrow> if now - prev < THROTTLE_MS then (False, warned) else (True, AList.update key now warned)
      | None \<Rightarrow> (True, AList.update key now warned))"

section \<open>The class of a request\<close>

definition seg :: "jsstring \<Rightarrow> bool" where "seg s \<longleftrightarrow> s \<noteq> [] \<and> 0x2F \<notin> set s"

text \<open>\<open>/^P[^/]+Q$/\<close>\<close>

definition seg_between :: "string \<Rightarrow> string \<Rightarrow> jsstring \<Rightarrow> bool" where
  "seg_between p q s \<longleftrightarrow> starts_with s (js p) \<and> ends_with s (js q)
     \<and> seg (drop (length p) (take (length s - length q) s))"

text \<open>A path that ends in digits, without them: what \<open>\d+$\<close> leaves.\<close>

definition before_digits :: "jsstring \<Rightarrow> jsstring option" where
  "before_digits s =
     (let ds = takeWhile is_digit_u16 (rev s)
      in if ds = [] then None else Some (take (length s - length ds) s))"

definition chunk_path :: "jsstring \<Rightarrow> bool" where
  "chunk_path p \<longleftrightarrow> (case before_digits p of None \<Rightarrow> False | Some s \<Rightarrow> seg_between ''/blobs/'' ''/chunks/'' s)"

definition midnight_path :: "jsstring \<Rightarrow> bool" where
  "midnight_path p \<longleftrightarrow>
     list_ex (\<lambda>network. list_ex (\<lambda>kind.
       (let q = js ''/midnight/'' @ js network @ js ''/objects/'' @ js kind @ js ''/''
        in starts_with p q \<and> re_lower_hex 64 (drop (length q) p))) [''members'', ''plans'', ''sets''])
       [''mainnet'', ''preprod'']"

text \<open>\<open>toUpperCase\<close>; a method is an ASCII token.\<close>

definition to_upper :: "jsstring \<Rightarrow> jsstring" where
  "to_upper s = map (\<lambda>c. if is_lower_letter c then c - 0x20 else c) s"

text \<open>\<open>p.split("/", 2)[1] ?? ""\<close>\<close>

definition first_segment :: "jsstring \<Rightarrow> jsstring" where
  "first_segment p = takeWhile (\<lambda>c. c \<noteq> 0x2F) (drop 1 (dropWhile (\<lambda>c. c \<noteq> 0x2F) p))"

definition assertEndpointClass :: "string \<Rightarrow> string option" where
  "assertEndpointClass c =
     (if c \<noteq> [] \<and> list_all (\<lambda>u. is_lower_letter u \<or> is_digit_u16 u \<or> u = 0x5F) (js c) then Some c else None)"

text \<open>The class, and the warning the fall-through emits; \<open>None\<close> for a class that is not canonical, which throws.\<close>

definition classify_read :: "jsstring \<Rightarrow> string" where
  "classify_read p =
     (if starts_with p (js ''/blobs/'') \<and> ends_with p (js ''/manifest'') then ''free''
      else if starts_with p (js ''/blobs/'') \<and> ends_with p (js ''/status'') then ''free''
      else if starts_with p (js ''/blobs/'')
        \<and> (case before_digits p of None \<Rightarrow> False | Some s \<Rightarrow> ends_with s (js ''/chunks/'')) then ''free''
      else if starts_with p (js ''/chunks/'') then ''free''
      else if starts_with p (js ''/locators/'') then ''free''
      else if starts_with p (js ''/batches/'') then ''free''
      else if p = js ''/billing/usage'' then ''billing_usage_query''
      else if p = js ''/chain-info'' then ''free''
      else if p = js ''/faucet/status'' then ''free''
      else if starts_with p (js ''/heartbeats/'') then ''free''
      else if seg_between ''/operators/'' ''/session-keys'' p then ''free''
      else if seg_between ''/operators/status/'' '''' p then ''free''
      else if p = js ''/v2/attestation_evidence/pending'' then ''admin''
      else ''free'')"

definition classify_write :: "jsstring \<Rightarrow> jsstring \<Rightarrow> string option" where
  "classify_write m p =
     (if m = js ''POST'' \<and> seg_between ''/blobs/'' ''/manifest'' p then Some ''manifest_post''
      else if m = js ''PUT'' \<and> chunk_path p then Some ''chunk_upload''
      else if m = js ''PATCH'' \<and> seg_between ''/blobs/'' ''/certified'' p then Some ''manifest_certified_patch''
      else if m = js ''POST'' \<and> p = js ''/metering/submit'' then Some ''receipt_submit''
      else if (m = js ''POST'' \<or> m = js ''PUT'') \<and> seg_between ''/batches/'' '''' p then Some ''batch_metadata''
      else if m = js ''POST'' \<and> p = js ''/v2/attestation_evidence'' then Some ''tee_evidence_submit''
      else if m = js ''POST'' \<and> seg_between ''/v2/attestation_evidence/'' ''/mark_submitted'' p
        then Some ''tee_evidence_mark_submitted''
      else if m = js ''POST'' \<and> p = js ''/heartbeats'' then Some ''free''
      else if m = js ''POST'' \<and> starts_with p (js ''/faucet/'') then Some ''free''
      else None)"

definition classifyEndpoint :: "jsstring \<Rightarrow> jsstring \<Rightarrow> int \<Rightarrow> warn_map \<Rightarrow> string option \<times> warn_map" where
  "classifyEndpoint reqMethod p now warned =
     (let m = to_upper reqMethod
      in if p = js ''/health'' \<or> p = js ''/status'' \<or> starts_with p (js ''/status/'')
         then (assertEndpointClass ''free'', warned)
         else if starts_with p (js ''/admin/'') then (assertEndpointClass ''admin'', warned)
         else if p = js ''/auth/token'' \<or> starts_with p (js ''/auth/token/'') \<or> p = js ''/auth/tokens''
         then (assertEndpointClass ''admin'', warned)
         else if m = js ''POST'' \<and> p = js ''/operators/register'' then (assertEndpointClass ''admin'', warned)
         else if m = js ''POST'' \<and> p = js ''/operators/create-invite'' then (assertEndpointClass ''admin'', warned)
         else if m = js ''PATCH'' \<and> seg_between ''/operators/'' ''/session-keys'' p
         then (assertEndpointClass ''admin'', warned)
         else if m = js ''PUT'' \<and> midnight_path p then (assertEndpointClass ''admin'', warned)
         else if m = js ''GET'' then (assertEndpointClass (classify_read p), warned)
         else case classify_write m p of
                Some c \<Rightarrow> (assertEndpointClass c, warned)
              | None \<Rightarrow> (assertEndpointClass ''free'',
                   snd (warnThrottled (js ''billing.unclassified_route:'' @ m @ js '':/'' @ first_segment p) now warned)))"

section \<open>Price and balance\<close>

text \<open>
  \<open>BigInt\<close>: a number that is no integer and a text that is no integer literal throw.
  Digits of any of the four bases, a sign with decimal ones only, blanks around.
\<close>

definition digit_value :: "u16 \<Rightarrow> nat option" where
  "digit_value c =
     (if is_digit_u16 c then Some (unat c - 0x30)
      else if is_lower_letter c then Some (unat c - 0x61 + 10)
      else if is_upper_letter c then Some (unat c - 0x41 + 10) else None)"

definition digits_in :: "nat \<Rightarrow> jsstring \<Rightarrow> int option" where
  "digits_in b s =
     (if s \<noteq> [] \<and> list_all (\<lambda>c. case digit_value c of Some d \<Rightarrow> d < b | None \<Rightarrow> False) s
      then Some (fold (\<lambda>c n. n * int b + (case digit_value c of Some d \<Rightarrow> int d | None \<Rightarrow> 0)) s 0) else None)"

definition text_bigint :: "jsstring \<Rightarrow> int option" where
  "text_bigint t =
     (let s = js_trim t
      in if s = [] then Some 0
         else if starts_with s (js ''0x'') \<or> starts_with s (js ''0X'') then digits_in 16 (drop 2 s)
         else if starts_with s (js ''0o'') \<or> starts_with s (js ''0O'') then digits_in 8 (drop 2 s)
         else if starts_with s (js ''0b'') \<or> starts_with s (js ''0B'') then digits_in 2 (drop 2 s)
         else if hd s = 0x2D then map_option uminus (digits_in 10 (tl s))
         else if hd s = 0x2B then digits_in 10 (tl s)
         else digits_in 10 s)"

fun js_bigint :: "js_text \<Rightarrow> json \<Rightarrow> int option" where
  "js_bigint T JNull = None"
| "js_bigint T (JBool b) = Some (if b then 1 else 0)"
| "js_bigint T (JNum x) = f64_to_int x"
| "js_bigint T (JStr s) = text_bigint s"
| "js_bigint T v = Option.bind (js_string T v) text_bigint"

text \<open>
  What the code reads of a decoded pricing model: the codec's two flags with their values (the
  first flag is \<open>None\<close> when it is no boolean), the plain properties, and the property names.
\<close>

record pricing_raw =
  pm_isPerCall :: "bool option"
  pm_asPerCall :: "int option"
  pm_isPerByte :: bool
  pm_asPerByte :: "int option"
  pm_json :: "json option"
  pm_keys :: "jsstring list"

definition U128_MAX :: int where "U128_MAX = 2 ^ 128 - 1"

text \<open>\<open>BigInt(Math.max(0, n))\<close>\<close>

definition request_bytes :: "f64 \<Rightarrow> int option" where
  "request_bytes n = (if f64_lt n (num 0) then Some 0 else f64_to_int n)"

definition charge_per_byte :: "int \<Rightarrow> int \<Rightarrow> int" where
  "charge_per_byte unit bytes = (let product = unit * bytes in if U128_MAX < product then U128_MAX else product)"

text \<open>The plain shape, \<open>None\<close> when neither property is there; the inner \<open>None\<close> is a throwing \<open>BigInt\<close>.\<close>

definition plain_price :: "js_text \<Rightarrow> json option \<Rightarrow> int \<Rightarrow> int option option" where
  "plain_price T v bytes =
     (case v of
        Some (JObj ps) \<Rightarrow>
          (case get_prop (js ''PerCall'') ps of
             Some x \<Rightarrow> Some (js_bigint T x)
           | None \<Rightarrow>
               (case get_prop (js ''PerByte'') ps of
                  Some y \<Rightarrow>
                    if truthy y
                    then Some (map_option (\<lambda>unit. charge_per_byte unit bytes)
                      (js_bigint T (case or_else (prop_value (js ''unit_price'') y) (prop_value (js ''unitPrice'') y) of
                         Some u \<Rightarrow> u | None \<Rightarrow> JNum (num 0))))
                    else None
                | None \<Rightarrow> None))
      | _ \<Rightarrow> None)"

definition codec_price :: "pricing_raw \<Rightarrow> int \<Rightarrow> int option" where
  "codec_price raw bytes =
     (case pm_isPerCall raw of
        None \<Rightarrow> None
      | Some isPerCall \<Rightarrow>
          if isPerCall \<and> pm_asPerCall raw \<noteq> None then pm_asPerCall raw
          else if pm_isPerByte raw then map_option (\<lambda>unit. charge_per_byte unit bytes) (pm_asPerByte raw)
          else None)"

definition decodePricingModel ::
  "js_text \<Rightarrow> pricing_raw \<Rightarrow> f64 \<Rightarrow> int \<Rightarrow> warn_map \<Rightarrow> int option \<times> warn_map" where
  "decodePricingModel T raw requestBytes now warned =
     (case request_bytes requestBytes of
        None \<Rightarrow> (None, warned)
      | Some bytes \<Rightarrow>
          (case codec_price raw bytes of
             Some price \<Rightarrow> (Some price, warned)
           | None \<Rightarrow>
               (case plain_price T (pm_json raw) bytes of
                  Some price \<Rightarrow> (price, warned)
                | None \<Rightarrow> (Some 0, snd (warnThrottled
                    (js ''billing.unknown_pricing_variant:'' @ join_with 0x2C (pm_keys raw)) now warned)))))"

text \<open>
  What the node answers: no connection, a runtime without the pallet, a failing read, or a value.
  The first three read as null.
\<close>

datatype 'a pallet_read = NoNode | NoPalletBilling | ReadThrows | ReadValue 'a

definition queryBillingBalance :: "(jsstring \<Rightarrow> int pallet_read) \<Rightarrow> jsstring \<Rightarrow> int option" where
  "queryBillingBalance balances ss58 = (case balances ss58 of ReadValue b \<Rightarrow> Some b | _ \<Rightarrow> None)"

definition queryEndpointPrice ::
  "js_text \<Rightarrow> (string \<Rightarrow> pricing_raw pallet_read) \<Rightarrow> string \<Rightarrow> f64 \<Rightarrow> int \<Rightarrow> warn_map \<Rightarrow> int option \<times> warn_map" where
  "queryEndpointPrice T prices endpointClass requestBytes now warned =
     (case prices endpointClass of
        ReadValue raw \<Rightarrow> decodePricingModel T raw requestBytes now warned
      | _ \<Rightarrow> (None, warned))"

section \<open>The payer\<close>

record payment_request =
  pr_request :: request
  pr_path :: jsstring
  pr_content_length :: "jsstring option"
  pr_signature :: "jsstring option"
  pr_payer_ss58 :: "jsstring option"

datatype payer_kind = ByApiKey | BySelf | ByNone

record payer_identity =
  py_kind :: payer_kind
  py_ss58 :: "jsstring option"

definition self_payer :: "payment_request \<Rightarrow> payer_identity" where
  "self_payer q =
     (case (present (pr_signature q), present (pr_payer_ss58 q)) of
        (Some _, Some ss58) \<Rightarrow>
          if length ss58 \<le> MAX_ACCOUNT_ID_CHARS then \<lparr>py_kind = BySelf, py_ss58 = Some ss58\<rparr>
          else \<lparr>py_kind = ByNone, py_ss58 = None\<rparr>
      | _ \<Rightarrow> \<lparr>py_kind = ByNone, py_ss58 = None\<rparr>)"

definition identifyPayer ::
  "jsstring \<Rightarrow> int \<Rightarrow> payment_request \<Rightarrow> token_db option \<Rightarrow> payer_identity \<times> token_db option" where
  "identifyPayer treasury now q tokens =
     (case bearer_token (pr_request q) of
        None \<Rightarrow> (self_payer q, tokens)
      | Some token \<Rightarrow>
          if \<not> starts_with token TOKEN_PREFIX then (self_payer q, tokens)
          else (case tokens of
                  None \<Rightarrow> (self_payer q, None)
                | Some t \<Rightarrow>
                    (case verifyToken token now t of
                       (Inl _, t') \<Rightarrow> (self_payer q, Some t')
                     | (Inr _, t') \<Rightarrow>
                         (\<lparr>py_kind = ByApiKey, py_ss58 = (if treasury = [] then None else Some treasury)\<rparr>, Some t'))))"

section \<open>The reply\<close>

definition int_text :: "int \<Rightarrow> jsstring" where
  "int_text i = (if i < 0 then 0x2D # decimal (nat (- i)) else decimal (nat i))"

definition buildPaymentRequiredHeader ::
  "js_text \<Rightarrow> string \<Rightarrow> int \<Rightarrow> jsstring option \<Rightarrow> jsstring \<Rightarrow> int \<Rightarrow> jsstring" where
  "buildPaymentRequiredHeader T endpointClass price payer requestId expires =
     json_stringify T (JObj
       ([(js ''scheme'', JStr (js ''materios-x402'')), (js ''chain'', JStr (js ''materios'')),
         (js ''network'', JStr (js ''preprod'')), (js ''endpointClass'', JStr (js endpointClass)),
         (js ''pricing'', JObj [(js ''token'', JStr (js ''MATRA'')), (js ''decimals'', JNum (num 15)),
           (js ''amount'', JStr (int_text price))])]
        @ (case payer of None \<Rightarrow> [] | Some ss58 \<Rightarrow> [(js ''payer'', JStr ss58)])
        @ [(js ''recipient'', JStr (js ''pallet-billing'')), (js ''nonce'', JStr requestId),
           (js ''expires'', JNum (num expires))]))"

text \<open>The headers and the body of the 402, and the three hints by kind of payer.\<close>

record payment_required =
  pq_www_authenticate :: jsstring
  pq_header :: jsstring
  pq_endpoint_class :: string
  pq_price :: jsstring
  pq_balance :: "jsstring option"
  pq_payer :: "jsstring option"
  pq_request_id :: jsstring
  pq_expires :: int
  pq_hint :: payer_kind

text \<open>One structured log line of a decision.\<close>

datatype billing_reason = PalletNotPresent | NoPayerIdentity | BalanceReadFailed | InsufficientBalance

datatype billing_phase = PhaseOff | PhaseMeasurement | PhaseLive

record billing_log =
  lg_phase :: billing_phase
  lg_endpoint_class :: string
  lg_payer_kind :: payer_kind
  lg_payer_ss58 :: "jsstring option"
  lg_payer_ss58_claimed :: "jsstring option"
  lg_price :: jsstring
  lg_balance :: "jsstring option"
  lg_would_402 :: bool
  lg_acted_402 :: bool
  lg_reason :: "billing_reason option"

definition payerLogFields :: "payer_identity \<Rightarrow> jsstring option \<times> jsstring option" where
  "payerLogFields payer =
     (case py_kind payer of
        ByApiKey \<Rightarrow> (py_ss58 payer, None)
      | BySelf \<Rightarrow> (None, py_ss58 payer)
      | ByNone \<Rightarrow> (None, None))"

text \<open>\<open>BILLING_ENFORCEMENT_PHASE\<close>\<close>

definition billingEnforcementPhase :: "jsstring option \<Rightarrow> billing_phase" where
  "billingEnforcementPhase env =
     (let raw = to_lower (js_trim (case present env of Some e \<Rightarrow> e | None \<Rightarrow> js ''off''))
      in if raw = js ''measurement'' then PhaseMeasurement else if raw = js ''live'' then PhaseLive else PhaseOff)"

section \<open>The middleware\<close>

record payment_env =
  pe_phase :: billing_phase
  pe_treasury :: jsstring
  pe_text :: js_text
  pe_prices :: "string \<Rightarrow> pricing_raw pallet_read"
  pe_balances :: "jsstring \<Rightarrow> int pallet_read"

record payment_state =
  ps_tokens :: "token_db option"
  ps_warned :: warn_map

datatype admission = Admitted | PaymentRequired payment_required

definition payment_log ::
  "payment_env \<Rightarrow> string \<Rightarrow> payer_identity \<Rightarrow> int \<Rightarrow> int option \<Rightarrow> bool \<Rightarrow> bool \<Rightarrow> billing_reason option \<Rightarrow> billing_log" where
  "payment_log E c payer price balance would acted reason =
     \<lparr>lg_phase = pe_phase E, lg_endpoint_class = c, lg_payer_kind = py_kind payer,
      lg_payer_ss58 = fst (payerLogFields payer), lg_payer_ss58_claimed = snd (payerLogFields payer),
      lg_price = int_text price, lg_balance = map_option int_text balance, lg_would_402 = would,
      lg_acted_402 = acted, lg_reason = reason\<rparr>"

definition payment_reply ::
  "js_text \<Rightarrow> string \<Rightarrow> payer_identity \<Rightarrow> int \<Rightarrow> int option \<Rightarrow> jsstring \<Rightarrow> int \<Rightarrow> payment_required" where
  "payment_reply T c payer price balance requestId now =
     (let verified = (py_kind payer = ByApiKey);
          wirePayer = (if verified then py_ss58 payer else None);
          wireBalance = (if verified then balance else None);
          expires = now div 1000 + 300
      in \<lparr>pq_www_authenticate = js ''X-402 realm=\"materios\", endpoint=\"'' @ js c @ js ''\", price=\"'' @ int_text price
            @ js ''\", currency=\"MATRA\"'',
          pq_header = buildPaymentRequiredHeader T c price wirePayer requestId expires,
          pq_endpoint_class = c, pq_price = int_text price, pq_balance = map_option int_text wireBalance,
          pq_payer = wirePayer, pq_request_id = requestId, pq_expires = expires, pq_hint = py_kind payer\<rparr>)"

definition admit ::
  "payment_env \<Rightarrow> string \<Rightarrow> payer_identity \<Rightarrow> int option \<Rightarrow> int option \<Rightarrow> jsstring \<Rightarrow> int
   \<Rightarrow> admission \<times> billing_log option" where
  "admit E c payer price balance requestId now =
     (case price of
        None \<Rightarrow> (Admitted, Some (payment_log E c payer 0 None False False (Some PalletNotPresent)))
      | Some p \<Rightarrow>
          if p = 0 then (Admitted, None)
          else let insufficient = (case balance of None \<Rightarrow> True | Some b \<Rightarrow> b < p)
               in if pe_phase E = PhaseMeasurement
                  then (Admitted, Some (payment_log E c payer p balance insufficient False None))
                  else if \<not> insufficient then (Admitted, Some (payment_log E c payer p balance False False None))
                  else (PaymentRequired (payment_reply (pe_text E) c payer p balance requestId now),
                        Some (payment_log E c payer p balance True True
                          (Some (if balance = None
                                 then if py_kind payer = ByNone then NoPayerIdentity else BalanceReadFailed
                                 else InsufficientBalance)))))"

definition content_bytes :: "js_text \<Rightarrow> payment_request \<Rightarrow> f64" where
  "content_bytes T q = (case present (pr_content_length q) of None \<Rightarrow> num 0 | Some s \<Rightarrow> text_number T s)"

definition billing402Middleware ::
  "payment_env \<Rightarrow> jsstring \<Rightarrow> int \<Rightarrow> payment_request \<Rightarrow> payment_state
   \<Rightarrow> (admission \<times> billing_log option) \<times> payment_state" where
  "billing402Middleware E requestId now q s =
     (if pe_phase E = PhaseOff then ((Admitted, None), s)
      else case classifyEndpoint (req_method (pr_request q)) (pr_path q) now (ps_warned s) of
             (None, warned) \<Rightarrow> ((Admitted, None), s\<lparr>ps_warned := warned\<rparr>)
           | (Some c, warned) \<Rightarrow>
               if c = ''free'' \<or> c = ''admin'' then ((Admitted, None), s\<lparr>ps_warned := warned\<rparr>)
               else (let (payer, tokens) = identifyPayer (pe_treasury E) now q (ps_tokens s);
                         (price, warned') = queryEndpointPrice (pe_text E) (pe_prices E) c
                           (content_bytes (pe_text E) q) now warned;
                         balance = (case py_ss58 payer of None \<Rightarrow> None | Some a \<Rightarrow> queryBillingBalance (pe_balances E) a)
                     in (admit E c payer price balance requestId now,
                         s\<lparr>ps_tokens := tokens, ps_warned := warned'\<rparr>)))"

section \<open>Classes\<close>

definition endpoint_classes :: "string list" where
  "endpoint_classes = [''free'', ''admin'', ''billing_usage_query'', ''manifest_post'', ''chunk_upload'',
     ''manifest_certified_patch'', ''receipt_submit'', ''batch_metadata'', ''tee_evidence_submit'',
     ''tee_evidence_mark_submitted'']"

lemma assert_class: "c \<in> set endpoint_classes \<Longrightarrow> assertEndpointClass c = Some c"
proof -
  have "list_all (\<lambda>c. assertEndpointClass c = Some c) endpoint_classes" by code_simp
  then show "c \<in> set endpoint_classes \<Longrightarrow> assertEndpointClass c = Some c" by (simp add: list_all_iff)
qed

lemma classes_of: "classify_read p \<in> set endpoint_classes" "classify_write m p = Some c \<Longrightarrow> c \<in> set endpoint_classes"
  unfolding classify_read_def classify_write_def by (simp_all add: endpoint_classes_def split: if_splits)

lemma assert_literals: "assertEndpointClass ''free'' = Some ''free''" "assertEndpointClass ''admin'' = Some ''admin''"
  using assert_class by (simp_all add: endpoint_classes_def)

text \<open>The check of the class never throws.\<close>

lemma classified: "\<exists>c \<in> set endpoint_classes. fst (classifyEndpoint m p now w) = Some c"
proof (cases "classify_write (to_upper m) p")
  case None
  then show ?thesis
    using assert_class [OF classes_of(1) [of p]] classes_of(1) [of p]
    by (simp add: classifyEndpoint_def assert_literals Let_def) (simp add: endpoint_classes_def)
next
  case (Some c)
  then show ?thesis
    using assert_class [OF classes_of(1) [of p]] classes_of(1) [of p] assert_class [OF classes_of(2) [OF Some]] classes_of(2) [OF Some]
    by (simp add: classifyEndpoint_def assert_literals Let_def) (simp add: endpoint_classes_def)
qed

section \<open>Who is admitted\<close>

text \<open>What a request to a priced endpoint is asked for: its class, the quoted price and the payer's balance.\<close>

definition quoted ::
  "payment_env \<Rightarrow> int \<Rightarrow> payment_request \<Rightarrow> payment_state \<Rightarrow> string \<times> int option \<times> int option" where
  "quoted E now q s =
     (let (c, warned) = classifyEndpoint (req_method (pr_request q)) (pr_path q) now (ps_warned s)
      in (the c, fst (queryEndpointPrice (pe_text E) (pe_prices E) (the c) (content_bytes (pe_text E) q) now warned),
          Option.bind (py_ss58 (fst (identifyPayer (pe_treasury E) now q (ps_tokens s))))
            (queryBillingBalance (pe_balances E))))"

lemma admission_by_quote:
  assumes "quoted E now q s = (c, price, balance)"
  defines "payer \<equiv> fst (identifyPayer (pe_treasury E) now q (ps_tokens s))"
  shows "fst (billing402Middleware E rid now q s) =
    (if pe_phase E = PhaseOff \<or> c = ''free'' \<or> c = ''admin'' then (Admitted, None) else admit E c payer price balance rid now)"
proof -
  obtain k w where k: "classifyEndpoint (req_method (pr_request q)) (pr_path q) now (ps_warned s) = (Some k, w)"
    using classified [of "req_method (pr_request q)" "pr_path q" now "ps_warned s"]
    by (cases "classifyEndpoint (req_method (pr_request q)) (pr_path q) now (ps_warned s)") auto
  have b: "(case x of None \<Rightarrow> None | Some a \<Rightarrow> f a) = Option.bind x f" for x :: "jsstring option" and f :: "jsstring \<Rightarrow> int option"
    by (cases x) simp_all
  show ?thesis
    using assms(1) by (auto simp: billing402Middleware_def quoted_def payer_def k case_prod_beta Let_def b)
qed

text \<open>C2: Payment is asked for exactly when enforcement is live, the endpoint has a price other than
  zero, and the payer has no known balance or one below the price; the reply then names the
  endpoint and its price.  In the other phases, and whenever the chain cannot be asked for the
  price, every request is admitted.\<close>

theorem payment_required_exactly:
  assumes "quoted E now q s = (c, price, balance)"
  shows "(fst (fst (billing402Middleware E rid now q s)) \<noteq> Admitted \<longleftrightarrow>
      pe_phase E = PhaseLive \<and> c \<notin> {''free'', ''admin''}
      \<and> (\<exists>p. price = Some p \<and> p \<noteq> 0 \<and> (case balance of None \<Rightarrow> True | Some b \<Rightarrow> b < p)))
    \<and> (\<forall>r. fst (fst (billing402Middleware E rid now q s)) = PaymentRequired r \<longrightarrow>
      pq_endpoint_class r = c \<and> (\<exists>p. price = Some p \<and> pq_price r = int_text p) \<and> pq_request_id r = rid
      \<and> pq_expires r * 1000 \<le> now + 300000 \<and> now + 299000 < pq_expires r * 1000)"
proof (intro conjI allI impI)
  show "fst (fst (billing402Middleware E rid now q s)) \<noteq> Admitted \<longleftrightarrow>
      pe_phase E = PhaseLive \<and> c \<notin> {''free'', ''admin''}
      \<and> (\<exists>p. price = Some p \<and> p \<noteq> 0 \<and> (case balance of None \<Rightarrow> True | Some b \<Rightarrow> b < p))"
    by (cases "pe_phase E") (auto simp: admission_by_quote [OF assms] admit_def Let_def split: option.splits)
  fix r assume "fst (fst (billing402Middleware E rid now q s)) = PaymentRequired r"
  then show "pq_endpoint_class r = c" "\<exists>p. price = Some p \<and> pq_price r = int_text p" "pq_request_id r = rid"
    "pq_expires r * 1000 \<le> now + 300000" "now + 299000 < pq_expires r * 1000"
    using div_mult_mod_eq [of now 1000] pos_mod_bound [of 1000 now] pos_mod_sign [of 1000 now]
    by (auto simp: admission_by_quote [OF assms] admit_def payment_reply_def Let_def split: option.splits if_splits)
qed

section \<open>What the reply reveals\<close>

text \<open>C10: A 402 to a payer who has not proved who he is says nothing about the account he names:
  two requests that claim different accounts, with whatever balances on the chain, get the same
  reply, without a payer and without a balance; and the log does not list the account as a
  verified payer.  (That payment is asked for at all does depend on the balance.)\<close>

theorem claimed_payer_not_reflected:
  assumes "py_kind (fst (identifyPayer (pe_treasury E) now q (ps_tokens s))) = k" "k \<noteq> ByApiKey"
    and "py_kind (fst (identifyPayer (pe_treasury E) now (q\<lparr>pr_payer_ss58 := x\<rparr>) (ps_tokens s))) = k"
    and "fst (billing402Middleware E rid now q s) = (PaymentRequired r, l)"
    and "fst (billing402Middleware (E\<lparr>pe_balances := balances\<rparr>) rid now (q\<lparr>pr_payer_ss58 := x\<rparr>) s) = (PaymentRequired r', l')"
  shows "r = r' \<and> pq_payer r = None \<and> pq_balance r = None \<and> map_option lg_payer_ss58 l = Some None"
proof -
  let ?E = "E\<lparr>pe_balances := balances\<rparr>" and ?q = "q\<lparr>pr_payer_ss58 := x\<rparr>"
  obtain c price balance where Q: "quoted E now q s = (c, price, balance)" by (cases "quoted E now q s") auto
  obtain c' price' balance' where Q': "quoted ?E now ?q s = (c', price', balance')" by (cases "quoted ?E now ?q s") auto
  have same: "c' = c" "price' = price"
    using Q Q' by (auto simp: quoted_def content_bytes_def case_prod_beta Let_def)
  let ?p = "fst (identifyPayer (pe_treasury E) now q (ps_tokens s))"
    and ?p' = "fst (identifyPayer (pe_treasury E) now ?q (ps_tokens s))"
  have one: "\<exists>v. price = Some v \<and> r = payment_reply (pe_text F) c p v b rid now"
    if "fst (admit F c p price b rid now) = PaymentRequired r" for F p b r
    using that by (auto simp: admit_def Let_def split: option.splits if_splits)
  have "fst (admit E c ?p price balance rid now) = PaymentRequired r"
    using assms(4) by (simp add: admission_by_quote [OF Q] split: if_splits)
  from one [OF this] obtain v where v: "price = Some v" "r = payment_reply (pe_text E) c ?p v balance rid now" by blast
  have "fst (admit ?E c ?p' price balance' rid now) = PaymentRequired r'"
    using assms(5) by (simp add: admission_by_quote [OF Q'] same split: if_splits)
  from one [OF this] v(1) have v': "r' = payment_reply (pe_text ?E) c ?p' v balance' rid now" by auto
  have "py_kind ?p = k" "py_kind ?p' = k" by (fact assms(1,3))+
  then have "r = r'" using assms(2) by (simp add: v(2) v' payment_reply_def)
  moreover have "pq_payer r = None" "pq_balance r = None"
    using \<open>py_kind ?p = k\<close> assms(2) by (simp_all add: v(2) payment_reply_def Let_def)
  moreover have "map_option lg_payer_ss58 l = Some None"
  proof -
    have "snd (admit E c ?p price balance rid now) = l" "fst (admit E c ?p price balance rid now) \<noteq> Admitted"
      using assms(4) by (simp_all add: admission_by_quote [OF Q] split: if_splits)
    then obtain p b reason where "l = Some (payment_log E c ?p p b True True reason)"
      by (auto simp: admit_def Let_def split: option.splits if_splits)
    then show ?thesis using \<open>py_kind ?p = k\<close> assms(2) by (cases k) (simp_all add: payment_log_def payerLogFields_def)
  qed
  ultimately show ?thesis by blast
qed

section \<open>Throttled warnings\<close>

text \<open>A run of calls; the lines written.\<close>

fun warn_run :: "(jsstring \<times> int) list \<Rightarrow> warn_map \<Rightarrow> (jsstring \<times> int) list \<times> warn_map" where
  "warn_run [] w = ([], w)"
| "warn_run ((key, now) # calls) w =
     (let r = warnThrottled key now w; rest = warn_run calls (snd r)
      in (if fst r then (key, now) # fst rest else fst rest, snd rest))"

lemma warn_map_of: "map_of (snd (warnThrottled k now w)) j =
    (if j = k \<and> fst (warnThrottled k now w) then Some now else map_of w j)"
  by (auto simp: warnThrottled_def update_conv split: option.split)

lemma warn_written: "fst (warnThrottled k now w) \<longleftrightarrow> (case map_of w k of Some prev \<Rightarrow> THROTTLE_MS \<le> now - prev | None \<Rightarrow> True)"
  by (auto simp: warnThrottled_def split: option.split)

text \<open>Of one warning at most one line a minute is written: two lines with the same key are at least
  60 seconds apart, in the order of their times, whatever the clock does; and the first call
  with a key writes its line.\<close>

theorem warnings_throttled:
  assumes "fst (warn_run calls []) = ls1 @ (k, t1) # ls2 @ (k, t2) # ls3"
  shows "t1 + 60000 \<le> t2"
proof -
  have later: "map_of w k = Some t \<Longrightarrow> (k, t') \<in> set (fst (warn_run calls w)) \<Longrightarrow> t + 60000 \<le> t'" for t t' w calls
  proof (induction calls arbitrary: w t)
    case (Cons c calls)
    obtain key now where c: "c = (key, now)" by (cases c)
    let ?s = "warnThrottled key now w"
    show ?case
    proof (cases "fst ?s \<and> key = k")
      case True
      then have now: "t + 60000 \<le> now" using Cons.prems(1) warn_written [of key now w] by (auto simp: THROTTLE_MS_def)
      have "map_of (snd ?s) k = Some now" using True by (auto simp: warn_map_of)
      with Cons.IH [of "snd ?s" now] Cons.prems(2) now True c show ?thesis by (auto simp: Let_def)
    next
      case False
      then have "map_of (snd ?s) k = Some t" using Cons.prems(1) by (auto simp: warn_map_of)
      with Cons.IH [of "snd ?s" t] Cons.prems(2) False c show ?thesis by (auto simp: Let_def split: if_splits)
    qed
  qed simp
  have "fst (warn_run calls w) = ls1 @ (k, t1) # ls2 @ (k, t2) # ls3 \<Longrightarrow> t1 + 60000 \<le> t2" for w
  proof (induction calls arbitrary: w ls1)
    case (Cons c calls)
    obtain key now where c: "c = (key, now)" by (cases c)
    let ?s = "warnThrottled key now w"
    have ls: "(if fst ?s then (key, now) # fst (warn_run calls (snd ?s)) else fst (warn_run calls (snd ?s)))
        = ls1 @ (k, t1) # ls2 @ (k, t2) # ls3"
      using Cons.prems c by (simp add: Let_def)
    show ?case
    proof (cases "fst ?s \<and> ls1 = []")
      case True
      then have e: "key = k" "now = t1" "(k, t2) \<in> set (fst (warn_run calls (snd ?s)))" using ls by auto
      have "map_of (snd ?s) k = Some t1" using True e(1,2) by (auto simp: warn_map_of)
      from later [OF this e(3)] show ?thesis .
    next
      case False
      then have "\<exists>ls1'. fst (warn_run calls (snd ?s)) = ls1' @ (k, t1) # ls2 @ (k, t2) # ls3"
        using ls by (cases ls1) (auto split: if_splits)
      then show ?thesis using Cons.IH by blast
    qed
  qed simp
  then show ?thesis using assms by blast
qed

theorem warnings_throttled_witness:
  "(0::int) + 60000 \<le> 60000 \<and> fst (warn_run [([], 0), ([], 59999), ([], 60000)] []) = [([], 0), ([], 60000)]"
proof -
  have "fst (warn_run [([], 0), ([], 59999), ([], 60000)] []) = [] @ ([], 0) # [] @ ([], 60000) # []" by code_simp
  from warnings_throttled [OF this] this show ?thesis by simp
qed

section \<open>What the classification misses\<close>

lemma before_digits_slash: "before_digits (p @ [0x2F]) = None"
  by (simp add: before_digits_def is_digit_u16_def)

lemma chunk_path_start: "chunk_path p \<Longrightarrow> starts_with p (js ''/blobs/'')"
proof -
  assume "chunk_path p"
  then obtain n where "starts_with (take n p) (js ''/blobs/'')"
    by (auto simp: chunk_path_def seg_between_def before_digits_def Let_def split: option.splits if_splits)
  then show ?thesis using append_take_drop_id [of n p] by (metis append_assoc starts_with_iff)
qed

lemma blob_paths_not:
  assumes "starts_with p (js ''/blobs/'')"
  shows "\<not> starts_with p (js ''/status/'')" "\<not> starts_with p (js ''/admin/'')" "\<not> starts_with p (js ''/auth/token/'')"
    "\<not> seg_between ''/operators/'' q p" "\<not> midnight_path p" "\<not> seg_between ''/batches/'' q p"
    "\<not> starts_with p (js ''/faucet/'')" "p \<noteq> js ''/health''" "p \<noteq> js ''/status''" "p \<noteq> js ''/auth/token''" "p \<noteq> js ''/auth/tokens''"
    "p \<noteq> js ''/operators/register''" "p \<noteq> js ''/operators/create-invite''" "p \<noteq> js ''/metering/submit''"
    "p \<noteq> js ''/v2/attestation_evidence''" "\<not> seg_between ''/v2/attestation_evidence/'' q p" "p \<noteq> js ''/heartbeats''"
  using assms
  by (auto simp: starts_with_iff seg_between_def midnight_path_def js_eval Let_def)

text \<open>C26: A chunk upload whose path ends in a slash is classed as free, so it is admitted without a price,
  a payer or a log line in every phase, while the same path without the slash is a priced
  upload.  (Express routes both to the same handler unless strict routing is set.)\<close>

theorem trailing_slash_is_free:
  assumes "chunk_path p" "to_upper (req_method (pr_request q)) = js ''PUT''"
  shows "fst (classifyEndpoint (req_method (pr_request q)) p now w) = Some ''chunk_upload''
    \<and> fst (billing402Middleware E rid now (q\<lparr>pr_path := p @ js ''/''\<rparr>) s) = (Admitted, None)"
proof -
  have m: "js ''PUT'' \<noteq> js ''POST''" "js ''PUT'' \<noteq> js ''PATCH''" "js ''PUT'' \<noteq> js ''GET''" by (simp_all add: js_eq_iff)
  have b: "starts_with p (js ''/blobs/'')" by (rule chunk_path_start [OF assms(1)])
  then have b': "starts_with (p @ js ''/'') (js ''/blobs/'')" by (auto simp: starts_with_iff)
  have "\<not> chunk_path (p @ js ''/'')" by (simp add: chunk_path_def before_digits_slash js_eval)
  then have "fst (classifyEndpoint (req_method (pr_request q)) (p @ js ''/'') now w) = Some ''free''" for w
    using blob_paths_not [OF b'] m
    by (simp add: classifyEndpoint_def classify_write_def assms(2) assert_literals Let_def)
  moreover have "fst (classifyEndpoint (req_method (pr_request q)) p now w) = Some ''chunk_upload''"
    using blob_paths_not [OF b] m assms
    by (simp add: classifyEndpoint_def classify_write_def assert_class endpoint_classes_def Let_def)
  ultimately show ?thesis
    by (auto simp: billing402Middleware_def case_prod_beta split: option.splits)
qed


text \<open>Without a \<open>Content-Length\<close> (chunked transfer) a price per byte is a price of zero.\<close>

lemma upload_without_length_is_free:
  assumes "pr_content_length q = None" "quoted E now q s = (c, price, balance)" "pe_prices E c = ReadValue raw"
    and "pm_isPerCall raw = Some False" "pm_isPerByte raw" "pm_asPerByte raw = Some unit"
  shows "fst (fst (billing402Middleware E rid now q s)) = Admitted"
proof -
  have "request_bytes (num 0) = Some 0"
    using f64_lt_ints [OF num_to_int [of 0] num_to_int [of 0]] num_to_int [of 0] by (simp add: request_bytes_def)
  then have "price = Some 0"
    using assms by (auto simp: quoted_def case_prod_beta Let_def queryEndpointPrice_def decodePricingModel_def content_bytes_def
        present_def codec_price_def charge_per_byte_def U128_MAX_def)
  then show ?thesis by (simp add: admission_by_quote [OF assms(2)] admit_def)
qed

text \<open>A client without credentials posts to made-up paths.\<close>

definition spray ::
  "payment_env \<Rightarrow> int \<Rightarrow> payment_request \<Rightarrow> jsstring list \<Rightarrow> payment_state \<Rightarrow> payment_state" where
  "spray E now q segs s = fold (\<lambda>x s. snd (billing402Middleware E [] now (q\<lparr>pr_path := js ''/'' @ x\<rparr>) s)) segs s"

lemma one_segment:
  assumes "seg x" "x \<notin> {js ''health'', js ''status'', js ''heartbeats''}" "to_upper m = js ''POST''"
  shows "classifyEndpoint m (js ''/'' @ x) now w
    = (Some ''free'', snd (warnThrottled (js ''billing.unclassified_route:POST:/'' @ x) now w))"
proof -
  have no: "0x2F \<in> set p \<Longrightarrow> \<not> starts_with x p" for p
    using assms(1) by (auto simp: starts_with_iff seg_def)
  have ne: "0x2F \<in> set p \<Longrightarrow> x \<noteq> p" for p using assms(1) by (auto simp: seg_def)
  have slash: "js ''/'' @ x = 0x2F # x" by (simp add: js_eval)
  have "first_segment (js ''/'' @ x) = x" 
    using assms(1) by (auto simp: first_segment_def js_eval seg_def takeWhile_eq_all_conv)
  moreover have "js ''POST'' \<noteq> js ''PUT''" "js ''POST'' \<noteq> js ''PATCH''" "js ''POST'' \<noteq> js ''GET''" by (simp_all add: js_eq_iff)
  moreover have "\<not> seg_between p r (js ''/'' @ x)" if "js p = 0x2F # p'" "0x2F \<in> set p'" for p p' r
    using no [OF that(2)] by (simp add: seg_between_def that(1) slash)
  moreover have "\<not> midnight_path (js ''/'' @ x)" by (simp add: midnight_path_def Let_def no js_eval)
  moreover have "\<not> chunk_path (js ''/'' @ x)" using chunk_path_start [of "js ''/'' @ x"] no by (auto simp: js_eval)
  moreover have "js ''/'' @ x \<noteq> js ''/health''" "js ''/'' @ x \<noteq> js ''/status''" "js ''/'' @ x \<noteq> js ''/heartbeats''"
    using assms(2) by (auto simp: js_eval)
  ultimately show ?thesis
    using assms(3) by (simp add: classifyEndpoint_def classify_write_def assert_literals Let_def no ne js_eval)
qed

lemma length_update_new: "k \<notin> fst ` set w \<Longrightarrow> length (AList.update k v w) = Suc (length w)"
  by (induction w) auto

text \<open>The map of throttled warnings grows with every new first segment of an unknown path and never
  shrinks: a client that posts to distinct made-up paths adds one entry each, whether it is
  authenticated or not.\<close>

theorem throttle_map_grows:
  assumes "pe_phase E \<noteq> PhaseOff" "to_upper (req_method (pr_request q)) = js ''POST''" "distinct segs"
    and "list_all (\<lambda>x. seg x \<and> x \<notin> {js ''health'', js ''status'', js ''heartbeats''}) segs" "ps_warned s = []"
  shows "length (ps_warned (spray E now q segs s)) = length segs"
proof -
  let ?k = "\<lambda>x. js ''billing.unclassified_route:POST:/'' @ x"
  have "length (ps_warned (spray E now q segs s)) = length (ps_warned s) + length segs"
    if "set (map ?k segs) \<inter> fst ` set (ps_warned s) = {}" "distinct segs"
      "list_all (\<lambda>x. seg x \<and> x \<notin> {js ''health'', js ''status'', js ''heartbeats''}) segs" for segs s
    using that
  proof (induction segs arbitrary: s)
    case (Cons x segs)
    let ?w = "AList.update (?k x) now (ps_warned s)"
    have new: "map_of (ps_warned s) (?k x) = None" using Cons.prems(1) by (auto simp: map_of_eq_None_iff)
    then have s1: "snd (billing402Middleware E [] now (q\<lparr>pr_path := js ''/'' @ x\<rparr>) s) = s\<lparr>ps_warned := ?w\<rparr>"
      using one_segment [OF _ _ assms(2), of x now] Cons.prems(3) assms(1)
      by (simp add: billing402Middleware_def warnThrottled_def)
    have "length ?w = Suc (length (ps_warned s))"
      by (rule length_update_new) (use new in \<open>simp add: map_of_eq_None_iff\<close>)
    moreover have "set (map ?k segs) \<inter> fst ` set ?w = {}"
      using Cons.prems(1,2) unfolding dom_update by auto
    ultimately show ?case
      using Cons.IH [of "s\<lparr>ps_warned := ?w\<rparr>"] Cons.prems(2,3) by (simp add: spray_def s1)
  qed (simp add: spray_def)
  from this [of segs s] show ?thesis using assms by simp
qed

section \<open>A sample\<close>

definition pay_query :: "jsstring \<Rightarrow> payment_request" where
  "pay_query payer = \<lparr>pr_request = \<lparr>h_upload_sig_v2 = None, h_upload_sig = None, h_uploader_address = None,
       h_upload_ts = None, h_authorization = None, h_api_key = None, req_method = js ''post'',
       req_originalUrl = [], req_rawBody = []\<rparr>,
     pr_path = js ''/metering/submit'', pr_content_length = None, pr_signature = Some (js ''ab''),
     pr_payer_ss58 = Some payer\<rparr>"

definition pay_env :: "int \<Rightarrow> payment_env" where
  "pay_env b = \<lparr>pe_phase = PhaseLive, pe_treasury = [], pe_text = bits_text,
     pe_prices = (\<lambda>_. ReadValue \<lparr>pm_isPerCall = Some True, pm_asPerCall = Some 5, pm_isPerByte = False,
       pm_asPerByte = None, pm_json = None, pm_keys = []\<rparr>),
     pe_balances = (\<lambda>_. ReadValue b)\<rparr>"

definition pay_state :: payment_state where "pay_state = \<lparr>ps_tokens = None, ps_warned = []\<rparr>"

lemma pay_payer: "x \<noteq> [] \<Longrightarrow> length x \<le> 66 \<Longrightarrow>
    fst (identifyPayer t now (pay_query x) tokens) = \<lparr>py_kind = BySelf, py_ss58 = Some x\<rparr>"
  by (simp add: identifyPayer_def pay_query_def bearer_token_def self_payer_def present_def MAX_ACCOUNT_ID_CHARS_def js_eval)

lemma pay_quote:
  "x \<noteq> [] \<Longrightarrow> length x \<le> 66 \<Longrightarrow> quoted (pay_env b) 7000 (pay_query x) pay_state = (''receipt_submit'', Some 5, Some b)"
proof -
  assume x: "x \<noteq> []" "length x \<le> 66"
  have "classifyEndpoint (js ''post'') (js ''/metering/submit'') 7000 [] = (Some ''receipt_submit'', [])" by code_simp
  moreover have "request_bytes (num 0) = Some 0"
    using f64_lt_ints [OF num_to_int [of 0] num_to_int [of 0]] num_to_int [of 0] by (simp add: request_bytes_def)
  moreover have "codec_price \<lparr>pm_isPerCall = Some True, pm_asPerCall = Some 5, pm_isPerByte = False,
       pm_asPerByte = None, pm_json = None, pm_keys = []\<rparr> 0 = Some 5"
    by (simp add: codec_price_def)
  ultimately show ?thesis
    using pay_payer [OF x]
    by (simp add: quoted_def pay_state_def pay_env_def queryBillingBalance_def queryEndpointPrice_def decodePricingModel_def
      content_bytes_def present_def) (simp add: pay_query_def)
qed

theorem payment_required_exactly_witness:
  "fst (fst (billing402Middleware (pay_env 4) [] 7000 (pay_query [1]) pay_state)) \<noteq> Admitted
   \<and> fst (fst (billing402Middleware (pay_env 5) [] 7000 (pay_query [1]) pay_state)) = Admitted"
  using payment_required_exactly [OF pay_quote [of "[1]" 4], of "[]"] payment_required_exactly [OF pay_quote [of "[1]" 5], of "[]"]
  by (simp add: pay_env_def)

theorem claimed_payer_not_reflected_witness:
  "\<exists>r l l'. fst (billing402Middleware (pay_env 4) [] 7000 (pay_query [1]) pay_state) = (PaymentRequired r, l)
     \<and> fst (billing402Middleware (pay_env 0) [] 7000 (pay_query [2]) pay_state) = (PaymentRequired r, l') \<and> pq_payer r = None"
proof -
  have "\<exists>r l. fst (billing402Middleware (pay_env b) [] 7000 (pay_query x) pay_state) = (PaymentRequired r, l)"
    if "b < 5" "x \<noteq> []" "length x \<le> 66" for b x
    using that admission_by_quote [OF pay_quote, of x b "[]"] by (simp add: pay_env_def admit_def)
  from this [of 4 "[1]"] this [of 0 "[2]"]
  obtain r l r' l' where r: "fst (billing402Middleware (pay_env 4) [] 7000 (pay_query [1]) pay_state) = (PaymentRequired r, l)"
      "fst (billing402Middleware (pay_env 0) [] 7000 (pay_query [2]) pay_state) = (PaymentRequired r', l')"
    by fastforce
  have e: "pay_env 0 = (pay_env 4)\<lparr>pe_balances := \<lambda>_. ReadValue 0\<rparr>" "pay_query [2] = (pay_query [1])\<lparr>pr_payer_ss58 := Some [2]\<rparr>"
    by (simp_all add: pay_env_def pay_query_def)
  have "r = r' \<and> pq_payer r = None \<and> pq_balance r = None \<and> map_option lg_payer_ss58 l = Some None"
    by (rule claimed_payer_not_reflected [where k = BySelf, OF _ _ _ r(1) r(2) [unfolded e]])
      (simp_all add: pay_payer e(2) [symmetric])
  then show ?thesis using r by blast
qed

theorem trailing_slash_is_free_witness:
  "chunk_path (js ''/blobs/aa/chunks/0'')
   \<and> fst (billing402Middleware (pay_env 4) [] 0 ((pay_query [1])\<lparr>pr_request := (pr_request (pay_query [1]))\<lparr>req_method := js ''PUT''\<rparr>,
        pr_path := js ''/blobs/aa/chunks/0'' @ js ''/''\<rparr>) pay_state) = (Admitted, None)"
proof -
  have c: "chunk_path (js ''/blobs/aa/chunks/0'')" by code_simp
  moreover have "to_upper (js ''PUT'') = js ''PUT''" by code_simp
  ultimately show ?thesis
    using trailing_slash_is_free [OF c, of "(pay_query [1])\<lparr>pr_request := (pr_request (pay_query [1]))\<lparr>req_method := js ''PUT''\<rparr>\<rparr>"]
    by simp
qed

theorem throttle_map_grows_witness:
  "length (ps_warned (spray (pay_env 4) 0 (pay_query [1]) [[1], [2], [3]] pay_state)) = 3"
proof -
  have "to_upper (js ''post'') = js ''POST''" by code_simp
  then show ?thesis
    using throttle_map_grows [of "pay_env 4" "pay_query [1]" "[[1], [2], [3]]" pay_state 0]
    by (simp add: pay_env_def pay_query_def pay_state_def seg_def js_eval)
qed

end
