(* ===== verification/BatchRecord.thy ===== *)
theory BatchRecord
  imports JsonText BlobStore
begin

text \<open>
  Batch records (\<open>batch-record.ts\<close>): what a record has to satisfy to be stored under an anchor,
  Cardano claims, and the merge of a new record with the stored one.  The hash functions of the
  chain's SDK are not in the repository and are arguments; each may throw.  So is the test
  whether \<open>Date.parse\<close> yields a number, which the language leaves to the implementation.
\<close>

section \<open>Records\<close>

text \<open>The properties of a record; a record is a plain object.\<close>

type_synonym props = "(jsstring \<times> json) list"

datatype batch_error = BatchInvalid string | BatchCapacity string | BatchNotFound | BatchFailed

record batch_manifest =
  bm_cardano_network_id :: jsstring
  bm_count :: nat
  bm_from_block :: int
  bm_materios_chain_id :: jsstring
  bm_root :: jsstring
  bm_to_block :: int

record batch_sdk =
  sdk_merkleRoot :: "jsstring list \<Rightarrow> jsstring option"
  sdk_manifestHash :: "batch_manifest \<Rightarrow> jsstring option"
  sdk_anchorId :: "jsstring \<Rightarrow> jsstring \<Rightarrow> jsstring option"

definition GENESIS :: "jsstring list" where
  "GENESIS = [js ''0e46e33f639a56cc8780fd871d9a15e16d99af248526f907cb560cb40849f7bf'',
     js ''bc0531cb311281565036fb397a376f0e0fa37005589655f97a7924b2729a164c'']"

definition BATCH_BYTE_BUDGET :: nat where "BATCH_BYTE_BUDGET = 2 * 1024 * 1024"

text \<open>\<open>Buffer.byteLength(JSON.stringify(value), "utf8")\<close>\<close>

definition json_bytes :: "js_text \<Rightarrow> json \<Rightarrow> nat" where
  "json_bytes T v = length (utf8_encode (json_stringify T v))"

text \<open>\<open>/^(?:0x)?[0-9a-fA-F]{64}$/\<close>\<close>

definition hash_text :: "jsstring \<Rightarrow> bool" where
  "hash_text s \<longleftrightarrow> re_any_hex 64 s \<or> starts_with s (js ''0x'') \<and> re_any_hex 64 (drop 2 s)"

definition batch_hash :: "json option \<Rightarrow> string \<Rightarrow> batch_error + jsstring" where
  "batch_hash v field =
     (case v of
        Some (JStr s) \<Rightarrow> if hash_text s then Inr (to_lower (stripHexPrefix_storage s)) else Inl (BatchInvalid field)
      | _ \<Rightarrow> Inl (BatchInvalid field))"

text \<open>\<open>Number.isSafeInteger\<close>\<close>

definition safe_int :: "json option \<Rightarrow> int option" where
  "safe_int v =
     (case v of
        Some (JNum x) \<Rightarrow> (case f64_to_int x of Some i \<Rightarrow> if \<bar>i\<bar> \<le> 2 ^ 53 - 1 then Some i else None | None \<Rightarrow> None)
      | _ \<Rightarrow> None)"

definition leaf_list :: "props \<Rightarrow> batch_error + json list" where
  "leaf_list ps =
     (case (get_prop (js ''leafHashes'') ps, safe_int (get_prop (js ''leafCount'') ps)) of
        (Some (JArr leaves), Some n) \<Rightarrow>
          if n = int (length leaves) \<and> 1 \<le> length leaves \<and> length leaves \<le> 4096 then Inr leaves
          else Inl (BatchInvalid ''leafCount'')
      | _ \<Rightarrow> Inl (BatchInvalid ''leafCount''))"

definition block_range :: "props \<Rightarrow> batch_error + int \<times> int" where
  "block_range ps =
     (case (safe_int (get_prop (js ''blockRangeStart'') ps), safe_int (get_prop (js ''blockRangeEnd'') ps)) of
        (Some s, Some e) \<Rightarrow> if s < 0 \<or> e < s then Inl (BatchInvalid ''blockRange'') else Inr (s, e)
      | _ \<Rightarrow> Inl (BatchInvalid ''blockRange''))"

text \<open>The genesis fields that are there.\<close>

definition stated_genesis :: "props \<Rightarrow> batch_error + jsstring list" where
  "stated_genesis ps =
     map_result (\<lambda>v. batch_hash (Some v) ''Materios genesis'')
       (concat (map (\<lambda>k. case get_prop (js k) ps of Some v \<Rightarrow> [v] | None \<Rightarrow> [])
          [''materiosGenesis'', ''genesis'', ''materios_chain_id'']))"

definition network_id :: "props \<Rightarrow> batch_error + jsstring" where
  "network_id ps =
     (case get_prop (js ''cardanoNetworkId'') ps of
        None \<Rightarrow> Inr []
      | Some JNull \<Rightarrow> Inr []
      | Some (JStr s) \<Rightarrow> Inr s
      | Some _ \<Rightarrow> Inl (BatchInvalid ''cardanoNetworkId''))"

definition optional_hash :: "string \<Rightarrow> props \<Rightarrow> batch_error + jsstring option" where
  "optional_hash k ps =
     (case get_prop (js k) ps of None \<Rightarrow> Inr None | v \<Rightarrow> and_then (batch_hash v k) (\<lambda>h. Inr (Some h)))"

definition sdk_call :: "'a option \<Rightarrow> batch_error + 'a" where
  "sdk_call v = (case v of None \<Rightarrow> Inl BatchFailed | Some x \<Rightarrow> Inr x)"

text \<open>The loop over the candidate genesis hashes.\<close>

fun try_genesis ::
  "batch_sdk \<Rightarrow> jsstring \<Rightarrow> jsstring option \<Rightarrow> batch_manifest \<Rightarrow> jsstring list \<Rightarrow> batch_error + unit" where
  "try_genesis sdk key manifestDigest m [] = Inl (BatchInvalid ''anchorId'')"
| "try_genesis sdk key manifestDigest m (g # gs) =
     and_then (sdk_call (sdk_manifestHash sdk (m\<lparr>bm_materios_chain_id := g\<rparr>))) (\<lambda>digest.
       if (case manifestDigest of Some d \<Rightarrow> digest \<noteq> js ''0x'' @ d | None \<Rightarrow> False)
       then try_genesis sdk key manifestDigest m gs
       else and_then (sdk_call (sdk_anchorId sdk (bm_root m) digest)) (\<lambda>a.
         if a = js ''0x'' @ key then Inr () else try_genesis sdk key manifestDigest m gs))"

definition validateBatch :: "batch_sdk \<Rightarrow> jsstring \<Rightarrow> props \<Rightarrow> batch_error + unit" where
  "validateBatch sdk key ps =
     and_then (optional_hash ''anchorId'' ps) (\<lambda>a.
     if a \<noteq> None \<and> a \<noteq> Some key then Inl (BatchInvalid ''anchorId'') else
     and_then (batch_hash (get_prop (js ''rootHash'') ps) ''rootHash'') (\<lambda>root.
     and_then (leaf_list ps) (\<lambda>leaves.
     and_then (map_result (\<lambda>l. batch_hash (Some l) ''leafHash'') leaves) (\<lambda>leafHashes.
     and_then (sdk_call (sdk_merkleRoot sdk leafHashes)) (\<lambda>r.
     if r \<noteq> js ''0x'' @ root then Inl (BatchInvalid ''rootHash'') else
     and_then (block_range ps) (\<lambda>range.
     and_then (stated_genesis ps) (\<lambda>stated.
     if 1 < length (js_unique stated) then Inl (BatchInvalid ''genesis'') else
     and_then (network_id ps) (\<lambda>network.
     and_then (optional_hash ''manifestHash'' ps) (\<lambda>manifestDigest.
       try_genesis sdk key manifestDigest
         \<lparr>bm_cardano_network_id = network, bm_count = length leaves, bm_from_block = fst range,
          bm_materios_chain_id = [], bm_root = root, bm_to_block = snd range\<rparr>
         (if stated \<noteq> [] then take 1 stated else GENESIS))))))))))"

section \<open>Cardano claims\<close>

record cardano_claim =
  cc_network :: jsstring
  cc_tx :: jsstring
  cc_submitted_at :: "jsstring option"

definition cardano_network :: "json option \<Rightarrow> jsstring option" where
  "cardano_network v =
     (case v of Some (JStr s) \<Rightarrow> if s = js ''mainnet'' \<or> s = js ''preprod'' then Some s else None | _ \<Rightarrow> None)"

definition claim_time :: "(jsstring \<Rightarrow> bool) \<Rightarrow> json option \<Rightarrow> jsstring option" where
  "claim_time date_ok v =
     (case v of Some (JStr s) \<Rightarrow> if length s \<le> 64 \<and> date_ok s then Some s else None | _ \<Rightarrow> None)"

definition CLAIM_FIELDS :: "jsstring list" where
  "CLAIM_FIELDS = [js ''cardanoNetwork'', js ''cardanoTxHash'', js ''cardanoSubmittedAt'']"

definition parseCardanoClaim :: "(jsstring \<Rightarrow> bool) \<Rightarrow> js_text \<Rightarrow> json \<Rightarrow> batch_error + cardano_claim" where
  "parseCardanoClaim date_ok T value =
     (case value of
        JObj ps \<Rightarrow>
          if 1024 < json_bytes T value then Inl (BatchCapacity ''claim'')
          else if \<not> set (map fst ps) \<subseteq> set CLAIM_FIELDS then Inl (BatchInvalid ''unknown fields'')
          else (case cardano_network (get_prop (js ''cardanoNetwork'') ps) of
                  None \<Rightarrow> Inl (BatchInvalid ''network'')
                | Some network \<Rightarrow>
                    let submitted = get_prop (js ''cardanoSubmittedAt'') ps
                    in if submitted \<noteq> None \<and> claim_time date_ok submitted = None then Inl (BatchInvalid ''submission time'')
                       else and_then (batch_hash (get_prop (js ''cardanoTxHash'') ps) ''Cardano transaction'') (\<lambda>tx.
                         Inr \<lparr>cc_network = network, cc_tx = tx, cc_submitted_at = claim_time date_ok submitted\<rparr>))
      | _ \<Rightarrow> Inl (BatchInvalid ''claim''))"

text \<open>A candidate that is a claim; anything else is passed over.\<close>

definition candidate_claim :: "(jsstring \<Rightarrow> bool) \<Rightarrow> json \<Rightarrow> cardano_claim option" where
  "candidate_claim date_ok v =
     (case v of
        JObj ps \<Rightarrow>
          (case (cardano_network (get_prop (js ''cardanoNetwork'') ps), batch_hash (get_prop (js ''cardanoTxHash'') ps) []) of
             (Some network, Inr tx) \<Rightarrow>
               Some \<lparr>cc_network = network, cc_tx = tx,
                     cc_submitted_at = claim_time date_ok (get_prop (js ''cardanoSubmittedAt'') ps)\<rparr>
           | _ \<Rightarrow> None)
      | _ \<Rightarrow> None)"

definition claim_key :: "cardano_claim \<Rightarrow> jsstring \<times> jsstring" where
  "claim_key c = (cc_network c, cc_tx c)"

text \<open>The first claim of a network and transaction stays, in the order they come.\<close>

definition unique_claims :: "cardano_claim list \<Rightarrow> cardano_claim list" where
  "unique_claims cs = fold (\<lambda>c acc. if claim_key c \<in> set (map claim_key acc) then acc else acc @ [c]) cs []"

definition cardanoClaims :: "(jsstring \<Rightarrow> bool) \<Rightarrow> props \<Rightarrow> cardano_claim list" where
  "cardanoClaims date_ok ps =
     unique_claims (List.map_filter (candidate_claim date_ok)
       (JObj ps # (case get_prop (js ''cardanoClaims'') ps of Some (JArr vs) \<Rightarrow> vs | _ \<Rightarrow> [])))"

definition claim_json :: "cardano_claim \<Rightarrow> json" where
  "claim_json c = JObj ([(js ''cardanoNetwork'', JStr (cc_network c)), (js ''cardanoTxHash'', JStr (cc_tx c))]
     @ (case cc_submitted_at c of None \<Rightarrow> [] | Some t \<Rightarrow> [(js ''cardanoSubmittedAt'', JStr t)]))"

section \<open>Merging\<close>

text \<open>\<open>{ ...a, ...b }\<close>\<close>

definition spread :: "props \<Rightarrow> props \<Rightarrow> props" where
  "spread a b = fold (\<lambda>(k, v) acc. put_prop k v acc) b a"

definition field_set :: "json option \<Rightarrow> bool" where
  "field_set v \<longleftrightarrow> v \<noteq> None \<and> v \<noteq> Some JNull \<and> v \<noteq> Some (JStr [])"

definition keep_field :: "props \<Rightarrow> jsstring \<Rightarrow> props \<Rightarrow> props" where
  "keep_field previous k merged =
     (case get_prop k previous of
        Some v \<Rightarrow> if field_set (Some v) then put_prop k v merged else merged
      | None \<Rightarrow> merged)"

definition mergeBatch ::
  "(jsstring \<Rightarrow> bool) \<Rightarrow> js_text \<Rightarrow> props option \<Rightarrow> props \<Rightarrow> batch_error + props" where
  "mergeBatch date_ok T previous incoming =
     (let old = (case previous of None \<Rightarrow> [] | Some ps \<Rightarrow> ps);
          merged = fold (keep_field old) CLAIM_FIELDS (spread old incoming);
          claims = cardanoClaims date_ok [(js ''cardanoClaims'',
            JArr (map claim_json (cardanoClaims date_ok old @ cardanoClaims date_ok incoming)))]
      in if 32 < length claims then Inl (BatchCapacity ''claims'')
         else let merged' = (if claims \<noteq> [] then put_prop (js ''cardanoClaims'') (JArr (map claim_json claims)) merged
                             else merged)
              in if BATCH_BYTE_BUDGET < json_bytes T (JObj merged') then Inl (BatchCapacity ''batch'')
                 else Inr merged')"

section \<open>Properties of records\<close>

lemma map_of_insert_prop: "k \<notin> fst ` set ps \<Longrightarrow> map_of (insert_prop k v ps) j = (if j = k then Some v else map_of ps j)"
  by (induction ps) (auto split: option.split)

lemma map_of_replace:
  "map_of (map (\<lambda>(k', v'). (k', if k' = k then v else v')) ps) j
    = (if j = k then map_option (\<lambda>_. v) (map_of ps j) else map_of ps j)"
  by (cases "j = k"; induction ps) auto

lemma get_put_prop [simp]: "get_prop j (put_prop k v ps) = (if j = k then Some v else get_prop j ps)"
proof (cases "map_of ps k")
  case None
  then have "k \<notin> fst ` set ps" by (simp add: map_of_eq_None_iff)
  then show ?thesis by (simp add: get_prop_def put_prop_def map_of_insert_prop)
next
  case (Some w)
  then have "k \<in> fst ` set ps" by (metis map_of_eq_None_iff option.distinct(1))
  then show ?thesis unfolding get_prop_def put_prop_def by (simp add: map_of_replace Some)
qed

definition reparse_props :: "props \<Rightarrow> props" where
  "reparse_props ps = map (\<lambda>(k, v). (k, json_reparse v)) ps"

lemma get_reparse [simp]: "get_prop k (reparse_props ps) = map_option json_reparse (get_prop k ps)"
  by (induction ps) (auto simp: get_prop_def reparse_props_def)

lemma hash_text_strip: "hash_text s \<Longrightarrow> re_any_hex 64 (stripHexPrefix_storage s)"
  using no_hex_prefix [of s] by (auto simp: hash_text_def stripHexPrefix_storage_def re_any_hex_def)

lemma batch_hash_Inr: "batch_hash v f = Inr h \<Longrightarrow> \<exists>s. v = Some (JStr s) \<and> re_lower_hex 64 h"
  by (auto simp: batch_hash_def split: option.splits json.splits if_splits dest: hash_text_strip to_lower_hex)

lemma batch_hash_reparse [simp]: "batch_hash (map_option json_reparse v) f = batch_hash v f"
  "batch_hash (Some (json_reparse w)) f = batch_hash (Some w) f"
proof -
  show "batch_hash (Some (json_reparse w)) f = batch_hash (Some w) f" for w
    by (cases w) (auto simp: batch_hash_def)
  then show "batch_hash (map_option json_reparse v) f = batch_hash v f" by (cases v) auto
qed

lemma safe_int_reparse [simp]: "safe_int (map_option json_reparse v) = safe_int v"
proof -
  have "\<not> f64_finite x \<Longrightarrow> f64_to_int x = None" for x using f64_to_int_SomeD by fastforce
  moreover have "f64_to_int (f64_zero False) = Some 0" using num_to_int [of 0] by (simp add: f64_zero_int)
  ultimately show ?thesis by (auto simp: safe_int_def split: option.splits json.splits)
qed

lemma map_result_comp: "map_result f (map g xs) = map_result (\<lambda>x. f (g x)) xs"
  by (induction xs) auto

lemma optional_hash_reparse [simp]: "optional_hash k (reparse_props ps) = optional_hash k ps"
  by (cases "get_prop (js k) ps") (simp_all add: optional_hash_def)

lemma stated_reparse [simp]: "stated_genesis (reparse_props ps) = stated_genesis ps"
proof -
  have "concat (map (\<lambda>k. case get_prop (js k) (reparse_props ps) of Some v \<Rightarrow> [v] | None \<Rightarrow> []) ks)
      = map json_reparse (concat (map (\<lambda>k. case get_prop (js k) ps of Some v \<Rightarrow> [v] | None \<Rightarrow> []) ks))" for ks
    by (induction ks) (auto split: option.split)
  then show ?thesis unfolding stated_genesis_def by (simp only: map_result_comp batch_hash_reparse)
qed

lemma leaf_list_reparse: "leaf_list ps = Inr ls \<Longrightarrow> leaf_list (reparse_props ps) = Inr (map json_reparse ls)"
  by (auto simp: leaf_list_def split: option.splits json.splits if_splits)

lemma network_reparse: "network_id ps = Inr n \<Longrightarrow> network_id (reparse_props ps) = Inr n"
  by (auto simp: network_id_def split: option.splits json.splits)

text \<open>What an accepted record satisfies.\<close>

lemma validate_Inr:
  assumes "validateBatch sdk key ps = Inr ()"
  obtains a root leaves leafHashes s e stated network md where
    "optional_hash ''anchorId'' ps = Inr a" "a = None \<or> a = Some key"
    "batch_hash (get_prop (js ''rootHash'') ps) ''rootHash'' = Inr root" "leaf_list ps = Inr leaves"
    "map_result (\<lambda>l. batch_hash (Some l) ''leafHash'') leaves = Inr leafHashes"
    "sdk_merkleRoot sdk leafHashes = Some (js ''0x'' @ root)" "block_range ps = Inr (s, e)"
    "stated_genesis ps = Inr stated" "length (js_unique stated) \<le> 1" "network_id ps = Inr network"
    "optional_hash ''manifestHash'' ps = Inr md"
    "try_genesis sdk key md \<lparr>bm_cardano_network_id = network, bm_count = length leaves, bm_from_block = s,
       bm_materios_chain_id = [], bm_root = root, bm_to_block = e\<rparr> (if stated \<noteq> [] then take 1 stated else GENESIS) = Inr ()"
proof -
  have call: "sdk_call v = Inr x \<longleftrightarrow> v = Some x" for v :: "'x option" and x by (cases v) (auto simp: sdk_call_def)
  obtain a root leaves leafHashes r range stated network md where
    "optional_hash ''anchorId'' ps = Inr a" "a = None \<or> a = Some key"
    "batch_hash (get_prop (js ''rootHash'') ps) ''rootHash'' = Inr root" "leaf_list ps = Inr leaves"
    "map_result (\<lambda>l. batch_hash (Some l) ''leafHash'') leaves = Inr leafHashes"
    "sdk_call (sdk_merkleRoot sdk leafHashes) = Inr r" "r = js ''0x'' @ root" "block_range ps = Inr range"
    "stated_genesis ps = Inr stated" "length (js_unique stated) \<le> 1" "network_id ps = Inr network"
    "optional_hash ''manifestHash'' ps = Inr md"
    "try_genesis sdk key md \<lparr>bm_cardano_network_id = network, bm_count = length leaves, bm_from_block = fst range,
       bm_materios_chain_id = [], bm_root = root, bm_to_block = snd range\<rparr> (if stated \<noteq> [] then take 1 stated else GENESIS) = Inr ()"
    using assms by (force simp: validateBatch_def and_then_Inr_iff not_less split: if_splits)
  then show thesis by (intro that [of a root leaves leafHashes "fst range" "snd range" stated network md]) (simp_all add: call)
qed

lemma validate_reparse:
  assumes "validateBatch sdk key ps = Inr ()"
  shows "validateBatch sdk key (reparse_props ps) = Inr ()"
proof -
  have "block_range (reparse_props ps) = block_range ps" by (simp add: block_range_def)
  with assms show ?thesis
    by (elim validate_Inr)
      (auto simp: validateBatch_def map_result_comp sdk_call_def leaf_list_reparse network_reparse)
qed

section \<open>Claims of a record\<close>

definition valid_claim :: "(jsstring \<Rightarrow> bool) \<Rightarrow> cardano_claim \<Rightarrow> bool" where
  "valid_claim date_ok c \<longleftrightarrow> cc_network c \<in> {js ''mainnet'', js ''preprod''} \<and> re_lower_hex 64 (cc_tx c)
     \<and> (case cc_submitted_at c of None \<Rightarrow> True | Some t \<Rightarrow> length t \<le> 64 \<and> date_ok t)"

lemma candidate_valid: "candidate_claim date_ok v = Some c \<Longrightarrow> valid_claim date_ok c"
  by (auto simp: candidate_claim_def valid_claim_def cardano_network_def claim_time_def dest: batch_hash_Inr
      split: json.splits option.splits sum.splits if_splits)

lemma candidate_claim_json: "valid_claim date_ok c \<Longrightarrow> candidate_claim date_ok (claim_json c) = Some c"
proof -
  assume v: "valid_claim date_ok c"
  have h: "batch_hash (Some (JStr (cc_tx c))) f = Inr (cc_tx c)" for f
    using v no_hex_prefix [OF lower_hex_any, of "cc_tx c"] re_lower_hex_any [of 64 "cc_tx c"]
    by (auto simp: valid_claim_def batch_hash_def hash_text_def stripHexPrefix_storage_def to_lower_hex_id re_lower_hex_def)
  obtain n t a where c: "c = \<lparr>cc_network = n, cc_tx = t, cc_submitted_at = a\<rparr>" by (cases c) 
  show ?thesis
    using v h by (cases a) (auto simp: c candidate_claim_def claim_json_def get_prop_def cardano_network_def
        claim_time_def valid_claim_def js_eq_iff)
qed

lemma unique_claims_keys:
  "set (map claim_key (unique_claims cs)) = set (map claim_key cs) \<and> distinct (map claim_key (unique_claims cs))
   \<and> set (unique_claims cs) \<subseteq> set cs"
proof (induction cs rule: rev_induct)
  case (snoc c cs)
  have "unique_claims (cs @ [c]) = (if claim_key c \<in> set (map claim_key (unique_claims cs)) then unique_claims cs else unique_claims cs @ [c])"
    by (simp add: unique_claims_def)
  then show ?case using snoc by auto
qed (simp add: unique_claims_def)

lemma try_genesis_Inr:
  "try_genesis sdk key md m gs = Inr () \<Longrightarrow> \<exists>g \<in> set gs. \<exists>digest. sdk_manifestHash sdk (m\<lparr>bm_materios_chain_id := g\<rparr>) = Some digest
     \<and> (md = None \<or> (\<exists>d. md = Some d \<and> digest = js ''0x'' @ d)) \<and> sdk_anchorId sdk (bm_root m) digest = Some (js ''0x'' @ key)"
proof (induction gs)
  case (Cons g gs)
  then show ?case
    by (auto simp: sdk_call_def and_then_Inr_iff split: option.splits if_splits)
qed simp

text \<open>
  What it means for a record to belong under a key: its leaves derive its root, and its root with
  the manifest of its own count, block range and genesis derives the key.
\<close>

definition anchored_record :: "batch_sdk \<Rightarrow> jsstring \<Rightarrow> props \<Rightarrow> bool" where
  "anchored_record sdk key ps \<longleftrightarrow>
     (\<exists>leaves hashes root s e network genesis digest.
        get_prop (js ''leafHashes'') ps = Some (JArr leaves) \<and> 1 \<le> length leaves \<and> length leaves \<le> 4096
        \<and> map_result (\<lambda>l. batch_hash (Some l) ''leafHash'') leaves = Inr hashes
        \<and> batch_hash (get_prop (js ''rootHash'') ps) ''rootHash'' = Inr root
        \<and> sdk_merkleRoot sdk hashes = Some (js ''0x'' @ root)
        \<and> safe_int (get_prop (js ''blockRangeStart'') ps) = Some s \<and> safe_int (get_prop (js ''blockRangeEnd'') ps) = Some e
        \<and> 0 \<le> s \<and> s \<le> e \<and> network_id ps = Inr network
        \<and> (stated_genesis ps = Inr [] \<and> genesis \<in> set GENESIS \<or> (\<exists>gs. stated_genesis ps = Inr gs \<and> set gs = {genesis}))
        \<and> sdk_manifestHash sdk \<lparr>bm_cardano_network_id = network, bm_count = length leaves, bm_from_block = s,
             bm_materios_chain_id = genesis, bm_root = root, bm_to_block = e\<rparr> = Some digest
        \<and> sdk_anchorId sdk root digest = Some (js ''0x'' @ key))"

lemma js_unique_one: "length (js_unique xs) \<le> 1 \<Longrightarrow> xs \<noteq> [] \<Longrightarrow> set xs = {hd xs}"
proof -
  assume a: "length (js_unique xs) \<le> 1" "xs \<noteq> []"
  have "card (set xs) \<le> 1" using a(1) by (metis card_length le_trans set_js_unique)
  moreover have "hd xs \<in> set xs" using a(2) by simp
  ultimately show "set xs = {hd xs}"
    by (metis List.finite_set card_le_Suc0_iff_eq One_nat_def empty_iff insert_iff subsetI subset_antisym)
qed

lemma validate_anchored: "validateBatch sdk key ps = Inr () \<Longrightarrow> anchored_record sdk key ps"
proof (elim validate_Inr)
  fix a root leaves hashes s e stated network md
  assume v: "batch_hash (get_prop (js ''rootHash'') ps) ''rootHash'' = Inr root" "leaf_list ps = Inr leaves"
    "map_result (\<lambda>l. batch_hash (Some l) ''leafHash'') leaves = Inr hashes"
    "sdk_merkleRoot sdk hashes = Some (js ''0x'' @ root)" "block_range ps = Inr (s, e)"
    "stated_genesis ps = Inr stated" "length (js_unique stated) \<le> 1" "network_id ps = Inr network"
    "try_genesis sdk key md \<lparr>bm_cardano_network_id = network, bm_count = length leaves, bm_from_block = s,
       bm_materios_chain_id = [], bm_root = root, bm_to_block = e\<rparr> (if stated \<noteq> [] then take 1 stated else GENESIS) = Inr ()"
  obtain g digest where g: "g \<in> set (if stated \<noteq> [] then take 1 stated else GENESIS)"
    "sdk_manifestHash sdk \<lparr>bm_cardano_network_id = network, bm_count = length leaves, bm_from_block = s,
             bm_materios_chain_id = g, bm_root = root, bm_to_block = e\<rparr> = Some digest"
    "sdk_anchorId sdk root digest = Some (js ''0x'' @ key)"
    using try_genesis_Inr [OF v(9)] by auto
  have gen: "stated_genesis ps = Inr [] \<and> g \<in> set GENESIS \<or> (\<exists>gs. stated_genesis ps = Inr gs \<and> set gs = {g})"
  proof (cases stated)
    case Nil
    then show ?thesis using g(1) v(6) by simp
  next
    case (Cons x xs)
    then have "set stated = {g}" using js_unique_one [OF v(7)] g(1) by simp
    then show ?thesis using v(6) by blast
  qed
  have l: "get_prop (js ''leafHashes'') ps = Some (JArr leaves)" "1 \<le> length leaves" "length leaves \<le> 4096"
    using v(2) by (auto simp: leaf_list_def split: option.splits json.splits if_splits)
  have r: "safe_int (get_prop (js ''blockRangeStart'') ps) = Some s" "safe_int (get_prop (js ''blockRangeEnd'') ps) = Some e"
    "0 \<le> s" "s \<le> e"
    using v(5) by (auto simp: block_range_def split: option.splits if_splits)
  show "anchored_record sdk key ps"
    unfolding anchored_record_def
    by (rule exI [of _ leaves], rule exI [of _ hashes], rule exI [of _ root], rule exI [of _ s], rule exI [of _ e],
        rule exI [of _ network], rule exI [of _ g], rule exI [of _ digest])
      (intro conjI; fact)
qed

section \<open>Claims after a merge\<close>

lemma in_map_filter: "y \<in> set (List.map_filter f xs) \<longleftrightarrow> (\<exists>x \<in> set xs. f x = Some y)"
  by (induction xs) (auto simp: List.map_filter_simps split: option.split)

lemma cardano_claims_valid: "c \<in> set (cardanoClaims date_ok ps) \<Longrightarrow> valid_claim date_ok c"
proof -
  assume "c \<in> set (cardanoClaims date_ok ps)"
  then obtain vs where "c \<in> set (List.map_filter (candidate_claim date_ok) vs)"
    using unique_claims_keys unfolding cardanoClaims_def by blast
  then show ?thesis unfolding in_map_filter using candidate_valid by blast
qed

lemma claims_of_list:
  assumes "\<forall>c \<in> set cs. valid_claim date_ok c"
  shows "cardanoClaims date_ok [(js ''cardanoClaims'', JArr (map claim_json cs))] = unique_claims cs"
proof -
  have "List.map_filter (candidate_claim date_ok) (map claim_json cs) = cs"
    using assms candidate_claim_json by (induction cs) (auto simp: List.map_filter_simps)
  moreover have "candidate_claim date_ok (JObj [(js ''cardanoClaims'', v)]) = None" for v
    by (simp add: candidate_claim_def get_prop_def cardano_network_def js_eq_iff)
  ultimately show ?thesis by (simp add: cardanoClaims_def get_prop_def List.map_filter_simps)
qed

definition claim_keys :: "(jsstring \<Rightarrow> bool) \<Rightarrow> props \<Rightarrow> (jsstring \<times> jsstring) set" where
  "claim_keys date_ok ps = claim_key ` set (cardanoClaims date_ok ps)"

lemma merge_fields:
  assumes "mergeBatch date_ok T previous incoming = Inr m"
  defines "old \<equiv> case previous of None \<Rightarrow> [] | Some ps \<Rightarrow> ps"
  shows "f \<in> set CLAIM_FIELDS \<Longrightarrow> field_set (get_prop f old) \<Longrightarrow> get_prop f m = get_prop f old"
    and "claim_keys date_ok old \<union> claim_keys date_ok incoming \<subseteq> claim_keys date_ok m"
    and "json_bytes T (JObj m) \<le> BATCH_BYTE_BUDGET"
proof -
  let ?cs = "cardanoClaims date_ok old @ cardanoClaims date_ok incoming"
  have valid: "\<forall>c \<in> set ?cs. valid_claim date_ok c" using cardano_claims_valid by auto
  let ?claims = "unique_claims ?cs" and ?merged = "fold (keep_field old) CLAIM_FIELDS (spread old incoming)"
  have m: "m = (if ?claims \<noteq> [] then put_prop (js ''cardanoClaims'') (JArr (map claim_json ?claims)) ?merged else ?merged)"
    "json_bytes T (JObj m) \<le> BATCH_BYTE_BUDGET"
    using assms(1) unfolding mergeBatch_def old_def [symmetric] Let_def claims_of_list [OF valid] by (auto split: if_splits)
  show "json_bytes T (JObj m) \<le> BATCH_BYTE_BUDGET" by (rule m(2))
  have kept: "get_prop f (fold (keep_field old) fs b) = get_prop f old" if "f \<in> set fs" "field_set (get_prop f old)" for f fs b
  proof -
    obtain v where v: "get_prop f old = Some v" using \<open>field_set (get_prop f old)\<close> by (auto simp: field_set_def)
    have once: "get_prop f (fold (keep_field old) fs b) = get_prop f old" if "get_prop f b = get_prop f old" for fs b
      using that by (induction fs arbitrary: b) (simp_all add: keep_field_def split: option.split)
    have hit: "get_prop f (keep_field old f b) = get_prop f old" for b
      using v \<open>field_set (get_prop f old)\<close> by (simp add: keep_field_def)
    show ?thesis using \<open>f \<in> set fs\<close>
    proof (induction fs arbitrary: b)
      case (Cons k fs)
      then show ?case using once [OF hit] by (cases "k = f") auto
    qed simp
  qed
  show "f \<in> set CLAIM_FIELDS \<Longrightarrow> field_set (get_prop f old) \<Longrightarrow> get_prop f m = get_prop f old"
  proof -
    assume f: "f \<in> set CLAIM_FIELDS" "field_set (get_prop f old)"
    then have "f \<noteq> js ''cardanoClaims''" by (auto simp: CLAIM_FIELDS_def js_eq_iff)
    then show ?thesis using kept [OF f] by (simp add: m(1))
  qed
  have keys: "claim_keys date_ok old \<union> claim_keys date_ok incoming = claim_key ` set ?claims"
    using unique_claims_keys [of ?cs] by (simp add: claim_keys_def image_Un)
  show "claim_keys date_ok old \<union> claim_keys date_ok incoming \<subseteq> claim_keys date_ok m"
  proof (cases "?claims = []")
    case True
    then show ?thesis using keys by simp
  next
    case False
    then have "get_prop (js ''cardanoClaims'') m = Some (JArr (map claim_json ?claims))" by (simp add: m(1))
    then have "cardanoClaims date_ok m = unique_claims (List.map_filter (candidate_claim date_ok) (JObj m # map claim_json ?claims))"
      by (simp add: cardanoClaims_def)
    moreover have "List.map_filter (candidate_claim date_ok) (map claim_json cs) = cs" if "\<forall>c \<in> set cs. valid_claim date_ok c" for cs
      using that candidate_claim_json by (induction cs) (auto simp: List.map_filter_simps)
    moreover have "\<forall>c \<in> set ?claims. valid_claim date_ok c" using unique_claims_keys [of ?cs] valid by blast
    ultimately have "set ?claims \<subseteq> set (List.map_filter (candidate_claim date_ok) (JObj m # map claim_json ?claims))"
      by (auto simp: List.map_filter_simps split: option.split)
    moreover have "claim_keys date_ok m = claim_key ` set (List.map_filter (candidate_claim date_ok) (JObj m # map claim_json ?claims))"
      using unique_claims_keys by (simp add: claim_keys_def cardanoClaims_def \<open>get_prop (js ''cardanoClaims'') m = _\<close>)
    ultimately show ?thesis unfolding keys by blast
  qed
qed

lemma claim_keys_reparse [simp]: "claim_keys date_ok (reparse_props ps) = claim_keys date_ok ps"
proof -
  have net: "cardano_network (map_option json_reparse v) = cardano_network v" for v
    by (cases v; cases "the v") (auto simp: cardano_network_def)
  have time: "claim_time date_ok (map_option json_reparse v) = claim_time date_ok v" for v
    by (cases v; cases "the v") (auto simp: claim_time_def)
  have "candidate_claim date_ok (JObj (reparse_props qs)) = candidate_claim date_ok (JObj qs)" for qs
    by (simp add: candidate_claim_def net time cong: option.case_cong sum.case_cong)
  then have c: "candidate_claim date_ok (json_reparse v) = candidate_claim date_ok v" for v
    by (cases v) (auto simp: candidate_claim_def reparse_props_def)
  have "List.map_filter (candidate_claim date_ok) (map json_reparse vs) = List.map_filter (candidate_claim date_ok) vs" for vs
    by (induction vs) (simp_all add: List.map_filter_simps c split: option.split)
  then show ?thesis
    using c [of "JObj ps"]
    by (auto simp: claim_keys_def cardanoClaims_def List.map_filter_simps reparse_props_def [symmetric] split: option.splits json.splits)
qed

end
