(* ===== verification/BatchStore.thy ===== *)
theory BatchStore
  imports BatchRecord BlobRoutes TextOrder
begin

text \<open>
  The store of batch records (\<open>storage.ts\<close>, from \<open>legacyBatch\<close> to \<open>getBatch\<close>) and its routes
  (\<open>routes/batches.ts\<close>).  A database transaction is one step; file operations succeed.  A
  read-only database that does not exist yet reads as empty.
\<close>

section \<open>State\<close>

text \<open>
  A batch file is known by its name without the extension; its content is what \<open>JSON.parse\<close>
  makes of it, \<open>None\<close> for text that is not JSON.
\<close>

record batch_file =
  bf_size :: nat
  bf_json :: "json option"

record batch_state =
  bt_files :: "(jsstring \<times> batch_file) list"
  bt_legacy :: "(jsstring \<times> jsstring) list"
  bt_leaves :: "(jsstring \<times> jsstring) list"
  bt_claims :: "(jsstring \<times> cardano_claim) list"
  bt_leaf_index :: "(jsstring \<times> jsstring) list"
  bt_preferred :: "(jsstring \<times> (jsstring \<times> cardano_claim)) list"

definition file_id :: "jsstring \<Rightarrow> batch_error + jsstring" where
  "file_id v = (case hexId v of Inl _ \<Rightarrow> Inl BatchFailed | Inr d \<Rightarrow> Inr d)"

definition batch_key :: "jsstring \<Rightarrow> batch_error + jsstring" where
  "batch_key v = and_then (file_id v) (\<lambda>d. Inr (to_lower d))"

section \<open>Reading and writing records\<close>

text \<open>\<open>mapped\<close> is the table \<open>legacy_batch_files\<close>, empty when no database is passed.\<close>

definition legacyBatch ::
  "(jsstring \<times> jsstring) list \<Rightarrow> (jsstring \<times> batch_file) list \<Rightarrow> jsstring \<Rightarrow> batch_error + props option" where
  "legacyBatch mapped files anchorId =
     (let canonical = to_lower (stripHexPrefix_storage anchorId);
          name = (if canonical \<in> fst ` set files then canonical
                  else (case map_of mapped canonical of Some f \<Rightarrow> f | None \<Rightarrow> anchorId))
      in and_then (file_id name) (\<lambda>d.
         case map_of files d of
           None \<Rightarrow> Inr None
         | Some f \<Rightarrow>
             if BATCH_BYTE_BUDGET < bf_size f then Inl (BatchCapacity ''historical'')
             else (case bf_json f of
                     None \<Rightarrow> Inl BatchFailed
                   | Some (JObj ps) \<Rightarrow> Inr (Some ps)
                   | Some _ \<Rightarrow> Inr None)))"

definition batch_leaf :: "json \<Rightarrow> jsstring option" where
  "batch_leaf v =
     (case v of
        JStr s \<Rightarrow> (let clean = to_lower (stripHexPrefix_storage s) in if re_lower_hex 64 clean then Some clean else None)
      | _ \<Rightarrow> None)"

definition record_leaves :: "props \<Rightarrow> jsstring list" where
  "record_leaves ps =
     (case get_prop (js ''leafHashes'') ps of Some (JArr vs) \<Rightarrow> List.map_filter batch_leaf vs | _ \<Rightarrow> [])"

definition indexBatchLeaves :: "jsstring \<Rightarrow> props \<Rightarrow> (jsstring \<times> jsstring) list \<Rightarrow> (jsstring \<times> jsstring) list" where
  "indexBatchLeaves key ps t = fold (\<lambda>l. sql_insert_or_ignore (\<lambda>r. r) (l, key)) (record_leaves ps) t"

definition saveBatch ::
  "batch_sdk \<Rightarrow> (jsstring \<Rightarrow> bool) \<Rightarrow> js_text \<Rightarrow> jsstring \<Rightarrow> json \<Rightarrow> batch_state \<Rightarrow> batch_error + batch_state" where
  "saveBatch sdk date_ok T anchorId metadata s =
     and_then (batch_key anchorId) (\<lambda>key.
     case metadata of
       JObj incoming \<Rightarrow>
         and_then (legacyBatch (bt_legacy s) (bt_files s) anchorId) (\<lambda>previous.
         and_then (mergeBatch date_ok T previous incoming) (\<lambda>merged.
         and_then (validateBatch sdk key merged) (\<lambda>_.
           Inr (s\<lparr>bt_files := AList.update key \<lparr>bf_size = json_bytes T (JObj merged),
                    bf_json = Some (JObj (reparse_props merged))\<rparr> (bt_files s),
                  bt_legacy := AList.update key key (bt_legacy s),
                  bt_leaves := indexBatchLeaves key merged (bt_leaves s)\<rparr>))))
     | _ \<Rightarrow> Inl (BatchInvalid ''metadata''))"

text \<open>One file of the backfill, \<open>names\<close> being the directory listing.\<close>

definition index_file :: "jsstring list \<Rightarrow> jsstring \<Rightarrow> batch_state \<times> nat \<times> nat \<times> nat \<Rightarrow> batch_state \<times> nat \<times> nat \<times> nat" where
  "index_file names name = (\<lambda>(s, batches, leaves, skipped).
     if \<not> re_any_hex 64 name then (s, batches, leaves, skipped)
     else let key = to_lower name
          in if name \<noteq> key \<and> key \<in> set names then (s, batches, leaves, skipped)
             else (case legacyBatch [] (bt_files s) name of
                     Inl _ \<Rightarrow> (s, batches, leaves, skipped + 1)
                   | Inr None \<Rightarrow> (s, batches, leaves, skipped + 1)
                   | Inr (Some ps) \<Rightarrow>
                       (s\<lparr>bt_legacy := AList.update key name (bt_legacy s),
                          bt_leaves := indexBatchLeaves key ps (bt_leaves s)\<rparr>,
                        batches + 1, leaves + length (record_leaves ps), skipped)))"

definition indexExistingBatches :: "batch_state \<Rightarrow> batch_state \<times> nat \<times> nat \<times> nat" where
  "indexExistingBatches s = (let names = map fst (bt_files s) in fold (index_file names) names (s, 0, 0, 0))"

section \<open>Claims\<close>

definition claim_row_key :: "jsstring \<times> cardano_claim \<Rightarrow> jsstring \<times> jsstring \<times> jsstring" where
  "claim_row_key r = (fst r, claim_key (snd r))"

definition saveCardanoClaim ::
  "batch_sdk \<Rightarrow> (jsstring \<Rightarrow> bool) \<Rightarrow> js_text \<Rightarrow> jsstring \<Rightarrow> json \<Rightarrow> batch_state \<Rightarrow> batch_error + batch_state" where
  "saveCardanoClaim sdk date_ok T anchorId value s =
     and_then (batch_key anchorId) (\<lambda>key.
     and_then (parseCardanoClaim date_ok T value) (\<lambda>claim.
     and_then (legacyBatch (bt_legacy s) (bt_files s) key) (\<lambda>record.
     case record of
       None \<Rightarrow> Inl BatchNotFound
     | Some ps \<Rightarrow>
         and_then (validateBatch sdk key ps) (\<lambda>_.
           Inr (s\<lparr>bt_claims := sql_insert_or_ignore claim_row_key (key, claim) (bt_claims s)\<rparr>)))))"

text \<open>\<open>/^(mainnet|preprod):[0-9a-f]{64}$/\<close>, and the pieces at the colon.\<close>

definition CLAIM_CURSOR :: "jsstring \<Rightarrow> bool" where
  "CLAIM_CURSOR c \<longleftrightarrow> (starts_with c (js ''mainnet:'') \<or> starts_with c (js ''preprod:'')) \<and> re_lower_hex 64 (drop 8 c)"

definition cursor_parts :: "jsstring \<Rightarrow> jsstring \<times> jsstring" where
  "cursor_parts c = (takeWhile (\<lambda>u. u \<noteq> 0x3A) c, takeWhile (\<lambda>u. u \<noteq> 0x3A) (drop 1 (dropWhile (\<lambda>u. u \<noteq> 0x3A) c)))"

definition claim_id :: "cardano_claim \<Rightarrow> jsstring" where
  "claim_id c = cc_network c @ 0x3A # cc_tx c"

definition cmp_claim_sql :: "jsstring \<times> jsstring \<Rightarrow> jsstring \<times> jsstring \<Rightarrow> int" where
  "cmp_claim_sql = cmp_then (\<lambda>a b. cmp_text (fst a) (fst b)) (\<lambda>a b. cmp_text (snd a) (snd b))"

definition cmp_claim_id :: "cardano_claim \<Rightarrow> cardano_claim \<Rightarrow> int" where
  "cmp_claim_id a b = cmp_units (claim_id a) (claim_id b)"

text \<open>A stored row is read back through the parser; a row that does not parse is a storage error.\<close>

definition stored_claim :: "(jsstring \<Rightarrow> bool) \<Rightarrow> js_text \<Rightarrow> cardano_claim \<Rightarrow> batch_error + cardano_claim" where
  "stored_claim date_ok T c =
     (if \<not> re_lower_hex 64 (cc_tx c) then Inl BatchFailed
      else (case parseCardanoClaim date_ok T (claim_json c) of Inl _ \<Rightarrow> Inl BatchFailed | Inr c' \<Rightarrow> Inr c'))"

definition first_by_id :: "jsstring \<Rightarrow> cardano_claim list \<Rightarrow> cardano_claim list" where
  "first_by_id cursor cs =
     fold (\<lambda>c acc. if 0 < cmp_units (claim_id c) cursor \<and> claim_id c \<notin> set (map claim_id acc) then acc @ [c] else acc) cs []"

definition getCardanoClaims ::
  "(jsstring \<Rightarrow> bool) \<Rightarrow> js_text \<Rightarrow> jsstring \<Rightarrow> jsstring \<Rightarrow> int \<Rightarrow> batch_state
   \<Rightarrow> batch_error + cardano_claim list \<times> jsstring option" where
  "getCardanoClaims date_ok T anchorId cursor want s =
     and_then (batch_key anchorId) (\<lambda>key.
     if cursor \<noteq> [] \<and> \<not> CLAIM_CURSOR cursor then Inl (BatchInvalid ''cursor'')
     else if want < 1 \<or> 64 < want then Inl (BatchInvalid ''limit'')
     else and_then (legacyBatch (bt_legacy s) (bt_files s) key) (\<lambda>record.
       case record of
         None \<Rightarrow> Inl BatchNotFound
       | Some ps \<Rightarrow>
           let n = nat want;
               rows = take (n + 1) (js_sort (\<lambda>a b. cmp_claim_sql (claim_key a) (claim_key b))
                 (map snd (filter (\<lambda>r. fst r = key \<and> 0 < cmp_claim_sql (claim_key (snd r)) (cursor_parts cursor)) (bt_claims s))))
           in and_then (map_result (stored_claim date_ok T) rows) (\<lambda>stored.
             let sorted = js_sort cmp_claim_id (first_by_id cursor (stored @ cardanoClaims date_ok ps))
             in Inr (take n sorted, if n < length sorted then Some (claim_id (sorted ! (n - 1))) else None))))"

definition preferredCardanoClaim :: "jsstring \<Rightarrow> batch_state \<Rightarrow> batch_error + (jsstring \<times> cardano_claim) option" where
  "preferredCardanoClaim leafHash s = and_then (batch_key leafHash) (\<lambda>leaf. Inr (map_of (bt_preferred s) leaf))"

definition savePreferredCardanoClaim ::
  "(jsstring \<Rightarrow> bool) \<Rightarrow> js_text \<Rightarrow> jsstring \<Rightarrow> jsstring \<Rightarrow> json \<Rightarrow> batch_state \<Rightarrow> batch_error + batch_state" where
  "savePreferredCardanoClaim date_ok T leafHash anchorId claim s =
     and_then (batch_key leafHash) (\<lambda>leaf.
     and_then (batch_key anchorId) (\<lambda>key.
     and_then (parseCardanoClaim date_ok T claim) (\<lambda>c.
       Inr (s\<lparr>bt_preferred := AList.update leaf (key, c) (bt_preferred s)\<rparr>))))"

section \<open>Batches of a leaf\<close>

definition getBatch :: "jsstring \<Rightarrow> batch_state \<Rightarrow> batch_error + props option" where
  "getBatch anchorId s = and_then (file_id anchorId) (\<lambda>_. legacyBatch (bt_legacy s) (bt_files s) anchorId)"

record candidates_page =
  cp_candidates :: "props list"
  cp_next :: "jsstring option"
  cp_unreadable :: "jsstring list"

definition leaf_candidate :: "jsstring \<Rightarrow> props \<Rightarrow> props" where
  "leaf_candidate batch ps =
     put_prop (js ''cardanoClaimsUrl'') (JStr (js ''/batches/'' @ batch @ js ''/cardano-claims''))
       (put_prop (js ''batchKey'') (JStr batch) (spread [(js ''anchorId'', JStr (js ''0x'' @ batch))] ps))"

text \<open>The leaf is compared with any text of the list, hexadecimal or not.\<close>

definition has_leaf :: "jsstring \<Rightarrow> props \<Rightarrow> bool" where
  "has_leaf leaf ps =
     (case get_prop (js ''leafHashes'') ps of
        Some (JArr vs) \<Rightarrow> list_ex (\<lambda>v. case v of JStr t \<Rightarrow> to_lower (stripHexPrefix_storage t) = leaf | _ \<Rightarrow> False) vs
      | _ \<Rightarrow> False)"

text \<open>The loop over the batches of a page: how many were visited, the last of them, the octets so far.\<close>

fun visit_batches ::
  "js_text \<Rightarrow> batch_state \<Rightarrow> jsstring \<Rightarrow> jsstring list \<Rightarrow> nat \<times> jsstring \<times> nat \<times> props list \<times> jsstring list
   \<Rightarrow> nat \<times> jsstring \<times> nat \<times> props list \<times> jsstring list" where
  "visit_batches T s leaf [] acc = acc"
| "visit_batches T s leaf (b # bs) (visited, last_id, octets, cands, unreadable) =
     (case getBatch b s of
        Inl _ \<Rightarrow> visit_batches T s leaf bs (visited + 1, b, octets, cands, unreadable @ [b])
      | Inr r \<Rightarrow>
          (case r of
             Some ps \<Rightarrow>
               if has_leaf leaf ps
               then let c = leaf_candidate b ps; size = json_bytes T (JObj c)
                    in if cands \<noteq> [] \<and> BATCH_BYTE_BUDGET < octets + size
                       then (visited, last_id, octets, cands, unreadable)
                       else visit_batches T s leaf bs (visited + 1, b, octets + size, cands @ [c], unreadable)
               else visit_batches T s leaf bs (visited + 1, b, octets, cands, unreadable)
           | None \<Rightarrow> visit_batches T s leaf bs (visited + 1, b, octets, cands, unreadable)))"

definition getBatchesByLeaf ::
  "js_text \<Rightarrow> jsstring \<Rightarrow> jsstring option \<Rightarrow> int \<Rightarrow> batch_state \<Rightarrow> batch_error + candidates_page" where
  "getBatchesByLeaf T leafHash cursor want s =
     and_then (batch_key leafHash) (\<lambda>leaf.
     and_then (case cursor of None \<Rightarrow> Inr [] | Some c \<Rightarrow> batch_key c) (\<lambda>cur.
     if want < 1 \<or> 64 < want then Inl (BatchInvalid ''limit'')
     else
       let n = nat want;
           rows = take (n + 1) (js_sort cmp_text
             (map snd (filter (\<lambda>r. fst r = leaf \<and> 0 < cmp_text (snd r) cur) (bt_leaves s))));
           legacy = (case map_of (bt_leaf_index s) leaf of
               None \<Rightarrow> []
             | Some t \<Rightarrow>
                 let v = js_trim t; clean = to_lower (stripHexPrefix_storage v)
                 in if isHexId v \<and> 0 < cmp_units clean cur then [clean] else []);
           ordered = js_sort cmp_units (js_unique (rows @ legacy));
           (visited, last_id, _, cands, unreadable) = visit_batches T s leaf (take n ordered) (0, cur, 0, [], [])
       in Inr \<lparr>cp_candidates = cands, cp_next = (if visited < length ordered then Some last_id else None),
               cp_unreadable = unreadable\<rparr>))"

definition getBatchByLeaf :: "js_text \<Rightarrow> jsstring \<Rightarrow> batch_state \<Rightarrow> batch_error + props option" where
  "getBatchByLeaf T leafHash s =
     and_then (getBatchesByLeaf T leafHash None 64 s) (\<lambda>page.
       Inr (case find (\<lambda>ps. \<exists>t. get_prop (js ''cardanoTxHash'') ps = Some (JStr t)) (cp_candidates page) of
              Some ps \<Rightarrow> Some ps
            | None \<Rightarrow> (case cp_candidates page of [] \<Rightarrow> None | ps # _ \<Rightarrow> Some ps)))"

section \<open>Routes\<close>

record batch_env =
  ba_polkadot :: polkadot
  ba_sr25519 :: sr25519
  ba_upload :: upload_config
  ba_start :: int
  ba_writerKeyHashes :: "jsstring list"
  ba_sdk :: batch_sdk
  ba_date_ok :: "jsstring \<Rightarrow> bool"
  ba_text :: js_text

record batch_server =
  bv_tokens :: "token_db option"
  bv_quota :: quota_db
  bv_batches :: batch_state

datatype batch_reply =
    BadHexId
  | BatchUnauthenticated auth_error
  | SignatureV2Required
  | NotABatchWriter
  | NoMetadata
  | BadPage
  | BatchRefused nat
  | BatchSaved
  | BatchIs props
  | BatchUnknown
  | ClaimsPage "cardano_claim list" "jsstring option"
  | CandidatesPage candidates_page

definition mayWriteBatches :: "batch_env \<Rightarrow> auth_ok \<Rightarrow> bool" where
  "mayWriteBatches E a =
     (if auth_tier a \<in> {RegisteredValidatorTier, SigOnlyTier} then auth_identity a \<in> set (batchWriterAddresses (ba_upload E))
      else if auth_tier a = ApiKeyTier
      then (case auth_keyInfo a of Some ki \<Rightarrow> to_lower (keyHash ki) | None \<Rightarrow> []) \<in> set (ba_writerKeyHashes E)
      else False)"

definition authorizeBatchWrite ::
  "batch_env \<Rightarrow> moment \<Rightarrow> request \<Rightarrow> jsstring \<Rightarrow> batch_server \<Rightarrow> batch_reply option \<times> batch_server" where
  "authorizeBatchWrite E m req anchorId s =
     (let (r, t, q) = resolveAuth (ba_polkadot E) (ba_sr25519 E) (at_funded m) (ba_upload E) (ba_start E)
            (at_auth m) (at_spend m) (at_others m) req (Some anchorId) (bv_tokens s) (bv_quota s)
      in (case r of
            Inl e \<Rightarrow> Some (BatchUnauthenticated e)
          | Inr a \<Rightarrow>
              if auth_tier a \<in> {RegisteredValidatorTier, SigOnlyTier} \<and> auth_sigVersion a \<noteq> Some 2
              then Some SignatureV2Required
              else if \<not> mayWriteBatches E a then Some NotABatchWriter else None,
          s\<lparr>bv_tokens := t, bv_quota := q\<rparr>))"

definition batchError :: "bool \<Rightarrow> batch_error \<Rightarrow> batch_reply" where
  "batchError read e =
     (case e of
        BatchNotFound \<Rightarrow> BatchRefused 404
      | BatchCapacity _ \<Rightarrow> BatchRefused 413
      | BatchInvalid _ \<Rightarrow> BatchRefused (if read then 400 else 422)
      | BatchFailed \<Rightarrow> BatchRefused 500)"

definition upsertBatch ::
  "batch_env \<Rightarrow> moment \<Rightarrow> request \<Rightarrow> jsstring \<Rightarrow> json \<Rightarrow> batch_server \<Rightarrow> batch_reply \<times> batch_server" where
  "upsertBatch E m req anchorId body s =
     (if \<not> isHexId anchorId then (BadHexId, s)
      else let (refused, s') = authorizeBatchWrite E m req anchorId s
           in case refused of
                Some r \<Rightarrow> (r, s')
              | None \<Rightarrow>
                  if \<not> is_plain_object body then (NoMetadata, s')
                  else (case saveBatch (ba_sdk E) (ba_date_ok E) (ba_text E) anchorId body (bv_batches s') of
                          Inl e \<Rightarrow> (batchError False e, s')
                        | Inr b \<Rightarrow> (BatchSaved, s'\<lparr>bv_batches := b\<rparr>)))"

definition postCardanoClaim ::
  "batch_env \<Rightarrow> moment \<Rightarrow> request \<Rightarrow> jsstring \<Rightarrow> json \<Rightarrow> batch_server \<Rightarrow> batch_reply \<times> batch_server" where
  "postCardanoClaim E m req anchorId body s =
     (if \<not> isHexId anchorId then (BadHexId, s)
      else let (refused, s') = authorizeBatchWrite E m req anchorId s
           in case refused of
                Some r \<Rightarrow> (r, s')
              | None \<Rightarrow>
                  (case saveCardanoClaim (ba_sdk E) (ba_date_ok E) (ba_text E) anchorId body (bv_batches s') of
                     Inl e \<Rightarrow> (batchError False e, s')
                   | Inr b \<Rightarrow> (BatchSaved, s'\<lparr>bv_batches := b\<rparr>)))"

text \<open>A page limit of the query: digits, 1 to 64, and 64 when absent.\<close>

definition page_limit :: "js_text \<Rightarrow> jsstring option \<Rightarrow> int option" where
  "page_limit T q =
     (case q of
        None \<Rightarrow> Some 64
      | Some s \<Rightarrow>
          if s = [] \<or> \<not> list_all is_digit_u16 s then None
          else let n = text_number T s
               in if f64_lt n (num 1) \<or> f64_lt (num 64) n then None else Some (f64_int n))"

definition getBatchesByLeafRoute ::
  "batch_env \<Rightarrow> jsstring \<Rightarrow> jsstring option \<Rightarrow> jsstring option \<Rightarrow> batch_server \<Rightarrow> batch_reply" where
  "getBatchesByLeafRoute E leaf cursor want s =
     (if \<not> isHexId leaf then BadHexId
      else if (case cursor of Some c \<Rightarrow> \<not> hash_text c | None \<Rightarrow> False) then BadPage
      else case page_limit (ba_text E) want of
             None \<Rightarrow> BadPage
           | Some n \<Rightarrow>
               (case getBatchesByLeaf (ba_text E) leaf cursor n (bv_batches s) of
                  Inl _ \<Rightarrow> BatchRefused 500
                | Inr page \<Rightarrow> CandidatesPage page))"

definition getCardanoClaimsRoute ::
  "batch_env \<Rightarrow> jsstring \<Rightarrow> jsstring option \<Rightarrow> jsstring option \<Rightarrow> batch_server \<Rightarrow> batch_reply" where
  "getCardanoClaimsRoute E anchorId cursor want s =
     (if \<not> isHexId anchorId then BadHexId
      else if (case cursor of Some c \<Rightarrow> \<not> CLAIM_CURSOR c | None \<Rightarrow> False) then batchError True (BatchInvalid ''page'')
      else case page_limit (ba_text E) want of
             None \<Rightarrow> batchError True (BatchInvalid ''page'')
           | Some n \<Rightarrow>
               (case getCardanoClaims (ba_date_ok E) (ba_text E) anchorId (case cursor of Some c \<Rightarrow> c | None \<Rightarrow> []) n (bv_batches s) of
                  Inl e \<Rightarrow> batchError True e
                | Inr (claims, c) \<Rightarrow> ClaimsPage claims c))"

definition getBatchRoute :: "jsstring \<Rightarrow> batch_server \<Rightarrow> batch_reply" where
  "getBatchRoute anchorId s =
     (if \<not> isHexId anchorId then BadHexId
      else case getBatch anchorId (bv_batches s) of
             Inl _ \<Rightarrow> BatchRefused 500
           | Inr None \<Rightarrow> BatchUnknown
           | Inr (Some ps) \<Rightarrow> BatchIs ps)"

section \<open>Runs\<close>

text \<open>The writes of the routes, of the backfill, of the lineage pages, and what other requests do to the tables of credentials.\<close>

datatype batch_event =
    PutBatch moment request jsstring json
  | PostClaim moment request jsstring json
  | Backfill
  | Prefer jsstring jsstring json
  | OtherTables "token_db option" quota_db

fun batch_step :: "batch_env \<Rightarrow> batch_event \<Rightarrow> batch_server \<Rightarrow> batch_server" where
  "batch_step E (PutBatch m req h body) s = snd (upsertBatch E m req h body s)"
| "batch_step E (PostClaim m req h body) s = snd (postCardanoClaim E m req h body s)"
| "batch_step E Backfill s = s\<lparr>bv_batches := fst (indexExistingBatches (bv_batches s))\<rparr>"
| "batch_step E (Prefer leaf h claim) s =
     (case savePreferredCardanoClaim (ba_date_ok E) (ba_text E) leaf h claim (bv_batches s) of
        Inl _ \<Rightarrow> s | Inr b \<Rightarrow> s\<lparr>bv_batches := b\<rparr>)"
| "batch_step E (OtherTables t q) s = s\<lparr>bv_tokens := t, bv_quota := q\<rparr>"

definition batch_run :: "batch_env \<Rightarrow> batch_event list \<Rightarrow> batch_server \<Rightarrow> batch_server" where
  "batch_run E evs s = fold (batch_step E) evs s"

text \<open>What a step can do to the store.\<close>

definition saves :: "batch_env \<Rightarrow> jsstring \<Rightarrow> json \<Rightarrow> batch_state \<Rightarrow> batch_state \<Rightarrow> bool" where
  "saves E h v b b' \<longleftrightarrow> saveBatch (ba_sdk E) (ba_date_ok E) (ba_text E) h v b = Inr b'"

definition claims_in :: "batch_env \<Rightarrow> jsstring \<Rightarrow> json \<Rightarrow> batch_state \<Rightarrow> batch_state \<Rightarrow> bool" where
  "claims_in E h v b b' \<longleftrightarrow> saveCardanoClaim (ba_sdk E) (ba_date_ok E) (ba_text E) h v b = Inr b'"

lemma authorize_keeps: "bv_batches (snd (authorizeBatchWrite E m req h s)) = bv_batches s"
  by (simp add: authorizeBatchWrite_def case_prod_beta Let_def)

lemma upsert_cases:
  "bv_batches (snd (upsertBatch E m req h body s)) = bv_batches s
   \<or> fst (authorizeBatchWrite E m req h s) = None \<and> saves E h body (bv_batches s) (bv_batches (snd (upsertBatch E m req h body s)))"
  using authorize_keeps [of E m req h s]
  by (cases "authorizeBatchWrite E m req h s")
    (auto simp: upsertBatch_def saves_def split: option.splits sum.splits)

lemma claim_cases:
  "bv_batches (snd (postCardanoClaim E m req h body s)) = bv_batches s
   \<or> fst (authorizeBatchWrite E m req h s) = None \<and> claims_in E h body (bv_batches s) (bv_batches (snd (postCardanoClaim E m req h body s)))"
  using authorize_keeps [of E m req h s]
  by (cases "authorizeBatchWrite E m req h s")
    (auto simp: postCardanoClaim_def claims_in_def split: option.splits sum.splits)

lemma fold_grows:
  assumes "\<And>l t. set t \<subseteq> set (g l t)"
  shows "set t \<subseteq> set (fold g ls t)"
proof (induction ls arbitrary: t)
  case (Cons l ls)
  show ?case using assms [of t l] Cons [of "g l t"] by (simp add: subset_trans)
qed simp

lemma ignore_grows: "set t \<subseteq> set (sql_insert_or_ignore k r t)"
  by (auto simp: sql_insert_or_ignore_def)

lemma leaves_kept: "set t \<subseteq> set (indexBatchLeaves key ps t)"
  unfolding indexBatchLeaves_def by (rule fold_grows) (rule ignore_grows)

lemma leaves_indexed:
  assumes "l \<in> set (record_leaves ps)"
  shows "(l, key) \<in> set (indexBatchLeaves key ps t)"
proof -
  let ?g = "\<lambda>l. sql_insert_or_ignore (\<lambda>r. r) (l, key)"
  obtain xs ys where "record_leaves ps = xs @ l # ys" using assms by (meson split_list)
  then have "indexBatchLeaves key ps t = fold ?g ys (?g l (fold ?g xs t))" by (simp add: indexBatchLeaves_def)
  moreover have "(l, key) \<in> set (?g l (fold ?g xs t))" by (auto simp: sql_insert_or_ignore_def)
  moreover have "set (?g l (fold ?g xs t)) \<subseteq> set (fold ?g ys (?g l (fold ?g xs t)))"
    by (rule fold_grows) (rule ignore_grows)
  ultimately show ?thesis by (simp only:) (rule subsetD)
qed

lemma backfill_keeps:
  "bt_files (fst (indexExistingBatches s)) = bt_files s \<and> bt_claims (fst (indexExistingBatches s)) = bt_claims s
   \<and> set (bt_leaves s) \<subseteq> set (bt_leaves (fst (indexExistingBatches s)))"
proof -
  have step: "bt_files (fst (index_file ns n a)) = bt_files (fst a) \<and> bt_claims (fst (index_file ns n a)) = bt_claims (fst a)
      \<and> set (bt_leaves (fst a)) \<subseteq> set (bt_leaves (fst (index_file ns n a)))" for ns n a
    using leaves_kept by (cases a) (auto simp: index_file_def Let_def split: sum.splits option.splits)
  have "bt_files (fst (fold (index_file ns) names a)) = bt_files (fst a)
      \<and> bt_claims (fst (fold (index_file ns) names a)) = bt_claims (fst a)
      \<and> set (bt_leaves (fst a)) \<subseteq> set (bt_leaves (fst (fold (index_file ns) names a)))" for ns names a
  proof (induction names arbitrary: a)
    case (Cons n names)
    show ?case using step [of ns n a] Cons [of "index_file ns n a"] by auto
  qed simp
  from this [of "map fst (bt_files s)" "map fst (bt_files s)" "(s, 0, 0, 0)"] show ?thesis
    by (simp add: indexExistingBatches_def Let_def)
qed

section \<open>What is stored\<close>

lemma batch_key_hex: "batch_key h = Inr key \<Longrightarrow> re_lower_hex 64 key"
  by (auto simp: batch_key_def file_id_def hexId_def isHexId_def and_then_Inr_iff split: if_splits intro: to_lower_hex)

lemma hex_key_id: "re_lower_hex 64 key \<Longrightarrow> stripHexPrefix_storage key = key \<and> to_lower key = key \<and> file_id key = Inr key"
  using no_hex_prefix [OF lower_hex_any, of key] re_lower_hex_any [of 64 key]
  by (auto simp: stripHexPrefix_storage_def to_lower_hex_id file_id_def hexId_def isHexId_def re_lower_hex_def)

lemma saves_result:
  assumes "saves E h v b b'"
  obtains key incoming previous merged where "batch_key h = Inr key" "v = JObj incoming"
    "legacyBatch (bt_legacy b) (bt_files b) h = Inr previous" "mergeBatch (ba_date_ok E) (ba_text E) previous incoming = Inr merged"
    "validateBatch (ba_sdk E) key merged = Inr ()"
    "b' = b\<lparr>bt_files := AList.update key \<lparr>bf_size = json_bytes (ba_text E) (JObj merged),
         bf_json = Some (JObj (reparse_props merged))\<rparr> (bt_files b),
       bt_legacy := AList.update key key (bt_legacy b), bt_leaves := indexBatchLeaves key merged (bt_leaves b)\<rparr>"
  using assms by (cases v) (auto simp: saves_def saveBatch_def and_then_Inr_iff)

lemma claims_in_result:
  assumes "claims_in E h v b b'"
  obtains key claim where "batch_key h = Inr key" "parseCardanoClaim (ba_date_ok E) (ba_text E) v = Inr claim"
    "b' = b\<lparr>bt_claims := sql_insert_or_ignore claim_row_key (key, claim) (bt_claims b)\<rparr>"
  using assms by (auto simp: claims_in_def saveCardanoClaim_def and_then_Inr_iff split: option.splits)

text \<open>The effect of one step on the store.\<close>

lemma batch_step_effect:
  defines "b \<equiv> \<lambda>s. bv_batches s"
  obtains "b (batch_step E ev s) = b s"
  | h v where "saves E h v (b s) (b (batch_step E ev s))"
  | h v where "claims_in E h v (b s) (b (batch_step E ev s))"
  | "bt_files (b (batch_step E ev s)) = bt_files (b s)" "bt_claims (b (batch_step E ev s)) = bt_claims (b s)"
      "set (bt_leaves (b s)) \<subseteq> set (bt_leaves (b (batch_step E ev s)))"
proof (cases ev)
  case (PutBatch m req h body)
  then show thesis using that(1,2) upsert_cases [of E m req h body s] by (auto simp: b_def)
next
  case (PostClaim m req h body)
  then show thesis using that(1,3) claim_cases [of E m req h body s] by (auto simp: b_def)
next
  case Backfill
  then show thesis using that(4) backfill_keeps [of "bv_batches s"] by (auto simp: b_def)
next
  case (Prefer leaf h claim)
  show thesis
  proof (cases "savePreferredCardanoClaim (ba_date_ok E) (ba_text E) leaf h claim (bv_batches s)")
    case (Inl e)
    then show ?thesis using that(1) Prefer by (simp add: b_def)
  next
    case (Inr b')
    then have "bt_files b' = bt_files (bv_batches s) \<and> bt_claims b' = bt_claims (bv_batches s) \<and> bt_leaves b' = bt_leaves (bv_batches s)"
      by (auto simp: savePreferredCardanoClaim_def and_then_Inr_iff)
    then show ?thesis using that(4) Prefer Inr by (simp add: b_def)
  qed
next
  case (OtherTables t q)
  then show thesis using that(1) by (auto simp: b_def)
qed

lemma record_leaves_reparse [simp]: "record_leaves (reparse_props ps) = record_leaves ps"
proof -
  have l: "batch_leaf (json_reparse v) = batch_leaf v" for v by (cases v) (auto simp: batch_leaf_def)
  have "List.map_filter batch_leaf (map json_reparse vs) = List.map_filter batch_leaf vs" for vs
    by (induction vs) (simp_all add: List.map_filter_simps l split: option.split)
  then show ?thesis by (auto simp: record_leaves_def split: option.splits json.splits)
qed

definition sound_file :: "batch_sdk \<Rightarrow> (jsstring \<times> jsstring) list \<Rightarrow> jsstring \<Rightarrow> batch_file \<Rightarrow> bool" where
  "sound_file sdk leaves d f \<longleftrightarrow> re_lower_hex 64 d \<and> bf_size f \<le> BATCH_BYTE_BUDGET
     \<and> (\<exists>ps. bf_json f = Some (JObj ps) \<and> anchored_record sdk d ps \<and> (\<lambda>l. (l, d)) ` set (record_leaves ps) \<subseteq> set leaves)"

lemma sound_file_mono: "sound_file sdk t d f \<Longrightarrow> set t \<subseteq> set t' \<Longrightarrow> sound_file sdk t' d f"
  unfolding sound_file_def by blast

text \<open>C3: Whatever is posted, every batch file the gateway writes belongs under its anchor: its leaves
  derive its root, its root and the manifest of its own count, block range and genesis derive
  the anchor, it is small enough to be read back, and every leaf of it leads to the anchor.
  Files the gateway did not write stay as they were.\<close>

theorem batch_files_anchored:
  "map_of (bt_files (bv_batches (batch_run E evs s))) d = map_of (bt_files (bv_batches s)) d
    \<or> (\<exists>g. map_of (bt_files (bv_batches (batch_run E evs s))) d = Some g
          \<and> sound_file (ba_sdk E) (bt_leaves (bv_batches (batch_run E evs s))) d g)"
proof -
  let ?ok = "\<lambda>s'. map_of (bt_files (bv_batches s')) d = map_of (bt_files (bv_batches s)) d
    \<or> (\<exists>g. map_of (bt_files (bv_batches s')) d = Some g \<and> sound_file (ba_sdk E) (bt_leaves (bv_batches s')) d g)"
  have step: "?ok (batch_step E ev s')" if ok: "?ok s'" for ev s'
  proof (cases rule: batch_step_effect [of E ev s'])
    case 1
    then show ?thesis using ok by simp
  next
    case (2 h v)
    from 2 obtain key incoming previous merged where k: "batch_key h = Inr key"
      and m: "mergeBatch (ba_date_ok E) (ba_text E) previous incoming = Inr merged" "validateBatch (ba_sdk E) key merged = Inr ()"
      and b: "bv_batches (batch_step E ev s') = (bv_batches s')\<lparr>bt_files := AList.update key
         \<lparr>bf_size = json_bytes (ba_text E) (JObj merged), bf_json = Some (JObj (reparse_props merged))\<rparr> (bt_files (bv_batches s')),
         bt_legacy := AList.update key key (bt_legacy (bv_batches s')),
         bt_leaves := indexBatchLeaves key merged (bt_leaves (bv_batches s'))\<rparr>"
      by (elim saves_result) blast
    show ?thesis
    proof (cases "d = key")
      case True
      have "sound_file (ba_sdk E) (bt_leaves (bv_batches (batch_step E ev s'))) d
          \<lparr>bf_size = json_bytes (ba_text E) (JObj merged), bf_json = Some (JObj (reparse_props merged))\<rparr>"
        using True batch_key_hex [OF k] merge_fields(3) [OF m(1)] validate_anchored [OF validate_reparse [OF m(2)]] leaves_indexed
        by (auto simp: sound_file_def b)
      then show ?thesis by (simp add: b True update_conv)
    next
      case False
      then show ?thesis using ok sound_file_mono leaves_kept by (auto simp: b update_conv)
    qed
  next
    case (3 h v)
    then show ?thesis using ok by (elim claims_in_result) simp
  next
    case 4
    then show ?thesis using ok sound_file_mono by auto
  qed
  have "?ok s' \<Longrightarrow> ?ok (fold (batch_step E) evs s')" for s'
  proof (induction evs arbitrary: s')
    case (Cons ev evs)
    then show ?case using step [of s' ev] by simp
  qed simp
  from this [of s] show ?thesis by (simp add: batch_run_def)
qed

text \<open>C4: What is published about Cardano transactions stays: a readable batch keeps every network and
  transaction it names, the text of its three transaction fields once they are set, and the
  table of claims loses no row, whatever is posted later and in whatever order.\<close>

theorem cardano_claims_kept:
  assumes "map_of (bt_files (bv_batches s)) d = Some f" "bf_json f = Some (JObj ps)" "bf_size f \<le> BATCH_BYTE_BUDGET"
    and "re_lower_hex 64 d"
  shows "\<exists>f' ps'. map_of (bt_files (bv_batches (batch_run E evs s))) d = Some f' \<and> bf_json f' = Some (JObj ps')
    \<and> claim_keys (ba_date_ok E) ps \<subseteq> claim_keys (ba_date_ok E) ps'
    \<and> (\<forall>k \<in> set CLAIM_FIELDS. \<forall>t. get_prop k ps = Some (JStr t) \<and> t \<noteq> [] \<longrightarrow> get_prop k ps' = Some (JStr t))
    \<and> set (bt_claims (bv_batches s)) \<subseteq> set (bt_claims (bv_batches (batch_run E evs s)))"
proof -
  let ?kept = "\<lambda>s'. \<exists>f' ps'. map_of (bt_files (bv_batches s')) d = Some f' \<and> bf_json f' = Some (JObj ps')
    \<and> bf_size f' \<le> BATCH_BYTE_BUDGET \<and> claim_keys (ba_date_ok E) ps \<subseteq> claim_keys (ba_date_ok E) ps'
    \<and> (\<forall>k \<in> set CLAIM_FIELDS. \<forall>t. get_prop k ps = Some (JStr t) \<and> t \<noteq> [] \<longrightarrow> get_prop k ps' = Some (JStr t))
    \<and> set (bt_claims (bv_batches s)) \<subseteq> set (bt_claims (bv_batches s'))"
  have other: "?kept t" if "?kept s'" "bt_files (bv_batches t) = bt_files (bv_batches s')"
      "set (bt_claims (bv_batches s')) \<subseteq> set (bt_claims (bv_batches t))" for s' t
    using that(1) subset_trans [OF _ that(3)] unfolding that(2) by blast
  have step: "?kept (batch_step E ev s')" if ok: "?kept s'" for ev s'
  proof (cases rule: batch_step_effect [of E ev s'])
    case 1
    then show ?thesis using ok by simp
  next
    case (2 h v)
    from 2 obtain key incoming previous merged where k: "batch_key h = Inr key"
      and p: "legacyBatch (bt_legacy (bv_batches s')) (bt_files (bv_batches s')) h = Inr previous"
      and m: "mergeBatch (ba_date_ok E) (ba_text E) previous incoming = Inr merged"
      and b: "bv_batches (batch_step E ev s') = (bv_batches s')\<lparr>bt_files := AList.update key
         \<lparr>bf_size = json_bytes (ba_text E) (JObj merged), bf_json = Some (JObj (reparse_props merged))\<rparr> (bt_files (bv_batches s')),
         bt_legacy := AList.update key key (bt_legacy (bv_batches s')),
         bt_leaves := indexBatchLeaves key merged (bt_leaves (bv_batches s'))\<rparr>"
      by (elim saves_result) blast
    show ?thesis
    proof (cases "d = key")
      case True
      from ok obtain f' ps' where f': "map_of (bt_files (bv_batches s')) d = Some f'" "bf_json f' = Some (JObj ps')"
          "bf_size f' \<le> BATCH_BYTE_BUDGET" "claim_keys (ba_date_ok E) ps \<subseteq> claim_keys (ba_date_ok E) ps'"
          "\<forall>k \<in> set CLAIM_FIELDS. \<forall>t. get_prop k ps = Some (JStr t) \<and> t \<noteq> [] \<longrightarrow> get_prop k ps' = Some (JStr t)"
          "set (bt_claims (bv_batches s)) \<subseteq> set (bt_claims (bv_batches s'))" by blast
      have canon: "to_lower (stripHexPrefix_storage h) = d"
        using k True by (auto simp: batch_key_def file_id_def hexId_def and_then_Inr_iff split: if_splits)
      have "d \<in> fst ` set (bt_files (bv_batches s'))" using f'(1) map_of_SomeD by force
      then have "previous = Some ps'"
        using p f'(1-3) hex_key_id [OF assms(4)] canon by (simp add: legacyBatch_def Let_def)
      note mf = merge_fields [OF m [unfolded this], unfolded option.case]
      have "get_prop k merged = Some (JStr t)" if "k \<in> set CLAIM_FIELDS" "get_prop k ps' = Some (JStr t)" "t \<noteq> []" for k t
        using mf(1) [OF that(1)] that(2,3) by (simp add: field_set_def)
      then have fields: "\<forall>k \<in> set CLAIM_FIELDS. \<forall>t. get_prop k ps = Some (JStr t) \<and> t \<noteq> [] \<longrightarrow> get_prop k (reparse_props merged) = Some (JStr t)"
      proof (intro ballI allI impI, elim conjE)
        fix k t assume kt: "k \<in> set CLAIM_FIELDS" "get_prop k ps = Some (JStr t)" "t \<noteq> []"
        then have "get_prop k ps' = Some (JStr t)" using f'(5) by blast
        with \<open>\<And>k t. k \<in> set CLAIM_FIELDS \<Longrightarrow> get_prop k ps' = Some (JStr t) \<Longrightarrow> t \<noteq> [] \<Longrightarrow> get_prop k merged = Some (JStr t)\<close> kt
        have "get_prop k merged = Some (JStr t)" by blast
        then show "get_prop k (reparse_props merged) = Some (JStr t)" by simp
      qed
      let ?f = "\<lparr>bf_size = json_bytes (ba_text E) (JObj merged), bf_json = Some (JObj (reparse_props merged))\<rparr>"
      have keys: "claim_keys (ba_date_ok E) ps \<subseteq> claim_keys (ba_date_ok E) (reparse_props merged)"
        using f'(4) mf(2) unfolding claim_keys_reparse by blast
      have rows: "set (bt_claims (bv_batches s)) \<subseteq> set (bt_claims (bv_batches (batch_step E ev s')))" using f'(6) by (simp add: b)
      have "map_of (bt_files (bv_batches (batch_step E ev s'))) d = Some ?f" by (simp add: b True update_conv)
      moreover have "bf_size ?f \<le> BATCH_BYTE_BUDGET" "bf_json ?f = Some (JObj (reparse_props merged))" using mf(3) by simp_all
      ultimately show ?thesis using fields keys rows by blast
    next
      case False
      then show ?thesis using ok by (simp add: b update_conv)
    qed
  next
    case (3 h v)
    then obtain key claim where b: "bv_batches (batch_step E ev s')
        = (bv_batches s')\<lparr>bt_claims := sql_insert_or_ignore claim_row_key (key, claim) (bt_claims (bv_batches s'))\<rparr>"
      by (elim claims_in_result)
    show ?thesis by (rule other [OF ok]) (use ignore_grows in \<open>simp_all add: b\<close>)
  next
    case 4
    then show ?thesis by (intro other [OF ok]) simp_all
  qed
  have "?kept s' \<Longrightarrow> ?kept (fold (batch_step E) evs s')" for s'
  proof (induction evs arbitrary: s')
    case (Cons ev evs)
    show ?case unfolding fold_Cons comp_apply by (rule Cons.IH [OF step [OF Cons.prems]])
  qed simp
  moreover have "?kept s" using assms by auto
  ultimately have "?kept (batch_run E evs s)" unfolding batch_run_def by blast
  then show ?thesis by blast
qed

section \<open>Who may write\<close>

lemma auth_ok_credential:
  assumes "resolveAuth P sr funded cfg start now spendNow others req content tokens db = (Inr a, tokens', db')"
  shows "auth_tier a \<in> {RegisteredValidatorTier, SigOnlyTier} \<Longrightarrow> \<exists>h sig. content = Some h
      \<and> verifyUploadSig P sr cfg start now req h = Inr sig \<and> auth_identity a = us_address sig \<and> auth_sigVersion a = Some (us_version sig)"
    and "auth_tier a = ApiKeyTier \<Longrightarrow> \<exists>key ki. h_api_key req = Some key \<and> \<not> isAccountAddress P key
      \<and> resolveKey key db = Some ki \<and> auth_keyInfo a = Some ki"
  using assms
  by (auto simp: resolveAuth_def bearer_priority_def api_key_priority_def spend_for_tier_def Let_def present_Some
      split: option.splits sum.splits prod.splits if_splits)

text \<open>C5: Only the anchoring pipeline changes a stored record or claim: a request that changes the
  store is signed under version 2, by an address listed as a batch writer, or carries an API
  key that is listed by its hash.  A bearer token, or a signature of anybody else, changes
  nothing.\<close>

theorem only_writers_change_batches:
  assumes "ev = PutBatch m req h body \<or> ev = PostClaim m req h body"
    and "bv_batches (batch_step E ev s) \<noteq> bv_batches s"
  shows "(\<exists>sig. verifyUploadSig (ba_polkadot E) (ba_sr25519 E) (ba_upload E) (ba_start E) (at_auth m) req h = Inr sig
        \<and> us_version sig = 2 \<and> us_address sig \<in> set (batchWriterAddresses (ba_upload E)))
    \<or> (\<exists>key ki. h_api_key req = Some key \<and> \<not> isAccountAddress (ba_polkadot E) key
        \<and> resolveKey key (bv_quota s) = Some ki \<and> to_lower (keyHash ki) \<in> set (ba_writerKeyHashes E))"
proof -
  have "fst (authorizeBatchWrite E m req h s) = None"
    using assms upsert_cases [of E m req h body s] claim_cases [of E m req h body s] by auto
  then obtain a t q where a: "resolveAuth (ba_polkadot E) (ba_sr25519 E) (at_funded m) (ba_upload E) (ba_start E)
            (at_auth m) (at_spend m) (at_others m) req (Some h) (bv_tokens s) (bv_quota s) = (Inr a, t, q)"
      "auth_tier a \<in> {RegisteredValidatorTier, SigOnlyTier} \<longrightarrow> auth_sigVersion a = Some 2" "mayWriteBatches E a"
    by (auto simp: authorizeBatchWrite_def split: prod.splits sum.splits if_splits)
  show ?thesis
  proof (cases "auth_tier a \<in> {RegisteredValidatorTier, SigOnlyTier}")
    case True
    then show ?thesis using auth_ok_credential(1) [OF a(1) True] a(2,3) by (auto simp: mayWriteBatches_def)
  next
    case False
    then have "auth_tier a = ApiKeyTier" using a(3) by (auto simp: mayWriteBatches_def split: if_splits)
    then show ?thesis using auth_ok_credential(2) [OF a(1)] a(3) False by (auto simp: mayWriteBatches_def)
  qed
qed

lemma hash_of_hex: "re_lower_hex 64 s \<Longrightarrow> batch_hash (Some (JStr s)) f = Inr s"
  using hex_key_id [of s] re_lower_hex_any [of 64 s] by (simp add: batch_hash_def hash_text_def)

section \<open>Sizes of texts\<close>

text \<open>An upper bound of the octets of a text that adds up over its units.\<close>

definition text_cost :: "jsstring \<Rightarrow> nat" where
  "text_cost s = sum_list (map (\<lambda>c. if c < 0x80 then 1 else 3) s)"

lemma text_cost_simps [simp]: "text_cost [] = 0" "text_cost (c # s) = (if c < 0x80 then 1 else 3) + text_cost s"
  "text_cost (s @ t) = text_cost s + text_cost t"
  by (simp_all add: text_cost_def)

lemma utf8_cost: "length (utf8_encode s) \<le> text_cost s"
proof (induction s rule: code_points.induct)
  case (2 c)
  have "unat c < 2 ^ LENGTH(16)" by (rule unsigned_less)
  then show ?case
    by (auto simp: utf8_encode_def utf8_char_def word_less_nat_alt word_le_nat_alt is_high_surrogate_def is_low_surrogate_def)
next
  case (3 c d s)
  have u: "length (utf8_char n) \<le> 4" "n < 0x10000 \<Longrightarrow> length (utf8_char n) \<le> 3" "n < 0x80 \<Longrightarrow> length (utf8_char n) = 1" for n
    by (auto simp: utf8_char_def)
  have c: "length (utf8_char (unat c)) \<le> (if c < 0x80 then 1 else 3)"
  proof -
    have "unat c < 2 ^ LENGTH(16)" by (rule unsigned_less)
    then show ?thesis using u(2) [of "unat c"] u(3) [of "unat c"] by (auto simp: word_less_nat_alt)
  qed
  have u2: "length (utf8_char 0xFFFD) \<le> 3" by (simp add: utf8_char_def)
  have high: "is_high_surrogate x \<or> is_low_surrogate x \<Longrightarrow> \<not> x < 0x80" for x
    by (auto simp: is_high_surrogate_def is_low_surrogate_def word_less_nat_alt word_le_nat_alt)
  show ?case
  proof (cases "is_high_surrogate c \<and> is_low_surrogate d")
    case True
    then show ?thesis using 3(1) u(1) high by (auto simp: utf8_encode_def intro!: add_le_mono order_trans [OF u(1)])
  next
    case False
    then have "length (utf8_encode (d # s)) \<le> text_cost (d # s)" using 3(2) by blast
    then show ?thesis using False c high u2
      by (auto simp: utf8_encode_def simp del: text_cost_simps(2)) (auto simp: text_cost_def)
  qed
qed (simp add: utf8_encode_def)

definition plain_unit :: "u16 \<Rightarrow> bool" where
  "plain_unit c \<longleftrightarrow> 0x30 \<le> c \<and> c \<le> 0x7A \<and> c \<noteq> 0x5C"

lemma quote_unit_cost: "text_cost (quote_unit c) \<le> 6"
proof -
  have "list_all (\<lambda>k. hex_digit k < 0x80) [0..<16]" by code_simp
  then have "hex_digit k < 0x80" if "k < 16" for k using that by (simp add: list_all_iff)
  then show ?thesis by (simp add: quote_unit_def unicode_escape_def)
qed

lemma quote_cost: "text_cost (json_quote s) \<le> 6 * length s + 2"
proof -
  have "text_cost (quote_units s) \<le> 6 * length s"
  proof (induction s rule: quote_units.induct)
    case (2 c)
    show ?case using quote_unit_cost by simp
  next
    case (3 c d s)
    then show ?case using quote_unit_cost [of c] by (cases "is_high_surrogate c \<and> is_low_surrogate d") auto
  qed simp
  then show ?thesis by (simp add: json_quote_def)
qed

lemma plain_quote_cost: "list_all plain_unit s \<Longrightarrow> text_cost (json_quote s) = length s + 2"
proof -
  have q: "plain_unit c \<Longrightarrow> quote_unit c = [c] \<and> c < 0x80 \<and> \<not> is_high_surrogate c" for c
    by (auto simp: plain_unit_def quote_unit_def is_high_surrogate_def is_low_surrogate_def word_le_nat_alt word_less_nat_alt)
  have "list_all plain_unit s \<Longrightarrow> quote_units s = s \<and> text_cost s = length s"
    by (induction s rule: quote_units.induct) (use q in auto)
  then show "list_all plain_unit s \<Longrightarrow> text_cost (json_quote s) = length s + 2" by (simp add: json_quote_def)
qed

lemma hex_plain: "re_lower_hex n s \<Longrightarrow> list_all plain_unit s \<and> length s = n"
  by (auto simp: re_lower_hex_def list_all_iff is_lower_hex_def is_digit_u16_def plain_unit_def word_le_nat_alt)

lemma claim_json_size: "valid_claim date_ok c \<Longrightarrow> json_bytes T (claim_json c) \<le> 600"
proof -
  assume v: "valid_claim date_ok c"
  have keys: "list_all plain_unit (js ''cardanoNetwork'')" "list_all plain_unit (js ''cardanoTxHash'')"
    "list_all plain_unit (js ''cardanoSubmittedAt'')" "list_all plain_unit (js ''mainnet'')" "list_all plain_unit (js ''preprod'')"
    by code_simp+
  have n: "text_cost (json_quote (cc_network c)) = 9" using v keys(4,5) plain_quote_cost by (auto simp: valid_claim_def js_eval)
  have t: "text_cost (json_quote (cc_tx c)) = 66" using v hex_plain [of 64 "cc_tx c"] plain_quote_cost by (simp add: valid_claim_def)
  have "text_cost (json_stringify T (claim_json c)) \<le> 600"
  proof (cases "cc_submitted_at c")
    case None
    then show ?thesis using n t by (simp add: claim_json_def plain_quote_cost [OF keys(1)] plain_quote_cost [OF keys(2)])
  next
    case (Some a)
    then have "text_cost (json_quote a) \<le> 386" using v quote_cost [of a] by (simp add: valid_claim_def)
    then show ?thesis using n t Some
      by (simp add: claim_json_def plain_quote_cost [OF keys(1)] plain_quote_cost [OF keys(2)] plain_quote_cost [OF keys(3)])
  qed
  then show ?thesis using utf8_cost [of "json_stringify T (claim_json c)"] by (simp add: json_bytes_def)
qed

lemma stored_claim_valid: "valid_claim date_ok c \<Longrightarrow> stored_claim date_ok T c = Inr c"
proof -
  assume v: "valid_claim date_ok c"
  have size: "json_bytes T (claim_json c) \<le> 600" by (rule claim_json_size [OF v])
  have h: "batch_hash (Some (JStr (cc_tx c))) f = Inr (cc_tx c)" for f using v by (simp add: valid_claim_def hash_of_hex)
  obtain n t a where c: "c = \<lparr>cc_network = n, cc_tx = t, cc_submitted_at = a\<rparr>" by (cases c)
  show ?thesis
    using v h size by (cases a) (auto simp: c stored_claim_def parseCardanoClaim_def claim_json_def get_prop_def
        cardano_network_def claim_time_def valid_claim_def js_eq_iff CLAIM_FIELDS_def)
qed

section \<open>A claim nobody made\<close>

text \<open>C27: The three Cardano fields of a record are kept one by one, so the merge of a record without a
  network with a record of another transaction names a network and a transaction that neither
  record names together.\<close>

theorem merge_mixes_claims:
  "\<exists>m. mergeBatch date_ok T (Some [(js ''cardanoTxHash'', JStr (replicate 64 0x61))])
         [(js ''cardanoNetwork'', JStr (js ''mainnet'')), (js ''cardanoTxHash'', JStr (replicate 64 0x62))] = Inr m
     \<and> (js ''mainnet'', replicate 64 0x61) \<in> claim_keys date_ok m
     \<and> (js ''mainnet'', replicate 64 0x61) \<notin> claim_keys date_ok [(js ''cardanoTxHash'', JStr (replicate 64 0x61))]
        \<union> claim_keys date_ok [(js ''cardanoNetwork'', JStr (js ''mainnet'')), (js ''cardanoTxHash'', JStr (replicate 64 0x62))]"
proof -
  let ?a = "replicate 64 0x61 :: jsstring" and ?b = "replicate 64 0x62 :: jsstring"
  let ?old = "[(js ''cardanoTxHash'', JStr ?a)]"
    and ?new = "[(js ''cardanoNetwork'', JStr (js ''mainnet'')), (js ''cardanoTxHash'', JStr ?b)]"
  have h: "batch_hash (Some (JStr ?a)) f = Inr ?a" "batch_hash (Some (JStr ?b)) f = Inr ?b" for f
    by (rule hash_of_hex, rule re_lower_hex_replicate, simp add: char_class_defs)+
  let ?c = "\<lparr>cc_network = js ''mainnet'', cc_tx = ?b, cc_submitted_at = None\<rparr>"
  have old: "cardanoClaims date_ok ?old = []"
    by (simp add: cardanoClaims_def get_prop_def js_eq_iff List.map_filter_simps candidate_claim_def cardano_network_def unique_claims_def)
  have new: "cardanoClaims date_ok ?new = [?c]"
    by (simp add: cardanoClaims_def get_prop_def js_eq_iff List.map_filter_simps candidate_claim_def cardano_network_def
      unique_claims_def h claim_time_def)
  let ?m = "[(js ''cardanoTxHash'', JStr ?a), (js ''cardanoNetwork'', JStr (js ''mainnet'')), (js ''cardanoClaims'', JArr [claim_json ?c])]"
  have valid: "valid_claim date_ok ?c"
    by (simp add: valid_claim_def re_lower_hex_replicate char_class_defs)
  have claims: "cardanoClaims date_ok [(js ''cardanoClaims'', JArr (map claim_json [?c]))] = [?c]"
    by (subst claims_of_list) (use valid in \<open>simp_all add: unique_claims_def\<close>)
  have fields: "fold (keep_field ?old) CLAIM_FIELDS (spread ?old ?new)
      = [(js ''cardanoTxHash'', JStr ?a), (js ''cardanoNetwork'', JStr (js ''mainnet''))]"
    by code_simp
  have put: "put_prop (js ''cardanoClaims'') (JArr (map claim_json [?c]))
      [(js ''cardanoTxHash'', JStr ?a), (js ''cardanoNetwork'', JStr (js ''mainnet''))] = ?m"
    by code_simp
  have size: "json_bytes T (JObj ?m) \<le> BATCH_BYTE_BUDGET"
  proof -
    have plain: "list_all plain_unit (js ''cardanoNetwork'')" "list_all plain_unit (js ''cardanoTxHash'')"
      "list_all plain_unit (js ''cardanoClaims'')" "list_all plain_unit (js ''mainnet'')" "list_all plain_unit ?a" "list_all plain_unit ?b"
      by code_simp+
    have "text_cost (json_stringify T (JObj ?m)) \<le> BATCH_BYTE_BUDGET"
      by (simp add: claim_json_def plain [THEN plain_quote_cost] BATCH_BYTE_BUDGET_def)
    then show ?thesis using utf8_cost [of "json_stringify T (JObj ?m)"] by (simp only: json_bytes_def)
  qed
  have m: "mergeBatch date_ok T (Some ?old) ?new = Inr ?m"
    unfolding mergeBatch_def option.case Let_def old new fields append_Nil claims
    using size put by simp
  have "candidate_claim date_ok (JObj ?m) = Some \<lparr>cc_network = js ''mainnet'', cc_tx = ?a, cc_submitted_at = None\<rparr>"
    by (simp add: candidate_claim_def get_prop_def js_eq_iff cardano_network_def h claim_time_def)
  then have "\<lparr>cc_network = js ''mainnet'', cc_tx = ?a, cc_submitted_at = None\<rparr>
      \<in> set (List.map_filter (candidate_claim date_ok) (JObj ?m # vs))" for vs
    by (simp add: List.map_filter_simps)
  moreover obtain vs where vs: "cardanoClaims date_ok ?m = unique_claims (List.map_filter (candidate_claim date_ok) (JObj ?m # vs))"
    by (simp only: cardanoClaims_def)
  ultimately have "\<lparr>cc_network = js ''mainnet'', cc_tx = ?a, cc_submitted_at = None\<rparr>
      \<in> set (List.map_filter (candidate_claim date_ok) (JObj ?m # vs))" by blast
  then have "claim_key \<lparr>cc_network = js ''mainnet'', cc_tx = ?a, cc_submitted_at = None\<rparr> \<in> claim_keys date_ok ?m"
    unfolding claim_keys_def vs using unique_claims_keys unfolding set_map by blast
  then have "(js ''mainnet'', ?a) \<in> claim_keys date_ok ?m" by (simp only: claim_key_def cardano_claim.select_convs)
  moreover have "(js ''mainnet'', ?a) \<notin> claim_keys date_ok ?old \<union> claim_keys date_ok ?new"
    by (simp add: claim_keys_def old new claim_key_def)
  ultimately show ?thesis using m by blast
qed

section \<open>One batch\<close>

definition one_root :: jsstring where "one_root = replicate 64 0x62"

definition one_key :: jsstring where "one_key = replicate 64 0x61"

definition one_sdk :: batch_sdk where
  "one_sdk = \<lparr>sdk_merkleRoot = (\<lambda>hs. Some (js ''0x'' @ hd hs)), sdk_manifestHash = (\<lambda>m. Some (js ''0x'' @ bm_root m)),
     sdk_anchorId = (\<lambda>r d. Some (js ''0x'' @ one_key))\<rparr>"

definition one_record :: props where
  "one_record = [(js ''blockRangeEnd'', JNum (num 2)), (js ''blockRangeStart'', JNum (num 1)), (js ''leafCount'', JNum (num 1)),
     (js ''leafHashes'', JArr [JStr one_root]), (js ''rootHash'', JStr one_root),
     (js ''cardanoNetwork'', JStr (js ''mainnet'')), (js ''cardanoTxHash'', JStr one_key)]"

definition one_env :: batch_env where
  "one_env = \<lparr>ba_polkadot = polkadot_strict, ba_sr25519 = sr_any, ba_upload = sample_cfg, ba_start = 0,
     ba_writerKeyHashes = [hashKey (js ''secret'')], ba_sdk = one_sdk, ba_date_ok = (\<lambda>_. True), ba_text = env_text sample_env\<rparr>"

definition one_store :: batch_server where
  "one_store = \<lparr>bv_tokens = None, bv_quota = keyed_db,
     bv_batches = \<lparr>bt_files = [(one_key, \<lparr>bf_size = 400, bf_json = Some (JObj one_record)\<rparr>)], bt_legacy = [], bt_leaves = [],
       bt_claims = [], bt_leaf_index = [], bt_preferred = []\<rparr>\<rparr>"

definition one_claim :: cardano_claim where
  "one_claim = \<lparr>cc_network = js ''mainnet'', cc_tx = one_root, cc_submitted_at = None\<rparr>"

definition one_event :: batch_event where
  "one_event = PostClaim sample_moment no_creds_req one_key (claim_json one_claim)"

lemma one_hex: "re_lower_hex 64 one_root" "re_lower_hex 64 one_key"
  by (simp_all add: one_root_def one_key_def re_lower_hex_replicate char_class_defs)

lemma one_validates: "validateBatch one_sdk one_key one_record = Inr ()"
proof -
  have h: "batch_hash (Some (JStr one_root)) f = Inr one_root" for f by (rule hash_of_hex [OF one_hex(1)])
  have opt: "optional_hash ''anchorId'' one_record = Inr None" "optional_hash ''manifestHash'' one_record = Inr None"
    "network_id one_record = Inr []" "stated_genesis one_record = Inr []"
    by (simp_all add: optional_hash_def network_id_def stated_genesis_def one_record_def get_prop_def js_eq_iff)
  have "get_prop (js ''rootHash'') one_record = Some (JStr one_root)" "leaf_list one_record = Inr [JStr one_root]"
    "block_range one_record = Inr (1, 2)"
    by (simp_all add: one_record_def get_prop_def js_eq_iff leaf_list_def block_range_def safe_int_def num_to_int)
  then show ?thesis
    by (simp add: validateBatch_def opt h sdk_call_def one_sdk_def GENESIS_def js_unique_def)
qed

lemma one_claim_parses: "parseCardanoClaim date_ok T (claim_json one_claim) = Inr one_claim"
proof -
  have "valid_claim date_ok one_claim" using one_hex by (simp add: valid_claim_def one_claim_def)
  from stored_claim_valid [OF this, of T] show ?thesis by (auto simp: stored_claim_def split: if_splits sum.splits)
qed

lemma one_authorized: "authorizeBatchWrite one_env sample_moment no_creds_req one_key one_store = (None, one_store)"
proof -
  have "bearer_priority 1200 no_creds_req None keyed_db = (None, None)"
    by (simp add: bearer_priority_def bearer_token_def no_creds_req_def sample_req_def)
  moreover have "\<not> isAccountAddress polkadot_strict (js ''secret'')"
    by (simp add: isAccountAddress_def SS58_SHAPE_def js_def normalizeSs58_def decodeAccountId_def polkadot_strict_def)
  moreover have "present (h_api_key no_creds_req) = Some (js ''secret'')"
    by (simp add: no_creds_req_def present_def js_def)
  moreover have "\<exists>ki. resolveKey (js ''secret'') keyed_db = Some ki \<and> keyHash ki = hashKey (js ''secret'')"
    by (simp add: resolveKey_def keyed_db_def new_key_row_def sql_get_def row_info_def)
  ultimately show ?thesis
    by (auto simp: authorizeBatchWrite_def resolveAuth_def api_key_priority_def one_env_def one_store_def sample_moment_def
        mayWriteBatches_def to_lower_hex_id [OF hashKey_hex])
qed

lemma one_posts: "bv_batches (batch_step one_env one_event one_store)
    = (bv_batches one_store)\<lparr>bt_claims := [(one_key, one_claim)]\<rparr>"
proof -
  have k: "batch_key one_key = Inr one_key" "isHexId one_key"
    using hex_key_id [OF one_hex(2)] by (auto simp: batch_key_def file_id_def hexId_def split: if_splits)
  have "legacyBatch (bt_legacy (bv_batches one_store)) (bt_files (bv_batches one_store)) one_key = Inr (Some one_record)"
    using hex_key_id [OF one_hex(2)] by (simp add: legacyBatch_def one_store_def BATCH_BYTE_BUDGET_def)
  then have "saveCardanoClaim (ba_sdk one_env) (ba_date_ok one_env) (ba_text one_env) one_key (claim_json one_claim) (bv_batches one_store)
      = Inr ((bv_batches one_store)\<lparr>bt_claims := [(one_key, one_claim)]\<rparr>)"
    using one_validates by (simp add: saveCardanoClaim_def k one_claim_parses one_env_def sql_insert_or_ignore_def one_store_def)
  then show ?thesis by (simp add: one_event_def postCardanoClaim_def k one_authorized)
qed

theorem only_writers_change_batches_witness:
  "bv_batches (batch_step one_env one_event one_store) \<noteq> bv_batches one_store
   \<and> ((\<exists>sig. verifyUploadSig polkadot_strict sr_any sample_cfg 0 1200 no_creds_req one_key = Inr sig
        \<and> us_version sig = 2 \<and> us_address sig \<in> set (batchWriterAddresses sample_cfg))
    \<or> (\<exists>key ki. h_api_key no_creds_req = Some key \<and> \<not> isAccountAddress polkadot_strict key
        \<and> resolveKey key keyed_db = Some ki \<and> to_lower (keyHash ki) \<in> set [hashKey (js ''secret'')]))"
proof -
  have "bv_batches (batch_step one_env one_event one_store) \<noteq> bv_batches one_store"
    unfolding one_posts by (simp add: one_store_def)
  from conjI [OF this only_writers_change_batches [OF disjI2 [OF one_event_def] this]] show ?thesis
    by (simp add: one_env_def one_store_def sample_moment_def)
qed

theorem cardano_claims_kept_witness:
  "\<exists>f' ps'. map_of (bt_files (bv_batches (batch_run one_env [one_event, Backfill] one_store))) one_key = Some f'
     \<and> bf_json f' = Some (JObj ps') \<and> get_prop (js ''cardanoTxHash'') ps' = Some (JStr one_key)"
proof -
  have "map_of (bt_files (bv_batches one_store)) one_key = Some \<lparr>bf_size = 400, bf_json = Some (JObj one_record)\<rparr>"
    by (simp add: one_store_def)
  then obtain f' ps' where f': "map_of (bt_files (bv_batches (batch_run one_env [one_event, Backfill] one_store))) one_key = Some f'"
      "bf_json f' = Some (JObj ps')"
      "\<forall>k \<in> set CLAIM_FIELDS. \<forall>t. get_prop k one_record = Some (JStr t) \<and> t \<noteq> [] \<longrightarrow> get_prop k ps' = Some (JStr t)"
    using cardano_claims_kept [where s = one_store and d = one_key and ps = one_record and E = one_env and evs = "[one_event, Backfill]"]
      one_hex(2) by (auto simp: BATCH_BYTE_BUDGET_def)
  have "get_prop (js ''cardanoTxHash'') one_record = Some (JStr one_key)" "js ''cardanoTxHash'' \<in> set CLAIM_FIELDS" "one_key \<noteq> []"
    by (simp_all add: one_record_def get_prop_def js_eq_iff CLAIM_FIELDS_def one_key_def)
  with f' show ?thesis by blast
qed

end
