(* ===== verification/Operators.thy ===== *)
theory Operators
  imports Auth JsText
begin

text \<open>
  Invites and registrations of operators, \<open>routes/operators.ts\<close>, with the keys they create in
  \<open>keys.json\<close> and in the key table, and the registration a faucet drip earns
  (\<open>registerOperator\<close> of \<open>routes/faucet.ts\<close>).  Random octets and the clock's text are arguments;
  \<open>bind\<close> is what the SQLite driver stores for a JSON value (\<open>None\<close>: it throws).
\<close>

section \<open>Tables\<close>

record invite_row =
  iv_token_hash :: jsstring
  iv_label :: jsstring
  iv_created_at :: jsstring
  iv_redeemed_at :: "jsstring option"
  iv_redeemed_by :: "jsstring option"
  iv_max_receipts_per_day :: int
  iv_max_bytes_per_day :: int
  iv_max_concurrent_uploads :: int

record operator_identity =
  operatorLabel :: "jsstring option"
  contact :: "jsstring option"
  cardanoPoolId :: "jsstring option"

record registration_row =
  rg_ss58_address :: jsstring
  rg_public_key :: "json option"
  rg_label :: jsstring
  rg_api_key_hash :: jsstring
  rg_invite_token_hash :: jsstring
  rg_registered_at :: jsstring
  rg_approved_at :: "jsstring option"
  rg_status :: jsstring
  rg_session_keys :: "jsstring option"
  rg_peer_id :: "jsstring option"
  rg_identity :: operator_identity

text \<open>The two databases and \<open>keys.json\<close>.\<close>

record registry_state =
  rs_invites :: "invite_row list"
  rs_registrations :: "registration_row list"
  rs_keys_file :: keys_file
  rs_quota :: quota_db

definition no_identity :: operator_identity where
  "no_identity = \<lparr>operatorLabel = None, contact = None, cardanoPoolId = None\<rparr>"

definition empty_registry :: registry_state where
  "empty_registry = \<lparr>rs_invites = [], rs_registrations = [], rs_keys_file = NoKeysFile, rs_quota = empty_quota_db\<rparr>"

section \<open>Invites\<close>

text \<open>The token is shown once; its hash is stored.  \<open>None\<close>: the insertion throws.\<close>

definition createInvite ::
  "bytes \<Rightarrow> jsstring \<Rightarrow> jsstring \<Rightarrow> int option \<Rightarrow> int option \<Rightarrow> int option \<Rightarrow> registry_state
   \<Rightarrow> (jsstring \<times> registry_state) option" where
  "createInvite random now lbl receipts bytesPerDay uploads s =
     (let token = bytes_to_hex random
      in map_option (\<lambda>t. (token, s\<lparr>rs_invites := t\<rparr>))
           (sql_insert iv_token_hash
              \<lparr>iv_token_hash = hashToken token, iv_label = lbl, iv_created_at = now, iv_redeemed_at = None,
               iv_redeemed_by = None, iv_max_receipts_per_day = or_default 500 receipts,
               iv_max_bytes_per_day = or_default 5368709120 bytesPerDay,
               iv_max_concurrent_uploads = or_default 5 uploads\<rparr> (rs_invites s)))"

section \<open>Keys of registered operators\<close>

text \<open>
  What becomes of the read and the write of \<open>keys.json\<close>: all of it is written; or it throws (a
  failed write, or a parsed value that is no array), with the file cut short or as it was.
\<close>

datatype append_outcome = Appended | AppendThrows bool

definition registered_entry :: "jsstring \<Rightarrow> jsstring \<Rightarrow> jsstring \<Rightarrow> invite_row \<Rightarrow> key_entry" where
  "registered_entry kh lbl vid invite =
     \<lparr>ke_keyHash = kh, ke_name = lbl, ke_enabled = Some True,
      ke_maxReceiptsPerDay = Some (iv_max_receipts_per_day invite),
      ke_maxBytesPerDay = Some (iv_max_bytes_per_day invite),
      ke_maxConcurrentUploads = Some (iv_max_concurrent_uploads invite),
      ke_validatorId = Some vid, ke_boundValidatorAura = None\<rparr>"

text \<open>A file that cannot be parsed is replaced by one with the new entry only.\<close>

definition appendToKeysFile ::
  "append_outcome \<Rightarrow> jsstring \<Rightarrow> jsstring \<Rightarrow> jsstring \<Rightarrow> invite_row \<Rightarrow> keys_file \<Rightarrow> bool \<times> keys_file" where
  "appendToKeysFile outcome kh lbl vid invite file =
     (case outcome of
        AppendThrows short \<Rightarrow> (False, if short then UnreadableKeysFile else file)
      | Appended \<Rightarrow>
          (True, KeysFile ((case file of KeysFile ks \<Rightarrow> ks | _ \<Rightarrow> []) @ [registered_entry kh lbl vid invite])))"

text \<open>The \<open>DO UPDATE\<close> clause here leaves a binding alone.\<close>

definition merge_registered :: "api_key_row \<Rightarrow> api_key_row \<Rightarrow> api_key_row" where
  "merge_registered old new =
     old\<lparr>key_name := key_name new, enabled := enabled new,
         max_receipts_per_day := max_receipts_per_day new, max_bytes_per_day := max_bytes_per_day new,
         max_concurrent_uploads := max_concurrent_uploads new, validator_id := validator_id new\<rparr>"

text \<open>\<open>initQuotaDb\<close> has created \<open>quota.db\<close> before the first request.\<close>

definition upsertApiKey :: "jsstring \<Rightarrow> jsstring \<Rightarrow> jsstring \<Rightarrow> invite_row \<Rightarrow> quota_db \<Rightarrow> quota_db" where
  "upsertApiKey kh lbl vid invite db =
     db\<lparr>api_keys := sql_upsert key_hash merge_registered
          ((new_key_row kh lbl (Some vid))
             \<lparr>max_receipts_per_day := iv_max_receipts_per_day invite,
              max_bytes_per_day := iv_max_bytes_per_day invite,
              max_concurrent_uploads := iv_max_concurrent_uploads invite\<rparr>) (api_keys db)\<rparr>"

section \<open>POST /operators/register\<close>

datatype operator_reply =
    InvalidBody
  | BadField jsstring
  | InvalidSs58
  | UnknownInvite
  | InviteRedeemed "jsstring option"
  | AlreadyRegistered jsstring
  | OperatorFailed
  | OperatorRegistered jsstring jsstring jsstring
  | MissingApiKey
  | AddressAsApiKey
  | NotRegistered
  | WrongApiKey
  | BadSessionKeys
  | SessionKeysStored jsstring "jsstring option"

text \<open>A property of a parsed body; arrays have none of those the routes read.\<close>

definition body_prop :: "string \<Rightarrow> json \<Rightarrow> json option" where
  "body_prop k body = (case body of JObj ps \<Rightarrow> get_prop (js k) ps | _ \<Rightarrow> None)"

text \<open>\<open>typeof v === "string"\<close> and not empty.\<close>

definition full_text :: "json option \<Rightarrow> jsstring option" where
  "full_text v = (case v of Some (JStr t) \<Rightarrow> (if t = [] then None else Some t) | _ \<Rightarrow> None)"

definition operator_label :: "json option \<Rightarrow> jsstring" where
  "operator_label v =
     (case v of
        Some (JStr t) \<Rightarrow> if js_trim t = [] then js ''operator'' else take 64 (js_trim t)
      | _ \<Rightarrow> js ''operator'')"

text \<open>\<open>public_key || null\<close>, as the driver stores it.\<close>

definition bind_public_key :: "(json \<Rightarrow> json option option) \<Rightarrow> json option \<Rightarrow> json option option" where
  "bind_public_key bind v = (case v of None \<Rightarrow> Some None | Some j \<Rightarrow> if truthy j then bind j else Some None)"

text \<open>The transaction: mark the invite, insert the registration.  \<open>None\<close>: rolled back.\<close>

definition redeem_invite ::
  "jsstring \<Rightarrow> jsstring \<Rightarrow> json option \<Rightarrow> jsstring \<Rightarrow> jsstring \<Rightarrow> jsstring \<Rightarrow> registry_state \<Rightarrow> registry_state option" where
  "redeem_invite now address publicKey lbl kh tokenHash s =
     map_option (\<lambda>t. s\<lparr>rs_registrations := t,
           rs_invites := sql_update (\<lambda>r. iv_token_hash r = tokenHash)
             (\<lambda>r. r\<lparr>iv_redeemed_at := Some now, iv_redeemed_by := Some address\<rparr>) (rs_invites s)\<rparr>)
       (sql_insert rg_ss58_address
          \<lparr>rg_ss58_address = address, rg_public_key = publicKey, rg_label = lbl, rg_api_key_hash = kh,
           rg_invite_token_hash = tokenHash, rg_registered_at = now, rg_approved_at = None,
           rg_status = js ''registered'', rg_session_keys = None, rg_peer_id = None, rg_identity = no_identity\<rparr>
          (rs_registrations s))"

definition postRegister ::
  "polkadot \<Rightarrow> (json \<Rightarrow> json option option) \<Rightarrow> bytes \<Rightarrow> jsstring \<Rightarrow> append_outcome \<Rightarrow> json option \<Rightarrow> registry_state
   \<Rightarrow> operator_reply \<times> registry_state" where
  "postRegister P bind random now outcome body s =
     (case body of
        None \<Rightarrow> (InvalidBody, s)
      | Some b \<Rightarrow>
          if as_object b = None \<and> (\<forall>vs. b \<noteq> JArr vs) then (InvalidBody, s)
          else case full_text (body_prop ''invite_token'' b) of
            None \<Rightarrow> (BadField (js ''invite_token''), s)
          | Some inviteToken \<Rightarrow>
              (case full_text (body_prop ''ss58_address'' b) of
                 None \<Rightarrow> (BadField (js ''ss58_address''), s)
               | Some ss58 \<Rightarrow>
                   (case normalizeSs58 P (JStr ss58) of
                      Inl _ \<Rightarrow> (InvalidSs58, s)
                    | Inr address \<Rightarrow>
                        let lbl = operator_label (body_prop ''label'' b); tokenHash = hashToken inviteToken
                        in (case sql_get (\<lambda>r. iv_token_hash r = tokenHash) (rs_invites s) of
                              None \<Rightarrow> (UnknownInvite, s)
                            | Some invite \<Rightarrow>
                                if non_empty (iv_redeemed_at invite) \<noteq> None then (InviteRedeemed (iv_redeemed_by invite), s)
                                else case sql_get (\<lambda>r. rg_ss58_address r = address) (rs_registrations s) of
                                  Some r \<Rightarrow> (AlreadyRegistered (rg_status r), s)
                                | None \<Rightarrow>
                                    let apiKey = bytes_to_hex random; kh = hashToken apiKey
                                    in (case Option.bind (bind_public_key bind (body_prop ''public_key'' b))
                                              (\<lambda>pk. redeem_invite now address pk lbl kh tokenHash s) of
                                          None \<Rightarrow> (OperatorFailed, s)
                                        | Some s1 \<Rightarrow>
                                            let (ok, file) = appendToKeysFile outcome kh lbl address invite (rs_keys_file s1);
                                                s2 = s1\<lparr>rs_keys_file := file\<rparr>
                                            in if \<not> ok then (OperatorFailed, s2)
                                               else (OperatorRegistered address lbl apiKey,
                                                     s2\<lparr>rs_quota := upsertApiKey kh lbl address invite (rs_quota s2)\<rparr>))))))"

section \<open>PATCH /operators/:ss58/session-keys\<close>

text \<open>\<open>/^0x[0-9a-fA-F]{128}$/\<close>\<close>

definition session_keys_shape :: "jsstring \<Rightarrow> bool" where
  "session_keys_shape t \<longleftrightarrow> starts_with t (js ''0x'') \<and> re_any_hex 128 (drop 2 t)"

definition patchSessionKeys ::
  "polkadot \<Rightarrow> jsstring \<Rightarrow> json option \<Rightarrow> registry_state \<Rightarrow> operator_reply \<times> registry_state" where
  "patchSessionKeys P pathSs58 body s =
     (case body of
        None \<Rightarrow> (OperatorFailed, s)
      | Some b \<Rightarrow>
          let ss58 = lookupSs58 P pathSs58
          in (case full_text (body_prop ''api_key'' b) of
                None \<Rightarrow> (MissingApiKey, s)
              | Some apiKey \<Rightarrow>
                  if isAccountAddress P apiKey then (AddressAsApiKey, s)
                  else case sql_get (\<lambda>r. rg_ss58_address r = ss58) (rs_registrations s) of
                    None \<Rightarrow> (NotRegistered, s)
                  | Some r \<Rightarrow>
                      if rg_api_key_hash r \<noteq> hashToken apiKey then (WrongApiKey, s)
                      else case full_text (body_prop ''session_keys'' b) of
                        None \<Rightarrow> (BadSessionKeys, s)
                      | Some keys \<Rightarrow>
                          if \<not> session_keys_shape keys then (BadSessionKeys, s)
                          else let peer = (case body_prop ''peer_id'' b of
                                             Some (JStr t) \<Rightarrow> non_empty (Some (js_trim t)) | _ \<Rightarrow> None)
                               in (SessionKeysStored ss58 peer,
                                   s\<lparr>rs_registrations := sql_update (\<lambda>r. rg_ss58_address r = ss58)
                                       (\<lambda>r. r\<lparr>rg_session_keys := Some keys, rg_peer_id := peer\<rparr>)
                                       (rs_registrations s)\<rparr>)))"

section \<open>A registration whose key is lost\<close>

text \<open>
  The invite and the registration are committed before \<open>keys.json\<close> is written.  If that write
  throws, the caller gets an internal error and no key, the key table has none either, and
  whoever posts the same body again is told that the invite has been redeemed.
\<close>

theorem register_lost:
  assumes "postRegister P bind random now (AppendThrows short) (Some (JObj ps)) s = (OperatorFailed, s')"
    and "rs_registrations s' \<noteq> rs_registrations s" "now \<noteq> []"
  shows "rs_quota s' = rs_quota s
    \<and> (\<exists>address. postRegister P bind random' now' outcome (Some (JObj ps)) s' = (InviteRedeemed (Some address), s'))"
proof -
  note h = assms(1) [unfolded postRegister_def]
  obtain t where t: "full_text (body_prop ''invite_token'' (JObj ps)) = Some t"
    using h by (cases "full_text (body_prop ''invite_token'' (JObj ps))") simp_all
  obtain a where a: "full_text (body_prop ''ss58_address'' (JObj ps)) = Some a"
    using h t by (cases "full_text (body_prop ''ss58_address'' (JObj ps))") simp_all
  obtain c where c: "normalizeSs58 P (JStr a) = Inr c"
    using h t a by (cases "normalizeSs58 P (JStr a)") simp_all
  obtain inv where inv: "sql_get (\<lambda>r. iv_token_hash r = hashToken t) (rs_invites s) = Some inv"
    using h t a c by (cases "sql_get (\<lambda>r. iv_token_hash r = hashToken t) (rs_invites s)") (simp_all add: Let_def)
  have s': "rs_quota s' = rs_quota s" "rs_invites s' = sql_update (\<lambda>r. iv_token_hash r = hashToken t)
        (\<lambda>r. r\<lparr>iv_redeemed_at := Some now, iv_redeemed_by := Some c\<rparr>) (rs_invites s)"
    using h t a c inv assms(2)
    by (auto simp: Let_def redeem_invite_def appendToKeysFile_def bind_eq_Some_conv split: option.splits if_splits)
  have "sql_get (\<lambda>r. iv_token_hash r = hashToken t) (rs_invites s') =
      Some (inv\<lparr>iv_redeemed_at := Some now, iv_redeemed_by := Some c\<rparr>)"
    unfolding s'(2) using sql_get_SomeD [OF inv]
    by (subst sql_get_update_key) (simp_all add: inv)
  then have "postRegister P bind random' now' outcome (Some (JObj ps)) s' = (InviteRedeemed (Some c), s')"
    using assms(3) by (simp add: postRegister_def Let_def t a c non_empty_def)
  with s'(1) show ?thesis by blast
qed

section \<open>Registrations of faucet drips\<close>

text \<open>\<open>created\<close> is whether the address had no row.\<close>

definition recordFaucetRegistration ::
  "jsstring \<Rightarrow> jsstring \<Rightarrow> jsstring \<Rightarrow> operator_identity \<Rightarrow> registry_state \<Rightarrow> bool \<times> registry_state" where
  "recordFaucetRegistration now address kh identity s =
     (address \<notin> rg_ss58_address ` set (rs_registrations s),
      s\<lparr>rs_registrations := sql_insert_or_ignore rg_ss58_address
          \<lparr>rg_ss58_address = address, rg_public_key = Some (JStr []), rg_label = js ''faucet-attestor'',
           rg_api_key_hash = kh, rg_invite_token_hash = [], rg_registered_at = now, rg_approved_at = Some now,
           rg_status = js ''approved'', rg_session_keys = None, rg_peer_id = None, rg_identity = identity\<rparr>
          (rs_registrations s)\<rparr>)"

text \<open>\<open>None\<close>: the insertion of the key throws; the registration has been made.\<close>

definition registerOperator ::
  "bytes \<Rightarrow> jsstring \<Rightarrow> jsstring \<Rightarrow> operator_identity \<Rightarrow> registry_state \<Rightarrow> bool option \<times> registry_state" where
  "registerOperator random now address identity s =
     (let kh = unguessableKeyHash random;
          (created, s1) = recordFaucetRegistration now address kh identity s
      in case ensureFaucetApiKey address kh (rs_quota s1) of
           None \<Rightarrow> (None, s1)
         | Some db \<Rightarrow> (Some created, s1\<lparr>rs_quota := db\<rparr>))"

text \<open>\<open>random i\<close> are the octets drawn for the \<open>i\<close>th row whose key is its own address.\<close>

definition guessable_registrations :: "registry_state \<Rightarrow> registration_row list" where
  "guessable_registrations s = filter (\<lambda>r. rg_api_key_hash r = hashToken (rg_ss58_address r)) (rs_registrations s)"

definition retireAddressDerivedRegistrationKeys :: "(nat \<Rightarrow> bytes) \<Rightarrow> registry_state \<Rightarrow> nat \<times> registry_state" where
  "retireAddressDerivedRegistrationKeys random s =
     (let rs = guessable_registrations s
      in (length rs,
          s\<lparr>rs_registrations := fold (\<lambda>i. sql_update (\<lambda>r. rg_ss58_address r = rg_ss58_address (rs ! i))
                (rg_api_key_hash_update (\<lambda>_. unguessableKeyHash (random i)))) [0..<length rs] (rs_registrations s)\<rparr>))"

section \<open>Every writer of the key table\<close>

text \<open>
  The operations of the two databases in any order: the steps of a start (the key file, the two
  retirements), an administrator putting another \<open>keys.json\<close> in place, registrations, invites,
  session keys, bindings, usage, and \<open>OtherTables\<close> for the upload counters and signatures, which
  share the database with the key table.  A step that throws leaves what it had done.
\<close>

datatype registry_op =
    LoadKeys "jsstring option"
  | RetireKeys "nat \<Rightarrow> bytes"
  | RetireRegistrationKeys "nat \<Rightarrow> bytes"
  | ReplaceKeysFile keys_file
  | FaucetDrip bytes jsstring jsstring operator_identity
  | Register bytes jsstring append_outcome "json option"
  | CreateInvite bytes jsstring jsstring "int option" "int option" "int option"
  | SessionKeys jsstring "json option"
  | BindAura jsstring jsstring
  | ClearAura jsstring
  | Usage jsstring int int int
  | OtherTables quota_db

definition on_quota :: "(quota_db \<Rightarrow> quota_db) \<Rightarrow> registry_state \<Rightarrow> registry_state" where
  "on_quota f s = s\<lparr>rs_quota := f (rs_quota s)\<rparr>"

fun registry_step :: "polkadot \<Rightarrow> (json \<Rightarrow> json option option) \<Rightarrow> registry_op \<Rightarrow> registry_state \<Rightarrow> registry_state" where
  "registry_step P bind (LoadKeys apiKey) s = on_quota (loadKeys (rs_keys_file s) apiKey) s"
| "registry_step P bind (RetireKeys random) s =
     on_quota (\<lambda>db. case retireAddressDerivedApiKeys random db of None \<Rightarrow> db | Some (retired, db') \<Rightarrow> db') s"
| "registry_step P bind (RetireRegistrationKeys random) s = snd (retireAddressDerivedRegistrationKeys random s)"
| "registry_step P bind (ReplaceKeysFile f) s = s\<lparr>rs_keys_file := f\<rparr>"
| "registry_step P bind (FaucetDrip random now address identity) s = snd (registerOperator random now address identity s)"
| "registry_step P bind (Register random now outcome body) s = snd (postRegister P bind random now outcome body s)"
| "registry_step P bind (CreateInvite random now lbl receipts bytesPerDay uploads) s =
     (case createInvite random now lbl receipts bytesPerDay uploads s of None \<Rightarrow> s | Some (token, s') \<Rightarrow> s')"
| "registry_step P bind (SessionKeys ss58 body) s = snd (patchSessionKeys P ss58 body s)"
| "registry_step P bind (BindAura kh aura) s = on_quota (\<lambda>db. snd (bindValidatorAura kh aura db)) s"
| "registry_step P bind (ClearAura kh) s = on_quota (\<lambda>db. snd (clearValidatorAuraBinding kh db)) s"
| "registry_step P bind (Usage kh b rc now) s = on_quota (recordUsage kh b rc now) s"
| "registry_step P bind (OtherTables db) s = on_quota (\<lambda>old. db\<lparr>api_keys := api_keys old\<rparr>) s"

text \<open>Octets drawn to stand as a key hash, and octets drawn to be a key.\<close>

fun drawn_hashes :: "registry_op \<Rightarrow> bytes set" where
  "drawn_hashes (RetireKeys random) = range random"
| "drawn_hashes (RetireRegistrationKeys random) = range random"
| "drawn_hashes (FaucetDrip random now address identity) = {random}"
| "drawn_hashes _ = {}"

fun drawn_keys :: "registry_op \<Rightarrow> bytes set" where
  "drawn_keys (Register random now outcome body) = {random}"
| "drawn_keys _ = {}"

text \<open>
  A text whose SHA-256 is a key hash that came about by chance: the octets drawn for the hash are
  that digest, or the text of a drawn key is that very text or collides with it.
\<close>

definition by_chance :: "bytes set \<Rightarrow> bytes set \<Rightarrow> jsstring \<Rightarrow> bool" where
  "by_chance H K v \<longleftrightarrow>
     sha256 (utf8_encode v) \<in> H
     \<or> (\<exists>b \<in> K. utf8_encode (bytes_to_hex b) = utf8_encode v
               \<or> sha_collision (utf8_encode (bytes_to_hex b)) (utf8_encode v))"

lemma by_chance_mono: "by_chance H K v \<Longrightarrow> H \<subseteq> H' \<Longrightarrow> K \<subseteq> K' \<Longrightarrow> by_chance H' K' v"
  by (auto simp: by_chance_def)

lemma drawn_hash: "unguessableKeyHash b = hashKey v \<Longrightarrow> b \<in> H \<Longrightarrow> by_chance H K v"
  by (simp add: by_chance_def unguessableKeyHash_def hashKey_def sha256_hex_def bytes_to_hex_inj)

lemma drawn_key: "hashToken (bytes_to_hex b) = hashKey v \<Longrightarrow> b \<in> K \<Longrightarrow> by_chance H K v"
  unfolding by_chance_def hashToken_def hashKey_def sha256_hex_eq using sha256_eqD by blast

text \<open>The invariant: a key that is the hash of its own address is one by chance.\<close>

definition key_safe :: "bytes set \<Rightarrow> bytes set \<Rightarrow> jsstring \<Rightarrow> jsstring option \<Rightarrow> bool" where
  "key_safe H K kh vid \<longleftrightarrow> (isAddressDerived kh vid \<longrightarrow> by_chance H K (or_default [] vid))"

definition rows_safe :: "bytes set \<Rightarrow> bytes set \<Rightarrow> api_key_row list \<Rightarrow> bool" where
  "rows_safe H K t \<longleftrightarrow> unique_key key_hash t \<and> (\<forall>r \<in> set t. key_safe H K (key_hash r) (validator_id r))"

definition registrations_safe :: "bytes set \<Rightarrow> bytes set \<Rightarrow> registration_row list \<Rightarrow> bool" where
  "registrations_safe H K t \<longleftrightarrow>
     (\<forall>r \<in> set t. rg_api_key_hash r = hashToken (rg_ss58_address r) \<longrightarrow> by_chance H K (rg_ss58_address r))"

lemma rows_safe_mono: "rows_safe H K t \<Longrightarrow> H \<subseteq> H' \<Longrightarrow> K \<subseteq> K' \<Longrightarrow> rows_safe H' K' t"
  by (auto simp: rows_safe_def key_safe_def intro: by_chance_mono)

lemma registrations_safe_mono: "registrations_safe H K t \<Longrightarrow> H \<subseteq> H' \<Longrightarrow> K \<subseteq> K' \<Longrightarrow> registrations_safe H' K' t"
  by (auto simp: registrations_safe_def intro: by_chance_mono)

lemma key_safe_drawn:
  "b \<in> H \<Longrightarrow> key_safe H K (unguessableKeyHash b) vid"
  "b \<in> K \<Longrightarrow> key_safe H K (hashToken (bytes_to_hex b)) vid"
  by (auto simp: key_safe_def isAddressDerived_def or_default_def split: option.splits intro: drawn_hash drawn_key)

lemma rows_safe_upsert:
  assumes "rows_safe H K t" "key_safe H K (key_hash r) (validator_id r)"
    and "\<And>r'. key_hash r' = key_hash r \<Longrightarrow> key_hash (upd r' r) = key_hash r \<and> validator_id (upd r' r) = validator_id r"
  shows "rows_safe H K (sql_upsert key_hash upd r t)"
  using assms unique_key_upsert [of key_hash t r upd]
  by (auto simp: rows_safe_def sql_upsert_def split: if_splits)

lemma rows_safe_insert:
  "rows_safe H K t \<Longrightarrow> key_safe H K (key_hash r) (validator_id r) \<Longrightarrow> sql_insert key_hash r t = Some t' \<Longrightarrow> rows_safe H K t'"
  by (auto simp: rows_safe_def sql_insert_def unique_key_def split: if_splits)

lemma rows_safe_update:
  "rows_safe H K t \<Longrightarrow> (\<And>r. key_hash (f r) = key_hash r \<and> validator_id (f r) = validator_id r) \<Longrightarrow> rows_safe H K (sql_update p f t)"
  by (auto simp: rows_safe_def set_sql_update)

subsection \<open>The operations keep it\<close>

lemma rows_safe_load:
  assumes "rows_safe H K (api_keys db)"
  shows "rows_safe H K (api_keys (loadKeys f apiKey db))"
proof -
  have up: "rows_safe H K (upsert_entry k t)"
    if "rows_safe H K t" "\<not> isAddressDerived (ke_keyHash k) (ke_validatorId k)" for k t
    unfolding upsert_entry_def
    using that by (intro rows_safe_upsert) (auto simp: key_safe_def entry_row_def new_key_row_def merge_key_row_def)
  have "rows_safe H K (fold upsert_entry ks t)"
    if "rows_safe H K t" "\<forall>k \<in> set ks. \<not> isAddressDerived (ke_keyHash k) (ke_validatorId k)" for ks t
    using that by (induction ks arbitrary: t) (auto intro: up)
  moreover have "rows_safe H K (sql_insert_or_ignore key_hash (new_key_row kh n None) (api_keys db))" for kh n
    using assms
    by (auto simp: rows_safe_def key_safe_def isAddressDerived_def new_key_row_def sql_insert_or_ignore_def unique_key_def)
  ultimately show ?thesis
    using assms by (simp add: loadKeys_def Let_def split: keys_file.split option.split)
qed

lemma rows_safe_rekey:
  assumes "rekey (unguessableKeyHash b) old db = Some db'" "rows_safe H K (api_keys db)" "b \<in> H"
  shows "rows_safe H K (api_keys db')"
proof -
  let ?new = "unguessableKeyHash b" and ?t = "api_keys db"
  let ?f = "\<lambda>r. if key_hash r = old then r\<lparr>key_hash := ?new\<rparr> else r"
  have r: "?new \<notin> key_hash ` set ?t" "api_keys db' = map ?f ?t"
    using rekey_api_keys [OF assms(1)] by (auto simp: sql_update_def)
  have inj: "inj_on (\<lambda>k. if k = old then n else k) S" if "n \<notin> S" for n :: jsstring and S
    using that by (auto simp: inj_on_def)
  have "inj_on (\<lambda>k. if k = old then ?new else k) (key_hash ` set ?t)" by (rule inj) (rule r(1))
  then have "distinct (map (\<lambda>k. if k = old then ?new else k) (map key_hash ?t))"
    using assms(2) by (simp only: distinct_map set_map rows_safe_def unique_key_def)
  moreover have "map key_hash (api_keys db') = map (\<lambda>k. if k = old then ?new else k) (map key_hash ?t)"
    by (simp add: r(2))
  ultimately have "unique_key key_hash (api_keys db')" unfolding unique_key_def by (simp only:)
  moreover have "key_safe H K (key_hash (?f r)) (validator_id (?f r))" if "r \<in> set ?t" for r
    using that assms(2) key_safe_drawn(1) [OF assms(3)] by (simp add: rows_safe_def)
  ultimately show ?thesis unfolding rows_safe_def r(2) set_map by blast
qed

lemma rows_safe_rekey_all:
  "rekey_all (map (\<lambda>i. (unguessableKeyHash (random i), old i)) ks) db = Some db' \<Longrightarrow> rows_safe H K (api_keys db)
   \<Longrightarrow> range random \<subseteq> H \<Longrightarrow> rows_safe H K (api_keys db')"
  by (induction ks arbitrary: db) (auto split: option.splits intro: rows_safe_rekey)

lemma rows_safe_retire:
  assumes "retireAddressDerivedApiKeys random db = Some (retired, db')" "rows_safe H K (api_keys db)" "range random \<subseteq> H"
  shows "rows_safe H K (api_keys db')"
  using assms rows_safe_rekey_all [OF _ assms(2,3)]
  by (auto simp: retireAddressDerivedApiKeys_def Let_def split: option.splits)

lemma rows_safe_faucet:
  assumes "ensureFaucetApiKey vid (unguessableKeyHash b) db = Some db'" "rows_safe H K (api_keys db)" "b \<in> H"
  shows "rows_safe H K (api_keys db')"
proof -
  have "key_safe H K (key_hash (new_key_row (unguessableKeyHash b) n (Some vid)))
      (validator_id (new_key_row (unguessableKeyHash b) n (Some vid)))" for n
    using key_safe_drawn(1) [OF assms(3)] by (simp add: new_key_row_def)
  note new = rows_safe_insert [OF assms(2) this]
  show ?thesis
    using assms(1,2) by (auto simp: ensureFaucetApiKey_def split: if_splits dest: new)
qed

lemma rows_safe_register:
  assumes "rows_safe H K (api_keys db)" "b \<in> K"
  shows "rows_safe H K (api_keys (upsertApiKey (hashToken (bytes_to_hex b)) lbl vid invite db))"
  using assms key_safe_drawn(2) [OF assms(2), of H "Some vid"]
  by (auto simp: upsertApiKey_def new_key_row_def merge_registered_def intro!: rows_safe_upsert)

text \<open>What a registration leaves: the table of keys with or without the new one, and likewise the registrations.\<close>

lemma postRegister_effect:
  assumes "postRegister P bind random now outcome body s = (reply, s')"
  shows "(api_keys (rs_quota s') = api_keys (rs_quota s)
      \<or> (\<exists>lbl vid invite. rs_quota s' = upsertApiKey (hashToken (bytes_to_hex random)) lbl vid invite (rs_quota s)))
    \<and> (\<forall>r \<in> set (rs_registrations s'). r \<in> set (rs_registrations s) \<or> rg_api_key_hash r = hashToken (bytes_to_hex random))"
  using assms
  by (auto simp: postRegister_def Let_def redeem_invite_def sql_insert_def appendToKeysFile_def bind_eq_Some_conv
      split: option.splits if_splits sum.splits append_outcome.splits prod.splits) blast+

lemma registrations_safe_retire:
  assumes "registrations_safe H K (rs_registrations s)" "range random \<subseteq> H"
  shows "registrations_safe H K (rs_registrations (snd (retireAddressDerivedRegistrationKeys random s)))"
proof -
  have "registrations_safe H K (fold (\<lambda>i. sql_update (\<lambda>r. rg_ss58_address r = a i)
      (rg_api_key_hash_update (\<lambda>_. unguessableKeyHash (random i)))) ks t)" if "registrations_safe H K t" for a ks t
    using that
  proof (induction ks arbitrary: t)
    case (Cons i ks)
    have "by_chance H K v" if "unguessableKeyHash (random i) = hashToken v" for v
      using that drawn_hash [of "random i" v H K] assms(2) by (auto simp: hashToken_def hashKey_def)
    then have "registrations_safe H K (sql_update (\<lambda>r. rg_ss58_address r = a i)
        (rg_api_key_hash_update (\<lambda>_. unguessableKeyHash (random i))) t)"
      using Cons.prems by (auto simp: registrations_safe_def set_sql_update)
    then show ?case using Cons.IH by simp
  qed simp
  then show ?thesis using assms(1) by (simp add: retireAddressDerivedRegistrationKeys_def Let_def)
qed

definition registry_safe :: "bytes set \<Rightarrow> bytes set \<Rightarrow> registry_state \<Rightarrow> bool" where
  "registry_safe H K s \<longleftrightarrow> rows_safe H K (api_keys (rs_quota s)) \<and> registrations_safe H K (rs_registrations s)"

lemma registry_safe_faucet:
  assumes "registry_safe H K s" "random \<in> H"
  shows "registry_safe H K (snd (registerOperator random now address identity s))"
proof -
  let ?kh = "unguessableKeyHash random"
  let ?s1 = "snd (recordFaucetRegistration now address ?kh identity s)"
  have "by_chance H K v" if "?kh = hashToken v" for v
    using that drawn_hash [OF _ assms(2), of v K] by (simp add: hashToken_def hashKey_def)
  then have "registrations_safe H K (rs_registrations ?s1)"
    using assms(1) by (auto simp: registry_safe_def registrations_safe_def recordFaucetRegistration_def sql_insert_or_ignore_def)
  moreover have same: "rs_quota ?s1 = rs_quota s" by (simp add: recordFaucetRegistration_def)
  moreover have "rows_safe H K (api_keys db')" if "ensureFaucetApiKey address ?kh (rs_quota s) = Some db'" for db'
    using rows_safe_faucet [OF that _ assms(2)] assms(1) by (simp add: registry_safe_def)
  ultimately show ?thesis
    using assms(1)
    by (auto simp: registerOperator_def registry_safe_def Let_def split: option.splits prod.splits)
qed

lemma registry_safe_session_keys:
  "registry_safe H K s \<Longrightarrow> registry_safe H K (snd (patchSessionKeys P ss58 body s))"
  by (auto simp: patchSessionKeys_def Let_def registry_safe_def registrations_safe_def set_sql_update
      split: option.splits if_splits)

lemma registry_safe_register:
  assumes "registry_safe H K s" "random \<in> K"
  shows "registry_safe H K (snd (postRegister P bind random now outcome body s))"
proof -
  obtain reply s' where r: "postRegister P bind random now outcome body s = (reply, s')" by force
  have new: "by_chance H K v" if "hashToken (bytes_to_hex random) = hashToken v" for v
    using that drawn_key [OF _ assms(2), of v H] by (simp add: hashToken_def hashKey_def)
  have "registrations_safe H K (rs_registrations s')"
    unfolding registrations_safe_def
  proof (intro ballI impI)
    fix g assume g: "g \<in> set (rs_registrations s')" "rg_api_key_hash g = hashToken (rg_ss58_address g)"
    then have "g \<in> set (rs_registrations s) \<or> rg_api_key_hash g = hashToken (bytes_to_hex random)"
      using postRegister_effect [OF r] by blast
    then show "by_chance H K (rg_ss58_address g)"
      using g(2) new assms(1) by (auto simp: registry_safe_def registrations_safe_def)
  qed
  moreover have "rows_safe H K (api_keys (rs_quota s'))"
    using postRegister_effect [OF r] assms rows_safe_register [of H K "rs_quota s" random]
    by (auto simp: registry_safe_def)
  ultimately show ?thesis by (simp add: r registry_safe_def)
qed

lemma registry_safe_step:
  assumes "registry_safe H K s" "drawn_hashes op \<subseteq> H" "drawn_keys op \<subseteq> K"
  shows "registry_safe H K (registry_step P bind op s)"
proof -
  have quota: "registry_safe H K (on_quota f s)" if "rows_safe H K (api_keys (f (rs_quota s)))" for f
    using that assms(1) by (simp add: registry_safe_def on_quota_def)
  have rows: "rows_safe H K (api_keys (rs_quota s))" using assms(1) by (simp add: registry_safe_def)
  show ?thesis
  proof (cases op)
    case (LoadKeys k)
    show ?thesis unfolding LoadKeys registry_step.simps by (intro quota rows_safe_load rows)
  next
    case (RetireKeys random)
    have "range random \<subseteq> H" using assms(2) RetireKeys by simp
    then show ?thesis unfolding RetireKeys registry_step.simps
      by (intro quota) (auto split: option.split intro: rows_safe_retire rows)
  next
    case (RetireRegistrationKeys random)
    have "range random \<subseteq> H" using assms(2) RetireRegistrationKeys by simp
    moreover have "rs_quota (snd (retireAddressDerivedRegistrationKeys random s)) = rs_quota s"
      by (simp add: retireAddressDerivedRegistrationKeys_def Let_def)
    ultimately show ?thesis
      using assms(1) registrations_safe_retire [of H K s random]
      by (simp add: RetireRegistrationKeys registry_safe_def)
  next
    case (FaucetDrip random now address identity)
    then show ?thesis using assms by (simp add: registry_safe_faucet)
  next
    case (Register random now outcome body)
    then show ?thesis using assms by (simp add: registry_safe_register)
  next
    case (CreateInvite random now lbl a b c)
    have "rs_quota s' = rs_quota s \<and> rs_registrations s' = rs_registrations s"
      if "createInvite random now lbl a b c s = Some (token, s')" for token s'
      using that by (auto simp: createInvite_def Let_def)
    then show ?thesis using assms(1)
      by (auto simp: CreateInvite registry_safe_def split: option.split)
  next
    case (BindAura kh aura)
    show ?thesis unfolding BindAura registry_step.simps
      by (intro quota) (auto simp: bindValidatorAura_def intro!: rows_safe_update rows)
  next
    case (ClearAura kh)
    show ?thesis unfolding ClearAura registry_step.simps
      by (intro quota) (auto simp: clearValidatorAuraBinding_def intro!: rows_safe_update rows)
  next
    case (Usage kh b rc now)
    show ?thesis unfolding Usage registry_step.simps
      by (intro quota) (auto simp: recordUsage_def Let_def intro!: rows_safe_update rows)
  next
    case (OtherTables db)
    show ?thesis unfolding OtherTables registry_step.simps by (intro quota) (simp add: rows)
  next
    case (SessionKeys ss58 body)
    then show ?thesis using assms(1) by (simp add: registry_safe_session_keys)
  qed (use assms(1) in \<open>simp add: registry_safe_def\<close>)
qed

lemma registry_safe_run:
  "registry_safe H K s \<Longrightarrow> (\<Union>op \<in> set ops. drawn_hashes op) \<subseteq> H \<Longrightarrow> (\<Union>op \<in> set ops. drawn_keys op) \<subseteq> K
   \<Longrightarrow> registry_safe H K (fold (registry_step P bind) ops s)"
  by (induction ops arbitrary: s) (auto intro: registry_safe_step)

text \<open>C29: No operation of the gateway brings a guessable key back.  Start with key hashes unique and
  no key or registration that is the SHA-256 of its own address.  After any sequence of key-file
  loads and replacements, retirements, faucet registrations, registrations by invite, bindings and
  usage updates, key hashes are unique, and a key or registration that is the hash of its own
  address is one by chance only: random octets drawn for a stored hash are the SHA-256 of that
  address, or the text of a key drawn for an operator is that address or collides with it.\<close>

theorem keys_never_guessable:
  assumes "unique_key key_hash (api_keys (rs_quota s))" "guessable (rs_quota s) = []" "guessable_registrations s = []"
    and "s' = fold (registry_step P bind) ops s"
    and "H = (\<Union>op \<in> set ops. drawn_hashes op)" "K = (\<Union>op \<in> set ops. drawn_keys op)"
  shows "unique_key key_hash (api_keys (rs_quota s'))
    \<and> (\<forall>r \<in> set (guessable (rs_quota s')). \<exists>v. validator_id r = Some v \<and> by_chance H K v)
    \<and> (\<forall>r \<in> set (guessable_registrations s'). by_chance H K (rg_ss58_address r))"
proof -
  have "registry_safe H K s"
    using assms(1-3)
    by (auto simp: registry_safe_def rows_safe_def key_safe_def registrations_safe_def guessable_def
        guessable_registrations_def filter_empty_conv)
  then have "registry_safe H K s'" unfolding assms(4) by (rule registry_safe_run) (simp_all add: assms(5,6))
  then have safe: "rows_safe H K (api_keys (rs_quota s'))" "registrations_safe H K (rs_registrations s')"
    by (simp_all add: registry_safe_def)
  have "\<exists>v. validator_id r = Some v \<and> by_chance H K v" if "r \<in> set (guessable (rs_quota s'))" for r
  proof -
    have "isAddressDerived (key_hash r) (validator_id r)" "by_chance H K (or_default [] (validator_id r))"
      using that safe(1) by (auto simp: guessable_set rows_safe_def key_safe_def)
    then show ?thesis by (cases "validator_id r") (simp_all add: isAddressDerived_def or_default_def)
  qed
  with safe show ?thesis by (simp add: rows_safe_def registrations_safe_def guessable_registrations_def)
qed

definition guessable_entry :: key_entry where
  "guessable_entry = \<lparr>ke_keyHash = hashKey sample_addr, ke_name = js ''v'', ke_enabled = None,
     ke_maxReceiptsPerDay = None, ke_maxBytesPerDay = None, ke_maxConcurrentUploads = None,
     ke_validatorId = Some sample_addr, ke_boundValidatorAura = None\<rparr>"

text \<open>The key file names the hash of an address as a key, and the address has a faucet drip.\<close>

definition sample_ops :: "registry_op list" where
  "sample_ops = [ReplaceKeysFile (KeysFile [guessable_entry]), LoadKeys None,
     FaucetDrip (sample_random 0) (js ''t'') sample_addr no_identity]"

theorem keys_never_guessable_witness:
  "let s = fold (registry_step polkadot_sample (\<lambda>j. Some (Some j))) sample_ops empty_registry
   in map validator_id (api_keys (rs_quota s)) = [Some sample_addr] \<and> guessable (rs_quota s) = []"
proof -
  define s where "s = fold (registry_step polkadot_sample (\<lambda>j. Some (Some j))) sample_ops empty_registry"
  have derived: "isAddressDerived (hashKey sample_addr) (Some sample_addr)"
    by (simp add: isAddressDerived_def sample_addr_def js_eval)
  have vids: "map validator_id (api_keys (rs_quota s)) = [Some sample_addr]"
    by (simp add: s_def sample_ops_def empty_registry_def empty_quota_db_def on_quota_def loadKeys_def Let_def
        guessable_entry_def derived registerOperator_def recordFaucetRegistration_def ensureFaucetApiKey_def
        sql_insert_def new_key_row_def)
  have drawn: "(\<Union>op \<in> set sample_ops. drawn_hashes op) = {sample_random 0}" "(\<Union>op \<in> set sample_ops. drawn_keys op) = {}"
    by (simp_all add: sample_ops_def)
  have "\<not> by_chance {sample_random 0} {} sample_addr"
  proof
    assume "by_chance {sample_random 0} {} sample_addr"
    then have "sample_random 0 = sha256 (utf8_encode sample_addr)" by (simp add: by_chance_def)
    then have "unguessableKeyHash (sample_random 0) = hashKey sample_addr"
      by (simp add: unguessableKeyHash_def hashKey_def sha256_hex_def)
    with sample_random_fresh show False by blast
  qed
  moreover have "\<forall>r \<in> set (guessable (rs_quota s)). \<exists>v. validator_id r = Some v \<and> by_chance {sample_random 0} {} v"
    using keys_never_guessable [OF _ _ _ s_def refl refl, unfolded drawn]
    by (simp add: empty_registry_def empty_quota_db_def unique_key_def guessable_def guessable_registrations_def)
  moreover have "validator_id r = Some sample_addr" if "r \<in> set (guessable (rs_quota s))" for r
    using that vids by (auto simp: guessable_set)
  ultimately have "guessable (rs_quota s) = []" by (metis list.set_intros(1) neq_Nil_conv option.inject)
  with vids show ?thesis by (simp add: s_def [symmetric])
qed

end
