(* ===== verification/BlobRuns.thy ===== *)
theory BlobRuns
  imports BlobRoutes
begin

text \<open>
  Uploads whose steps interleave.  A request is where it awaits: after its checks, between the
  writes of a file, before the count, before the mark.  \<open>blob_run\<close> lets any request take its
  next step at any time, between cleanups, removals of directories and other requests.
\<close>

section \<open>Requests under way\<close>

text \<open>
  A chunk request has read the manifest, passed its checks, written \<open>n\<close> octets, written all, knows
  how many chunks there should be, is about to write \<open>.complete\<close>, or has saved its chunk.
\<close>

datatype blob_pending =
    PostChecked post_pending
  | PostWriting post_pending
  | PutReading jsstring json
  | PutChecked put_pending
  | PutWriting put_pending nat
  | PutWritten put_pending
  | PutCounting put_pending nat
  | PutMarking put_pending
  | PutSaved put_pending

definition up_dir :: "put_pending \<Rightarrow> jsstring" where
  "up_dir p = stripHexPrefix_storage (up_hash p)"

definition up_file :: "put_pending \<Rightarrow> nat" where
  "up_file p = nat (up_index p)"

fun pending_dir :: "blob_pending \<Rightarrow> jsstring" where
  "pending_dir (PostChecked p) = stripHexPrefix_storage (pp_hash p)"
| "pending_dir (PostWriting p) = stripHexPrefix_storage (pp_hash p)"
| "pending_dir (PutReading h m) = stripHexPrefix_storage h"
| "pending_dir (PutChecked p) = up_dir p"
| "pending_dir (PutWriting p n) = up_dir p"
| "pending_dir (PutWritten p) = up_dir p"
| "pending_dir (PutCounting p k) = up_dir p"
| "pending_dir (PutMarking p) = up_dir p"
| "pending_dir (PutSaved p) = up_dir p"

fun is_writing :: "blob_pending \<Rightarrow> bool" where
  "is_writing (PutWriting p n) = True"
| "is_writing _ = False"

section \<open>What a run has seen\<close>

text \<open>
  The manifests admitted, as stored, and the chunks accepted, with their directories; the
  directories a removal is at work on; and the directories in which a write of a chunk stopped
  half-way, or which were removed while a request for them was under way.
\<close>

record blob_trace =
  tr_admitted :: "(jsstring \<times> json) list"
  tr_accepted :: "(jsstring \<times> nat \<times> bytes) list"
  tr_removing :: "jsstring set"
  tr_spoiled :: "jsstring set"

definition no_trace :: blob_trace where
  "no_trace = \<lparr>tr_admitted = [], tr_accepted = [], tr_removing = {}, tr_spoiled = {}\<rparr>"

definition admitted_as :: "post_pending \<Rightarrow> jsstring \<times> json" where
  "admitted_as p = (stripHexPrefix_storage (pp_hash p), json_reparse (pp_manifest p))"

definition note_admitted :: "post_pending \<Rightarrow> blob_trace \<Rightarrow> blob_trace" where
  "note_admitted p T = T\<lparr>tr_admitted := admitted_as p # tr_admitted T\<rparr>"

definition note_accepted :: "put_pending \<Rightarrow> blob_trace \<Rightarrow> blob_trace" where
  "note_accepted p T = T\<lparr>tr_accepted := (up_dir p, up_file p, up_data p) # tr_accepted T\<rparr>"

definition note_spoiled :: "jsstring set \<Rightarrow> blob_trace \<Rightarrow> blob_trace" where
  "note_spoiled D T = T\<lparr>tr_spoiled := D \<union> tr_spoiled T\<rparr>"

definition note_removing :: "jsstring set \<Rightarrow> blob_trace \<Rightarrow> blob_trace" where
  "note_removing D T = T\<lparr>tr_removing := D\<rparr>"

text \<open>The directories a step took away.\<close>

definition gone :: "blob_fs \<Rightarrow> blob_fs \<Rightarrow> jsstring set" where
  "gone fs fs' = {d. receipts fs d \<noteq> None \<and> receipts fs' d = None}"

section \<open>Runs\<close>

text \<open>
  While a manifest is being written the file is short or empty, which reads as no manifest.  Other
  routes store manifests for hashes of their own choosing (\<open>post_elsewhere\<close>).  The checks of a
  chunk request go on with the manifest it read first.  A request may stop at any point, refused,
  failed or cut off.  Removing a directory takes its files away one by one.
\<close>

definition open_manifest :: "jsstring \<Rightarrow> blob_fs \<Rightarrow> blob_fs" where
  "open_manifest d fs = put_dir d ((dir_of d fs)\<lparr>manifest_json := None\<rparr>) fs"

definition with_manifest :: "jsstring \<Rightarrow> json \<Rightarrow> blob_fs \<Rightarrow> blob_fs" where
  "with_manifest h m fs =
     put_dir (stripHexPrefix_storage h) ((dir_of (stripHexPrefix_storage h) fs)\<lparr>manifest_json := Some m\<rparr>) fs"

definition on_fs :: "(blob_fs \<Rightarrow> blob_fs) \<Rightarrow> blob_server \<Rightarrow> blob_server" where
  "on_fs f s = s\<lparr>s_fs := f (s_fs s)\<rparr>"

definition partly_removed :: "receipt_dir \<Rightarrow> receipt_dir \<Rightarrow> bool" where
  "partly_removed r r' \<longleftrightarrow>
     (manifest_json r' = None \<or> manifest_json r' = manifest_json r) \<and> set (chunk_files r') \<subseteq> set (chunk_files r)"

definition replace1 :: "'a \<Rightarrow> 'a \<Rightarrow> 'a list \<Rightarrow> 'a list" where
  "replace1 x y xs = y # remove1 x xs"

inductive blob_run :: "blob_env \<Rightarrow> blob_trace \<Rightarrow> blob_server \<times> blob_pending list \<Rightarrow> bool"
  for env where
  start: "s_fs s = \<lparr>receipts = Map.empty, receipt_index = Map.empty, daemon_log = []\<rparr> \<Longrightarrow> blob_run env no_trace (s, [])"
| post: "blob_run env T (s, ps) \<Longrightarrow> postManifest env mo req h manifest s = (Inr p, s')
    \<Longrightarrow> blob_run env (note_admitted p T) (s', PostChecked p # ps)"
| post_elsewhere: "blob_run env T (s, ps) \<Longrightarrow> isHexId (pp_hash p)
    \<Longrightarrow> blob_run env (note_admitted p T) (s, PostChecked p # ps)"
| open_post: "blob_run env T (s, ps) \<Longrightarrow> PostChecked p \<in> set ps
    \<Longrightarrow> blob_run env T (on_fs (open_manifest (stripHexPrefix_storage (pp_hash p))) s, replace1 (PostChecked p) (PostWriting p) ps)"
| commit_post: "blob_run env T (s, ps) \<Longrightarrow> PostWriting p \<in> set ps \<Longrightarrow> commitManifest now p s = (reply, s')
    \<Longrightarrow> blob_run env T (s', remove1 (PostWriting p) ps)"
| read_manifest: "blob_run env T (s, ps) \<Longrightarrow> getManifest h (s_fs s) = Inr (Some m)
    \<Longrightarrow> blob_run env T (s, PutReading h m # ps)"
| put_chunk: "blob_run env T (s, ps) \<Longrightarrow> PutReading h m \<in> set ps
    \<Longrightarrow> putChunk env mo req h i contentLength (on_fs (with_manifest h m) s) = (Inr p, s')
    \<Longrightarrow> blob_run env (note_accepted p T) (s'\<lparr>s_fs := s_fs s\<rparr>, replace1 (PutReading h m) (PutChecked p) ps)"
| open_put: "blob_run env T (s, ps) \<Longrightarrow> PutChecked p \<in> set ps
    \<Longrightarrow> blob_run env T (on_fs (open_chunk (up_dir p) (up_file p)) s, replace1 (PutChecked p) (PutWriting p 0) ps)"
| write_put: "blob_run env T (s, ps) \<Longrightarrow> PutWriting p n \<in> set ps \<Longrightarrow> n < k \<Longrightarrow> k \<le> length (up_data p)
    \<Longrightarrow> blob_run env T (on_fs (write_chunk (up_dir p) (up_file p) n (take (k - n) (drop n (up_data p)))) s,
          replace1 (PutWriting p n) (PutWriting p k) ps)"
| wrote_put: "blob_run env T (s, ps) \<Longrightarrow> PutWriting p (length (up_data p)) \<in> set ps
    \<Longrightarrow> blob_run env T (s, replace1 (PutWriting p (length (up_data p))) (PutWritten p) ps)"
| read_put: "blob_run env T (s, ps) \<Longrightarrow> PutWritten p \<in> set ps
    \<Longrightarrow> blob_run env T (s, replace1 (PutWritten p)
          (case expected_chunks (up_dir p) (s_fs s) of None \<Rightarrow> PutSaved p | Some k \<Rightarrow> PutCounting p k) ps)"
| count_put: "blob_run env T (s, ps) \<Longrightarrow> PutCounting p k \<in> set ps
    \<Longrightarrow> blob_run env T (s, replace1 (PutCounting p k)
          (if k \<le> countUploadedChunks (dir_of (up_dir p) (s_fs s)) then PutMarking p else PutSaved p) ps)"
| mark_put: "blob_run env T (s, ps) \<Longrightarrow> PutMarking p \<in> set ps \<Longrightarrow> receipts (s_fs s) (up_dir p) \<noteq> None
    \<Longrightarrow> blob_run env T (on_fs (mark_complete (up_hash p) (up_dir p)) s, replace1 (PutMarking p) (PutSaved p) ps)"
| finish_put: "blob_run env T (s, ps) \<Longrightarrow> PutSaved p \<in> set ps \<Longrightarrow> finishChunk env now p s = (reply, s')
    \<Longrightarrow> blob_run env T (s', remove1 (PutSaved p) ps)"
| stop: "blob_run env T (s, ps) \<Longrightarrow> x \<in> set ps
    \<Longrightarrow> blob_run env (note_spoiled (if is_writing x then {pending_dir x} else {}) T) (s, remove1 x ps)"
| certify: "blob_run env T (s, ps) \<Longrightarrow> patchCertified env mo req h s = (reply, s') \<Longrightarrow> blob_run env T (s', ps)"
| raw: "blob_run env T (s, ps) \<Longrightarrow> saveRawBytes h b (s_fs s) = Inr fs \<Longrightarrow> blob_run env T (s\<lparr>s_fs := fs\<rparr>, ps)"
| cleanup: "blob_run env T (s, ps) \<Longrightarrow> fs = runCleanup cfg now chain order entries entries' (s_fs s)
    \<Longrightarrow> blob_run env (note_spoiled (gone (s_fs s) fs \<inter> pending_dir ` set ps) T) (s\<lparr>s_fs := fs\<rparr>, ps)"
| remove_part: "blob_run env T (s, ps) \<Longrightarrow> partly_removed (dir_of d (s_fs s)) r
    \<Longrightarrow> blob_run env (note_spoiled ({d} \<inter> pending_dir ` set ps) (note_removing (insert d (tr_removing T)) T))
          (on_fs (put_dir d r) s, ps)"
| remove_end: "blob_run env T (s, ps) \<Longrightarrow> d \<in> tr_removing T
    \<Longrightarrow> blob_run env (note_spoiled ({d} \<inter> pending_dir ` set ps) (note_removing (tr_removing T - {d}) T))
          (on_fs (deleteReceipt order d) s, ps)"
| databases: "blob_run env T (s, ps) \<Longrightarrow> blob_run env T (s\<lparr>s_tokens := t, s_quota := q\<rparr>, ps)"

section \<open>What the steps do to a directory\<close>









lemma chunk_step_manifest [simp]:
  "manifest_json (dir_of e (open_chunk d i fs)) = manifest_json (dir_of e fs)"
  "manifest_json (dir_of e (write_chunk d i off piece fs)) = manifest_json (dir_of e fs)"
  "manifest_json (dir_of e (mark_complete h d fs)) = manifest_json (dir_of e fs)"
  by (simp_all add: open_chunk_def write_chunk_def mark_complete_def split: option.split)

text \<open>The cleanup takes a directory away or leaves what makes its upload.\<close>

definition stays :: "jsstring \<Rightarrow> blob_fs \<Rightarrow> blob_fs \<Rightarrow> bool" where
  "stays d fs fs' \<longleftrightarrow> receipts fs' d = None
     \<or> receipts fs d \<noteq> None \<and> receipts fs' d \<noteq> None \<and> upload_files (dir_of d fs') = upload_files (dir_of d fs)"


lemma stays_refl [simp]: "stays d fs fs"
  by (auto simp: stays_def)


lemma stays_delete [simp]: "stays d fs (deleteReceipt order e fs)"
  by (auto simp: stays_def deleteReceipt_def dir_of_def)





text \<open>A chunk request that nothing interrupts does what \<open>commitChunk\<close> says.\<close>

lemma replace1_head [simp]: "replace1 x y (x # xs) = y # xs"
  by (simp add: replace1_def)

lemma put_alone:
  assumes "blob_run env T (s, PutChecked p # ps)" "isHexId (up_hash p)" "up_data p \<noteq> []"
    and "commitChunk env now p s = (reply, s')"
  shows "blob_run env T (s', ps)"
proof -
  let ?d = "up_dir p"
  let ?f1 = "write_chunk ?d (up_file p) 0 (up_data p) (open_chunk ?d (up_file p) (s_fs s))"
  let ?s1 = "s\<lparr>s_fs := ?f1\<rparr>"
  have d: "hexId (up_hash p) = Inr ?d" using assms(2) by (simp add: hexId_def up_dir_def)
  have r: "blob_run env T (?s1, PutWritten p # ps)"
  proof -
    have "blob_run env T (on_fs (open_chunk ?d (up_file p)) s, PutWriting p 0 # ps)"
      using blob_run.open_put [OF assms(1), of p] by simp
    from blob_run.write_put [OF this, of p 0 "length (up_data p)"]
    have "blob_run env T (?s1, PutWriting p (length (up_data p)) # ps)" using assms(3) by (simp add: on_fs_def)
    from blob_run.wrote_put [OF this, of p] show ?thesis by simp
  qed
  have "blob_run env T (s\<lparr>s_fs := fs\<rparr>, PutSaved p # ps)"
    if sv: "saveChunk (up_hash p) (up_file p) (up_data p) (s_fs s) = Inr fs" for fs
  proof (cases "expected_chunks ?d ?f1")
    case None
    then have "fs = ?f1" using sv None by (simp add: saveChunk_def d Let_def)
    then show ?thesis using blob_run.read_put [OF r, of p] None by simp
  next
    case (Some k)
    then have c: "blob_run env T (?s1, PutCounting p k # ps)" using blob_run.read_put [OF r, of p] by simp
    let ?b = "k \<le> countUploadedChunks (dir_of ?d ?f1)"
    have fs: "fs = (if ?b then mark_complete (up_hash p) ?d ?f1 else ?f1)" using sv Some by (auto simp: saveChunk_def d Let_def)
    have "blob_run env T (?s1, (if ?b then PutMarking p else PutSaved p) # ps)"
      using blob_run.count_put [OF c, of p k] by simp
    moreover have "receipts ?f1 ?d \<noteq> None"
      by (simp add: write_chunk_open put_dir_def)
    ultimately show ?thesis
      using blob_run.mark_put [of env T ?s1 "PutMarking p # ps" p] fs by (cases ?b) (simp_all add: on_fs_def)
  qed
  moreover obtain fs where "saveChunk (up_hash p) (up_file p) (up_data p) (s_fs s) = Inr fs"
    by (simp add: saveChunk_def d Let_def)
  ultimately have "blob_run env T (s\<lparr>s_fs := fs\<rparr>, PutSaved p # ps)" "finishChunk env now p (s\<lparr>s_fs := fs\<rparr>) = (reply, s')"
    using assms(4) by (simp_all add: commitChunk_def up_file_def)
  from blob_run.finish_put [OF this(1) _ this(2)] show ?thesis by simp
qed

section \<open>A file that several requests write\<close>

text \<open>
  The octets of \<open>X\<close> that a file lacks are ahead of some request that is still writing \<open>X\<close> to it;
  \<open>A\<close> holds how far each has come.
\<close>

definition catching_up :: "bytes \<Rightarrow> bytes \<Rightarrow> nat set \<Rightarrow> bool" where
  "catching_up X c A \<longleftrightarrow> length c \<le> length X
     \<and> (\<forall>q < length X. q < length c \<and> c ! q = X ! q \<or> (\<exists>n \<in> A. n \<le> q))"


lemma catching_up_mono: "catching_up X c A \<Longrightarrow> A \<subseteq> A' \<Longrightarrow> catching_up X c A'"
  unfolding catching_up_def by blast






section \<open>The requests writing a file\<close>

fun writer :: "jsstring \<Rightarrow> nat \<Rightarrow> blob_pending \<Rightarrow> nat set" where
  "writer d i (PutWriting p n) = (if up_dir p = d \<and> up_file p = i then {n} else {})"
| "writer d i _ = {}"

definition writers :: "jsstring \<Rightarrow> nat \<Rightarrow> blob_pending list \<Rightarrow> nat set" where
  "writers d i ps = (\<Union>x \<in> set ps. writer d i x)"




lemma writers_Cons [simp]: "writers d i (x # ps) = writer d i x \<union> writers d i ps"
  by (simp add: writers_def)




section \<open>The invariant\<close>

definition collides :: "blob_trace \<Rightarrow> jsstring \<Rightarrow> nat \<Rightarrow> bool" where
  "collides T d i \<longleftrightarrow>
     (\<exists>X Y. (d, i, X) \<in> set (tr_accepted T) \<and> (d, i, Y) \<in> set (tr_accepted T) \<and> sha_collision X Y)"

text \<open>A chunk without a stated digest accepts anything; otherwise all accepted texts are one.\<close>

definition file_ok :: "blob_trace \<Rightarrow> jsstring \<Rightarrow> json \<Rightarrow> nat \<Rightarrow> nat set \<Rightarrow> bytes \<Rightarrow> bool" where
  "file_ok T d c i A content \<longleftrightarrow> collides T d i \<or> (\<forall>z. check_sha256 c z = Inr ())
     \<or> (\<exists>X. (d, i, X) \<in> set (tr_accepted T) \<and> (\<forall>Y. (d, i, Y) \<in> set (tr_accepted T) \<longrightarrow> Y = X)
          \<and> catching_up X content A)"











lemma file_ok_mono: "file_ok T d c i A content \<Longrightarrow> A \<subseteq> A' \<Longrightarrow> file_ok T d c i A' content"
  unfolding file_ok_def using catching_up_mono by blast













section \<open>Every step keeps it\<close>




lemma on_fs_fs [simp]: "s_fs (on_fs f s) = f (s_fs s)"
  by (simp add: on_fs_def)

lemma note_simps [simp]:
  "tr_accepted (note_admitted p T) = tr_accepted T" "tr_removing (note_admitted p T) = tr_removing T"
  "tr_spoiled (note_admitted p T) = tr_spoiled T" "tr_admitted (note_admitted p T) = admitted_as p # tr_admitted T"
  "tr_accepted (note_accepted q T) = (up_dir q, up_file q, up_data q) # tr_accepted T"
  "tr_removing (note_accepted q T) = tr_removing T"
  "tr_spoiled (note_accepted q T) = tr_spoiled T" "tr_admitted (note_accepted q T) = tr_admitted T"
  "tr_accepted (note_spoiled D T) = tr_accepted T" "tr_removing (note_spoiled D T) = tr_removing T"
  "tr_spoiled (note_spoiled D T) = D \<union> tr_spoiled T" "tr_admitted (note_spoiled D T) = tr_admitted T"
  "tr_accepted (note_removing D T) = tr_accepted T" "tr_removing (note_removing D T) = D"
  "tr_spoiled (note_removing D T) = tr_spoiled T" "tr_admitted (note_removing D T) = tr_admitted T"
  by (simp_all add: note_admitted_def note_accepted_def note_spoiled_def note_removing_def)





















section \<open>Integrity of an upload\<close>




section \<open>Two uploads of one chunk\<close>

definition sample_trace :: "bytes \<Rightarrow> blob_trace" where
  "sample_trace data =
     note_accepted (sample_put data) (note_accepted (sample_put data) (note_admitted (sample_post data) no_trace))"

lemma sample_fs [simp]: "s_fs (sample_server q fs) = fs" "on_fs f (sample_server q fs) = sample_server q (f fs)"
    "(sample_server q fs)\<lparr>s_fs := fs'\<rparr> = sample_server q fs'"
  by (simp_all add: sample_server_def on_fs_def)

lemma sample_up [simp]: "up_dir (sample_put data) = sample_hash" "up_file (sample_put data) = 0"
    "up_data (sample_put data) = data" "up_hash (sample_put data) = sample_hash"
  using sample_hash_hex by (simp_all add: sample_put_def up_dir_def up_file_def)

text \<open>The manifest is posted with an API key; two requests without credentials then pass the checks of
  the same chunk before either has written it.\<close>

lemma sample_both_checked:
  assumes "data \<noteq> []"
  shows "\<exists>q fs. blob_run sample_env (sample_trace data)
      (sample_server q fs, [PutChecked (sample_put data), PutChecked (sample_put data)])
    \<and> upload_files (dir_of sample_hash fs) = (Some (sample_manifest data), [], False)"
proof -
  let ?m = "sample_manifest data" and ?T = "note_admitted (sample_post data) no_trace" and ?p = "sample_put data"
  obtain q where p: "postManifest sample_env sample_moment no_creds_req sample_hash ?m (sample_server keyed_db empty_fs)
      = (Inr (sample_post data), sample_server q empty_fs)"
    using sample_posted by blast
  let ?f0 = "open_manifest sample_hash empty_fs"
  have "upload_files (dir_of sample_hash ?f0) = (None, [], False)"
    by (simp add: open_manifest_def empty_files)
  then obtain fs where c: "commitManifest 1200000 (sample_post data) (sample_server q ?f0) = (ManifestCreated, sample_server q fs)"
    and f: "upload_files (dir_of sample_hash fs) = (Some ?m, [], False)"
    using sample_committed by blast
  have "blob_run sample_env ?T (sample_server q empty_fs, [PostChecked (sample_post data)])"
    using blob_run.post [OF blob_run.start p] by (simp add: sample_server_def empty_fs_def)
  from blob_run.open_post [OF this, of "sample_post data"]
  have "blob_run sample_env ?T (sample_server q ?f0, [PostWriting (sample_post data)])"
    using sample_hash_hex by (simp add: sample_post_def)
  from blob_run.commit_post [OF this _ c] have r: "blob_run sample_env ?T (sample_server q fs, [])" by simp
  have g: "getManifest sample_hash (s_fs (sample_server q fs)) = Inr (Some ?m)"
    using f sample_hash_hex by (simp add: getManifest_dir upload_files_def)
  let ?g = "with_manifest sample_hash ?m fs"
  have "upload_files (dir_of sample_hash ?g) = (Some ?m, [], False)"
    using f sample_hash_hex by (simp add: with_manifest_def)
  then have u: "putChunk sample_env sample_moment (plain_put data) sample_hash (js ''0'') None
      (on_fs (with_manifest sample_hash ?m) (sample_server q fs)) = (Inr ?p, sample_server q ?g)"
    using sample_put_ok assms by simp
  from blob_run.read_manifest [OF blob_run.read_manifest [OF r g] g]
  have "blob_run sample_env ?T (sample_server q fs, [PutReading sample_hash ?m, PutReading sample_hash ?m])" .
  from blob_run.put_chunk [OF this _ u]
  have "blob_run sample_env (note_accepted ?p ?T) (sample_server q fs, [PutChecked ?p, PutReading sample_hash ?m])" by simp
  from blob_run.put_chunk [OF this _ u]
  have "blob_run sample_env (sample_trace data) (sample_server q fs, [PutChecked ?p, PutChecked ?p])"
    by (simp add: sample_trace_def replace1_def)
  with f show ?thesis by blast
qed

lemma sample_opened:
  assumes "blob_run sample_env T (sample_server q fs, PutChecked (sample_put data) # ps)"
    and "upload_files (dir_of sample_hash fs) = (Some m, files, flag)" "files = [] \<or> files = [(0, data)]"
  shows "\<exists>fs'. blob_run sample_env T (sample_server q fs', PutWriting (sample_put data) 0 # ps)
    \<and> upload_files (dir_of sample_hash fs') = (Some m, [(0, [])], flag)"
proof -
  have "manifest_json (dir_of sample_hash fs) = Some m" "chunk_files (dir_of sample_hash fs) = files"
    "complete_flag (dir_of sample_hash fs) = flag" using assms(2) by (simp_all add: upload_files_def)
  then have "upload_files (dir_of sample_hash (open_chunk sample_hash 0 fs)) = (Some m, [(0, [])], flag)"
    using assms(3) by auto
  with blob_run.open_put [OF assms(1), of "sample_put data"] show ?thesis by auto
qed

lemma sample_saved:
  assumes "blob_run sample_env T (sample_server q fs, PutWriting (sample_put data) 0 # ps)"
    and "upload_files (dir_of sample_hash fs) = (Some (sample_manifest data), [(0, [])], flag)" "data \<noteq> []"
  shows "\<exists>fs'. blob_run sample_env T (sample_server q fs', ps)
    \<and> upload_files (dir_of sample_hash fs') = (Some (sample_manifest data), [(0, data)], True)"
proof -
  let ?p = "sample_put data" and ?m = "sample_manifest data"
  let ?f1 = "write_chunk sample_hash 0 0 data fs"
  let ?f2 = "mark_complete sample_hash sample_hash ?f1"
  have "manifest_json (dir_of sample_hash fs) = Some ?m" "chunk_files (dir_of sample_hash fs) = [(0, [])]"
    "complete_flag (dir_of sample_hash fs) = flag" using assms(2) by (simp_all add: upload_files_def)
  then have u1: "upload_files (dir_of sample_hash ?f1) = (Some ?m, [(0, data)], flag)" by (simp add: write_at_def)
  have "manifest_json (dir_of sample_hash ?f1) = Some ?m" "chunk_files (dir_of sample_hash ?f1) = [(0, data)]"
    using u1 unfolding upload_files_def by simp_all
  then have u2: "upload_files (dir_of sample_hash ?f2) = (Some ?m, [(0, data)], True)" by simp
  have there: "receipts ?f1 sample_hash \<noteq> None"
    using u1 by (cases "receipts ?f1 sample_hash") (simp_all add: dir_of_def new_dir_def upload_files_def)
  have "blob_run sample_env T (sample_server q ?f1, PutWriting ?p (length data) # ps)"
    using blob_run.write_put [OF assms(1), of ?p 0 "length data"] assms(3) by simp
  from blob_run.wrote_put [OF this, of ?p]
  have "blob_run sample_env T (sample_server q ?f1, PutWritten ?p # ps)" by simp
  moreover have "expected_chunks sample_hash ?f1 = Some 1"
    using u1 sample_chunks [of data] by (simp add: expected_chunks_def upload_files_def)
  ultimately have "blob_run sample_env T (sample_server q ?f1, PutCounting ?p 1 # ps)"
    using blob_run.read_put [of sample_env T "sample_server q ?f1" "PutWritten ?p # ps" ?p] by simp
  from blob_run.count_put [OF this, of ?p 1]
  have "blob_run sample_env T (sample_server q ?f1, PutMarking ?p # ps)"
    using u1 by (simp add: countUploadedChunks_def upload_files_def)
  from blob_run.mark_put [OF this, of ?p]
  have s: "blob_run sample_env T (sample_server q ?f2, PutSaved ?p # ps)" using there by simp
  obtain reply s' where fin: "finishChunk sample_env 0 ?p (sample_server q ?f2) = (reply, s')" by fastforce
  then have "s' = sample_server q ?f2"
    by (auto simp: finishChunk_def sample_put_def sample_server_def finalize_quota_def hand_off_def Let_def
        split: sum.splits if_splits)
  with blob_run.finish_put [OF s _ fin] u2 show ?thesis by auto
qed

text \<open>
  One request has finished and the upload is marked complete; the other opens the file and
  truncates it.  The status says complete and the chunk is empty, until the write is done; and
  for good if the request stops there, since no request may write the chunk again.
\<close>

theorem complete_while_truncated:
  "\<exists>T s p. blob_run sample_env T (s, [PutWriting p 0]) \<and> up_data p = [1] \<and> blob_run sample_env (note_spoiled {sample_hash} T) (s, [])
     \<and> (\<exists>st. getStatus sample_hash (s_fs s) = Inr st \<and> st_complete st)
     \<and> getChunk sample_hash 0 (s_fs s) = Inr (Some [])
     \<and> put_admit (env_blob sample_env) sample_hash (js ''0'') None [1] (s_fs s) = Inl (AlreadyExists 0)"
proof -
  let ?p = "sample_put [1]" and ?T = "sample_trace [1]" and ?m = "sample_manifest [1]"
  obtain q fs0 where r0: "blob_run sample_env ?T (sample_server q fs0, [PutChecked ?p, PutChecked ?p])"
    and u0: "upload_files (dir_of sample_hash fs0) = (Some ?m, [], False)" using sample_both_checked [of "[1]"] by auto
  obtain fs1 where r1: "blob_run sample_env ?T (sample_server q fs1, [PutWriting ?p 0, PutChecked ?p])"
    and u1: "upload_files (dir_of sample_hash fs1) = (Some ?m, [(0, [])], False)" using sample_opened [OF r0 u0] by auto
  obtain fs2 where r2: "blob_run sample_env ?T (sample_server q fs2, [PutChecked ?p])"
    and u2: "upload_files (dir_of sample_hash fs2) = (Some ?m, [(0, [1])], True)" using sample_saved [OF r1 u1] by auto
  obtain fs where r: "blob_run sample_env ?T (sample_server q fs, [PutWriting ?p 0])"
    and u: "upload_files (dir_of sample_hash fs) = (Some ?m, [(0, [])], True)" using sample_opened [OF r2 u2] by auto
  have dead: "blob_run sample_env (note_spoiled {sample_hash} ?T) (sample_server q fs, [])"
    using blob_run.stop [OF r, of "PutWriting ?p 0"] by simp
  have st: "getStatus sample_hash fs = Inr \<lparr>st_exists = True, st_complete = True, st_chunkCount = 1, st_chunksUploaded = 1\<rparr>"
    using u sample_hash_hex by (simp add: getStatus_def hexId_def Let_def upload_files_def sample_chunks countUploadedChunks_def)
  have ch: "getChunk sample_hash 0 fs = Inr (Some [])"
    using u sample_hash_hex by (simp add: getChunk_def hexId_def upload_files_def)
  have "parseInt10 (js ''0'') = Some 0" by (simp add: parseInt10_def js_eval is_js_space_def is_digit_u16_def)
  moreover have "getManifest sample_hash fs = Inr (Some ?m)" using u sample_hash_hex by (simp add: getManifest_dir upload_files_def)
  ultimately have "put_admit (env_blob sample_env) sample_hash (js ''0'') None [1] fs = Inl (AlreadyExists 0)"
    using ch sample_chunks [of "[1]"] by (simp add: put_admit_def)
  with r dead st ch show ?thesis by (intro exI [of _ ?T] exI [of _ "sample_server q fs"] exI [of _ ?p]) simp
qed


end
