(* ===== verification/Spec2Isabelle.thy ===== *)
theory Spec2Isabelle
  imports MeteringRoute Auth BlobRoutes Multisig EvidenceStore Billing402 BatchStore Operators BlobRuns
begin

text \<open>
  Materios gateway: a verification library of its core logic (\<open>src/src\<close>, TypeScript on Node).

  The gateway sits between operators and the Materios chain.  It authenticates operators,
  stores uploaded blobs under quotas, accepts signed usage records of workers, bills from them
  and answers queries.  Its state lives in SQLite tables and files; every handler is a sequence
  of synchronous sections separated by awaited file or network operations.

  \<^bold>\<open>Substrate.\<close>
  \<open>Prelude\<close>: errors as sums (\<open>and_then\<close>), stable sorting by a comparator, and SQL statements on
  lists of rows in rowid order with their laws.
  \<open>JsStrings\<close>: JavaScript strings as lists of 16-bit code units, UTF-8, regular-expression
  classes.  \<open>JsNumber\<close>: binary64 numbers with exact rounding of the four operations,
  comparison, integrality.  \<open>JsValue\<close>: parsed JSON as a datatype, property lookup.
  \<open>Sha256\<close>: SHA-256 on octets, executable; the theorems that speak of collisions name the two
  colliding texts and assume nothing about the function.
  \<open>Polkadot\<close>: the functions of \<open>@polkadot/util\<close> and \<open>@polkadot/util-crypto\<close> the code calls are not
  in the repository and are the parameter \<open>P\<close>; what a theorem needs of them is a named
  hypothesis (\<open>hexToU8a_documented\<close>, \<open>ss58_documented\<close>, \<open>ss58_short\<close>) with an instance.

  \<^bold>\<open>Metering.\<close>
  \<open>CanonicalCbor\<close> (\<open>schemas/compute_metering_v2.ts\<close>, the encoder): round trip, canonicity, prefix
  freedom and the exact error cases.  \<open>EvidencePayload\<close> (same file, device evidence): nonces and evidence hashes bind what they hash.
  \<open>MeteringV2\<close>, \<open>MeteringV1\<close> (the two schema files): validation field by field in the code's order
  of checks, canonical bodies and content hashes; acceptance is sound and, for version 2,
  complete for the rules the schema states, content hashes bind every signed field, and no
  signed text of one kind can be read as another.
  \<open>Registries\<close> (\<open>fleet_operators.ts\<close>, \<open>observers.ts\<close>, \<open>attestation_evidence_attestors.ts\<close>): a locale for
  a registry whose revocations are final, interpreted on all three, and their refinement of a
  map from keys to activity.
  \<open>WorkerBounds\<close> (\<open>worker_bounds.ts\<close>): worker limits, last period, billing rows; paging with
  cursors terminates and misses nothing.
  \<open>MeteringRoute\<close> (\<open>routes/metering.ts\<close>, \<open>routes/metering_v2.ts\<close>, \<open>sponsored-receipts.ts\<close>): each handler
  is split where it first awaits into its checks (\<open>meteringSubmit\<close>) and its writes
  (\<open>commitSubmission\<close>); \<open>gw_step\<close> interleaves the two parts of any number of submissions with
  administrative requests, \<open>gw_inv\<close> is its invariant: a billing row passed the checks of its
  version at a state the gateway went through.

  \<^bold>\<open>Uploads.\<close>
  \<open>Quota\<close> (\<open>quota.ts\<close>, upload quotas): locales for capped and for exact counters, interpreted on
  the eight operations.  \<open>ApiKeys\<close> (\<open>quota.ts\<close>, the key table): lookups, key file, retirement of
  guessable keys, bindings, usage.  \<open>Ss58\<close> (\<open>ss58.ts\<close>), \<open>ApiTokens\<close> (\<open>api-tokens.ts\<close>): canonical
  addresses and bearer tokens.  \<open>UploadAuth\<close> (\<open>upload-auth.ts\<close>): upload signatures and a locale for
  a single-use store.  \<open>Auth\<close> (\<open>auth.ts\<close>, \<open>bearer-auth.ts\<close>): which requests are authenticated.
  \<open>Operators\<close> (\<open>routes/operators.ts\<close>, \<open>registerOperator\<close> of \<open>routes/faucet.ts\<close>): invites, registrations
  and the keys they make; \<open>registry_step\<close> is every writer of the key table and the registrations,
  and none makes a key of an account's public address unless random octets happen to.

  \<^bold>\<open>Blobs.\<close>
  \<open>JsText\<close>: the conversions of the language the handlers rely on (truth, \<open>String\<close>, \<open>+\<close>,
  \<open>JSON.stringify\<close>).  \<open>Merkle\<close> (\<open>merkle.ts\<close>): the chunk root, what it determines and what not.
  \<open>BlobStore\<close> (\<open>storage.ts\<close>, receipt directories, and \<open>cleanup.ts\<close>): one run of the cleanup removes
  exactly what it should.  \<open>BlobRoutes\<close> (\<open>routes/blobs.ts\<close>, \<open>routes/chunks.ts\<close>, \<open>routes/id-param.ts\<close>): the
  handlers, split as above into checks and writes; a manifest posted anew keeps the old status.
  \<open>BlobRuns\<close>: a chunk request is cut at each of its awaits (the checks, the opening of the file,
  each write, the two reads, the mark), and \<open>blob_run\<close> interleaves these steps of any number of
  requests with cleanups, removals and other routes.  A complete upload is intact as long as its
  manifest was not posted anew, nothing was cut short, and no chunk is being written, each of
  which the code does not prevent (\<open>complete_while_truncated\<close>).

  \<^bold>\<open>Boards.\<close>
  \<open>TextOrder\<close>: the orders of SQLite and of JavaScript on text.  \<open>Multisig\<close> (\<open>multisig_sigs_store.ts\<close>,
  \<open>routes/multisig_sigs.ts\<close>): every listed signature verifies and stays listed until its expiry.
  \<open>EvidenceStore\<close> (\<open>receipt_attestation_evidence.ts\<close>, \<open>routes/attestation_evidence.ts\<close>,
  \<open>routes/attestation_evidence_submission.ts\<close>): stored evidence is backed by an attestor and a
  content hash, is only added to, hashes the same in any order, and reaches the daemon page by page.

  \<^bold>\<open>Billing.\<close>
  \<open>JsonText\<close>: \<open>JSON.parse\<close> and Base64 as functions on text, \<open>JSON.parse\<close> inverts \<open>JSON.stringify\<close>.
  \<open>Billing\<close> (\<open>billing/aggregate.ts\<close>, \<open>billing/chain_query.ts\<close>, \<open>billing/anchor_resolver.ts\<close>): totals,
  cursors, the chain's answers and the anchors found in two files.  \<open>BillingRoute\<close>
  (\<open>routes/billing.ts\<close>): a token sees its tenant only, totals are those of the listed records, no
  anchor is made up whatever the cache holds, and following the cursors misses nothing.
  \<open>Billing402\<close> (\<open>middleware/billing-402.ts\<close>, \<open>middleware/warn-throttle.ts\<close>): when payment is asked
  for, what the reply reveals, and which requests the classification misses.

  \<^bold>\<open>Batches.\<close>
  \<open>BatchRecord\<close> (\<open>batch-record.ts\<close>): which batch records are accepted under an anchor, Cardano
  claims, and the merge of records; the SDK's hash functions are the argument \<open>batch_sdk\<close>.
  \<open>BatchStore\<close> (\<open>storage.ts\<close>, batch files and tables, and \<open>routes/batches.ts\<close>): \<open>batch_run\<close> is any
  sequence of posts and backfills; what the gateway writes belongs under its anchor, what is
  claimed stays claimed, and only listed writers write.

  \<^bold>\<open>Conventions.\<close>
  The clock is an argument: milliseconds for quotas and submissions, seconds where the code
  stores seconds; one operation reads it once unless the code's two readings matter, as in
  \<open>resolveAuth\<close>, whose awaited balance query separates them.  Randomness is an argument.  A thrown error is a value of a sum type; what
  the code shows of it (status, code, field) is kept, message texts are not.  A database handle
  that was never opened is \<open>None\<close>.  Counters in SQLite are mathematical integers: they start at
  zero and grow by request sizes, so reaching 64 bits is not a reachable concern.  Loops are
  structural recursion, except \<open>decodeCbor\<close>, whose fuel is the length of its input, enough since
  every item takes an octet, and \<open>all_pages\<close>, whose termination is proved.

  \<^bold>\<open>Not modelled.\<close>
  Schema creation and column migrations (set-up SQL), log lines, HTTP framing, and the network
  and file operations themselves.  Outside the chunk requests of \<open>BlobRuns\<close> and the submissions of
  \<open>MeteringRoute\<close>, whose writes may fail or be cut short, a file operation succeeds and one
  function of \<open>storage.ts\<close> is one step; two different manifests written to one file at once, whose
  octets may mix, are left out.  A chunk request without a content type, which the body parser leaves unread and the
  handler answers with an internal error, is left out.  Heartbeats, firehose, explorer, trace, witness, faucet and observation routes are not modelled in this version; the manifest
  lists each with its reason.
\<close>

end
